(* ===== verification/Prelude.thy ===== *)
theory Prelude
  imports Main "HOL-Library.Word" "HOL-Library.Product_Lexorder" "HOL-Library.Option_ord"
begin

text \<open>
  Shared vocabulary of the development: identifiers, times, the outcome of a call that
  leaves the process, the relational vocabulary the SQL statements of the repository are
  translated with, and the generic lemmas about them.

  \<^item> Go strings and byte slices are \<^typ>\<open>string\<close> (a \<^typ>\<open>char\<close> is one byte).
  \<^item> A \<open>uuid.UUID\<close> is a 16-byte array compared bytewise: \<^typ>\<open>128 word\<close>, whose order is
    the order of \<open>bytes.Compare\<close>; \<open>uuid.Nil\<close> is 0.
  \<^item> A PostgreSQL \<open>TIMESTAMPTZ\<close> is an \<^typ>\<open>int\<close>, in microseconds.
  \<^item> A table is the list of its rows; \<open>SELECT ... WHERE key = $1\<close> is \<open>row_of\<close>,
    \<open>UPDATE ... WHERE P\<close> is \<open>sql_update P\<close>.
\<close>

section \<open>Identifiers and time\<close>

type_synonym uuid = "128 word"
type_synonym time = int

definition nil_uuid :: uuid where
  "nil_uuid = 0"

text \<open>
  What the repository uses of \<open>github.com/google/uuid\<close>: the canonical text of an
  identifier, the parser, and version-5 (SHA-1) identifiers. The package is not part of the
  repository, so it is a parameter of every definition that calls it; \<open>uuid_lib_ok\<close> is the
  documented behaviour some properties rely on.
\<close>

record uuid_lib =
  uuid_string :: "uuid \<Rightarrow> string"
  uuid_parse :: "string \<Rightarrow> uuid option"
  uuid_new_sha1 :: "uuid \<Rightarrow> string \<Rightarrow> uuid"

definition uuid_lib_ok :: "uuid_lib \<Rightarrow> bool" where
  "uuid_lib_ok U \<longleftrightarrow> (\<forall>u. uuid_parse U (uuid_string U u) = Some u)"

text \<open>
  A \<open>time.Duration\<close> counts nanoseconds; \<open>Microseconds\<close> and \<open>Milliseconds\<close> divide and
  truncate towards zero.
\<close>

definition quot :: "int \<Rightarrow> int \<Rightarrow> int" where
  "quot a b = sgn a * sgn b * (\<bar>a\<bar> div \<bar>b\<bar>)"

definition microseconds :: "int \<Rightarrow> int" where
  "microseconds d = quot d 1000"

definition milliseconds :: "int \<Rightarrow> int" where
  "milliseconds d = quot d 1000000"

lemma microseconds_nonneg: "0 \<le> d \<Longrightarrow> microseconds d = d div 1000"
  by (cases "d = 0") (simp_all add: microseconds_def quot_def)

lemma milliseconds_nonneg: "0 \<le> d \<Longrightarrow> milliseconds d = d div 1000000"
  by (cases "d = 0") (simp_all add: milliseconds_def quot_def)

lemma milliseconds_pos_iff: "0 < milliseconds d \<longleftrightarrow> 1000000 \<le> d"
proof (cases "0 \<le> d")
  case True
  then show ?thesis
    using pos_imp_zdiv_pos_iff [of 1000000 d] by (simp add: milliseconds_nonneg)
next
  case False
  then have "0 \<le> \<bar>d\<bar> div 1000000" by (simp add: pos_imp_zdiv_nonneg_iff)
  with False show ?thesis
    by (simp add: milliseconds_def quot_def)
qed

section \<open>Calls that leave the process\<close>

text \<open>
  Every call to PostgreSQL, Redis, the container engine or the network can fail. An
  operation takes an oracle that gives the outcome of each of its call sites:
  \<open>IoOk\<close>, the call took effect and returned no error; \<open>IoErr\<close>, it had no effect and
  returned an error; \<open>IoLost\<close>, it took effect although the caller saw an error (the
  connection broke after a \<open>COMMIT\<close> or after a Redis write).
\<close>

datatype io = IoOk | IoErr | IoLost

definition io_applied :: "io \<Rightarrow> bool" where
  "io_applied x \<longleftrightarrow> x \<noteq> IoErr"

lemma io_applied_simps [simp]:
  "io_applied IoOk" "\<not> io_applied IoErr" "io_applied IoLost"
  by (simp_all add: io_applied_def)

text \<open>The database a transaction leaves behind, given the outcome of its \<open>COMMIT\<close>.\<close>

definition commit_db :: "io \<Rightarrow> 'd \<Rightarrow> 'd \<Rightarrow> 'd" where
  "commit_db x before after = (if io_applied x then after else before)"

lemma commit_db_simps [simp]:
  "commit_db IoOk a b = b" "commit_db IoErr a b = a" "commit_db IoLost a b = b"
  by (simp_all add: commit_db_def)

lemma commit_db_same [simp]: "commit_db x a a = a"
  by (simp add: commit_db_def)

lemma commit_db_cases: "(x = IoErr \<Longrightarrow> P a) \<Longrightarrow> (x \<noteq> IoErr \<Longrightarrow> P b) \<Longrightarrow> P (commit_db x a b)"
  by (simp add: commit_db_def io_applied_def)

section \<open>Tables as lists of rows\<close>

named_theorems row_simps \<open>rewriting lookups over updated tables\<close>

definition row_of :: "('r \<Rightarrow> 'k) \<Rightarrow> 'k \<Rightarrow> 'r list \<Rightarrow> 'r option" where
  "row_of key k t = List.find (\<lambda>r. key r = k) t"

definition sql_update :: "('r \<Rightarrow> bool) \<Rightarrow> ('r \<Rightarrow> 'r) \<Rightarrow> 'r list \<Rightarrow> 'r list" where
  "sql_update P f t = map (\<lambda>r. if P r then f r else r) t"

lemma row_of_Nil [simp]: "row_of key k [] = None"
  by (simp add: row_of_def)

lemma row_of_Cons [simp]:
  "row_of key k (r # t) = (if key r = k then Some r else row_of key k t)"
  by (simp add: row_of_def)

lemma row_of_SomeD: "row_of key k t = Some r \<Longrightarrow> r \<in> set t \<and> key r = k"
  by (induction t) (auto split: if_splits)

lemma row_of_in_set: "row_of key k t = Some r \<Longrightarrow> r \<in> set t"
  by (blast dest: row_of_SomeD)

lemma row_of_key: "row_of key k t = Some r \<Longrightarrow> key r = k"
  by (blast dest: row_of_SomeD)

lemma row_of_None_iff: "row_of key k t = None \<longleftrightarrow> (\<forall>r\<in>set t. key r \<noteq> k)"
  by (induction t) auto

lemma row_of_Some_iff:
  assumes "distinct (map key t)"
  shows "row_of key k t = Some r \<longleftrightarrow> r \<in> set t \<and> key r = k"
  using assms by (induction t) (auto simp: image_iff)

lemma row_of_append:
  "row_of key k (t @ t') = (case row_of key k t of Some r \<Rightarrow> Some r | None \<Rightarrow> row_of key k t')"
  by (induction t) auto

lemma row_of_sql_update [row_simps]:
  assumes "\<And>r. key (f r) = key r"
  shows "row_of key k (sql_update P f t) =
    map_option (\<lambda>r. if P r then f r else r) (row_of key k t)"
  using assms by (induction t) (auto simp: sql_update_def)

lemma map_sql_update [row_simps]:
  assumes "\<And>r. key (f r) = key r"
  shows "map key (sql_update P f t) = map key t"
  using assms by (induction t) (auto simp: sql_update_def)

lemma in_sql_update: "r \<in> set (sql_update P f t) \<longleftrightarrow>
    (\<exists>r0\<in>set t. r = (if P r0 then f r0 else r0))"
  by (auto simp: sql_update_def)

lemma ball_sql_update: "(\<forall>r\<in>set (sql_update P f t). Q r) \<longleftrightarrow>
    (\<forall>r\<in>set t. if P r then Q (f r) else Q r)"
  by (auto simp: sql_update_def)

lemma sql_update_noop: "(\<And>r. r \<in> set t \<Longrightarrow> \<not> P r) \<Longrightarrow> sql_update P f t = t"
  by (induction t) (auto simp: sql_update_def)

lemma length_sql_update [simp]: "length (sql_update P f t) = length t"
  by (simp add: sql_update_def)

lemma distinct_key_eq:
  "distinct (map key t) \<Longrightarrow> r \<in> set t \<Longrightarrow> r' \<in> set t \<Longrightarrow> key r = key r' \<Longrightarrow> r = r'"
  by (auto simp: distinct_map inj_on_def)

text \<open>
  \<open>SELECT ... ORDER BY key LIMIT n FOR UPDATE SKIP LOCKED\<close>: the rows another transaction
  holds are skipped before the limit applies.
\<close>

definition sql_select :: "('r \<Rightarrow> bool) \<Rightarrow> ('r \<Rightarrow> bool) \<Rightarrow> ('r \<Rightarrow> 'k::linorder) \<Rightarrow> int \<Rightarrow> 'r list \<Rightarrow> 'r list" where
  "sql_select locked P key n t =
     take (nat n) (sort_key key (filter (\<lambda>r. P r \<and> \<not> locked r) t))"

lemma set_sql_select: "r \<in> set (sql_select locked P key n t) \<Longrightarrow> r \<in> set t \<and> P r \<and> \<not> locked r"
  by (auto simp: sql_select_def dest: in_set_takeD)

lemma length_sql_select: "length (sql_select locked P key n t) \<le> nat n"
  by (simp add: sql_select_def)

lemma sorted_sql_select: "sorted (map key (sql_select locked P key n t))"
  by (simp add: sql_select_def take_map [symmetric])

lemma distinct_map_sql_select:
  assumes "distinct (map g t)"
  shows "distinct (map g (sql_select locked P key n t))"
proof -
  have "distinct (map g (filter (\<lambda>r. P r \<and> \<not> locked r) t))"
    using assms by (rule distinct_map_filter)
  then have "distinct (map g (sort_key key (filter (\<lambda>r. P r \<and> \<not> locked r) t)))"
    by (simp add: distinct_map)
  then show ?thesis
    by (simp add: sql_select_def take_map [symmetric])
qed

text \<open>With room in the batch, a selection returns every row that qualifies.\<close>

lemma sql_select_complete:
  assumes "length (filter (\<lambda>r. P r \<and> \<not> locked r) t) \<le> nat n"
  shows "set (sql_select locked P key n t) = {r \<in> set t. P r \<and> \<not> locked r}"
  using assms by (simp add: sql_select_def)

text \<open>A row left out of a full batch comes no earlier than every row in it.\<close>

lemma sql_select_first:
  assumes "r \<in> set t" "P r" "\<not> locked r" "r \<notin> set (sql_select locked P key n t)"
    and "r' \<in> set (sql_select locked P key n t)"
  shows "key r' \<le> key r"
proof -
  let ?s = "sort_key key (filter (\<lambda>r. P r \<and> \<not> locked r) t)"
  have "r \<in> set (drop (nat n) ?s)"
    using assms(1-4) append_take_drop_id [of "nat n" ?s]
    unfolding sql_select_def
    by (metis (mono_tags, lifting) UnE mem_Collect_eq set_append set_filter set_sort)
  moreover have "sorted (map key (take (nat n) ?s) @ map key (drop (nat n) ?s))"
    by (metis append_take_drop_id map_append sorted_sort_key)
  ultimately show ?thesis
    using assms(5) by (auto simp: sql_select_def sorted_append)
qed

end
