(* ===== verification/Contest.thy ===== *)
theory Contest
  imports Prelude
begin

text \<open>
  What CodeDuel promises its players, without any of its machinery: an abstract contest of
  matches and submissions in which one thing happens at a time. The root theory shows that every
  step of the services, on the database and with every failure they handle, is a sequence of
  contest steps; the invariants of the contest proved here then hold of the system.
\<close>

section \<open>The contest\<close>

text \<open>
  A submission waits for its next attempt, is being judged under a token, or is judged with a
  verdict and the number of tests passed; the first number counts the attempts begun. A
  match is open until it is decided, for a player or for nobody.
\<close>

datatype phase = Pending int | Running int uuid | Done int string int

datatype standing = Open time | Decided time "uuid option"

record contest_entry =
  en_match :: uuid
  en_player :: uuid
  en_phase :: phase

record contest =
  ct_now :: time
  ct_entries :: "uuid \<Rightarrow> contest_entry option"
  ct_matches :: "uuid \<Rightarrow> standing option"
  ct_players :: "uuid \<Rightarrow> uuid list"

definition playing :: "contest \<Rightarrow> uuid \<Rightarrow> uuid \<Rightarrow> bool" where
  "playing c m u \<longleftrightarrow> u \<in> set (ct_players c m) \<and> (\<exists>dl. ct_matches c m = Some (Open dl))"

definition set_phase :: "uuid \<Rightarrow> contest_entry \<Rightarrow> phase \<Rightarrow> contest \<Rightarrow> contest" where
  "set_phase k e p c = c\<lparr>ct_entries := (ct_entries c)(k \<mapsto> e\<lparr>en_phase := p\<rparr>)\<rparr>"

text \<open>The steps, for at most \<open>N\<close> attempts per submission.\<close>

inductive contest_step :: "int \<Rightarrow> contest \<Rightarrow> contest \<Rightarrow> bool" for N where
  time_passes: "ct_now c \<le> t \<Longrightarrow> contest_step N c (c\<lparr>ct_now := t\<rparr>)"
| open_match: "ct_matches c m = None \<Longrightarrow> u \<noteq> v \<Longrightarrow> ct_now c < dl \<Longrightarrow> \<forall>k. \<not> playing c k u \<and> \<not> playing c k v \<Longrightarrow>
     contest_step N c (c\<lparr>ct_matches := (ct_matches c)(m \<mapsto> Open dl), ct_players := (ct_players c)(m := [u, v])\<rparr>)"
| submit: "ct_entries c k = None \<Longrightarrow> ct_matches c m = Some (Open dl) \<Longrightarrow> u \<in> set (ct_players c m) \<Longrightarrow> ct_now c < dl \<Longrightarrow>
     contest_step N c (c\<lparr>ct_entries := (ct_entries c)(k \<mapsto> \<lparr>en_match = m, en_player = u, en_phase = Pending 0\<rparr>)\<rparr>)"
| claim: "ct_entries c k = Some e \<Longrightarrow> en_phase e = Pending n \<Longrightarrow>
     contest_step N c (set_phase k e (Running (n + 1) token) c)"
| reset: "ct_entries c k = Some e \<Longrightarrow> en_phase e = Running n token \<Longrightarrow> n < N \<Longrightarrow>
     contest_step N c (set_phase k e (Pending n) c)"
| give_up: "ct_entries c k = Some e \<Longrightarrow> en_phase e = Running n token \<Longrightarrow> N \<le> n \<Longrightarrow>
     contest_step N c (set_phase k e (Done n ''failed'' p) c)"
| judged: "ct_entries c k = Some e \<Longrightarrow> en_phase e = Running n token \<Longrightarrow>
     v \<noteq> ''pass'' \<or> (\<exists>dl w. ct_matches c (en_match e) = Some (Decided dl w)) \<Longrightarrow>
     contest_step N c (set_phase k e (Done n v p) c)"
| wins: "ct_entries c k = Some e \<Longrightarrow> en_phase e = Running n token \<Longrightarrow> ct_matches c (en_match e) = Some (Open dl) \<Longrightarrow>
     contest_step N c ((set_phase k e (Done n ''pass'' p) c)
       \<lparr>ct_matches := (ct_matches c)(en_match e \<mapsto> Decided dl (Some (en_player e)))\<rparr>)"
| expires: "ct_matches c m = Some (Open dl) \<Longrightarrow> dl \<le> ct_now c \<Longrightarrow>
     \<forall>k e. ct_entries c k = Some e \<longrightarrow> en_match e = m \<longrightarrow> (\<exists>n v p. en_phase e = Done n v p) \<Longrightarrow>
     (\<forall>u. w = Some u \<longrightarrow> u \<in> set (ct_players c m)) \<Longrightarrow>
     contest_step N c (c\<lparr>ct_matches := (ct_matches c)(m \<mapsto> Decided dl w)\<rparr>)"

section \<open>The invariant\<close>

fun phase_ok :: "int \<Rightarrow> phase \<Rightarrow> bool" where
  "phase_ok N (Pending n) \<longleftrightarrow> 0 \<le> n \<and> n < N"
| "phase_ok N (Running n token) \<longleftrightarrow> 0 < n \<and> n \<le> N"
| "phase_ok N (Done n v p) \<longleftrightarrow> 0 < n \<and> n \<le> N"

fun standing_ok :: "contest \<Rightarrow> uuid \<Rightarrow> standing \<Rightarrow> bool" where
  "standing_ok c m (Open dl) \<longleftrightarrow>
     \<not> (\<exists>k e n p. ct_entries c k = Some e \<and> en_match e = m \<and> en_phase e = Done n ''pass'' p)"
| "standing_ok c m (Decided dl w) \<longleftrightarrow> (\<forall>u. w = Some u \<longrightarrow> u \<in> set (ct_players c m)) \<and>
     (dl \<le> ct_now c \<or> (\<exists>u k e n p. w = Some u \<and> ct_entries c k = Some e \<and> en_match e = m \<and> en_player e = u
        \<and> en_phase e = Done n ''pass'' p))"

definition contest_ok :: "int \<Rightarrow> contest \<Rightarrow> bool" where
  "contest_ok N c \<longleftrightarrow>
     (\<forall>k e. ct_entries c k = Some e \<longrightarrow> phase_ok N (en_phase e) \<and> ct_matches c (en_match e) \<noteq> None
        \<and> en_player e \<in> set (ct_players c (en_match e))) \<and>
     (\<forall>m s. ct_matches c m = Some s \<longrightarrow> standing_ok c m s \<and> (\<exists>u v. u \<noteq> v \<and> ct_players c m = [u, v])) \<and>
     (\<forall>u m m'. playing c m u \<longrightarrow> playing c m' u \<longrightarrow> m = m')"

lemma contest_okI:
  assumes "\<And>k e. ct_entries c k = Some e \<Longrightarrow> phase_ok N (en_phase e) \<and> ct_matches c (en_match e) \<noteq> None
        \<and> en_player e \<in> set (ct_players c (en_match e))"
    and "\<And>m s. ct_matches c m = Some s \<Longrightarrow> standing_ok c m s"
    and "\<And>m s. ct_matches c m = Some s \<Longrightarrow> \<exists>u v. u \<noteq> v \<and> ct_players c m = [u, v]"
    and "\<And>u m m'. playing c m u \<Longrightarrow> playing c m' u \<Longrightarrow> m = m'"
  shows "contest_ok N c"
  using assms unfolding contest_ok_def by blast

lemma contest_okD:
  assumes "contest_ok N c"
  shows "ct_entries c k = Some e \<Longrightarrow> phase_ok N (en_phase e)"
    "ct_entries c k = Some e \<Longrightarrow> ct_matches c (en_match e) \<noteq> None"
    "ct_entries c k = Some e \<Longrightarrow> en_player e \<in> set (ct_players c (en_match e))"
    "ct_matches c m = Some s \<Longrightarrow> standing_ok c m s"
    "ct_matches c m = Some s \<Longrightarrow> \<exists>u v. u \<noteq> v \<and> ct_players c m = [u, v]"
    "playing c m u \<Longrightarrow> playing c m' u \<Longrightarrow> m = m'"
  using assms unfolding contest_ok_def by blast+

lemma set_phase_simps [simp]:
  "ct_entries (set_phase k e p c) = (ct_entries c)(k \<mapsto> e\<lparr>en_phase := p\<rparr>)"
  "ct_matches (set_phase k e p c) = ct_matches c" "ct_players (set_phase k e p c) = ct_players c"
  "ct_now (set_phase k e p c) = ct_now c" "playing (set_phase k e p c) = playing c"
  by (simp_all add: set_phase_def playing_def fun_eq_iff)

text \<open>
  Moving one running or waiting submission on keeps everything, given the match it plays in
  stays in order.
\<close>

lemma set_phase_ok:
  assumes ok: "contest_ok N c" and e: "ct_entries c k = Some e" and new: "phase_ok N p"
    and open_: "\<not> (\<exists>n v q. en_phase e = Done n v q)"
    and pass: "\<not> (\<exists>n q dl. p = Done n ''pass'' q \<and> ct_matches c (en_match e) = Some (Open dl))"
  shows "contest_ok N (set_phase k e p c)"
proof (rule contest_okI)
  fix j f assume "ct_entries (set_phase k e p c) j = Some f"
  then show "phase_ok N (en_phase f) \<and> ct_matches (set_phase k e p c) (en_match f) \<noteq> None
      \<and> en_player f \<in> set (ct_players (set_phase k e p c) (en_match f))"
    using contest_okD(1-3) [OF ok] e new by (auto split: if_splits)
next
  fix m s assume s: "ct_matches (set_phase k e p c) m = Some s"
  then have old: "standing_ok c m s" using contest_okD(4) [OF ok] by simp
  show "standing_ok (set_phase k e p c) m s"
  proof (cases s)
    case (Open dl)
    with s old pass e show ?thesis by (auto split: if_splits)
  next
    case (Decided dl w)
    have "ct_entries (set_phase k e p c) j = Some f" if "ct_entries c j = Some f" "en_phase f = Done n v q" for j f n v q
      using that e open_ by auto
    with old Decided show ?thesis by (simp del: set_phase_simps(1)) blast
  qed
qed (use contest_okD(5,6) [OF ok] in simp_all)

lemma decide_ok:
  assumes ok: "contest_ok N c" and m: "ct_matches c m = Some (Open dl)"
    and s: "standing_ok c m (Decided dl w)"
  shows "contest_ok N (c\<lparr>ct_matches := (ct_matches c)(m \<mapsto> Decided dl w)\<rparr>)"
proof (rule contest_okI)
  let ?c = "c\<lparr>ct_matches := (ct_matches c)(m \<mapsto> Decided dl w)\<rparr>"
  fix j t assume "ct_matches ?c j = Some t"
  then show "standing_ok ?c j t"
    using contest_okD(4) [OF ok, of j t] s by (cases t) (auto split: if_splits)
next
  let ?c = "c\<lparr>ct_matches := (ct_matches c)(m \<mapsto> Decided dl w)\<rparr>"
  fix u j j' assume "playing ?c j u" "playing ?c j' u"
  then have "playing c j u" "playing c j' u" by (auto simp: playing_def split: if_splits)
  with ok show "j = j'" by (rule contest_okD(6))
qed (use contest_okD(1-3,5) [OF ok] m in \<open>auto split: if_splits\<close>)

lemma decided_ok_running:
  assumes "contest_ok N c" "ct_entries c k = Some e" "en_phase e = Running n token"
  shows "0 < n" "n \<le> N"
  using contest_okD(1) [OF assms(1,2)] assms(3) by simp_all

text \<open>
  Winning is deciding the match for the player first, whose pass is then recorded: both changes
  keep the invariant in this order.
\<close>

lemma contest_step_ok:
  assumes "contest_step N c c'" and "contest_ok N c" and "0 < N"
  shows "contest_ok N c'"
  using assms(1)
proof cases
  case (time_passes t)
  have "standing_ok (c\<lparr>ct_now := t\<rparr>) m s" if "ct_matches c m = Some s" for m s
    using contest_okD(4) [OF assms(2) that] time_passes(2) by (cases s) auto
  then show ?thesis
    using assms(2) by (auto simp: time_passes(1) contest_ok_def playing_def)
next
  case (open_match m u v dl)
  show ?thesis
  proof (rule contest_okI)
    have none: "en_match e \<noteq> m" if "ct_entries c k = Some e" for k e
      using contest_okD(2) [OF assms(2) that] open_match(2) by auto
    show "phase_ok N (en_phase e) \<and> ct_matches c' (en_match e) \<noteq> None \<and> en_player e \<in> set (ct_players c' (en_match e))"
      if "ct_entries c' k = Some e" for k e
      using that none contest_okD(1-3) [OF assms(2)] by (auto simp: open_match(1))
    show "standing_ok c' m' s" if "ct_matches c' m' = Some s" for m' s
      using that none contest_okD(4) [OF assms(2), of m' s]
      by (cases s) (auto simp: open_match(1) split: if_splits)
    show "\<exists>u v. u \<noteq> v \<and> ct_players c' m' = [u, v]" if "ct_matches c' m' = Some s" for m' s
      using that open_match(3) contest_okD(5) [OF assms(2), of m' s] by (auto simp: open_match(1) split: if_splits)
    have pl: "playing c' m' w \<longleftrightarrow> (if m' = m then w = u \<or> w = v else playing c m' w)" for m' w
      by (auto simp: open_match(1) playing_def)
    show "m' = m''" if "playing c' m' w" "playing c' m'' w" for w m' m''
      using that open_match(5) contest_okD(6) [OF assms(2), of m' w m''] unfolding pl by (auto split: if_splits)
  qed
next
  case (submit k m dl u)
  have "standing_ok c' m' s" if "ct_matches c m' = Some s" for m' s
  proof (cases s)
    case (Open dl')
    with contest_okD(4) [OF assms(2) that] show ?thesis by (auto simp: submit(1) split: if_splits)
  next
    case (Decided dl' w)
    have "j \<noteq> k" if "ct_entries c j = Some f" for j f using that submit(2) by auto
    with contest_okD(4) [OF assms(2) that] Decided show ?thesis by (simp add: submit(1)) blast
  qed
  then show ?thesis
    using contest_okD(1-3,5,6) [OF assms(2)] submit assms(3)
    by (intro contest_okI) (auto simp: submit(1) playing_def split: if_splits)
next
  case (claim k e n token)
  have "0 \<le> n \<and> n < N" using contest_okD(1) [OF assms(2) claim(2)] claim(3) by simp
  then show ?thesis
    unfolding claim(1) using claim by (intro set_phase_ok [OF assms(2)]) auto
next
  case (reset k e n token)
  note n = decided_ok_running [OF assms(2) reset(2,3)]
  show ?thesis unfolding reset(1) using reset n by (intro set_phase_ok [OF assms(2)]) auto
next
  case (give_up k e n token p)
  note n = decided_ok_running [OF assms(2) give_up(2,3)]
  show ?thesis unfolding give_up(1) using give_up n by (intro set_phase_ok [OF assms(2)]) auto
next
  case (judged k e n token v p)
  note n = decided_ok_running [OF assms(2) judged(2,3)]
  show ?thesis unfolding judged(1) using judged n by (intro set_phase_ok [OF assms(2)]) auto
next
  case (wins k e n token dl p)
  note n = decided_ok_running [OF assms(2) wins(2,3)]
  let ?c1 = "c\<lparr>ct_matches := (ct_matches c)(en_match e \<mapsto> Decided dl (Some (en_player e)))\<rparr>"
  show ?thesis
  proof (rule contest_okI)
    show "phase_ok N (en_phase f) \<and> ct_matches c' (en_match f) \<noteq> None \<and> en_player f \<in> set (ct_players c' (en_match f))"
      if "ct_entries c' j = Some f" for j f
      using that n wins(2) contest_okD(1-3) [OF assms(2), of j f] contest_okD(3) [OF assms(2), of k e]
      by (auto simp: wins(1) split: if_splits)
    show "\<exists>u v. u \<noteq> v \<and> ct_players c' m = [u, v]" if "ct_matches c' m = Some s" for m s
      using that contest_okD(5) [OF assms(2)] wins(4) by (auto simp: wins(1) split: if_splits)
    show "m = m'" if "playing c' m u" "playing c' m' u" for u m m'
    proof -
      have "playing c m u" "playing c m' u" using that by (auto simp: wins(1) playing_def split: if_splits)
      with assms(2) show ?thesis by (rule contest_okD(6))
    qed
    show "standing_ok c' m s" if "ct_matches c' m = Some s" for m s
    proof (cases "m = en_match e")
      case True
      have "en_player e \<in> set (ct_players c m)" using contest_okD(3) [OF assms(2) wins(2)] True by simp
      moreover have "ct_entries c' k = Some (e\<lparr>en_phase := Done n ''pass'' p\<rparr>)" by (simp add: wins(1))
      ultimately show ?thesis using that True by (auto simp: wins(1))
    next
      case False
      with that have m: "ct_matches c m = Some s" by (simp add: wins(1))
      note old = contest_okD(4) [OF assms(2) m]
      show ?thesis
      proof (cases s)
        case (Open dl')
        with old False show ?thesis by (auto simp: wins(1) split: if_splits)
      next
        case (Decided dl' w)
        have "ct_entries c' j = Some f" if "ct_entries c j = Some f" "en_phase f = Done n' v' q" for j f n' v' q
          using that wins(2,3) by (auto simp: wins(1))
        moreover have "ct_players c' = ct_players c" "ct_now c' = ct_now c" by (simp_all add: wins(1))
        ultimately show ?thesis using old Decided by simp blast
      qed
    qed
  qed
next
  case (expires m dl w)
  show ?thesis unfolding expires(1) using expires by (intro decide_ok [OF assms(2)]) simp_all
qed

text \<open>What is decided stays decided, and no player list changes.\<close>

lemma contest_step_final:
  assumes "contest_step N c c'" "contest_ok N c"
  shows "ct_entries c k = Some e \<Longrightarrow> en_phase e = Done n v p \<Longrightarrow> ct_entries c' k = Some e"
    "ct_matches c m = Some (Decided dl w) \<Longrightarrow> ct_matches c' m = Some (Decided dl w)"
  using assms by (cases; auto split: if_splits)+

lemma contest_steps_ok:
  assumes "(contest_step N)\<^sup>*\<^sup>* c c'" "contest_ok N c" "0 < N"
  shows "contest_ok N c'"
  using assms(1,2) by induction (blast intro: contest_step_ok assms(3))+

lemma contest_steps_final:
  assumes "(contest_step N)\<^sup>*\<^sup>* c c'" "contest_ok N c" "0 < N"
  shows "ct_entries c k = Some e \<Longrightarrow> en_phase e = Done n v p \<Longrightarrow> ct_entries c' k = Some e"
    "ct_matches c m = Some (Decided dl w) \<Longrightarrow> ct_matches c' m = Some (Decided dl w)"
proof -
  have "contest_ok N c' \<and> (ct_entries c k = Some e \<longrightarrow> en_phase e = Done n v p \<longrightarrow> ct_entries c' k = Some e)
      \<and> (ct_matches c m = Some (Decided dl w) \<longrightarrow> ct_matches c' m = Some (Decided dl w))"
    using assms(1)
  proof induction
    case base
    then show ?case using assms(2) by simp
  next
    case (step y z)
    then show ?case
      using contest_step_ok [OF step(2) _ assms(3)] contest_step_final [OF step(2)] by blast
  qed
  then show "ct_entries c k = Some e \<Longrightarrow> en_phase e = Done n v p \<Longrightarrow> ct_entries c' k = Some e"
    "ct_matches c m = Some (Decided dl w) \<Longrightarrow> ct_matches c' m = Some (Decided dl w)" by blast+
qed

end
