(* ===== verification/Text.thy ===== *)
theory Text
  imports Prelude
begin

text \<open>
  What the repository uses of Go's \<open>unicode/utf8\<close>, \<open>strings\<close> and \<open>bytes\<close> packages, on byte
  strings: UTF-8 validity (\<open>utf8.Valid\<close>, \<open>utf8.ValidString\<close>), \<open>bytes.ReplaceAll\<close> of a
  non-empty pattern and \<open>bytes.TrimSuffix\<close> / \<open>strings.TrimPrefix\<close> / \<open>strings.HasPrefix\<close>.
\<close>

abbreviation byte :: "char \<Rightarrow> nat" where
  "byte c \<equiv> of_char c"

section \<open>UTF-8\<close>

text \<open>
  The table of first bytes: the length of the sequence (0 when no sequence starts with this
  byte) and the range of its second byte. Surrogates, overlong forms and values beyond
  U+10FFFF are excluded by the ranges.
\<close>

definition utf8_first :: "nat \<Rightarrow> nat \<times> nat \<times> nat" where
  "utf8_first b =
     (if b < 128 then (1, 0, 0)
      else if b < 194 then (0, 0, 0)
      else if b < 224 then (2, 128, 191)
      else if b = 224 then (3, 160, 191)
      else if b = 237 then (3, 128, 159)
      else if b < 240 then (3, 128, 191)
      else if b = 240 then (4, 144, 191)
      else if b < 244 then (4, 128, 191)
      else if b = 244 then (4, 128, 143)
      else (0, 0, 0))"

fun utf8_conts :: "nat \<Rightarrow> nat \<Rightarrow> string \<Rightarrow> bool" where
  "utf8_conts lo hi [] = True"
| "utf8_conts lo hi (c # cs) =
     (lo \<le> byte c \<and> byte c \<le> hi \<and> (\<forall>d\<in>set cs. 128 \<le> byte d \<and> byte d \<le> 191))"

text \<open>
  The width of the well-formed sequence that starts with \<open>c\<close> and goes on in \<open>s\<close>, 0 when
  there is none.
\<close>

definition utf8_width :: "char \<Rightarrow> string \<Rightarrow> nat" where
  "utf8_width c s =
     (case utf8_first (byte c) of (n, lo, hi) \<Rightarrow>
        if n \<le> Suc (length s) \<and> utf8_conts lo hi (take (n - 1) s) then n else 0)"

function utf8_valid :: "string \<Rightarrow> bool" where
  "utf8_valid [] = True"
| "utf8_valid (c # s) =
     (if utf8_width c s = 0 then False else utf8_valid (drop (utf8_width c s - 1) s))"
  by pat_completeness auto
termination
  by (relation "measure length") auto

declare utf8_valid.simps(2) [simp del]

lemma utf8_valid_ascii: "(\<And>c. c \<in> set s \<Longrightarrow> byte c < 128) \<Longrightarrow> utf8_valid s"
  by (induction s) (auto simp: utf8_valid.simps(2) utf8_width_def utf8_first_def)

lemma utf8_width_le: "utf8_width c s \<le> Suc (length s)"
  by (auto simp: utf8_width_def split: prod.splits)

lemma utf8_width_append: "utf8_width c s \<noteq> 0 \<Longrightarrow> utf8_width c (s @ t) = utf8_width c s"
  by (auto simp: utf8_width_def split: prod.splits if_splits)

lemma utf8_valid_append: "utf8_valid s \<Longrightarrow> utf8_valid t \<Longrightarrow> utf8_valid (s @ t)"
proof (induction s rule: utf8_valid.induct)
  case 1
  then show ?case by simp
next
  case (2 c s)
  let ?w = "utf8_width c s"
  from "2.prems" have w: "?w \<noteq> 0" and v: "utf8_valid (drop (?w - 1) s)"
    by (auto simp: utf8_valid.simps(2) split: if_splits)
  have "?w - 1 \<le> length s"
    using utf8_width_le [of c s] by simp
  then have "drop (?w - 1) (s @ t) = drop (?w - 1) s @ t"
    by simp
  with "2.IH" w v "2.prems" show ?case
    by (simp add: utf8_valid.simps(2) utf8_width_append)
qed

section \<open>Replacing and trimming\<close>

definition has_prefix :: "string \<Rightarrow> string \<Rightarrow> bool" where
  "has_prefix s p \<longleftrightarrow> take (length p) s = p"

definition trim_prefix :: "string \<Rightarrow> string \<Rightarrow> string" where
  "trim_prefix s p = (if has_prefix s p then drop (length p) s else s)"

definition trim_suffix :: "string \<Rightarrow> string \<Rightarrow> string" where
  "trim_suffix s p = rev (trim_prefix (rev s) (rev p))"

text \<open>\<open>ReplaceAll\<close> of a non-empty pattern: left to right, without overlaps.\<close>

function replace_all :: "string \<Rightarrow> string \<Rightarrow> string \<Rightarrow> string" where
  "replace_all [] old new = []"
| "replace_all (c # s) old new =
     (if old \<noteq> [] \<and> has_prefix (c # s) old
      then new @ replace_all (drop (length old) (c # s)) old new
      else c # replace_all s old new)"
  by pat_completeness auto
termination
  by (relation "measure (\<lambda>(s, _, _). length s)") (auto simp: neq_Nil_conv)

lemma has_prefix_append [simp]: "has_prefix (p @ s) p"
  by (simp add: has_prefix_def)

lemma has_prefix_iff: "has_prefix s p \<longleftrightarrow> (\<exists>t. s = p @ t)"
  unfolding has_prefix_def by (metis append_eq_conv_conj append_take_drop_id)

lemma trim_prefix_append [simp]: "trim_prefix (p @ s) p = s"
  by (simp add: trim_prefix_def)

lemma trim_suffix_append [simp]: "trim_suffix (s @ p) p = s"
  by (simp add: trim_suffix_def)

lemma trim_suffix_singleton:
  "trim_suffix s [c] = (if s \<noteq> [] \<and> last s = c then butlast s else s)"
proof (cases s rule: rev_exhaust)
  case Nil
  then show ?thesis by (simp add: trim_suffix_def trim_prefix_def has_prefix_def)
next
  case (snoc t d)
  then show ?thesis by (simp add: trim_suffix_def trim_prefix_def has_prefix_def)
qed

section \<open>White space\<close>

text \<open>
  The UTF-8 encodings of the characters \<open>unicode.IsSpace\<close> accepts, and
  \<open>strings.TrimSpace(s) == ""\<close> as \<open>blank s\<close>.
\<close>

definition space_encodings :: "nat list list" where
  "space_encodings =
     [[9], [10], [11], [12], [13], [32], [194, 133], [194, 160], [225, 154, 128]]
     @ map (\<lambda>b. [226, 128, b]) ([128..<139] @ [168, 169, 175])
     @ [[226, 129, 159], [227, 128, 128]]"

definition space_width :: "string \<Rightarrow> nat" where
  "space_width s =
     (case List.find (\<lambda>e. map byte (take (length e) s) = e) space_encodings of
        None \<Rightarrow> 0 | Some e \<Rightarrow> length e)"

function blank :: "string \<Rightarrow> bool" where
  "blank [] = True"
| "blank (c # s) =
     (if space_width (c # s) = 0 then False else blank (drop (space_width (c # s)) (c # s)))"
  by pat_completeness auto
termination
  by (relation "measure length") auto

section \<open>JSON values\<close>

text \<open>
  Values of a \<open>JSONB\<close> column, as \<open>encoding/json\<close> and \<open>jsonb_array_length\<close> read them;
  numbers are kept as their text.
\<close>

datatype json = JNull | JBool bool | JNumber string | JString string
  | JArray "json list" | JObject "(string \<times> json) list"

definition ascii_lower :: "char \<Rightarrow> char" where
  "ascii_lower c = (if 65 \<le> byte c \<and> byte c \<le> 90 then char_of (byte c + 32) else c)"

definition equal_fold_ascii :: "string \<Rightarrow> string \<Rightarrow> bool" where
  "equal_fold_ascii a b \<longleftrightarrow> map ascii_lower a = map ascii_lower b"

text \<open>
  \<open>json.Unmarshal\<close> of one struct field of type \<open>*string\<close> from an object: field names match
  without regard to case, a later member overwrites an earlier one, \<open>null\<close> resets the
  pointer and any other type is an error (outer \<open>None\<close>).
\<close>

fun json_opt_string :: "string \<Rightarrow> (string \<times> json) list \<Rightarrow> string option \<Rightarrow> string option option" where
  "json_opt_string name [] acc = Some acc"
| "json_opt_string name ((k, v) # ms) acc =
     (if equal_fold_ascii k name then
        (case v of
           JNull \<Rightarrow> json_opt_string name ms None
         | JString s \<Rightarrow> json_opt_string name ms (Some s)
         | _ \<Rightarrow> None)
      else json_opt_string name ms acc)"

text \<open>\<open>jsonb_array_length\<close>: an error (\<open>None\<close>) for anything but an array.\<close>

fun jsonb_array_length :: "json \<Rightarrow> int option" where
  "jsonb_array_length (JArray xs) = Some (int (length xs))"
| "jsonb_array_length _ = None"

end
