(* ===== verification/Schema.thy ===== *)
theory Schema
  imports Text
begin

text \<open>
  The relational schema of \<open>internal/infrastructure/migrations\<close> after all migrations: one
  record per table row, the \<open>CHECK\<close>, key and foreign-key constraints, the triggers of
  migration 000007 that keep \<open>active_match_players\<close>, and the write statements through
  which every component changes the database. A statement that violates a constraint
  fails (\<open>None\<close>) and its transaction rolls back.
\<close>

section \<open>Rows\<close>

record user_row =
  u_id :: uuid
  u_email :: string
  u_password_hash :: "string option"
  u_display_name :: string
  u_created_at :: time

record problem_row =
  p_id :: uuid
  p_title :: string
  p_statement :: string
  p_constraints :: string
  p_public_examples :: "(string \<times> string) list"
  p_test_cases :: json
  p_created_at :: time

record match_row =
  m_id :: uuid
  m_problem_id :: uuid
  m_status :: string
  m_winner_id :: "uuid option"
  m_deadline :: time
  m_created_at :: time

record player_row =
  mp_match_id :: uuid
  mp_user_id :: uuid
  mp_slot :: int

record claim_row =
  am_user_id :: uuid
  am_match_id :: uuid

record submission_row =
  s_id :: uuid
  s_match_id :: uuid
  s_player_id :: uuid
  s_request_id :: uuid
  s_language :: string
  s_code :: string
  s_status :: string
  s_result :: "string option"
  s_failure_kind :: "string option"
  s_tests_passed :: int
  s_attempts :: int
  s_attempt_token :: "uuid option"
  s_lease_until :: "time option"
  s_last_enqueued_at :: "time option"
  s_created_at :: time
  s_finished_at :: "time option"

record db =
  db_users :: "user_row list"
  db_problems :: "problem_row list"
  db_matches :: "match_row list"
  db_players :: "player_row list"
  db_claims :: "claim_row list"
  db_submissions :: "submission_row list"

section \<open>Constraints\<close>

text \<open>
  \<open>submissions\<close>: the \<open>CHECK\<close>s on language, status, result, failure kind, attempts and tests
  passed, the range of the two \<open>INT\<close> columns, and the lifecycle check (a row is completed
  exactly when it has a result and a finishing time).
\<close>

definition int_max :: int where
  "int_max = 2147483647"

lemma int_max_nonneg [simp]: "0 \<le> int_max"
  by (simp add: int_max_def)

definition submission_checks :: "submission_row \<Rightarrow> bool" where
  "submission_checks r \<longleftrightarrow>
     s_language r \<in> set [''python'', ''cpp'', ''java''] \<and>
     s_status r \<in> set [''pending'', ''running'', ''completed''] \<and>
     (case s_result r of None \<Rightarrow> True
      | Some v \<Rightarrow> v \<in> set [''pass'', ''fail'', ''error'', ''timeout'', ''failed'']) \<and>
     (case s_failure_kind r of None \<Rightarrow> True
      | Some k \<Rightarrow> k \<in> set [''wrong_answer'', ''compile_error'', ''runtime_error'', ''output_limit'',
                           ''infrastructure_error'']) \<and>
     0 \<le> s_attempts r \<and> s_attempts r \<le> int_max \<and>
     0 \<le> s_tests_passed r \<and> s_tests_passed r \<le> int_max \<and>
     (s_status r \<in> set [''pending'', ''running''] \<and> s_result r = None \<and> s_finished_at r = None \<or>
      s_status r = ''completed'' \<and> s_result r \<noteq> None \<and> s_finished_at r \<noteq> None)"

definition match_checks :: "match_row \<Rightarrow> bool" where
  "match_checks m \<longleftrightarrow> m_status m \<in> set [''active'', ''finished'']"

text \<open>A user is a player of a match: a row of \<open>match_players\<close>.\<close>

definition is_player :: "db \<Rightarrow> uuid \<Rightarrow> uuid \<Rightarrow> bool" where
  "is_player d m u \<longleftrightarrow> (\<exists>p\<in>set (db_players d). mp_match_id p = m \<and> mp_user_id p = u)"

text \<open>
  \<open>SELECT user_id, ... FROM match_players WHERE match_id = $1 ORDER BY slot, user_id\<close>.
\<close>

definition players_of :: "db \<Rightarrow> uuid \<Rightarrow> uuid list" where
  "players_of d m =
     map mp_user_id (sort_key (\<lambda>p. (mp_slot p, mp_user_id p))
       (filter (\<lambda>p. mp_match_id p = m) (db_players d)))"

definition match_of :: "db \<Rightarrow> uuid \<Rightarrow> match_row option" where
  "match_of d k = row_of m_id k (db_matches d)"

definition submission_of :: "db \<Rightarrow> uuid \<Rightarrow> submission_row option" where
  "submission_of d k = row_of s_id k (db_submissions d)"

definition problem_of :: "db \<Rightarrow> uuid \<Rightarrow> problem_row option" where
  "problem_of d k = row_of p_id k (db_problems d)"

definition user_of :: "db \<Rightarrow> uuid \<Rightarrow> user_row option" where
  "user_of d k = row_of u_id k (db_users d)"

section \<open>Write statements\<close>

text \<open>\<open>UPDATE submissions SET ... WHERE P\<close>.\<close>

definition update_submissions ::
  "(submission_row \<Rightarrow> bool) \<Rightarrow> (submission_row \<Rightarrow> submission_row) \<Rightarrow> db \<Rightarrow> db option" where
  "update_submissions P f d =
     (if \<forall>r\<in>set (db_submissions d). P r \<longrightarrow> submission_checks (f r)
      then Some (d\<lparr>db_submissions := sql_update P f (db_submissions d)\<rparr>) else None)"

text \<open>
  \<open>INSERT INTO submissions\<close>: primary key, \<open>UNIQUE (player_id, request_id)\<close>, the foreign key
  \<open>(match_id, player_id)\<close> into \<open>match_players\<close> and the checks.
\<close>

definition insert_submission :: "submission_row \<Rightarrow> db \<Rightarrow> db option" where
  "insert_submission r d =
     (if (\<exists>r'\<in>set (db_submissions d). s_id r' = s_id r)
         \<or> (\<exists>r'\<in>set (db_submissions d). s_player_id r' = s_player_id r \<and> s_request_id r' = s_request_id r)
         \<or> \<not> is_player d (s_match_id r) (s_player_id r) \<or> \<not> submission_checks r
      then None else Some (d\<lparr>db_submissions := db_submissions d @ [r]\<rparr>))"

text \<open>
  The trigger \<open>matches_sync_active_claims\<close>: when the status of a match changes to
  finished its claims are deleted, when it changes back to active they are inserted.
\<close>

definition sync_active_match_claims :: "match_row \<Rightarrow> match_row \<Rightarrow> db \<Rightarrow> db" where
  "sync_active_match_claims old new d =
     (if m_status old = m_status new then d
      else if m_status new = ''finished'' then
        d\<lparr>db_claims := filter (\<lambda>c. am_match_id c \<noteq> m_id new) (db_claims d)\<rparr>
      else if m_status old = ''finished'' \<and> m_status new = ''active'' then
        d\<lparr>db_claims := db_claims d @ map (\<lambda>p. \<lparr>am_user_id = mp_user_id p, am_match_id = mp_match_id p\<rparr>)
            (filter (\<lambda>p. mp_match_id p = m_id new) (db_players d))\<rparr>
      else d)"

text \<open>
  \<open>UPDATE matches SET status = 'finished', winner_id = $2 WHERE id = $1 AND status = 'active'
  AND winner_id IS NULL\<close>: the database afterwards and whether a row was updated. The
  winner must be a player of the match (\<open>matches_winner_player_fkey\<close>).
\<close>

definition finish_match :: "uuid \<Rightarrow> uuid option \<Rightarrow> db \<Rightarrow> (db \<times> bool) option" where
  "finish_match k w d =
     (case match_of d k of
        None \<Rightarrow> Some (d, False)
      | Some m \<Rightarrow>
          if m_status m = ''active'' \<and> m_winner_id m = None then
            (if (case w of None \<Rightarrow> True | Some u \<Rightarrow> is_player d k u) then
               (let m' = m\<lparr>m_status := ''finished'', m_winner_id := w\<rparr>;
                    d' = d\<lparr>db_matches := sql_update (\<lambda>r. m_id r = k) (\<lambda>_. m') (db_matches d)\<rparr>
                in Some (sync_active_match_claims m m' d', True))
             else None)
          else Some (d, False))"

text \<open>\<open>INSERT INTO matches\<close>.\<close>

definition insert_match :: "match_row \<Rightarrow> db \<Rightarrow> db option" where
  "insert_match m d =
     (if match_of d (m_id m) \<noteq> None \<or> problem_of d (m_problem_id m) = None \<or> \<not> match_checks m
         \<or> (case m_winner_id m of None \<Rightarrow> False | Some u \<Rightarrow> \<not> is_player d (m_id m) u)
      then None else Some (d\<lparr>db_matches := db_matches d @ [m]\<rparr>))"

text \<open>
  \<open>INSERT INTO match_players\<close> with the trigger \<open>match_players_claim_active\<close>, which claims the
  user for an active match. \<open>Inl True\<close> is the violation of \<open>active_match_players_pkey\<close>
  (the user has an active match), \<open>Inl False\<close> any other violation.
\<close>

definition insert_player :: "player_row \<Rightarrow> db \<Rightarrow> bool + db" where
  "insert_player p d =
     (if is_player d (mp_match_id p) (mp_user_id p)
         \<or> (\<exists>q\<in>set (db_players d). mp_match_id q = mp_match_id p \<and> mp_slot q = mp_slot p)
         \<or> mp_slot p \<le> 0 \<or> user_of d (mp_user_id p) = None
      then Inl False
      else (case match_of d (mp_match_id p) of
          None \<Rightarrow> Inl False
        | Some m \<Rightarrow>
            let d' = d\<lparr>db_players := db_players d @ [p]\<rparr> in
            if m_status m = ''active'' then
              (if \<exists>c\<in>set (db_claims d). am_user_id c = mp_user_id p then Inl True
               else Inr (d'\<lparr>db_claims := db_claims d @
                      [\<lparr>am_user_id = mp_user_id p, am_match_id = mp_match_id p\<rparr>]\<rparr>))
            else Inr d'))"

end
