(* ===== verification/Invariants.thy ===== *)
theory Invariants
  imports Schema
begin

text \<open>
  The well-formedness invariant of the database: the declared constraints, the agreement of
  \<open>active_match_players\<close> with the active matches, and what the application itself keeps
  true (a winner only on a finished match, an attempt token and a lease exactly on running
  rows). Every write statement keeps it; the components only combine these lemmas.
\<close>

named_theorems inv_intros \<open>statements that keep the database invariant\<close>

section \<open>The invariant\<close>

definition active_match :: "db \<Rightarrow> uuid \<Rightarrow> bool" where
  "active_match d k = (case match_of d k of None \<Rightarrow> False | Some m \<Rightarrow> m_status m = ''active'')"

definition keys_ok :: "db \<Rightarrow> bool" where
  "keys_ok d \<longleftrightarrow>
     distinct (map s_id (db_submissions d)) \<and>
     distinct (map (\<lambda>r. (s_player_id r, s_request_id r)) (db_submissions d)) \<and>
     distinct (map m_id (db_matches d)) \<and>
     distinct (map (\<lambda>p. (mp_match_id p, mp_user_id p)) (db_players d)) \<and>
     distinct (map (\<lambda>p. (mp_match_id p, mp_slot p)) (db_players d)) \<and>
     distinct (map am_user_id (db_claims d))"

definition submission_ok :: "db \<Rightarrow> submission_row \<Rightarrow> bool" where
  "submission_ok d r \<longleftrightarrow>
     submission_checks r \<and> is_player d (s_match_id r) (s_player_id r) \<and>
     (s_attempt_token r \<noteq> None \<longleftrightarrow> s_status r = ''running'') \<and>
     (s_lease_until r \<noteq> None \<longleftrightarrow> s_status r = ''running'')"

definition match_ok :: "db \<Rightarrow> match_row \<Rightarrow> bool" where
  "match_ok d m \<longleftrightarrow>
     match_checks m \<and> problem_of d (m_problem_id m) \<noteq> None \<and>
     (case m_winner_id m of None \<Rightarrow> True
      | Some u \<Rightarrow> m_status m = ''finished'' \<and> is_player d (m_id m) u)"

definition player_ok :: "db \<Rightarrow> player_row \<Rightarrow> bool" where
  "player_ok d p \<longleftrightarrow>
     0 < mp_slot p \<and> match_of d (mp_match_id p) \<noteq> None \<and> user_of d (mp_user_id p) \<noteq> None"

definition claims_ok :: "db \<Rightarrow> bool" where
  "claims_ok d \<longleftrightarrow>
     (\<lambda>c. (am_user_id c, am_match_id c)) ` set (db_claims d) =
     (\<lambda>p. (mp_user_id p, mp_match_id p)) ` set (filter (\<lambda>p. active_match d (mp_match_id p)) (db_players d))"

definition db_inv :: "db \<Rightarrow> bool" where
  "db_inv d \<longleftrightarrow> keys_ok d \<and> (\<forall>r\<in>set (db_submissions d). submission_ok d r) \<and>
     (\<forall>m\<in>set (db_matches d). match_ok d m) \<and> (\<forall>p\<in>set (db_players d). player_ok d p) \<and> claims_ok d"

lemmas inv_defs = db_inv_def keys_ok_def submission_ok_def match_ok_def player_ok_def claims_ok_def

section \<open>Reading a well-formed database\<close>

lemma db_invD:
  assumes "db_inv d"
  shows "keys_ok d" "r \<in> set (db_submissions d) \<Longrightarrow> submission_ok d r"
    "m \<in> set (db_matches d) \<Longrightarrow> match_ok d m" "p \<in> set (db_players d) \<Longrightarrow> player_ok d p" "claims_ok d"
  using assms by (auto simp: db_inv_def)

lemma keys_okD:
  assumes "keys_ok d"
  shows "distinct (map s_id (db_submissions d))"
    "distinct (map (\<lambda>r. (s_player_id r, s_request_id r)) (db_submissions d))"
    "distinct (map m_id (db_matches d))"
    "distinct (map (\<lambda>p. (mp_match_id p, mp_user_id p)) (db_players d))"
    "distinct (map (\<lambda>p. (mp_match_id p, mp_slot p)) (db_players d))"
    "distinct (map am_user_id (db_claims d))"
  using assms by (simp_all add: keys_ok_def)

lemmas db_keys = keys_okD [OF db_invD(1)]

lemma db_invI:
  assumes "keys_ok d" "\<And>r. r \<in> set (db_submissions d) \<Longrightarrow> submission_ok d r"
    "\<And>m. m \<in> set (db_matches d) \<Longrightarrow> match_ok d m" "\<And>p. p \<in> set (db_players d) \<Longrightarrow> player_ok d p"
    "claims_ok d"
  shows "db_inv d"
  using assms by (simp add: db_inv_def)

lemma submission_of_iff:
  "db_inv d \<Longrightarrow> submission_of d k = Some r \<longleftrightarrow> r \<in> set (db_submissions d) \<and> s_id r = k"
  unfolding submission_of_def by (rule row_of_Some_iff [OF db_keys(1)])

lemma match_of_iff:
  "db_inv d \<Longrightarrow> match_of d k = Some m \<longleftrightarrow> m \<in> set (db_matches d) \<and> m_id m = k"
  unfolding match_of_def by (rule row_of_Some_iff [OF db_keys(3)])

lemma submission_ofD: "submission_of d k = Some r \<Longrightarrow> r \<in> set (db_submissions d) \<and> s_id r = k"
  unfolding submission_of_def by (rule row_of_SomeD)

lemma match_ofD: "match_of d k = Some m \<Longrightarrow> m \<in> set (db_matches d) \<and> m_id m = k"
  unfolding match_of_def by (rule row_of_SomeD)

lemma problem_ofD: "problem_of d k = Some p \<Longrightarrow> p \<in> set (db_problems d) \<and> p_id p = k"
  unfolding problem_of_def by (rule row_of_SomeD)

lemma submission_ok_of: "db_inv d \<Longrightarrow> submission_of d k = Some r \<Longrightarrow> submission_ok d r"
  by (blast dest: submission_ofD db_invD(2))

lemma match_ok_of: "db_inv d \<Longrightarrow> match_of d k = Some m \<Longrightarrow> match_ok d m"
  by (blast dest: match_ofD db_invD(3))

lemma is_player_match:
  assumes "db_inv d" "is_player d k u"
  shows "\<exists>m. match_of d k = Some m"
proof -
  obtain p where p: "p \<in> set (db_players d)" "mp_match_id p = k"
    using assms(2) by (auto simp: is_player_def)
  have "match_of d (mp_match_id p) \<noteq> None"
    using db_invD(4) [OF assms(1) p(1)] by (simp add: player_ok_def)
  with p show ?thesis by auto
qed

lemma submission_match:
  assumes "db_inv d" "submission_of d k = Some r"
  shows "\<exists>m. match_of d (s_match_id r) = Some m"
proof -
  have "is_player d (s_match_id r) (s_player_id r)"
    using submission_ok_of [OF assms] by (simp add: submission_ok_def)
  with assms(1) show ?thesis by (rule is_player_match)
qed

lemma match_problem:
  assumes "db_inv d" "match_of d k = Some m"
  obtains p where "problem_of d (m_problem_id m) = Some p"
  using match_ok_of [OF assms] by (auto simp: match_ok_def)

lemma set_players_of: "set (players_of d k) = {u. is_player d k u}"
  by (auto simp: players_of_def is_player_def)

lemma distinct_players_of:
  assumes "db_inv d"
  shows "distinct (players_of d k)"
proof -
  let ?ps = "filter (\<lambda>p. mp_match_id p = k) (db_players d)"
  have "distinct (map (\<lambda>p. (mp_match_id p, mp_user_id p)) (db_players d))"
    using assms by (rule db_keys(4))
  then have d1: "distinct (map (\<lambda>p. (mp_match_id p, mp_user_id p)) ?ps)"
    by (rule distinct_map_filter)
  have "distinct (map mp_user_id ?ps)"
    unfolding distinct_map
  proof
    show "distinct ?ps" using d1 by (simp add: distinct_map)
    show "inj_on mp_user_id (set ?ps)"
      using d1 by (auto simp: distinct_map inj_on_def)
  qed
  then show ?thesis
    by (simp add: players_of_def distinct_map)
qed

text \<open>A user has at most one active match, and its claim names it.\<close>

lemma claim_iff:
  assumes "claims_ok d"
  shows "(\<exists>c\<in>set (db_claims d). am_user_id c = u \<and> am_match_id c = k) \<longleftrightarrow>
    is_player d k u \<and> active_match d k"
proof -
  have "(\<exists>c\<in>set (db_claims d). am_user_id c = u \<and> am_match_id c = k) \<longleftrightarrow>
      (u, k) \<in> (\<lambda>c. (am_user_id c, am_match_id c)) ` set (db_claims d)"
    by force
  also have "\<dots> \<longleftrightarrow> is_player d k u \<and> active_match d k"
    using assms by (auto simp: claims_ok_def is_player_def)
  finally show ?thesis .
qed

lemma one_active_match:
  assumes "db_inv d" "is_player d k u" "active_match d k" "is_player d k' u" "active_match d k'"
  shows "k = k'"
proof -
  have cl: "claims_ok d" and di: "distinct (map am_user_id (db_claims d))"
    using assms(1) by (blast intro: db_invD db_keys)+
  obtain c where c: "c \<in> set (db_claims d)" "am_user_id c = u" "am_match_id c = k"
    using claim_iff [OF cl, of u k] assms(2,3) by blast
  obtain c' where c': "c' \<in> set (db_claims d)" "am_user_id c' = u" "am_match_id c' = k'"
    using claim_iff [OF cl, of u k'] assms(4,5) by blast
  have "c = c'"
    using distinct_key_eq [OF di c(1) c'(1)] c(2) c'(2) by simp
  with c c' show ?thesis by simp
qed

section \<open>Frame facts of the write statements\<close>

lemma update_submissions_SomeD:
  assumes "update_submissions P f d = Some d'"
  shows "d' = d\<lparr>db_submissions := sql_update P f (db_submissions d)\<rparr>"
    and "r \<in> set (db_submissions d) \<Longrightarrow> P r \<Longrightarrow> submission_checks (f r)"
  using assms by (auto simp: update_submissions_def split: if_splits)

lemma players_frame [simp]:
  "is_player (d\<lparr>db_submissions := s\<rparr>) = is_player d"
  "is_player (d\<lparr>db_matches := ms\<rparr>) = is_player d"
  "is_player (d\<lparr>db_claims := cs\<rparr>) = is_player d"
  "players_of (d\<lparr>db_submissions := s\<rparr>) = players_of d"
  "players_of (d\<lparr>db_matches := ms\<rparr>) = players_of d"
  "players_of (d\<lparr>db_claims := cs\<rparr>) = players_of d"
  by (simp_all add: is_player_def players_of_def fun_eq_iff)

lemma match_frame [simp]:
  "match_of (d\<lparr>db_submissions := s\<rparr>) = match_of d"
  "match_of (d\<lparr>db_players := ps\<rparr>) = match_of d"
  "match_of (d\<lparr>db_claims := cs\<rparr>) = match_of d"
  "active_match (d\<lparr>db_submissions := s\<rparr>) = active_match d"
  "active_match (d\<lparr>db_players := ps\<rparr>) = active_match d"
  "active_match (d\<lparr>db_claims := cs\<rparr>) = active_match d"
  by (simp_all add: match_of_def active_match_def fun_eq_iff)

lemma problem_frame [simp]:
  "problem_of (d\<lparr>db_submissions := s\<rparr>) = problem_of d"
  "problem_of (d\<lparr>db_matches := ms\<rparr>) = problem_of d"
  "problem_of (d\<lparr>db_players := ps\<rparr>) = problem_of d"
  "problem_of (d\<lparr>db_claims := cs\<rparr>) = problem_of d"
  by (simp_all add: problem_of_def fun_eq_iff)

lemma user_frame [simp]:
  "user_of (d\<lparr>db_submissions := s\<rparr>) = user_of d"
  "user_of (d\<lparr>db_matches := ms\<rparr>) = user_of d"
  "user_of (d\<lparr>db_players := ps\<rparr>) = user_of d"
  "user_of (d\<lparr>db_claims := cs\<rparr>) = user_of d"
  by (simp_all add: user_of_def fun_eq_iff)

lemma submission_frame [simp]:
  "submission_of (d\<lparr>db_matches := ms\<rparr>) = submission_of d"
  "submission_of (d\<lparr>db_players := ps\<rparr>) = submission_of d"
  "submission_of (d\<lparr>db_claims := cs\<rparr>) = submission_of d"
  by (simp_all add: submission_of_def fun_eq_iff)

lemma is_player_append [simp]:
  "is_player (d\<lparr>db_players := db_players d @ [p]\<rparr>) m u \<longleftrightarrow>
     is_player d m u \<or> mp_match_id p = m \<and> mp_user_id p = u"
  by (auto simp: is_player_def)

lemma ok_frame [simp]:
  "match_ok (d\<lparr>db_submissions := s\<rparr>) = match_ok d"
  "player_ok (d\<lparr>db_submissions := s\<rparr>) = player_ok d"
  "claims_ok (d\<lparr>db_submissions := s\<rparr>) = claims_ok d"
  "submission_ok (d\<lparr>db_submissions := s\<rparr>) = submission_ok d"
  "submission_ok (d\<lparr>db_matches := ms\<rparr>) = submission_ok d"
  "submission_ok (d\<lparr>db_claims := cs\<rparr>) = submission_ok d"
  "match_ok (d\<lparr>db_matches := ms\<rparr>) = match_ok d"
  "match_ok (d\<lparr>db_claims := cs\<rparr>) = match_ok d"
  "player_ok (d\<lparr>db_claims := cs\<rparr>) = player_ok d"
  by (auto simp: match_ok_def player_ok_def claims_ok_def submission_ok_def fun_eq_iff split: option.split)

lemma sync_frame [simp]:
  "db_users (sync_active_match_claims m m' d) = db_users d"
  "db_problems (sync_active_match_claims m m' d) = db_problems d"
  "db_matches (sync_active_match_claims m m' d) = db_matches d"
  "db_players (sync_active_match_claims m m' d) = db_players d"
  "db_submissions (sync_active_match_claims m m' d) = db_submissions d"
  by (simp_all add: sync_active_match_claims_def)

section \<open>Statements keep the invariant\<close>

text \<open>What an update of \<open>submissions\<close> may change without breaking the invariant.\<close>

definition keeps_identity :: "(submission_row \<Rightarrow> submission_row) \<Rightarrow> bool" where
  "keeps_identity f \<longleftrightarrow> (\<forall>r. s_id (f r) = s_id r \<and> s_match_id (f r) = s_match_id r \<and>
     s_player_id (f r) = s_player_id r \<and> s_request_id (f r) = s_request_id r)"

definition keeps_tokens :: "(submission_row \<Rightarrow> submission_row) \<Rightarrow> bool" where
  "keeps_tokens f \<longleftrightarrow> (\<forall>r. (s_attempt_token (f r) \<noteq> None \<longleftrightarrow> s_status (f r) = ''running'') \<and>
     (s_lease_until (f r) \<noteq> None \<longleftrightarrow> s_status (f r) = ''running''))"

lemma update_submissions_inv:
  assumes inv: "db_inv d" and u: "update_submissions P f d = Some d'" and k: "keeps_identity f"
    and t: "\<And>r. submission_ok d r \<Longrightarrow> P r \<Longrightarrow>
      (s_attempt_token (f r) \<noteq> None \<longleftrightarrow> s_status (f r) = ''running'') \<and>
      (s_lease_until (f r) \<noteq> None \<longleftrightarrow> s_status (f r) = ''running'')"
  shows "db_inv d'"
proof -
  note d' = update_submissions_SomeD [OF u]
  have ids: "map s_id (sql_update P f (db_submissions d)) = map s_id (db_submissions d)"
    "map (\<lambda>r. (s_player_id r, s_request_id r)) (sql_update P f (db_submissions d)) =
      map (\<lambda>r. (s_player_id r, s_request_id r)) (db_submissions d)"
    using k by (auto simp: keeps_identity_def intro!: map_sql_update)
  have ok: "submission_ok d (f r)" if "r \<in> set (db_submissions d)" "P r" for r
    using db_invD(2) [OF inv that(1)] t [OF _ that(2)] d'(2) [OF that] k
    by (simp add: submission_ok_def keeps_identity_def)
  show ?thesis
  proof (rule db_invI)
    show "keys_ok d'"
      using db_invD(1) [OF inv] by (simp add: d'(1) keys_ok_def ids)
    show "submission_ok d' r" if "r \<in> set (db_submissions d')" for r
      using that ok db_invD(2) [OF inv] by (auto simp: d'(1) in_sql_update)
    show "match_ok d' m" if "m \<in> set (db_matches d')" for m
      using that db_invD(3) [OF inv] by (simp add: d'(1))
    show "player_ok d' p" if "p \<in> set (db_players d')" for p
      using that db_invD(4) [OF inv] by (simp add: d'(1))
    show "claims_ok d'"
      using db_invD(5) [OF inv] by (simp add: d'(1))
  qed
qed

lemma update_submissions_inv_tokens [inv_intros]:
  assumes "db_inv d" "update_submissions P f d = Some d'" "keeps_identity f" "keeps_tokens f"
  shows "db_inv d'"
  using assms(4) by (intro update_submissions_inv [OF assms(1-3)]) (simp add: keeps_tokens_def)

lemma insert_submission_SomeD:
  assumes "insert_submission r d = Some d'"
  shows "d' = d\<lparr>db_submissions := db_submissions d @ [r]\<rparr>"
    and "\<forall>r'\<in>set (db_submissions d). s_id r' \<noteq> s_id r"
    and "\<forall>r'\<in>set (db_submissions d). \<not> (s_player_id r' = s_player_id r \<and> s_request_id r' = s_request_id r)"
    and "is_player d (s_match_id r) (s_player_id r)" "submission_checks r"
  using assms by (auto simp: insert_submission_def split: if_splits)

lemma insert_submission_inv [inv_intros]:
  assumes inv: "db_inv d" and i: "insert_submission r d = Some d'"
    and r: "s_status r = ''pending''" "s_attempt_token r = None" "s_lease_until r = None"
  shows "db_inv d'"
proof (rule db_invI)
  note d' = insert_submission_SomeD [OF i]
  show "keys_ok d'"
    using db_invD(1) [OF inv] d'(2,3) by (auto simp: d'(1) keys_ok_def)
  show "submission_ok d' x" if "x \<in> set (db_submissions d')" for x
    using that db_invD(2) [OF inv] d'(4,5) r by (auto simp: d'(1) submission_ok_def)
  show "match_ok d' m" if "m \<in> set (db_matches d')" for m
    using that db_invD(3) [OF inv] by (simp add: d'(1))
  show "player_ok d' p" if "p \<in> set (db_players d')" for p
    using that db_invD(4) [OF inv] by (simp add: d'(1))
  show "claims_ok d'"
    using db_invD(5) [OF inv] by (simp add: d'(1))
qed

lemma finish_match_SomeD:
  assumes "finish_match k w d = Some (d', True)"
  obtains m where "match_of d k = Some m" "m_status m = ''active''" "m_winner_id m = None"
    and "\<And>u. w = Some u \<Longrightarrow> is_player d k u"
    and "d' = d\<lparr>db_matches := sql_update (\<lambda>r. m_id r = k)
          (\<lambda>_. m\<lparr>m_status := ''finished'', m_winner_id := w\<rparr>) (db_matches d),
        db_claims := filter (\<lambda>c. am_match_id c \<noteq> k) (db_claims d)\<rparr>"
  using assms
  by (auto simp: finish_match_def sync_active_match_claims_def Let_def dest: match_ofD
      split: option.splits if_splits)

lemma finish_match_total:
  assumes "match_of d k = Some m" "m_status m = ''active''" "m_winner_id m = None"
    and "case w of None \<Rightarrow> True | Some u \<Rightarrow> is_player d k u"
  obtains d' where "finish_match k w d = Some (d', True)"
  using assms by (auto simp: finish_match_def Let_def)

lemma finish_match_False: "finish_match k w d = Some (d', False) \<Longrightarrow> d' = d"
  by (auto simp: finish_match_def Let_def split: option.splits if_splits)

lemma finish_match_match_of:
  assumes "finish_match k w d = Some (d', True)" "match_of d k = Some m"
  shows "match_of d' k' = (if k' = k then Some (m\<lparr>m_status := ''finished'', m_winner_id := w\<rparr>)
    else match_of d k')"
proof -
  from assms obtain m0 where m0: "match_of d k = Some m0"
    and d': "d' = d\<lparr>db_matches := sql_update (\<lambda>r. m_id r = k)
          (\<lambda>_. m0\<lparr>m_status := ''finished'', m_winner_id := w\<rparr>) (db_matches d),
        db_claims := filter (\<lambda>c. am_match_id c \<noteq> k) (db_claims d)\<rparr>"
    by (elim finish_match_SomeD)
  have [simp]: "m0 = m" using m0 assms(2) by simp
  have key: "m_id m = k" using assms(2) by (simp add: match_ofD)
  have "row_of m_id k' (sql_update (\<lambda>r. m_id r = k)
      (\<lambda>_. m\<lparr>m_status := ''finished'', m_winner_id := w\<rparr>) t) =
      map_option (\<lambda>r. if m_id r = k then m\<lparr>m_status := ''finished'', m_winner_id := w\<rparr> else r)
        (row_of m_id k' t)" for t
    using key by (induction t) (auto simp: sql_update_def)
  then show ?thesis
    using assms(2) by (auto simp: d' match_of_def option.map_comp o_def
        dest: row_of_key split: option.splits intro!: option.map_ident_strong)
qed

lemma finish_match_frame:
  assumes "finish_match k w d = Some (d', b)"
  shows "db_users d' = db_users d" "db_problems d' = db_problems d"
    "db_players d' = db_players d" "db_submissions d' = db_submissions d"
    "is_player d' = is_player d" "players_of d' = players_of d"
    "submission_of d' = submission_of d" "problem_of d' = problem_of d" "user_of d' = user_of d"
  using assms
  by (auto simp: finish_match_def Let_def is_player_def players_of_def submission_of_def
      problem_of_def user_of_def fun_eq_iff split: option.splits if_splits)

lemma finish_match_active:
  assumes "finish_match k w d = Some (d', True)"
  shows "active_match d' k' \<longleftrightarrow> active_match d k' \<and> k' \<noteq> k"
proof -
  obtain m where "match_of d k = Some m"
    using assms by (elim finish_match_SomeD)
  from finish_match_match_of [OF assms this] show ?thesis
    by (simp add: active_match_def)
qed

lemma finish_match_inv [inv_intros]:
  assumes inv: "db_inv d" and f: "finish_match k w d = Some (d', b)"
  shows "db_inv d'"
proof (cases b)
  case False
  with f inv show ?thesis by (auto dest: finish_match_False)
next
  case True
  with f have f': "finish_match k w d = Some (d', True)" by simp
  obtain m where m: "match_of d k = Some m" "m_status m = ''active''"
    and w: "\<And>u. w = Some u \<Longrightarrow> is_player d k u"
    and d': "d' = d\<lparr>db_matches := sql_update (\<lambda>r. m_id r = k)
          (\<lambda>_. m\<lparr>m_status := ''finished'', m_winner_id := w\<rparr>) (db_matches d),
        db_claims := filter (\<lambda>c. am_match_id c \<noteq> k) (db_claims d)\<rparr>"
    using f' by (elim finish_match_SomeD) blast
  have mk: "m_id m = k" using m by (simp add: match_ofD)
  note fr = finish_match_frame [OF f']
  have ids: "map m_id (db_matches d') = map m_id (db_matches d)"
    using mk by (auto simp: d' sql_update_def)
  show ?thesis
  proof (rule db_invI)
    show "keys_ok d'"
      using db_invD(1) [OF inv] ids by (simp add: d' keys_ok_def distinct_map_filter)
    show "submission_ok d' r" if "r \<in> set (db_submissions d')" for r
      using that db_invD(2) [OF inv] by (simp add: fr submission_ok_def)
    show "match_ok d' x" if "x \<in> set (db_matches d')" for x
    proof -
      have "match_ok d m" using inv m(1) by (rule match_ok_of)
      then have "match_ok d' (m\<lparr>m_status := ''finished'', m_winner_id := w\<rparr>)"
        using w mk by (auto simp: match_ok_def match_checks_def fr split: option.split)
      then show ?thesis
        using that db_invD(3) [OF inv] by (auto simp: d' in_sql_update)
    qed
    show "player_ok d' p" if "p \<in> set (db_players d')" for p
      using that db_invD(4) [OF inv] by (auto simp: fr player_ok_def finish_match_match_of [OF f' m(1)])
    have cl: "set (db_claims d') = {c \<in> set (db_claims d). am_match_id c \<noteq> k}"
      by (auto simp: d')
    show "claims_ok d'"
      using db_invD(5) [OF inv]
      unfolding claims_ok_def set_eq_iff image_iff cl fr
      by (simp add: finish_match_active [OF f'] del: split_paired_All split_paired_Ex) blast
  qed
qed

lemma insert_match_SomeD:
  assumes "insert_match m d = Some d'"
  shows "d' = d\<lparr>db_matches := db_matches d @ [m]\<rparr>" "match_of d (m_id m) = None"
    "problem_of d (m_problem_id m) \<noteq> None" "match_checks m"
    "match_of d' k = (if k = m_id m then Some m else match_of d k)"
proof -
  show d': "d' = d\<lparr>db_matches := db_matches d @ [m]\<rparr>" and n: "match_of d (m_id m) = None"
    and "problem_of d (m_problem_id m) \<noteq> None" "match_checks m"
    using assms by (auto simp: insert_match_def split: if_splits)
  have "match_of d' k = (case match_of d k of Some r \<Rightarrow> Some r | None \<Rightarrow> if m_id m = k then Some m else None)"
    by (simp add: d' match_of_def row_of_append split: option.split)
  then show "match_of d' k = (if k = m_id m then Some m else match_of d k)"
    using n by (auto split: option.split)
qed

lemma insert_match_inv [inv_intros]:
  assumes inv: "db_inv d" and i: "insert_match m d = Some d'" and w: "m_winner_id m = None"
  shows "db_inv d'"
proof (rule db_invI)
  note d' = insert_match_SomeD [OF i]
  have nop: "mp_match_id p \<noteq> m_id m" if "p \<in> set (db_players d)" for p
    using db_invD(4) [OF inv that] d'(2) by (auto simp: player_ok_def)
  show "keys_ok d'"
    using db_invD(1) [OF inv] d'(2) by (auto simp: d'(1) keys_ok_def match_of_def row_of_None_iff)
  show "submission_ok d' r" if "r \<in> set (db_submissions d')" for r
    using that db_invD(2) [OF inv] by (simp add: d'(1))
  show "match_ok d' x" if "x \<in> set (db_matches d')" for x
    using that db_invD(3) [OF inv] d'(3,4) w by (auto simp: d'(1) match_ok_def)
  show "player_ok d' p" if "p \<in> set (db_players d')" for p
    using that db_invD(4) [OF inv] by (auto simp: player_ok_def d'(5)) (auto simp: d'(1))
  have "active_match d' (mp_match_id p) = active_match d (mp_match_id p)" if "p \<in> set (db_players d)" for p
    using nop [OF that] by (simp add: active_match_def d'(5))
  then have "filter (\<lambda>p. active_match d' (mp_match_id p)) (db_players d) =
      filter (\<lambda>p. active_match d (mp_match_id p)) (db_players d)"
    by (intro filter_cong) auto
  then show "claims_ok d'"
    using db_invD(5) [OF inv] by (simp add: claims_ok_def d'(1) del: set_filter)
qed

lemma insert_player_InrD:
  assumes "insert_player p d = Inr d'"
  shows "db_matches d' = db_matches d" "db_submissions d' = db_submissions d"
    "db_users d' = db_users d" "db_problems d' = db_problems d"
    "db_players d' = db_players d @ [p]"
    "db_claims d' = db_claims d @ (if active_match d (mp_match_id p)
       then [\<lparr>am_user_id = mp_user_id p, am_match_id = mp_match_id p\<rparr>] else [])"
    "\<not> is_player d (mp_match_id p) (mp_user_id p)"
    "\<forall>q\<in>set (db_players d). \<not> (mp_match_id q = mp_match_id p \<and> mp_slot q = mp_slot p)"
    "0 < mp_slot p" "user_of d (mp_user_id p) \<noteq> None" "match_of d (mp_match_id p) \<noteq> None"
    "active_match d (mp_match_id p) \<longrightarrow> (\<forall>c\<in>set (db_claims d). am_user_id c \<noteq> mp_user_id p)"
  using assms
  by (auto simp: insert_player_def Let_def active_match_def split: if_splits option.splits)

lemma insert_player_inv [inv_intros]:
  assumes inv: "db_inv d" and i: "insert_player p d = Inr d'"
  shows "db_inv d'"
proof (rule db_invI)
  note d' = insert_player_InrD [OF i]
  have ip: "is_player d' m u \<longleftrightarrow> is_player d m u \<or> mp_match_id p = m \<and> mp_user_id p = u" for m u
    by (auto simp: is_player_def d'(5))
  have fr: "match_of d' = match_of d" "problem_of d' = problem_of d" "user_of d' = user_of d"
      "active_match d' = active_match d"
    by (simp_all add: match_of_def problem_of_def user_of_def active_match_def d' fun_eq_iff)
  show "keys_ok d'"
    using db_invD(1) [OF inv] d'(7,8,12) by (auto simp: d'(1-6) keys_ok_def is_player_def)
  show "submission_ok d' r" if "r \<in> set (db_submissions d')" for r
    using that db_invD(2) [OF inv] by (auto simp: d' submission_ok_def ip)
  show "match_ok d' x" if "x \<in> set (db_matches d')" for x
    using that db_invD(3) [OF inv, of x] by (auto simp: d' match_ok_def ip fr split: option.splits)
  show "player_ok d' x" if "x \<in> set (db_players d')" for x
    using that db_invD(4) [OF inv] d'(9-11) by (auto simp: d'(5) player_ok_def fr)
  show "claims_ok d'"
    using db_invD(5) [OF inv] by (auto simp: claims_ok_def fr d'(5,6))
qed

end
