(* ===== verification/Example.thy ===== *)
theory Example
  imports Invariants
begin

text \<open>
  A small database on which the witnesses of the properties evaluate: users 1, 2 and 3, one
  problem with two tests, the active match 100 between 1 and 2 with deadline 1000, the
  finished match 101 that 3 won against 1, and a submission of player 1 in each stage of its life.
\<close>

definition ex_user :: "uuid \<Rightarrow> user_row" where
  "ex_user i = \<lparr>u_id = i, u_email = ''a@b.c'', u_password_hash = None, u_display_name = ''a'', u_created_at = 0\<rparr>"

definition ex_test :: "string \<Rightarrow> string \<Rightarrow> json" where
  "ex_test i e = JObject [(''input'', JString i), (''expected'', JString e)]"

definition ex_problem :: problem_row where
  "ex_problem = \<lparr>p_id = 10, p_title = ''Two Sum'', p_statement = '''', p_constraints = '''',
     p_public_examples = [], p_test_cases = JArray [ex_test ''1'' ''2'', ex_test ''3'' ''4''], p_created_at = 0\<rparr>"

definition ex_match :: match_row where
  "ex_match = \<lparr>m_id = 100, m_problem_id = 10, m_status = ''active'', m_winner_id = None,
     m_deadline = 1000, m_created_at = 0\<rparr>"

definition ex_finished :: match_row where
  "ex_finished = \<lparr>m_id = 101, m_problem_id = 10, m_status = ''finished'', m_winner_id = Some 3,
     m_deadline = 10, m_created_at = 0\<rparr>"

definition ex_player :: "uuid \<Rightarrow> uuid \<Rightarrow> int \<Rightarrow> player_row" where
  "ex_player m u s = \<lparr>mp_match_id = m, mp_user_id = u, mp_slot = s\<rparr>"

definition ex_pending :: "uuid \<Rightarrow> submission_row" where
  "ex_pending i = \<lparr>s_id = i, s_match_id = 100, s_player_id = 1, s_request_id = i, s_language = ''python'',
     s_code = ''x'', s_status = ''pending'', s_result = None, s_failure_kind = None, s_tests_passed = 0,
     s_attempts = 0, s_attempt_token = None, s_lease_until = None, s_last_enqueued_at = None,
     s_created_at = 5, s_finished_at = None\<rparr>"

definition ex_running :: "uuid \<Rightarrow> submission_row" where
  "ex_running i = (ex_pending i)\<lparr>s_status := ''running'', s_attempts := 1, s_attempt_token := Some 77,
     s_lease_until := Some 60\<rparr>"

definition ex_completed :: "uuid \<Rightarrow> int \<Rightarrow> submission_row" where
  "ex_completed i n = (ex_pending i)\<lparr>s_status := ''completed'', s_attempts := 1, s_result := Some ''fail'',
     s_failure_kind := Some ''wrong_answer'', s_tests_passed := n, s_finished_at := Some 20\<rparr>"

definition ex_db :: "submission_row list \<Rightarrow> db" where
  "ex_db subs = \<lparr>db_users = [ex_user 1, ex_user 2, ex_user 3], db_problems = [ex_problem],
     db_matches = [ex_match, ex_finished],
     db_players = [ex_player 100 1 1, ex_player 100 2 2, ex_player 101 1 1, ex_player 101 3 2],
     db_claims = [\<lparr>am_user_id = 1, am_match_id = 100\<rparr>, \<lparr>am_user_id = 2, am_match_id = 100\<rparr>],
     db_submissions = subs\<rparr>"

lemma ex_db_inv: "db_inv (ex_db [ex_pending 1000, ex_running 1001, ex_completed 1002 1])"
  by code_simp

lemma ex_db_inv_empty: "db_inv (ex_db [])"
  by code_simp

text \<open>Identifier texts of the example: as many characters as the identifier says.\<close>

definition ex_uuid_lib :: uuid_lib where
  "ex_uuid_lib = \<lparr>uuid_string = (\<lambda>u. replicate (unat u) (CHR ''i'')),
     uuid_parse = (\<lambda>s. Some (of_nat (length s))), uuid_new_sha1 = (\<lambda>n s. of_nat (length s))\<rparr>"

lemma ex_uuid_lib_ok: "uuid_lib_ok ex_uuid_lib"
  by (simp add: uuid_lib_ok_def ex_uuid_lib_def)

end
