(* ===== verification/JudgeQueue.thy ===== *)
theory JudgeQueue
  imports Text
begin

text \<open>
  The Judge stream: \<open>internal/redisx/judge_queue.go\<close> with its \<open>finalize\<close> script, over the
  part of a Redis stream with one consumer group that the repository uses. The stream
  keeps its entries in order, split at the group's last-delivered position (\<open>st_old\<close>
  delivered, \<open>st_new\<close> not yet); the pending-entries list \<open>st_pel\<close> keeps who received a
  delivered entry and when, in entry order. A Go \<open>*redis.Client\<close> that is only compared
  with nil is a boolean.
\<close>

section \<open>The stream\<close>

datatype redis_value = RString string | RBytes string | ROther

type_synonym stream_message = "string \<times> (string \<times> redis_value) list"

record pel_entry =
  pe_id :: string
  pe_consumer :: string
  pe_delivered :: time

record stream =
  st_group :: bool
  st_old :: "stream_message list"
  st_new :: "stream_message list"
  st_pel :: "pel_entry list"

definition stream_ids :: "stream \<Rightarrow> string list" where
  "stream_ids q = map fst (st_old q @ st_new q)"

definition pel_ids :: "stream \<Rightarrow> string list" where
  "pel_ids q = map pe_id (st_pel q)"

definition xadd :: "string \<Rightarrow> (string \<times> redis_value) list \<Rightarrow> stream \<Rightarrow> stream" where
  "xadd eid fs q = q\<lparr>st_new := st_new q @ [(eid, fs)]\<rparr>"

definition xreadgroup :: "string \<Rightarrow> int \<Rightarrow> time \<Rightarrow> stream \<Rightarrow> stream_message list \<times> stream" where
  "xreadgroup consumer count now q =
     (let ms = take (nat count) (st_new q) in
      (ms, q\<lparr>st_old := st_old q @ ms, st_new := drop (nat count) (st_new q),
             st_pel := st_pel q @ map (\<lambda>m. \<lparr>pe_id = fst m, pe_consumer = consumer, pe_delivered = now\<rparr>) ms\<rparr>))"

definition xack :: "string \<Rightarrow> stream \<Rightarrow> int \<times> stream" where
  "xack eid q = (if eid \<in> set (pel_ids q) then 1 else 0,
     q\<lparr>st_pel := filter (\<lambda>p. pe_id p \<noteq> eid) (st_pel q)\<rparr>)"

definition xdel :: "string \<Rightarrow> stream \<Rightarrow> stream" where
  "xdel eid q = q\<lparr>st_old := filter (\<lambda>m. fst m \<noteq> eid) (st_old q),
                  st_new := filter (\<lambda>m. fst m \<noteq> eid) (st_new q)\<rparr>"

definition xrange :: "string \<Rightarrow> stream \<Rightarrow> stream_message list" where
  "xrange eid q = filter (\<lambda>m. fst m = eid) (st_old q @ st_new q)"

text \<open>
  \<open>XAUTOCLAIM\<close> walks the pending list, at most ten entries per requested one: an entry whose
  message was deleted leaves the list, one idle for less than the minimum is passed over,
  any other changes hands. Both of the first and last kind count towards the limit. The
  cursor is the entry at which the next call goes on, ''0-0'' at the end.
\<close>

fun autoclaim_scan ::
  "(string \<Rightarrow> bool) \<Rightarrow> string \<Rightarrow> time \<Rightarrow> time \<Rightarrow> nat \<Rightarrow> nat \<Rightarrow> pel_entry list
    \<Rightarrow> string list \<times> pel_entry list \<times> string" where
  "autoclaim_scan ex consumer now idle attempts count [] = ([], [], ''0-0'')"
| "autoclaim_scan ex consumer now idle attempts count (p # ps) =
     (if attempts = 0 \<or> count = 0 then ([], p # ps, pe_id p)
      else if \<not> ex (pe_id p) then
        (case autoclaim_scan ex consumer now idle (attempts - 1) (count - 1) ps of
           (ids, ps', next) \<Rightarrow> (ids, ps', next))
      else if now - pe_delivered p < idle then
        (case autoclaim_scan ex consumer now idle (attempts - 1) count ps of
           (ids, ps', next) \<Rightarrow> (ids, p # ps', next))
      else
        (case autoclaim_scan ex consumer now idle (attempts - 1) (count - 1) ps of
           (ids, ps', next) \<Rightarrow>
             (pe_id p # ids, p\<lparr>pe_consumer := consumer, pe_delivered := now\<rparr> # ps', next)))"

definition xautoclaim ::
  "string \<Rightarrow> time \<Rightarrow> string \<Rightarrow> int \<Rightarrow> time \<Rightarrow> stream \<Rightarrow> stream_message list \<times> string \<times> stream" where
  "xautoclaim consumer idle start count now q =
     (let before = (if start = ''0-0'' then [] else takeWhile (\<lambda>p. pe_id p \<noteq> start) (st_pel q));
          rest = (if start = ''0-0'' then st_pel q else dropWhile (\<lambda>p. pe_id p \<noteq> start) (st_pel q))
      in case autoclaim_scan (\<lambda>i. i \<in> set (stream_ids q)) consumer now idle (10 * nat count) (nat count) rest of
           (ids, ps, next) \<Rightarrow>
             (filter (\<lambda>m. fst m \<in> set ids) (st_old q @ st_new q), next, q\<lparr>st_pel := before @ ps\<rparr>))"

section \<open>The Go client\<close>

record judge_job =
  jj_entry_id :: string
  jj_submission_id :: uuid
  jj_decode_err :: "string option"

definition judge_job_schema_version :: string where
  "judge_job_schema_version = ''1''"

text \<open>\<open>judgeJobField\<close>: the field as text, \<open>None\<close> when it is absent or no text.\<close>

definition judge_job_field :: "(string \<times> redis_value) list \<Rightarrow> string \<Rightarrow> string option" where
  "judge_job_field fs key =
     (case map_of fs key of
        Some (RString v) \<Rightarrow> Some v
      | Some (RBytes v) \<Rightarrow> Some v
      | _ \<Rightarrow> None)"

definition decode_judge_job :: "uuid_lib \<Rightarrow> stream_message \<Rightarrow> judge_job" where
  "decode_judge_job U m =
     (let job = \<lparr>jj_entry_id = fst m, jj_submission_id = nil_uuid, jj_decode_err = None\<rparr> in
      if length (snd m) \<noteq> 2 then job\<lparr>jj_decode_err := Some ''invalid judge job fields''\<rparr>
      else if judge_job_field (snd m) ''schema_version'' \<noteq> Some judge_job_schema_version
      then job\<lparr>jj_decode_err := Some ''invalid judge job schema version''\<rparr>
      else case judge_job_field (snd m) ''submission_id'' of
          None \<Rightarrow> job\<lparr>jj_decode_err := Some ''invalid judge job submission ID''\<rparr>
        | Some raw \<Rightarrow>
            (case uuid_parse U raw of
               None \<Rightarrow> job\<lparr>jj_decode_err := Some ''invalid judge job submission ID''\<rparr>
             | Some sid \<Rightarrow>
                 if sid = nil_uuid then job\<lparr>jj_decode_err := Some ''invalid judge job submission ID''\<rparr>
                 else job\<lparr>jj_submission_id := sid\<rparr>))"

text \<open>
  \<open>EnsureGroup\<close>: creating a group that exists answers \<open>BUSYGROUP\<close>, which is no error.
\<close>

definition ensure_group :: "bool \<Rightarrow> io \<Rightarrow> stream \<Rightarrow> string option \<times> stream" where
  "ensure_group client x q =
     (if \<not> client then (Some ''create judge group: missing Redis client'', q)
      else (if x = IoOk then None else Some ''create judge group'',
            if io_applied x then q\<lparr>st_group := True\<rparr> else q))"

text \<open>\<open>Enqueue\<close>; \<open>eid\<close> is the entry identifier Redis assigns.\<close>

definition judge_enqueue ::
  "uuid_lib \<Rightarrow> bool \<Rightarrow> io \<Rightarrow> string \<Rightarrow> uuid \<Rightarrow> stream \<Rightarrow> (string + string) \<times> stream" where
  "judge_enqueue U client x eid sid q =
     (if \<not> client then (Inl ''enqueue judge job: missing Redis client'', q)
      else if sid = nil_uuid then (Inl ''enqueue judge job: missing submission ID'', q)
      else (if x = IoOk then Inr eid else Inl ''enqueue judge job'',
            if io_applied x
            then xadd eid [(''schema_version'', RString judge_job_schema_version),
                           (''submission_id'', RString (uuid_string U sid))] q
            else q))"

text \<open>
  \<open>Read\<close>, on the queue as it is when the (blocking) read returns. A context cancelled while the read was under way makes it return an error although
  Redis has already delivered the entries.
\<close>

definition judge_read ::
  "uuid_lib \<Rightarrow> bool \<Rightarrow> io \<Rightarrow> bool \<Rightarrow> time \<Rightarrow> string \<Rightarrow> int \<Rightarrow> int \<Rightarrow> stream
    \<Rightarrow> (string + judge_job list) \<times> stream" where
  "judge_read U client x ctx_done now consumer count block q =
     (if \<not> client then (Inl ''read judge jobs: missing Redis client'', q)
      else if consumer = '''' \<or> count \<le> 0 \<or> block < 0 then (Inl ''read judge jobs: invalid read arguments'', q)
      else if \<not> st_group q then (Inl ''read judge jobs'', q)
      else if x = IoErr then (Inl ''read judge jobs'', q)
      else case xreadgroup consumer count now q of (ms, q') \<Rightarrow>
        (if x = IoLost then Inl ''read judge jobs''
         else if ctx_done then Inl ''context canceled''
         else Inr (map (decode_judge_job U) ms), q'))"

definition reclaim_idle ::
  "uuid_lib \<Rightarrow> bool \<Rightarrow> io \<Rightarrow> time \<Rightarrow> string \<Rightarrow> time \<Rightarrow> string \<Rightarrow> int \<Rightarrow> stream
    \<Rightarrow> (string + judge_job list \<times> string) \<times> stream" where
  "reclaim_idle U client x now consumer min_idle start count q =
     (if \<not> client then (Inl ''reclaim idle judge jobs: missing Redis client'', q)
      else if consumer = '''' \<or> min_idle < 0 \<or> start = '''' \<or> count \<le> 0
      then (Inl ''reclaim idle judge jobs: invalid arguments'', q)
      else if \<not> st_group q \<or> x = IoErr then (Inl ''reclaim idle judge jobs'', q)
      else case xautoclaim consumer min_idle start count now q of (ms, next, q') \<Rightarrow>
        (if x = IoLost then Inl ''reclaim idle judge jobs''
         else Inr (map (decode_judge_job U) ms, if next = '''' then ''0-0'' else next), q'))"

text \<open>The Lua script of \<open>Finalize\<close>: acknowledge and delete in one step.\<close>

definition finalize_script :: "string \<Rightarrow> stream \<Rightarrow> int \<times> stream" where
  "finalize_script eid q =
     (case xack eid q of (acknowledged, q1) \<Rightarrow>
        if acknowledged = 0 then (if xrange eid q1 = [] then 1 else 0, q1)
        else (1, xdel eid q1))"

definition judge_finalize :: "bool \<Rightarrow> io \<Rightarrow> string \<Rightarrow> stream \<Rightarrow> string option \<times> stream" where
  "judge_finalize client x eid q =
     (if \<not> client then (Some ''finalize judge job: missing Redis client'', q)
      else if eid = '''' then (Some ''finalize judge job: missing entry ID'', q)
      else if x = IoErr then (Some ''finalize judge job'', q)
      else case finalize_script eid q of (finalized, q') \<Rightarrow>
        (if x = IoLost then Some ''finalize judge job''
         else if finalized \<noteq> 1 then Some ''finalize judge job: entry was not pending'' else None, q'))"

section \<open>No entry is lost\<close>

text \<open>
  Every entry has one identifier, and the delivered entries still in the stream are exactly
  the pending ones: whatever is in the stream will be delivered or can be reclaimed.
\<close>

definition stream_ok :: "stream \<Rightarrow> bool" where
  "stream_ok q \<longleftrightarrow> distinct (stream_ids q) \<and> distinct (pel_ids q) \<and>
     set (pel_ids q) = fst ` set (st_old q)"

lemma stream_okD:
  assumes "stream_ok q"
  shows "distinct (map fst (st_old q))" "distinct (map fst (st_new q))"
    "fst ` set (st_old q) \<inter> fst ` set (st_new q) = {}" "distinct (pel_ids q)"
    "set (pel_ids q) = fst ` set (st_old q)"
  using assms by (auto simp: stream_ok_def stream_ids_def)

lemma xadd_ok: "stream_ok q \<Longrightarrow> eid \<notin> set (stream_ids q) \<Longrightarrow> stream_ok (xadd eid f q)"
  by (auto simp: stream_ok_def stream_ids_def xadd_def pel_ids_def)

lemma xreadgroup_ok:
  assumes "stream_ok q" "xreadgroup c n now q = (ms, q')"
  shows "stream_ok q'"
proof -
  have q': "q' = q\<lparr>st_old := st_old q @ ms, st_new := drop (nat n) (st_new q),
       st_pel := st_pel q @ map (\<lambda>m. \<lparr>pe_id = fst m, pe_consumer = c, pe_delivered = now\<rparr>) ms\<rparr>"
    and ms: "ms = take (nat n) (st_new q)"
    using assms(2) by (auto simp: xreadgroup_def Let_def)
  have ids: "stream_ids q' = stream_ids q"
    unfolding stream_ids_def q' ms by (simp flip: map_append)
  have pel: "pel_ids q' = pel_ids q @ map fst ms"
    by (simp add: q' pel_ids_def o_def)
  note k = stream_okD [OF assms(1)]
  have "distinct (map fst ms)" "fst ` set ms \<subseteq> fst ` set (st_new q)"
    using k(2) by (auto simp: ms take_map [symmetric] dest: in_set_takeD)
  then have "distinct (pel_ids q')"
    using k(3-5) by (auto simp: pel)
  moreover have "set (pel_ids q') = fst ` set (st_old q')"
    unfolding pel using k(5) by (simp add: q' image_Un)
  ultimately show ?thesis
    using assms(1) ids by (simp add: stream_ok_def)
qed

lemma finalize_script_cases:
  assumes "stream_ok q"
  shows "finalize_script eid q =
    (if eid \<in> set (pel_ids q)
     then (1, xdel eid (q\<lparr>st_pel := filter (\<lambda>p. pe_id p \<noteq> eid) (st_pel q)\<rparr>))
     else (if eid \<in> set (stream_ids q) then 0 else 1, q))"
proof -
  have "filter (\<lambda>p. pe_id p \<noteq> eid) (st_pel q) = st_pel q" if "eid \<notin> set (pel_ids q)"
    using that by (auto simp: pel_ids_def filter_id_conv)
  then show ?thesis
    by (auto simp: finalize_script_def xack_def xrange_def stream_ids_def filter_empty_conv)
qed

lemma finalize_script_ok:
  assumes "stream_ok q" "finalize_script eid q = (n, q')"
  shows "stream_ok q'"
proof (cases "eid \<in> set (pel_ids q)")
  case False
  with assms show ?thesis by (auto simp: finalize_script_cases)
next
  case True
  let ?q = "xdel eid (q\<lparr>st_pel := filter (\<lambda>p. pe_id p \<noteq> eid) (st_pel q)\<rparr>)"
  note k = stream_okD [OF assms(1)]
  have ids: "stream_ids ?q = filter (\<lambda>i. i \<noteq> eid) (stream_ids q)"
    by (simp add: stream_ids_def xdel_def filter_map o_def)
  have pel: "pel_ids ?q = filter (\<lambda>i. i \<noteq> eid) (pel_ids q)"
    by (simp add: pel_ids_def xdel_def filter_map o_def)
  have "set (pel_ids ?q) = fst ` set (st_old ?q)"
    unfolding pel using k(5) by (auto simp: xdel_def)
  then have "stream_ok ?q"
    using assms(1) by (simp add: stream_ok_def ids pel)
  with True assms show ?thesis by (auto simp: finalize_script_cases)
qed

lemma autoclaim_scan_ids:
  assumes "autoclaim_scan ex c now idle a n ps = (ids, ps', next)" "\<And>p. p \<in> set ps \<Longrightarrow> ex (pe_id p)"
  shows "map pe_id ps' = map pe_id ps" "set ids \<subseteq> pe_id ` set ps"
  using assms
  by (induction ex c now idle a n ps arbitrary: ids ps' "next" rule: autoclaim_scan.induct)
    (fastforce split: if_splits prod.splits)+

text \<open>An entry idle for long enough is claimed whenever the batch has room for it.\<close>

lemma autoclaim_scan_claims:
  assumes "autoclaim_scan ex c now idle a n ps = (ids, ps', next)"
    and "p \<in> set ps" "ex (pe_id p)" "idle \<le> now - pe_delivered p"
    and "length ps \<le> a" "length ps \<le> n"
  shows "pe_id p \<in> set ids"
  using assms
  by (induction ex c now idle a n ps arbitrary: ids ps' "next" rule: autoclaim_scan.induct)
    (fastforce split: if_splits prod.splits)+

lemma xautoclaim_ok:
  assumes "stream_ok q" "xautoclaim c idle start n now q = (ms, next, q')"
  shows "stream_ok q'" "st_old q' = st_old q" "st_new q' = st_new q" "set ms \<subseteq> set (st_old q)"
proof -
  let ?before = "if start = ''0-0'' then [] else takeWhile (\<lambda>p. pe_id p \<noteq> start) (st_pel q)"
  let ?rest = "if start = ''0-0'' then st_pel q else dropWhile (\<lambda>p. pe_id p \<noteq> start) (st_pel q)"
  obtain ids ps where scan: "autoclaim_scan (\<lambda>i. i \<in> set (stream_ids q)) c now idle (10 * nat n) (nat n) ?rest
      = (ids, ps, next)" and ms: "ms = filter (\<lambda>m. fst m \<in> set ids) (st_old q @ st_new q)"
    and q': "q' = q\<lparr>st_pel := ?before @ ps\<rparr>"
    using assms(2) by (auto simp: xautoclaim_def Let_def split: prod.splits if_splits)
  note k = stream_okD [OF assms(1)]
  have sub: "set ?rest \<subseteq> set (st_pel q)"
    by (auto dest: set_dropWhileD)
  have old: "pe_id ` set (st_pel q) = fst ` set (st_old q)"
    using k(5) by (simp add: pel_ids_def)
  have ex: "pe_id p \<in> set (stream_ids q)" if "p \<in> set ?rest" for p
    using that sub old by (force simp: stream_ids_def)
  note s = autoclaim_scan_ids [OF scan, OF ex]
  have "map pe_id (?before @ ps) = map pe_id (?before @ ?rest)"
    using s(1) by simp
  also have "?before @ ?rest = st_pel q"
    by simp
  finally have "pel_ids q' = pel_ids q"
    by (simp add: q' pel_ids_def)
  then show "stream_ok q'"
    using assms(1) by (simp add: stream_ok_def stream_ids_def q')
  show "st_old q' = st_old q" "st_new q' = st_new q" by (simp_all add: q')
  have "set ids \<subseteq> fst ` set (st_old q)"
    using s(2) sub old by blast
  then show "set ms \<subseteq> set (st_old q)"
    using k(3) by (auto simp: ms)
qed

section \<open>Properties\<close>

text \<open>
  Every operation of the Judge queue keeps the stream consistent, whatever the
  outcome of the Redis call: entries keep distinct identifiers and the delivered entries
  still in the stream are exactly the pending ones, so that no entry is ever delivered and
  then out of reach of a reclaim. Redis assigns identifiers that are not in use.
\<close>

theorem judge_queue_keeps_stream_ok:
  assumes "stream_ok q" and "eid \<notin> set (stream_ids q)"
  shows "stream_ok (snd (ensure_group c x q))
    \<and> stream_ok (snd (judge_enqueue U c x eid sid q))
    \<and> stream_ok (snd (judge_read U c x cancelled now consumer count block q))
    \<and> stream_ok (snd (reclaim_idle U c x now consumer idle start count q))
    \<and> stream_ok (snd (judge_finalize c x entry q))"
proof (intro conjI)
  show "stream_ok (snd (ensure_group c x q))"
    using assms(1) by (auto simp: ensure_group_def stream_ok_def stream_ids_def pel_ids_def)
  show "stream_ok (snd (judge_enqueue U c x eid sid q))"
    using xadd_ok [OF assms] assms(1) by (simp add: judge_enqueue_def)
  show "stream_ok (snd (judge_read U c x cancelled now consumer count block q))"
    using xreadgroup_ok [OF assms(1)] assms(1) by (auto simp: judge_read_def split: prod.split)
  show "stream_ok (snd (reclaim_idle U c x now consumer idle start count q))"
    using xautoclaim_ok(1) [OF assms(1)] assms(1) by (auto simp: reclaim_idle_def split: prod.split)
  show "stream_ok (snd (judge_finalize c x entry q))"
    using finalize_script_ok [OF assms(1)] assms(1) by (auto simp: judge_finalize_def split: prod.split)
qed

definition ex_queue :: stream where
  "ex_queue = \<lparr>st_group = True, st_old = [(''a'', [])], st_new = [(''b'', [])],
     st_pel = [\<lparr>pe_id = ''a'', pe_consumer = ''w'', pe_delivered = 40\<rparr>]\<rparr>"

theorem judge_queue_keeps_stream_ok_witness:
  "stream_ok (snd (judge_finalize True IoLost ''a'' ex_queue))"
proof -
  have "stream_ok ex_queue" "''c'' \<notin> set (stream_ids ex_queue)" by code_simp+
  from judge_queue_keeps_stream_ok [OF this] show ?thesis by blast
qed

text \<open>
  What is enqueued is what is read: an enqueued job is delivered to the next
  reader after the entries before it, with its entry identifier and its submission
  identifier and no decode error, and becomes pending.
\<close>

theorem enqueue_then_read:
  assumes "uuid_lib_ok U" and "sid \<noteq> nil_uuid" and "st_group q" and "st_new q = []"
    and "consumer \<noteq> ''''" "0 < count" "0 \<le> block"
  shows "judge_enqueue U True IoOk eid sid q = (Inr eid, q') \<longrightarrow>
     fst (judge_read U True IoOk False now consumer count block q') =
       Inr [\<lparr>jj_entry_id = eid, jj_submission_id = sid, jj_decode_err = None\<rparr>]
     \<and> eid \<in> set (pel_ids (snd (judge_read U True IoOk False now consumer count block q')))"
proof -
  have c: "nat count = Suc (nat (count - 1))" using assms(6) by simp
  show ?thesis
    using assms c
    by (auto simp: judge_enqueue_def judge_read_def xadd_def xreadgroup_def Let_def pel_ids_def
        decode_judge_job_def judge_job_field_def uuid_lib_ok_def)
qed

definition echo_uuid_lib :: uuid_lib where
  "echo_uuid_lib = \<lparr>uuid_string = (\<lambda>u. replicate (unat u) (CHR ''i'')),
     uuid_parse = (\<lambda>s. Some (of_nat (length s))), uuid_new_sha1 = (\<lambda>n s. n)\<rparr>"

theorem enqueue_then_read_witness:
  "fst (judge_read echo_uuid_lib True IoOk False 5 ''w'' 1 0
      (snd (judge_enqueue echo_uuid_lib True IoOk ''c'' 3 (ex_queue\<lparr>st_new := []\<rparr>)))) =
    Inr [\<lparr>jj_entry_id = ''c'', jj_submission_id = 3, jj_decode_err = None\<rparr>]"
proof -
  let ?q = "ex_queue\<lparr>st_new := []\<rparr>"
  have u: "uuid_lib_ok echo_uuid_lib" by (simp add: uuid_lib_ok_def echo_uuid_lib_def)
  have h: "(3::uuid) \<noteq> nil_uuid" "st_group ?q" "st_new ?q = []" "''w'' \<noteq> ''''" "(0::int) < 1" "(0::int) \<le> 0"
    by (simp_all add: nil_uuid_def ex_queue_def)
  have "fst (judge_enqueue echo_uuid_lib True IoOk ''c'' 3 ?q) = Inr ''c''"
    by (simp add: judge_enqueue_def nil_uuid_def)
  then have "judge_enqueue echo_uuid_lib True IoOk ''c'' 3 ?q =
      (Inr ''c'', snd (judge_enqueue echo_uuid_lib True IoOk ''c'' 3 ?q))"
    by (simp add: prod_eq_iff)
  with enqueue_then_read [OF u h] show ?thesis by blast
qed

lemma sorted_ids_filter:
  assumes "stream_ok q" "xautoclaim c idle ''0-0'' n now q = (ms, next, q')"
    and "length (st_pel q) \<le> nat n" "p \<in> set (st_pel q)" "idle \<le> now - pe_delivered p"
  shows "\<exists>m\<in>set ms. fst m = pe_id p"
proof -
  obtain ids ps where scan: "autoclaim_scan (\<lambda>i. i \<in> set (stream_ids q)) c now idle (10 * nat n) (nat n) (st_pel q)
      = (ids, ps, next)" and ms: "ms = filter (\<lambda>m. fst m \<in> set ids) (st_old q @ st_new q)"
    using assms(2) by (auto simp: xautoclaim_def Let_def split: prod.splits)
  have "pe_id p \<in> fst ` set (st_old q)"
    using stream_okD(5) [OF assms(1)] assms(4) by (auto simp: pel_ids_def)
  then obtain m where m: "m \<in> set (st_old q)" "fst m = pe_id p" by force
  have "pe_id p \<in> set (stream_ids q)"
    using m by (force simp: stream_ids_def)
  then have "pe_id p \<in> set ids"
    using autoclaim_scan_claims [OF scan assms(4) _ assms(5)] assms(3) by simp
  with m ms show ?thesis by auto
qed

text \<open>
  An abandoned job is recovered: every pending entry that has been idle for the
  minimum is handed out by a sweep that starts at the beginning with room for the pending
  list, whichever consumer it was delivered to; and a sweep hands out pending entries only.
\<close>

theorem reclaim_idle_recovers:
  assumes "stream_ok q" and "reclaim_idle U True IoOk now consumer idle ''0-0'' count q = (Inr (jobs, next), q')"
    and "int (length (st_pel q)) \<le> count"
  shows "(\<forall>p\<in>set (st_pel q). idle \<le> now - pe_delivered p \<longrightarrow> pe_id p \<in> jj_entry_id ` set jobs)
    \<and> jj_entry_id ` set jobs \<subseteq> set (pel_ids q)"
proof -
  obtain ms nx q1 where x: "xautoclaim consumer idle ''0-0'' count now q = (ms, nx, q1)"
    by (rule prod_cases3)
  have jobs: "jobs = map (decode_judge_job U) ms"
    using assms(2) x by (auto simp: reclaim_idle_def split: if_splits)
  have eid: "jj_entry_id (decode_judge_job U m) = fst m" for m
    by (auto simp: decode_judge_job_def Let_def split: option.split)
  have "set ms \<subseteq> set (st_old q)"
    using xautoclaim_ok(4) [OF assms(1) x] .
  then have "jj_entry_id ` set jobs \<subseteq> set (pel_ids q)"
    using stream_okD(5) [OF assms(1)] by (force simp: jobs eid)
  moreover have "pe_id p \<in> jj_entry_id ` set jobs" if "p \<in> set (st_pel q)" "idle \<le> now - pe_delivered p" for p
  proof -
    have "length (st_pel q) \<le> nat count" using assms(3) by simp
    from sorted_ids_filter [OF assms(1) x this that] obtain m where "m \<in> set ms" "fst m = pe_id p" by blast
    then show ?thesis by (force simp: jobs image_image eid)
  qed
  ultimately show ?thesis by blast
qed

theorem reclaim_idle_recovers_witness:
  "\<exists>jobs next q'. reclaim_idle echo_uuid_lib True IoOk 100 ''r'' 60 ''0-0'' 10 ex_queue = (Inr (jobs, next), q')
     \<and> ''a'' \<in> jj_entry_id ` set jobs"
proof -
  have ok: "stream_ok ex_queue" "int (length (st_pel ex_queue)) \<le> 10" by code_simp+
  have "case fst (reclaim_idle echo_uuid_lib True IoOk 100 ''r'' 60 ''0-0'' 10 ex_queue) of Inl _ \<Rightarrow> False | Inr _ \<Rightarrow> True"
    by code_simp
  then obtain jobs nx q' where run: "reclaim_idle echo_uuid_lib True IoOk 100 ''r'' 60 ''0-0'' 10 ex_queue = (Inr (jobs, nx), q')"
    by (cases "reclaim_idle echo_uuid_lib True IoOk 100 ''r'' 60 ''0-0'' 10 ex_queue") (auto split: sum.splits)
  have p: "\<lparr>pe_id = ''a'', pe_consumer = ''w'', pe_delivered = 40\<rparr> \<in> set (st_pel ex_queue)"
    by (simp add: ex_queue_def)
  from conjunct1 [OF reclaim_idle_recovers [OF ok(1) run ok(2)]] p have "''a'' \<in> jj_entry_id ` set jobs"
    by fastforce
  with run show ?thesis by blast
qed

end
