(* ===== verification/Submission.thy ===== *)
theory Submission
  imports Example JudgeQueue
begin

text \<open>
  Admission and dispatch of submissions: \<open>internal/submission/service.go\<close> (\<open>Accept\<close>,
  \<open>findRequest\<close>, \<open>Request.valid\<close>) and \<open>internal/submission/dispatch.go\<close> (\<open>Dispatcher\<close>). Each
  transaction is one function from the database to a result and the database it leaves;
  the oracle gives the outcome of each statement. The Go interface \<open>JobEnqueuer\<close> is the
  locale \<open>job_enqueuer\<close>, interpreted on the Judge stream.
\<close>

section \<open>Accepting a submission\<close>

record request =
  rq_player_id :: uuid
  rq_match_id :: uuid
  rq_request_id :: uuid
  rq_language :: string
  rq_code :: string

datatype accept_call = AcBegin | AcLockRequest | AcFindRequest | AcCommitFound
  | AcLockMatch | AcVerifyPlayer | AcInsert | AcCommit

datatype submit_error = ErrInvalidRequest | ErrMatchNotFound | ErrNotMatchPlayer
  | ErrMatchNotActive | ErrDeadlinePassed | ErrIdempotencyConflict | ErrAccept accept_call

definition request_valid :: "request \<Rightarrow> bool" where
  "request_valid r \<longleftrightarrow>
     \<not> (rq_player_id r = nil_uuid \<or> rq_match_id r = nil_uuid \<or> rq_request_id r = nil_uuid \<or> rq_code r = '''')
     \<and> rq_language r \<in> set [''python'', ''cpp'', ''java'']"

text \<open>\<open>findRequest\<close>: the identifier (nil for a row with other contents) and whether a row exists.\<close>

definition find_request :: "request \<Rightarrow> db \<Rightarrow> uuid \<times> bool" where
  "find_request r d =
     (case row_of (\<lambda>s. (s_player_id s, s_request_id s)) (rq_player_id r, rq_request_id r) (db_submissions d) of
        None \<Rightarrow> (nil_uuid, False)
      | Some s \<Rightarrow>
          if s_match_id s \<noteq> rq_match_id r \<or> s_language s \<noteq> rq_language r \<or> s_code s \<noteq> rq_code r
          then (nil_uuid, True) else (s_id s, True))"

text \<open>The row \<open>INSERT INTO submissions\<close> writes: the given columns and the defaults of the others.\<close>

definition new_submission :: "uuid \<Rightarrow> time \<Rightarrow> request \<Rightarrow> submission_row" where
  "new_submission fresh created r =
     \<lparr>s_id = fresh, s_match_id = rq_match_id r, s_player_id = rq_player_id r,
      s_request_id = rq_request_id r, s_language = rq_language r, s_code = rq_code r,
      s_status = ''pending'', s_result = None, s_failure_kind = None, s_tests_passed = 0,
      s_attempts = 0, s_attempt_token = None, s_lease_until = None, s_last_enqueued_at = None,
      s_created_at = created, s_finished_at = None\<rparr>"

text \<open>
  The transaction of \<open>Accept\<close>. \<open>now\<close> is \<open>clock_timestamp()\<close> under the match lock, \<open>created\<close>
  the start of the transaction (\<open>now()\<close>), \<open>fresh\<close> the generated identifier. The result says
  whether the row is new.
\<close>

definition accept_tx ::
  "(accept_call \<Rightarrow> io) \<Rightarrow> time \<Rightarrow> time \<Rightarrow> uuid \<Rightarrow> request \<Rightarrow> db \<Rightarrow> (submit_error + bool \<times> uuid) \<times> db" where
  "accept_tx ext now created fresh r d =
     (if ext AcBegin \<noteq> IoOk then (Inl (ErrAccept AcBegin), d)
      else if ext AcLockRequest \<noteq> IoOk then (Inl (ErrAccept AcLockRequest), d)
      else if ext AcFindRequest \<noteq> IoOk then (Inl (ErrAccept AcFindRequest), d)
      else case find_request r d of (sid, found) \<Rightarrow>
        if found then
          (if sid = nil_uuid then (Inl ErrIdempotencyConflict, d)
           else if ext AcCommitFound \<noteq> IoOk then (Inl (ErrAccept AcCommitFound), d)
           else (Inr (False, sid), d))
        else if ext AcLockMatch \<noteq> IoOk then (Inl (ErrAccept AcLockMatch), d)
        else case match_of d (rq_match_id r) of
            None \<Rightarrow> (Inl ErrMatchNotFound, d)
          | Some m \<Rightarrow>
              if ext AcVerifyPlayer \<noteq> IoOk then (Inl (ErrAccept AcVerifyPlayer), d)
              else if \<not> is_player d (rq_match_id r) (rq_player_id r) then (Inl ErrNotMatchPlayer, d)
              else if m_status m \<noteq> ''active'' then (Inl ErrMatchNotActive, d)
              else if \<not> now < m_deadline m then (Inl ErrDeadlinePassed, d)
              else if ext AcInsert \<noteq> IoOk then (Inl (ErrAccept AcInsert), d)
              else case insert_submission (new_submission fresh created r) d of
                  None \<Rightarrow> (Inl (ErrAccept AcInsert), d)
                | Some d' \<Rightarrow>
                    (if ext AcCommit = IoOk then Inr (True, fresh) else Inl (ErrAccept AcCommit),
                     commit_db (ext AcCommit) d d'))"

text \<open>
  \<open>Accept\<close>: validation, the transaction and, for a new row, the immediate dispatch (when the
  service has a dispatcher), whose error is ignored.
\<close>

definition accept ::
  "bool \<Rightarrow> (uuid \<Rightarrow> db \<times> 'q \<Rightarrow> string option \<times> db \<times> 'q) option \<Rightarrow> (accept_call \<Rightarrow> io) \<Rightarrow> time \<Rightarrow> time
    \<Rightarrow> uuid \<Rightarrow> request \<Rightarrow> db \<times> 'q \<Rightarrow> (submit_error + uuid) \<times> db \<times> 'q" where
  "accept has_db dispatcher ext now created fresh r w =
     (if \<not> has_db \<or> \<not> request_valid r then (Inl ErrInvalidRequest, w)
      else case accept_tx ext now created fresh r (fst w) of (res, d) \<Rightarrow>
        (case res of
           Inl e \<Rightarrow> (Inl e, d, snd w)
         | Inr (new, sid) \<Rightarrow>
             (case dispatcher of
                Some dispatch \<Rightarrow> if new then (Inr sid, snd (dispatch sid (d, snd w))) else (Inr sid, d, snd w)
              | None \<Rightarrow> (Inr sid, d, snd w))))"

section \<open>Dispatching\<close>

definition default_dispatch_batch_size :: int where
  "default_dispatch_batch_size = 32"

record dispatcher =
  di_db :: bool
  di_queue :: bool
  di_stale_after :: int
  di_batch_size :: int

definition new_dispatcher :: "bool \<Rightarrow> bool \<Rightarrow> int \<Rightarrow> int \<Rightarrow> string + dispatcher" where
  "new_dispatcher has_db has_queue stale_after batch_size =
     (if \<not> has_db \<or> \<not> has_queue then Inl ''initialize submission dispatcher: missing dependency''
      else if stale_after \<le> 0 then Inl ''initialize submission dispatcher: stale interval must be positive''
      else if batch_size \<le> 0 then Inl ''initialize submission dispatcher: batch size must be positive''
      else Inr \<lparr>di_db = has_db, di_queue = has_queue, di_stale_after = stale_after, di_batch_size = batch_size\<rparr>)"

text \<open>\<open>UPDATE submissions SET last_enqueued_at = clock_timestamp() WHERE id = $1 AND status = 'pending'\<close>.\<close>

definition mark_enqueued :: "time \<Rightarrow> uuid \<Rightarrow> db \<Rightarrow> db option" where
  "mark_enqueued now sid d =
     update_submissions (\<lambda>r. s_id r = sid \<and> s_status r = ''pending'') (\<lambda>r. r\<lparr>s_last_enqueued_at := Some now\<rparr>) d"

definition dispatch ::
  "dispatcher \<Rightarrow> (uuid \<Rightarrow> 'q \<Rightarrow> (string + string) \<times> 'q) \<Rightarrow> io \<Rightarrow> time \<Rightarrow> uuid \<Rightarrow> db \<times> 'q
    \<Rightarrow> string option \<times> db \<times> 'q" where
  "dispatch D enqueue mark now sid w =
     (if \<not> di_db D \<or> \<not> di_queue D then (Some ''dispatch submission: missing dependency'', w)
      else if sid = nil_uuid then (Some ''dispatch submission: missing submission ID'', w)
      else case enqueue sid (snd w) of
          (Inl e, q) \<Rightarrow> (Some (''dispatch submission: enqueue judge job: '' @ e), fst w, q)
        | (Inr _, q) \<Rightarrow>
            (case mark_enqueued now sid (fst w) of
               None \<Rightarrow> (Some ''dispatch submission: mark enqueued'', fst w, q)
             | Some d \<Rightarrow> (if mark = IoOk then None else Some ''dispatch submission: mark enqueued'',
                          commit_db mark (fst w) d, q)))"

datatype dispatch_call = DpBegin | DpSelect | DpMark uuid | DpCommit

text \<open>The candidates of \<open>DispatchPending\<close>; rows another replica holds locked are skipped.\<close>

definition pending_candidates :: "dispatcher \<Rightarrow> (submission_row \<Rightarrow> bool) \<Rightarrow> time \<Rightarrow> db \<Rightarrow> submission_row list" where
  "pending_candidates D locked now d =
     sql_select locked
       (\<lambda>r. s_status r = ''pending'' \<and>
          (case s_last_enqueued_at r of None \<Rightarrow> True
           | Some t \<Rightarrow> t \<le> now - microseconds (di_stale_after D)))
       (\<lambda>r. (s_created_at r, s_id r)) (di_batch_size D) (db_submissions d)"

text \<open>The loop over the candidates: the transaction's database and the queue change side by side.\<close>

fun dispatch_each ::
  "(uuid \<Rightarrow> 'q \<Rightarrow> (string + string) \<times> 'q) \<Rightarrow> (dispatch_call \<Rightarrow> io) \<Rightarrow> time \<Rightarrow> uuid list \<Rightarrow> db \<times> 'q
    \<Rightarrow> string option \<times> db \<times> 'q" where
  "dispatch_each enqueue ext now [] w = (None, w)"
| "dispatch_each enqueue ext now (sid # ids) w =
     (case enqueue sid (snd w) of
        (Inl e, q) \<Rightarrow> (Some (''dispatch pending submissions: enqueue judge job: '' @ e), fst w, q)
      | (Inr _, q) \<Rightarrow>
          (case (if ext (DpMark sid) = IoOk then mark_enqueued now sid (fst w) else None) of
             None \<Rightarrow> (Some ''dispatch pending submissions: mark enqueued'', fst w, q)
           | Some d \<Rightarrow> dispatch_each enqueue ext now ids (d, q)))"

definition dispatch_pending ::
  "dispatcher \<Rightarrow> (uuid \<Rightarrow> 'q \<Rightarrow> (string + string) \<times> 'q) \<Rightarrow> (dispatch_call \<Rightarrow> io) \<Rightarrow> (submission_row \<Rightarrow> bool)
    \<Rightarrow> time \<Rightarrow> db \<times> 'q \<Rightarrow> (string + int) \<times> db \<times> 'q" where
  "dispatch_pending D enqueue ext locked now w =
     (if \<not> di_db D \<or> \<not> di_queue D then (Inl ''dispatch pending submissions: missing dependency'', w)
      else if ext DpBegin \<noteq> IoOk then (Inl ''dispatch pending submissions: begin transaction'', w)
      else if ext DpSelect \<noteq> IoOk then (Inl ''dispatch pending submissions: select candidates'', w)
      else let ids = map s_id (pending_candidates D locked now (fst w)) in
        case dispatch_each enqueue ext now ids w of
          (Some e, _, q) \<Rightarrow> (Inl e, fst w, q)
        | (None, d, q) \<Rightarrow>
            (if ext DpCommit = IoOk then Inr (int (length ids))
             else Inl ''dispatch pending submissions: commit transaction'',
             commit_db (ext DpCommit) (fst w) d, q))"

text \<open>The Judge stream as a \<open>JobEnqueuer\<close>; \<open>gen\<close> is Redis' choice of the entry identifier.\<close>

definition queue_enqueue ::
  "uuid_lib \<Rightarrow> bool \<Rightarrow> (uuid \<Rightarrow> io) \<Rightarrow> (stream \<Rightarrow> string) \<Rightarrow> uuid \<Rightarrow> stream \<Rightarrow> (string + string) \<times> stream" where
  "queue_enqueue U client x gen sid q = judge_enqueue U client (x sid) (gen q) sid q"

section \<open>Lemmas on admission\<close>

lemma find_request_cases:
  "find_request r d = (nil_uuid, False) \<and>
     (\<forall>s\<in>set (db_submissions d). \<not> (s_player_id s = rq_player_id r \<and> s_request_id s = rq_request_id r)) \<or>
   (\<exists>s\<in>set (db_submissions d). s_player_id s = rq_player_id r \<and> s_request_id s = rq_request_id r \<and>
      find_request r d =
        (if s_match_id s = rq_match_id r \<and> s_language s = rq_language r \<and> s_code s = rq_code r
         then s_id s else nil_uuid, True))"
proof (cases "row_of (\<lambda>s. (s_player_id s, s_request_id s)) (rq_player_id r, rq_request_id r) (db_submissions d)")
  case None
  then have "\<forall>s\<in>set (db_submissions d). \<not> (s_player_id s = rq_player_id r \<and> s_request_id s = rq_request_id r)"
    by (simp add: row_of_None_iff)
  then show ?thesis by (simp add: find_request_def None)
next
  case (Some s)
  from row_of_SomeD [OF Some] show ?thesis
    by (intro disjI2 bexI [of _ s]) (auto simp: find_request_def Some)
qed

lemma find_request_row:
  assumes "db_inv d" "s \<in> set (db_submissions d)"
    and "s_player_id s = rq_player_id r" "s_request_id s = rq_request_id r"
  shows "find_request r d =
    (if s_match_id s = rq_match_id r \<and> s_language s = rq_language r \<and> s_code s = rq_code r
     then s_id s else nil_uuid, True)"
proof -
  have "row_of (\<lambda>s. (s_player_id s, s_request_id s)) (rq_player_id r, rq_request_id r) (db_submissions d) = Some s"
    using assms(2-4) by (simp add: row_of_Some_iff [OF db_keys(2) [OF assms(1)]])
  then show ?thesis by (simp add: find_request_def)
qed

lemma new_submission_checks:
  "request_valid r \<Longrightarrow> submission_checks (new_submission i t r)"
  by (auto simp: request_valid_def new_submission_def submission_checks_def)

text \<open>The ways the transaction of \<open>Accept\<close> can end.\<close>

lemma accept_tx_cases:
  assumes "accept_tx ext now created fresh r d = (res, d')"
  obtains (unchanged) e where "res = Inl e" "d' = d"
  | (found) s where "res = Inr (False, s_id s)" "d' = d" "s \<in> set (db_submissions d)" "s_id s \<noteq> nil_uuid"
      "s_player_id s = rq_player_id r" "s_request_id s = rq_request_id r" "s_match_id s = rq_match_id r"
      "s_language s = rq_language r" "s_code s = rq_code r"
  | (inserted) m where "res = Inr (True, fresh) \<or> res = Inl (ErrAccept AcCommit)"
      "match_of d (rq_match_id r) = Some m" "m_status m = ''active''" "now < m_deadline m"
      "is_player d (rq_match_id r) (rq_player_id r)" "find_request r d = (nil_uuid, False)"
      "insert_submission (new_submission fresh created r) d = Some d'"
proof (cases "find_request r d")
  case (Pair sid fd)
  show thesis
  proof (cases fd)
    case True
    then obtain s where s: "s \<in> set (db_submissions d)" "s_player_id s = rq_player_id r"
        "s_request_id s = rq_request_id r"
      and f: "find_request r d =
        (if s_match_id s = rq_match_id r \<and> s_language s = rq_language r \<and> s_code s = rq_code r
         then s_id s else nil_uuid, True)"
      using find_request_cases [of r d] Pair by auto
    show thesis
      using assms unchanged found [of s] s True
      by (auto simp: accept_tx_def f split: if_splits)
  next
    case False
    then have f: "find_request r d = (nil_uuid, False)"
      using find_request_cases [of r d] Pair by auto
    show thesis
      using assms unchanged inserted
      by (auto simp: accept_tx_def f commit_db_def io_applied_def split: if_splits option.splits io.splits)
  qed
qed

lemma accept_tx_inv [inv_intros]:
  assumes "db_inv d" "accept_tx ext now created fresh r d = (res, d')"
  shows "db_inv d'"
  using assms(2)
proof (cases rule: accept_tx_cases)
  case (inserted m)
  then show ?thesis
    using insert_submission_inv [OF assms(1)] by (simp add: new_submission_def)
qed (use assms in auto)

section \<open>Lemmas on dispatch\<close>

lemma mark_enqueued_SomeD:
  assumes "mark_enqueued now sid d = Some d'"
  shows "d' = d\<lparr>db_submissions := sql_update (\<lambda>r. s_id r \<in> {sid} \<and> s_status r = ''pending'')
    (\<lambda>r. r\<lparr>s_last_enqueued_at := Some now\<rparr>) (db_submissions d)\<rparr>"
  using update_submissions_SomeD(1) [OF assms [unfolded mark_enqueued_def]] by simp

lemma mark_enqueued_total:
  assumes "db_inv d"
  shows "mark_enqueued now sid d \<noteq> None"
  using db_invD(2) [OF assms]
  by (fastforce simp: mark_enqueued_def update_submissions_def submission_ok_def submission_checks_def)

lemma mark_enqueued_inv [inv_intros]:
  assumes "db_inv d" "mark_enqueued now sid d = Some d'"
  shows "db_inv d'"
  using assms(2) unfolding mark_enqueued_def
  by (rule update_submissions_inv [OF assms(1)]) (auto simp: keeps_identity_def submission_ok_def)

lemma dispatch_inv [inv_intros]:
  assumes "db_inv (fst w)" "dispatch D enqueue mark now sid w = (e, d', q')"
  shows "db_inv d'"
  using assms
  by (auto simp: dispatch_def commit_db_def split: if_splits sum.splits option.splits prod.splits
      intro: inv_intros)

lemma sql_update_twice:
  assumes "\<And>r. f (f r) = f r" "\<And>r. Q (f r) = Q r"
  shows "sql_update Q f (sql_update P f t) = sql_update (\<lambda>r. P r \<or> Q r) f t"
  using assms by (auto simp: sql_update_def)

text \<open>The database after marking a list of submissions.\<close>

definition marked :: "time \<Rightarrow> uuid list \<Rightarrow> db \<Rightarrow> db" where
  "marked now ids d = d\<lparr>db_submissions := sql_update (\<lambda>r. s_id r \<in> set ids \<and> s_status r = ''pending'')
    (\<lambda>r. r\<lparr>s_last_enqueued_at := Some now\<rparr>) (db_submissions d)\<rparr>"

lemma marked_Nil: "marked now [] d = d"
  by (simp add: marked_def sql_update_noop)

lemma marked_Cons:
  assumes "mark_enqueued now sid d = Some d'"
  shows "marked now ids d' = marked now (sid # ids) d"
proof -
  let ?f = "\<lambda>r. r\<lparr>s_last_enqueued_at := Some now\<rparr>"
  have "sql_update (\<lambda>r. s_id r \<in> set ids \<and> s_status r = ''pending'') ?f
      (sql_update (\<lambda>r. s_id r \<in> {sid} \<and> s_status r = ''pending'') ?f (db_submissions d)) =
    sql_update (\<lambda>r. s_id r \<in> {sid} \<and> s_status r = ''pending'' \<or> s_id r \<in> set ids \<and> s_status r = ''pending'')
      ?f (db_submissions d)"
    by (rule sql_update_twice) simp_all
  also have "\<dots> = sql_update (\<lambda>r. s_id r \<in> set (sid # ids) \<and> s_status r = ''pending'') ?f (db_submissions d)"
    by (intro arg_cong [of _ _ "\<lambda>P. sql_update P ?f (db_submissions d)"] ext) auto
  finally show ?thesis
    by (simp add: marked_def mark_enqueued_SomeD [OF assms])
qed

text \<open>
  What the dispatcher relies on from its queue: a successful \<open>Enqueue\<close> appends one job for
  the submission, a failed one appends at most that job.
\<close>

locale job_enqueuer =
  fixes enqueue :: "uuid \<Rightarrow> 'q \<Rightarrow> (string + string) \<times> 'q"
    and key :: "uuid \<Rightarrow> string"
    and jobs :: "'q \<Rightarrow> string list"
  assumes enqueue_Inr: "enqueue sid q = (Inr e, q') \<Longrightarrow> jobs q' = jobs q @ [key sid]"
    and enqueue_Inl: "enqueue sid q = (Inl m, q') \<Longrightarrow> jobs q' = jobs q \<or> jobs q' = jobs q @ [key sid]"
begin

lemma dispatch_each_None:
  "dispatch_each enqueue ext now ids w = (None, d', q') \<Longrightarrow>
     jobs q' = jobs (snd w) @ map key ids \<and> d' = marked now ids (fst w)"
proof (induction ids arbitrary: w)
  case Nil
  then show ?case by (simp add: marked_Nil)
next
  case (Cons sid ids)
  from Cons.prems obtain e q d where e: "enqueue sid (snd w) = (Inr e, q)"
    and m: "mark_enqueued now sid (fst w) = Some d"
    and rest: "dispatch_each enqueue ext now ids (d, q) = (None, d', q')"
    by (auto split: prod.splits sum.splits option.splits if_splits)
  from Cons.IH [OF rest] enqueue_Inr [OF e] marked_Cons [OF m] show ?case by simp
qed

lemma dispatch_each_prefix:
  "dispatch_each enqueue ext now ids w = (e, d', q') \<Longrightarrow> \<exists>n. jobs q' = jobs (snd w) @ map key (take n ids)"
proof (induction ids arbitrary: w)
  case Nil
  then show ?case by simp
next
  case (Cons sid ids)
  obtain res q where en: "enqueue sid (snd w) = (res, q)" by (cases "enqueue sid (snd w)")
  show ?case
  proof (cases "\<exists>j d. res = Inr j \<and> ext (DpMark sid) = IoOk \<and> mark_enqueued now sid (fst w) = Some d")
    case True
    then obtain j d where j: "res = Inr j" "dispatch_each enqueue ext now ids (d, q) = (e, d', q')"
      using Cons.prems en by auto
    from Cons.IH [OF j(2)] obtain n where "jobs q' = jobs q @ map key (take n ids)" by auto
    with en j(1) show ?thesis
      by (intro exI [of _ "Suc n"]) (simp add: enqueue_Inr)
  next
    case False
    then have q: "q' = q"
      using Cons.prems en by (auto split: sum.splits if_splits option.splits)
    consider "jobs q = jobs (snd w)" | "jobs q = jobs (snd w) @ [key sid]"
      using en enqueue_Inl enqueue_Inr by (cases res) blast+
    then show ?thesis
    proof cases
      case 1
      then show ?thesis using q by (intro exI [of _ 0]) simp
    next
      case 2
      then show ?thesis using q by (intro exI [of _ 1]) simp
    qed
  qed
qed

lemma dispatch_pending_Inr:
  assumes "dispatch_pending D enqueue ext locked now w = (Inr n, d', q')"
  shows "let ids = map s_id (pending_candidates D locked now (fst w)) in
    n = int (length ids) \<and> jobs q' = jobs (snd w) @ map key ids \<and> d' = marked now ids (fst w)"
  using assms
  by (auto simp: dispatch_pending_def Let_def split: if_splits prod.splits option.splits
      dest: dispatch_each_None)

lemma dispatch_pending_jobs:
  assumes "dispatch_pending D enqueue ext locked now w = (res, d', q')"
  shows "\<exists>n. jobs q' = jobs (snd w) @ map key (take n (map s_id (pending_candidates D locked now (fst w))))"
proof -
  have "q' = snd w \<or> (\<exists>e d. dispatch_each enqueue ext now
      (map s_id (pending_candidates D locked now (fst w))) w = (e, d, q'))"
    using assms by (auto simp: dispatch_pending_def Let_def split: if_splits prod.splits option.splits)
  then show ?thesis
    by (auto dest: dispatch_each_prefix intro: exI [of _ 0])
qed

text \<open>Whatever fails, a submission is marked only when a job for it is in the queue.\<close>

lemma dispatch_pending_marked:
  assumes "dispatch_pending D enqueue ext locked now w = (res, d', q')" "d' \<noteq> fst w"
  shows "d' = marked now (map s_id (pending_candidates D locked now (fst w))) (fst w) \<and>
    jobs q' = jobs (snd w) @ map key (map s_id (pending_candidates D locked now (fst w)))"
  using assms
  by (auto simp: dispatch_pending_def Let_def commit_db_def split: if_splits prod.splits option.splits
      dest: dispatch_each_None)

lemma dispatch_marks_after_enqueue:
  assumes "dispatch D enqueue mark now sid w = (e, d', q')" "d' \<noteq> fst w"
  shows "jobs q' = jobs (snd w) @ [key sid] \<and> d' = marked now [sid] (fst w)"
  using assms
  by (auto simp: dispatch_def commit_db_def marked_def split: if_splits prod.splits sum.splits option.splits
      dest: enqueue_Inr mark_enqueued_SomeD)

end

text \<open>The Judge stream is such a queue: its jobs are the submission fields of its entries.\<close>

definition job_texts :: "stream \<Rightarrow> string list" where
  "job_texts q = concat (map (\<lambda>m. case judge_job_field (snd m) ''submission_id'' of
     None \<Rightarrow> [] | Some t \<Rightarrow> [t]) (st_old q @ st_new q))"

interpretation jq: job_enqueuer "queue_enqueue U client x gen" "uuid_string U" job_texts
  for U client x gen
  by unfold_locales
    (auto simp: queue_enqueue_def judge_enqueue_def job_texts_def xadd_def judge_job_field_def split: if_splits)

section \<open>Properties\<close>

text \<open>
  The composition \<open>gateway.Run\<close> builds: \<open>Accept\<close> with the dispatcher on the Judge stream.
\<close>

definition gateway_accept ::
  "uuid_lib \<Rightarrow> dispatcher \<Rightarrow> (uuid \<Rightarrow> io) \<Rightarrow> (stream \<Rightarrow> string) \<Rightarrow> io \<Rightarrow> time \<Rightarrow> (accept_call \<Rightarrow> io)
    \<Rightarrow> time \<Rightarrow> time \<Rightarrow> uuid \<Rightarrow> request \<Rightarrow> db \<times> stream \<Rightarrow> (submit_error + uuid) \<times> db \<times> stream" where
  "gateway_accept U D x gen mark marked_at ext now created fresh r w =
     accept True (Some (dispatch D (queue_enqueue U True x gen) mark marked_at)) ext now created fresh r w"

text \<open>After \<open>Accept\<close>, dispatching can only have changed \<open>last_enqueued_at\<close>.\<close>

definition same_but_enqueued :: "db \<Rightarrow> db \<Rightarrow> bool" where
  "same_but_enqueued d d' \<longleftrightarrow>
     d'\<lparr>db_submissions := map (\<lambda>r. r\<lparr>s_last_enqueued_at := None\<rparr>) (db_submissions d')\<rparr> =
     d\<lparr>db_submissions := map (\<lambda>r. r\<lparr>s_last_enqueued_at := None\<rparr>) (db_submissions d)\<rparr>"

lemma same_but_enqueued_refl [simp]: "same_but_enqueued d d"
  by (simp add: same_but_enqueued_def)

lemma same_but_enqueued_marked: "same_but_enqueued d (marked now ids d)"
  by (simp add: same_but_enqueued_def marked_def sql_update_def)

lemma same_but_enqueued_fields:
  assumes "a\<lparr>s_last_enqueued_at := None\<rparr> = b\<lparr>s_last_enqueued_at := None\<rparr>"
  shows "s_id a = s_id b" "s_player_id a = s_player_id b" "s_match_id a = s_match_id b"
    "s_request_id a = s_request_id b" "s_language a = s_language b" "s_code a = s_code b"
  using assms by (cases a; cases b; simp)+

lemma same_but_enqueued_row:
  assumes "same_but_enqueued d d'" "submission_of d sid = Some s"
  shows "\<exists>s'. submission_of d' sid = Some s' \<and> s'\<lparr>s_last_enqueued_at := None\<rparr> = s\<lparr>s_last_enqueued_at := None\<rparr>"
proof -
  have m: "map (\<lambda>r. r\<lparr>s_last_enqueued_at := None\<rparr>) (db_submissions d') =
      map (\<lambda>r. r\<lparr>s_last_enqueued_at := None\<rparr>) (db_submissions d)"
    using arg_cong [OF assms(1) [unfolded same_but_enqueued_def], of db_submissions] by simp
  have look: "map_option (\<lambda>r. r\<lparr>s_last_enqueued_at := None\<rparr>) (row_of s_id sid t) =
      row_of s_id sid (map (\<lambda>r. r\<lparr>s_last_enqueued_at := None\<rparr>) t)" for t
    by (induction t) auto
  have "map_option (\<lambda>r. r\<lparr>s_last_enqueued_at := None\<rparr>) (submission_of d' sid) =
      map_option (\<lambda>r. r\<lparr>s_last_enqueued_at := None\<rparr>) (submission_of d sid)"
    by (simp add: submission_of_def look m)
  with assms(2) show ?thesis by (cases "submission_of d' sid") auto
qed

lemma dispatch_same:
  assumes "dispatch D (queue_enqueue U c x gen) mark now sid w = (e, d', q')"
  shows "same_but_enqueued (fst w) d'"
proof (cases "d' = fst w")
  case False
  then show ?thesis
    using jq.dispatch_marks_after_enqueue [OF assms] by (simp add: same_but_enqueued_marked)
qed simp

lemma gateway_accept_tx:
  assumes "gateway_accept U D x gen mark marked_at ext now created fresh r w = (res, d', q')"
    "request_valid r"
  obtains res0 d0 where "accept_tx ext now created fresh r (fst w) = (res0, d0)"
    "res = map_sum id snd res0" "same_but_enqueued d0 d'"
proof -
  obtain res0 d0 where tx: "accept_tx ext now created fresh r (fst w) = (res0, d0)" by fastforce
  have "res = map_sum id snd res0 \<and> same_but_enqueued d0 d'"
  proof (cases res0)
    case (Inl e)
    with assms tx show ?thesis by (simp add: gateway_accept_def accept_def)
  next
    case (Inr p)
    obtain new sid where p: "p = (new, sid)" by fastforce
    obtain e d1 q1 where dp: "dispatch D (queue_enqueue U True x gen) mark marked_at sid (d0, snd w) = (e, d1, q1)"
      by (metis prod_cases3)
    have "(res, d', q') = (if new then (Inr sid, d1, q1) else (Inr sid, d0, snd w))"
      using assms(1) unfolding gateway_accept_def accept_def
      by (simp add: assms(2) tx Inr p dp split: if_splits)
    then show ?thesis
      using dispatch_same [OF dp] by (cases new) (simp_all add: Inr p)
  qed
  with tx show thesis using that by blast
qed

text \<open>
  An accepted submission is durable and is the caller's own: when \<open>Accept\<close>
  returns an identifier, the database holds exactly that row, with the player, match,
  request, language and code of the request, and its player plays in the match. This holds
  for a new row and for the answer to a retry, whatever the immediate dispatch does.
\<close>

theorem accept_sound:
  assumes "db_inv (fst w)"
    and "gateway_accept U D x gen mark marked_at ext now created fresh r w = (Inr sid, d', q')"
  shows "\<exists>s. submission_of d' sid = Some s \<and> s_player_id s = rq_player_id r \<and> s_match_id s = rq_match_id r
    \<and> s_request_id s = rq_request_id r \<and> s_language s = rq_language r \<and> s_code s = rq_code r
    \<and> is_player (fst w) (rq_match_id r) (rq_player_id r)"
proof -
  have "request_valid r"
    using assms(2) by (auto simp: gateway_accept_def accept_def split: if_splits)
  from gateway_accept_tx [OF assms(2) this] obtain res0 d0 where
    tx: "accept_tx ext now created fresh r (fst w) = (res0, d0)" and res: "Inr sid = map_sum id snd res0"
    and same: "same_but_enqueued d0 d'" by metis
  have inv: "db_inv d0" using assms(1) tx by (rule accept_tx_inv)
  obtain s where s: "s \<in> set (db_submissions d0)" "s_id s = sid" "s_player_id s = rq_player_id r"
    "s_match_id s = rq_match_id r" "s_request_id s = rq_request_id r" "s_language s = rq_language r"
    "s_code s = rq_code r"
    using tx
  proof (cases rule: accept_tx_cases)
    case (inserted m)
    have "new_submission fresh created r \<in> set (db_submissions d0)"
      by (simp add: insert_submission_SomeD(1) [OF inserted(7)])
    moreover have "sid = fresh" using inserted(1) res by auto
    ultimately show thesis
      using that [of "new_submission fresh created r"] by (simp add: new_submission_def)
  qed (use that res in auto)
  have pl: "is_player (fst w) (rq_match_id r) (rq_player_id r)"
    using tx
  proof (cases rule: accept_tx_cases)
    case (found s')
    then show ?thesis
      using db_invD(2) [OF assms(1), of s'] by (simp add: submission_ok_def)
  qed (use res in auto)
  have "submission_of d0 sid = Some s"
    using s(1,2) by (simp add: submission_of_iff [OF inv])
  from same_but_enqueued_row [OF same this] obtain s' where s': "submission_of d' sid = Some s'"
    "s'\<lparr>s_last_enqueued_at := None\<rparr> = s\<lparr>s_last_enqueued_at := None\<rparr>" by blast
  with s(3-7) pl show ?thesis
    by (simp add: same_but_enqueued_fields [OF s'(2)])
qed

text \<open>A concrete run for the witnesses.\<close>

definition ex_request :: request where
  "ex_request = \<lparr>rq_player_id = 1, rq_match_id = 100, rq_request_id = 7, rq_language = ''cpp'', rq_code = ''y''\<rparr>"

definition ex_dispatcher :: dispatcher where
  "ex_dispatcher = \<lparr>di_db = True, di_queue = True, di_stale_after = 30000000000, di_batch_size = 32\<rparr>"

definition ex_stream :: stream where
  "ex_stream = \<lparr>st_group = True, st_old = [], st_new = [], st_pel = []\<rparr>"

definition ex_gen :: "stream \<Rightarrow> string" where
  "ex_gen q = replicate (Suc (length (st_old q @ st_new q))) (CHR ''e'')"

definition ex_accept :: "(accept_call \<Rightarrow> io) \<Rightarrow> time \<Rightarrow> db \<times> stream \<Rightarrow> (submit_error + uuid) \<times> db \<times> stream" where
  "ex_accept ext now w =
     gateway_accept ex_uuid_lib ex_dispatcher (\<lambda>_. IoOk) ex_gen IoOk 51 ext now 50 9 ex_request w"

theorem accept_sound_witness:
  "\<exists>s. submission_of (fst (snd (ex_accept (\<lambda>_. IoOk) 50 (ex_db [], ex_stream)))) 9 = Some s
    \<and> s_player_id s = 1 \<and> s_code s = ''y''"
proof -
  let ?run = "ex_accept (\<lambda>_. IoOk) 50 (ex_db [], ex_stream)"
  have ok: "fst ?run = Inr 9" by code_simp
  have run: "gateway_accept ex_uuid_lib ex_dispatcher (\<lambda>_. IoOk) ex_gen IoOk 51 (\<lambda>_. IoOk) 50 50 9 ex_request
      (ex_db [], ex_stream) = (Inr 9, fst (snd ?run), snd (snd ?run))"
    unfolding ok [symmetric] by (simp add: ex_accept_def)
  have "db_inv (fst (ex_db [], ex_stream))" by (simp add: ex_db_inv_empty)
  from accept_sound [OF this run] show ?thesis
    by (auto simp: ex_request_def)
qed

text \<open>
  Property C11. Only an admissible submission adds a row: if the transaction of \<open>Accept\<close> changed
  the database at all, whatever its outcome, then the match was active and its deadline had
  not passed, the player plays in it, no row for this player and request existed, and the
  change is exactly one new pending row, never attempted, with nothing else touched.
\<close>

theorem accept_adds_admissible:
  assumes "accept_tx ext now created fresh r d = (res, d')" and "d' \<noteq> d"
  shows "(\<exists>m. match_of d (rq_match_id r) = Some m \<and> m_status m = ''active'' \<and> now < m_deadline m)
    \<and> is_player d (rq_match_id r) (rq_player_id r)
    \<and> (\<forall>s\<in>set (db_submissions d). \<not> (s_player_id s = rq_player_id r \<and> s_request_id s = rq_request_id r))
    \<and> d' = d\<lparr>db_submissions := db_submissions d @ [new_submission fresh created r]\<rparr>
    \<and> (\<forall>s\<in>set (db_submissions d). s_id s \<noteq> fresh)"
  using assms(1)
proof (cases rule: accept_tx_cases)
  case (inserted m)
  note i = insert_submission_SomeD [OF inserted(7)]
  show ?thesis
    using inserted(2-5) i(1-3) by (simp add: new_submission_def)
qed (use assms(2) in auto)

theorem accept_adds_admissible_witness:
  "snd (accept_tx (\<lambda>c. if c = AcCommit then IoLost else IoOk) 50 50 9 ex_request (ex_db []))
     = (ex_db [])\<lparr>db_submissions := db_submissions (ex_db []) @ [new_submission 9 50 ex_request]\<rparr>"
proof -
  let ?run = "accept_tx (\<lambda>c. if c = AcCommit then IoLost else IoOk) 50 50 9 ex_request (ex_db [])"
  have run: "?run = (fst ?run, snd ?run)" by simp
  have "length (db_submissions (snd ?run)) = 1" by code_simp
  then have "snd ?run \<noteq> ex_db []" by (auto simp: ex_db_def)
  from accept_adds_admissible [OF run this] show ?thesis by blast
qed

text \<open>
  Property C12. Retries are idempotent: once the transaction of \<open>Accept\<close> has left its row, even
  when the commit was reported as failed, repeating the request returns the identifier of
  that row and changes nothing, however late the retry comes; repeating the request
  identifier with another language, code or match is refused and changes nothing.
\<close>

theorem accept_retry_idempotent:
  assumes "db_inv d" and "request_valid r" and "fresh \<noteq> nil_uuid"
    and "accept_tx ext now created fresh r d = (res, d')" and "d' \<noteq> d"
  shows "accept True dispatcher (\<lambda>_. IoOk) now' created' fresh' r (d', q) = (Inr fresh, d', q)
    \<and> (\<forall>r'. request_valid r' \<and> rq_player_id r' = rq_player_id r \<and> rq_request_id r' = rq_request_id r
          \<and> (rq_match_id r', rq_language r', rq_code r') \<noteq> (rq_match_id r, rq_language r, rq_code r)
        \<longrightarrow> accept True dispatcher (\<lambda>_. IoOk) now' created' fresh' r' (d', q) = (Inl ErrIdempotencyConflict, d', q))"
proof -
  have inv: "db_inv d'" using assms(1,4) by (rule accept_tx_inv)
  have row: "new_submission fresh created r \<in> set (db_submissions d')"
    using accept_adds_admissible [OF assms(4,5)] by simp
  have find: "find_request r' d' =
      (if rq_match_id r = rq_match_id r' \<and> rq_language r = rq_language r' \<and> rq_code r = rq_code r'
       then fresh else nil_uuid, True)"
    if "rq_player_id r' = rq_player_id r" "rq_request_id r' = rq_request_id r" for r'
    using find_request_row [OF inv row, of r'] that by (simp add: new_submission_def)
  show ?thesis
    using assms(2,3) find by (auto simp: accept_def accept_tx_def split: option.split)
qed

theorem accept_retry_idempotent_witness:
  "accept True None (\<lambda>_. IoOk) 5000 60 11 ex_request
      (snd (accept_tx (\<lambda>c. if c = AcCommit then IoLost else IoOk) 50 50 9 ex_request (ex_db [])), ex_stream)
    = (Inr 9, snd (accept_tx (\<lambda>c. if c = AcCommit then IoLost else IoOk) 50 50 9 ex_request (ex_db [])), ex_stream)"
proof -
  let ?run = "accept_tx (\<lambda>c. if c = AcCommit then IoLost else IoOk) 50 50 9 ex_request (ex_db [])"
  have run: "?run = (fst ?run, snd ?run)" by simp
  have "length (db_submissions (snd ?run)) = 1" by code_simp
  then have ne: "snd ?run \<noteq> ex_db []" by (auto simp: ex_db_def)
  have v: "request_valid ex_request" "(9::uuid) \<noteq> nil_uuid" by code_simp+
  show ?thesis
    by (rule conjunct1 [OF accept_retry_idempotent [OF ex_db_inv_empty v run ne]])
qed

text \<open>
  An admissible submission is accepted: for a valid request of a player of an
  active match before its deadline, not seen before, with a fresh identifier and no failing
  call, \<open>Accept\<close> cannot be refused by any constraint of the schema: it returns the identifier
  and appends the pending row.
\<close>

theorem accept_admits:
  assumes "request_valid r" and "match_of d (rq_match_id r) = Some m" and "m_status m = ''active''"
    and "now < m_deadline m" and "is_player d (rq_match_id r) (rq_player_id r)"
    and "\<forall>s\<in>set (db_submissions d). s_id s \<noteq> fresh
      \<and> \<not> (s_player_id s = rq_player_id r \<and> s_request_id s = rq_request_id r)"
  shows "accept True None (\<lambda>_. IoOk) now created fresh r (d, q) =
    (Inr fresh, d\<lparr>db_submissions := db_submissions d @ [new_submission fresh created r]\<rparr>, q)"
proof -
  have f: "find_request r d = (nil_uuid, False)"
    using find_request_cases [of r d] assms(6) by blast
  have "insert_submission (new_submission fresh created r) d =
      Some (d\<lparr>db_submissions := db_submissions d @ [new_submission fresh created r]\<rparr>)"
    using assms(5,6) new_submission_checks [OF assms(1), of fresh created]
    by (auto simp: insert_submission_def new_submission_def)
  then show ?thesis
    using assms(1-5) by (simp add: accept_def accept_tx_def f)
qed

theorem accept_admits_witness:
  "fst (accept True None (\<lambda>_. IoOk) 999 50 9 ex_request (ex_db [], ex_stream)) = Inr 9"
proof -
  have h: "request_valid ex_request" "match_of (ex_db []) (rq_match_id ex_request) = Some ex_match"
    "m_status ex_match = ''active''" "999 < m_deadline ex_match"
    "is_player (ex_db []) (rq_match_id ex_request) (rq_player_id ex_request)"
    "\<forall>s\<in>set (db_submissions (ex_db [])). s_id s \<noteq> 9
      \<and> \<not> (s_player_id s = rq_player_id ex_request \<and> s_request_id s = rq_request_id ex_request)"
    by code_simp+
  show ?thesis by (simp add: accept_admits [OF h])
qed

text \<open>
  A submission is marked as enqueued only after its job is in the stream. In
  every outcome of \<open>DispatchPending\<close> the jobs added to the stream are those of a prefix of the
  candidates, in order; and either the database is unchanged or every candidate is marked
  and every candidate has its job, even when the commit was reported as failed.
\<close>

theorem dispatch_pending_marks_enqueued:
  "case dispatch_pending D (queue_enqueue U c x gen) ext locked now (d, q) of (res, d', q') \<Rightarrow>
     let ids = map s_id (pending_candidates D locked now d) in
     (\<exists>n. job_texts q' = job_texts q @ map (uuid_string U) (take n ids)) \<and>
     (d' = d \<or> d' = marked now ids d \<and> job_texts q' = job_texts q @ map (uuid_string U) ids)"
proof -
  obtain res d' q' where run: "dispatch_pending D (queue_enqueue U c x gen) ext locked now (d, q) = (res, d', q')"
    by (rule prod_cases3)
  show ?thesis
    using jq.dispatch_pending_jobs [OF run] jq.dispatch_pending_marked [OF run]
    by (auto simp: run Let_def)
qed

lemma pending_candidatesD:
  "r \<in> set (pending_candidates D locked now d) \<Longrightarrow>
     r \<in> set (db_submissions d) \<and> s_status r = ''pending'' \<and> \<not> locked r"
  unfolding pending_candidates_def by (drule set_sql_select) auto

text \<open>
  A submission is not enqueued twice within the stale interval: after a
  successful \<open>DispatchPending\<close> no submission it dispatched is a candidate of a later round,
  of this or another replica, before the interval has passed; and a round dispatches no more
  submissions than its batch size, oldest first.
\<close>

theorem dispatch_pending_quiescent:
  assumes "dispatch_pending D (queue_enqueue U c x gen) ext locked now (d, q) = (Inr n, d', q')"
    and "now' - microseconds (di_stale_after D) < now"
  shows "(\<forall>r\<in>set (pending_candidates D locked' now' d').
      s_id r \<notin> s_id ` set (pending_candidates D locked now d))
    \<and> n \<le> max 0 (di_batch_size D)
    \<and> sorted (map (\<lambda>r. (s_created_at r, s_id r)) (pending_candidates D locked now d))"
proof (intro conjI ballI)
  let ?ids = "map s_id (pending_candidates D locked now d)"
  have run: "n = int (length ?ids)" "d' = marked now ?ids d"
    using jq.dispatch_pending_Inr [OF assms(1)] by (simp_all add: Let_def)
  show "s_id r' \<notin> s_id ` set (pending_candidates D locked now d)"
    if r': "r' \<in> set (pending_candidates D locked' now' d')" for r'
  proof
    assume in_ids: "s_id r' \<in> s_id ` set (pending_candidates D locked now d)"
    have c: "r' \<in> set (db_submissions d')" "s_status r' = ''pending''"
      "case s_last_enqueued_at r' of None \<Rightarrow> True | Some t \<Rightarrow> t \<le> now' - microseconds (di_stale_after D)"
      using set_sql_select [OF r' [unfolded pending_candidates_def]] by auto
    obtain r0 where "r' = (if s_id r0 \<in> set ?ids \<and> s_status r0 = ''pending''
        then r0\<lparr>s_last_enqueued_at := Some now\<rparr> else r0)"
      using c(1) unfolding run(2) marked_def by (auto simp: in_sql_update)
    then have "s_last_enqueued_at r' = Some now"
      using c(2) in_ids by (cases "s_id r0 \<in> set ?ids \<and> s_status r0 = ''pending''") auto
    with c(3) assms(2) show False by simp
  qed
  have "length (pending_candidates D locked now d) \<le> nat (di_batch_size D)"
    unfolding pending_candidates_def by (rule length_sql_select)
  then show "n \<le> max 0 (di_batch_size D)" by (simp add: run(1))
  show "sorted (map (\<lambda>r. (s_created_at r, s_id r)) (pending_candidates D locked now d))"
    unfolding pending_candidates_def by (rule sorted_sql_select)
qed

theorem dispatch_pending_quiescent_witness:
  "s_id ` set (pending_candidates ex_dispatcher (\<lambda>_. False) 100
     (fst (snd (dispatch_pending ex_dispatcher (queue_enqueue ex_uuid_lib True (\<lambda>_. IoOk) ex_gen)
        (\<lambda>_. IoOk) (\<lambda>_. False) 90 (ex_db [ex_pending 8], ex_stream)))))
     \<inter> s_id ` set (pending_candidates ex_dispatcher (\<lambda>_. False) 90 (ex_db [ex_pending 8])) = {}"
proof -
  let ?run = "dispatch_pending ex_dispatcher (queue_enqueue ex_uuid_lib True (\<lambda>_. IoOk) ex_gen)
        (\<lambda>_. IoOk) (\<lambda>_. False) 90 (ex_db [ex_pending 8], ex_stream)"
  have "fst ?run = Inr 1" by code_simp
  then have run: "?run = (Inr 1, fst (snd ?run), snd (snd ?run))" by (simp add: prod_eq_iff)
  have t: "100 - microseconds (di_stale_after ex_dispatcher) < 90" by code_simp
  show ?thesis using conjunct1 [OF dispatch_pending_quiescent [OF run t, of "\<lambda>_. False"]] by blast
qed

end
