(* ===== verification/Executor.thy ===== *)
theory Executor
  imports Text
begin

text \<open>
  The sandbox contract of \<open>internal/judge/executor.go\<close>: limits, execution requests and their
  validation, and outcomes. Durations and sizes are Go \<open>int64\<close> values that are only compared
  here, so they are integers. A validation returns the error it reports, \<open>None\<close> for none.
\<close>

record test_case =
  tc_input :: string
  tc_expected :: string

record limits =
  max_code_bytes :: int
  max_output_bytes :: int
  compile_timeout :: int
  test_timeout :: int
  total_timeout :: int
  cleanup_timeout :: int
  nano_cpus :: int
  memory_bytes :: int
  memory_swap :: int
  pid_limit :: int
  workspace_bytes :: int
  tmpfs_bytes :: int

definition limits_validate :: "limits \<Rightarrow> string option" where
  "limits_validate l =
     (if max_code_bytes l \<le> 0 \<or> max_output_bytes l \<le> 0
      then Some ''code and output limits must be positive''
      else if compile_timeout l \<le> 0 \<or> test_timeout l \<le> 0 \<or> total_timeout l \<le> 0 \<or> cleanup_timeout l \<le> 0
      then Some ''sandbox timeouts must be positive''
      else if total_timeout l < compile_timeout l \<or> total_timeout l < test_timeout l
      then Some ''compile and test timeouts must not exceed total timeout''
      else if nano_cpus l \<le> 0 \<or> memory_bytes l \<le> 0 \<or> pid_limit l \<le> 0 \<or> workspace_bytes l \<le> 0 \<or> tmpfs_bytes l \<le> 0
      then Some ''sandbox resource limits must be positive''
      else if memory_swap l < memory_bytes l
      then Some ''memory plus swap limit must be at least the memory limit''
      else None)"

record execution_request =
  er_language :: string
  er_source :: string
  er_tests :: "test_case list"
  er_limits :: limits

definition request_validate :: "execution_request \<Rightarrow> string option" where
  "request_validate r =
     (case limits_validate (er_limits r) of
        Some e \<Rightarrow> Some (''validate limits: '' @ e)
      | None \<Rightarrow>
          if er_language r \<notin> set [''python'', ''cpp'', ''java'']
          then Some ''unsupported language''
          else if er_source r = '''' \<or> max_code_bytes (er_limits r) < int (length (er_source r))
          then Some ''source is empty or exceeds the configured limit''
          else if \<not> utf8_valid (er_source r) then Some ''source is not valid UTF-8''
          else if er_tests r = [] then Some ''at least one test case is required''
          else None)"

text \<open>\<open>ExecutionOutcome\<close>; its kind is a Go string (\<open>OutcomeKind\<close>).\<close>

record execution_outcome =
  eo_kind :: string
  eo_tests_passed :: int

text \<open>
  What an outcome must be to be recorded: one of the six kinds, a number of passed tests in
  range, and all of them for a pass.
\<close>

definition outcome_ok :: "nat \<Rightarrow> execution_outcome \<Rightarrow> bool" where
  "outcome_ok n o' \<longleftrightarrow>
     eo_kind o' \<in> set [''pass'', ''wrong_answer'', ''compile_error'', ''runtime_error'', ''output_limit'', ''timeout''] \<and>
     0 \<le> eo_tests_passed o' \<and> eo_tests_passed o' \<le> int n \<and>
     (eo_kind o' = ''pass'' \<longrightarrow> eo_tests_passed o' = int n)"

end
