(* ===== verification/JudgeStore.thy ===== *)
theory JudgeStore
  imports Example Executor
begin

text \<open>
  The Judge's database transactions: \<open>internal/judge/store.go\<close> (\<open>Claim\<close>, \<open>Complete\<close> and their
  helpers). A claim takes the lease of a pending submission under a fresh attempt token; a
  completion records the result only while that token still owns the row, and the first
  passing completion of an active match decides its winner.
\<close>

section \<open>Data\<close>

record claimed_submission =
  cs_submission_id :: uuid
  cs_match_id :: uuid
  cs_player_id :: uuid
  cs_problem_id :: uuid
  cs_request_id :: uuid
  cs_language :: string
  cs_source :: string
  cs_tests :: "test_case list"
  cs_players :: "uuid \<times> uuid"
  cs_attempt_token :: uuid

record completed_submission =
  co_submission_id :: uuid
  co_match_id :: uuid
  co_player_id :: uuid
  co_request_id :: uuid
  co_players :: "uuid \<times> uuid"
  co_verdict :: string
  co_failure_kind :: string
  co_tests_passed :: int
  co_total_tests :: int
  co_winner_id :: uuid

text \<open>\<open>claimResult\<close>: the kind together with the fields that kind sets.\<close>

datatype claim_result = ClaimAcquired claimed_submission | ClaimCompleted completed_submission
  | ClaimRunning time | ClaimExpired | ClaimMissing

record terminal_result =
  tr_verdict :: string
  tr_failure_kind :: string
  tr_tests_passed :: int

datatype completion_result = CompletionApplied completed_submission | CompletionLostOwnership

section \<open>Helpers\<close>

text \<open>One element of \<open>[]storedTestCase\<close>; \<open>null\<close> leaves both pointers nil.\<close>

definition stored_test_case :: "json \<Rightarrow> (string option \<times> string option) option" where
  "stored_test_case j =
     (case j of
        JObject ms \<Rightarrow>
          (case (json_opt_string ''input'' ms None, json_opt_string ''expected'' ms None) of
             (Some i, Some e) \<Rightarrow> Some (i, e)
           | _ \<Rightarrow> None)
      | JNull \<Rightarrow> Some (None, None)
      | _ \<Rightarrow> None)"

fun check_stored_tests :: "(string option \<times> string option) list \<Rightarrow> string + test_case list" where
  "check_stored_tests [] = Inr []"
| "check_stored_tests ((i, e) # ts) =
     (case (i, e) of
        (Some i', Some e') \<Rightarrow>
          if utf8_valid i' \<and> utf8_valid e' then
            (case check_stored_tests ts of
               Inl err \<Rightarrow> Inl err
             | Inr cs \<Rightarrow> Inr (\<lparr>tc_input = i', tc_expected = e'\<rparr> # cs))
          else Inl ''decode test case: invalid input or expected output''
      | _ \<Rightarrow> Inl ''decode test case: invalid input or expected output'')"

definition decode_stored_tests :: "json \<Rightarrow> string + test_case list" where
  "decode_stored_tests j =
     (let stored = (case j of
          JArray xs \<Rightarrow> those (map stored_test_case xs)
        | JNull \<Rightarrow> Some []
        | _ \<Rightarrow> None)
      in case stored of
          None \<Rightarrow> Inl ''decode test cases''
        | Some [] \<Rightarrow> Inl ''decode test cases: no test cases''
        | Some (t # ts) \<Rightarrow> check_stored_tests (t # ts))"

definition parse_stored_language :: "string \<Rightarrow> string + string" where
  "parse_stored_language v =
     (if v \<in> set [''python'', ''cpp'', ''java''] then Inr v else Inl ''load submission: unsupported language'')"

definition load_match_players :: "io \<Rightarrow> uuid \<Rightarrow> uuid \<Rightarrow> db \<Rightarrow> string + uuid \<times> uuid" where
  "load_match_players x k submitter d =
     (if x \<noteq> IoOk then Inl ''load match players''
      else if 2 < length (players_of d k) then Inl ''load match players: expected exactly two players''
      else case players_of d k of
          [a, b] \<Rightarrow> if (a = submitter \<or> b = submitter) \<and> a \<noteq> b then Inr (a, b)
                    else Inl ''load match players: invalid player set''
        | _ \<Rightarrow> Inl ''load match players: invalid player set'')"

definition valid_claimed_submission :: "claimed_submission \<Rightarrow> bool" where
  "valid_claimed_submission c \<longleftrightarrow>
     cs_submission_id c \<noteq> nil_uuid \<and> cs_match_id c \<noteq> nil_uuid \<and> cs_player_id c \<noteq> nil_uuid \<and>
     cs_request_id c \<noteq> nil_uuid \<and> cs_attempt_token c \<noteq> nil_uuid \<and> cs_tests c \<noteq> []"

definition validate_terminal_result :: "terminal_result \<Rightarrow> nat \<Rightarrow> string option" where
  "validate_terminal_result t n =
     (if tr_tests_passed t < 0 \<or> int n < tr_tests_passed t then Some ''invalid tests passed''
      else if tr_verdict t = ''pass'' then
        (if tr_failure_kind t \<noteq> '''' \<or> tr_tests_passed t \<noteq> int n then Some ''invalid pass result'' else None)
      else if tr_verdict t = ''fail'' then
        (if tr_failure_kind t \<noteq> ''wrong_answer'' then Some ''invalid fail result'' else None)
      else if tr_verdict t = ''error'' then
        (if tr_failure_kind t \<in> set [''compile_error'', ''runtime_error'', ''output_limit'']
         then None else Some ''invalid error result'')
      else if tr_verdict t = ''timeout'' then
        (if tr_failure_kind t \<noteq> '''' then Some ''invalid timeout result'' else None)
      else Some ''invalid verdict'')"

section \<open>Claim\<close>

datatype claim_call = ClBegin | ClLock | ClCommitRunning | ClPlayers | ClCommitCompleted | ClMark | ClCommit

text \<open>The row of the joined query: the submission, its match and its problem.\<close>

definition claim_row_of :: "uuid \<Rightarrow> db \<Rightarrow> (submission_row \<times> match_row \<times> problem_row) option" where
  "claim_row_of sid d =
     (case submission_of d sid of
        None \<Rightarrow> None
      | Some s \<Rightarrow>
          (case match_of d (s_match_id s) of
             None \<Rightarrow> None
           | Some m \<Rightarrow>
               (case problem_of d (m_problem_id m) of
                  None \<Rightarrow> None
                | Some p \<Rightarrow> Some (s, m, p))))"

text \<open>The update that takes the lease; \<open>now\<close> is its own \<open>clock_timestamp()\<close>.\<close>

definition mark_running :: "time \<Rightarrow> uuid \<Rightarrow> uuid \<Rightarrow> int \<Rightarrow> db \<Rightarrow> db option" where
  "mark_running now sid token lease d =
     update_submissions (\<lambda>r. s_id r = sid \<and> s_status r = ''pending'')
       (\<lambda>r. r\<lparr>s_status := ''running'', s_attempts := s_attempts r + 1, s_attempt_token := Some token,
             s_lease_until := Some (now + microseconds lease)\<rparr>) d"

definition claim_completed ::
  "(claim_call \<Rightarrow> io) \<Rightarrow> submission_row \<Rightarrow> match_row \<Rightarrow> problem_row \<Rightarrow> db \<Rightarrow> string + claim_result" where
  "claim_completed ext s m p d =
     (case s_result s of
        None \<Rightarrow> Inl ''load completed submission: missing verdict''
      | Some verdict \<Rightarrow>
          (case decode_stored_tests (p_test_cases p) of
             Inl e \<Rightarrow> Inl (''load completed submission tests: '' @ e)
           | Inr tests \<Rightarrow>
               (case load_match_players (ext ClPlayers) (s_match_id s) (s_player_id s) d of
                  Inl e \<Rightarrow> Inl e
                | Inr players \<Rightarrow>
                    if ext ClCommitCompleted \<noteq> IoOk then Inl ''commit completed claim inspection''
                    else Inr (ClaimCompleted
                      \<lparr>co_submission_id = s_id s, co_match_id = s_match_id s, co_player_id = s_player_id s,
                       co_request_id = s_request_id s, co_players = players, co_verdict = verdict,
                       co_failure_kind = (case s_failure_kind s of None \<Rightarrow> '''' | Some k \<Rightarrow> k),
                       co_tests_passed = s_tests_passed s, co_total_tests = int (length tests),
                       co_winner_id = (case m_winner_id m of None \<Rightarrow> nil_uuid | Some w \<Rightarrow> w)\<rparr>))))"

definition store_claim ::
  "bool \<Rightarrow> (claim_call \<Rightarrow> io) \<Rightarrow> time \<Rightarrow> time \<Rightarrow> uuid \<Rightarrow> uuid \<Rightarrow> int \<Rightarrow> db \<Rightarrow> (string + claim_result) \<times> db" where
  "store_claim has_db ext now mark_now sid token lease d =
     (if \<not> has_db \<or> sid = nil_uuid \<or> token = nil_uuid \<or> lease \<le> 0
      then (Inl ''claim submission: invalid arguments'', d)
      else if ext ClBegin \<noteq> IoOk then (Inl ''begin claim transaction'', d)
      else if ext ClLock \<noteq> IoOk then (Inl ''lock submission'', d)
      else case claim_row_of sid d of
          None \<Rightarrow> (Inr ClaimMissing, d)
        | Some (s, m, p) \<Rightarrow>
            if s_status s = ''running'' then
              (if ext ClCommitRunning \<noteq> IoOk then (Inl ''commit running claim inspection'', d)
               else (Inr (case s_lease_until s of
                        Some t \<Rightarrow> if now < t \<and> s_attempt_token s \<noteq> None then ClaimRunning t else ClaimExpired
                      | None \<Rightarrow> ClaimExpired), d))
            else if s_status s = ''completed'' then (claim_completed ext s m p d, d)
            else if s_status s \<noteq> ''pending'' then (Inl ''claim submission: invalid status'', d)
            else case decode_stored_tests (p_test_cases p) of
                Inl e \<Rightarrow> (Inl (''load submission tests: '' @ e), d)
              | Inr tests \<Rightarrow>
                  (case parse_stored_language (s_language s) of
                     Inl e \<Rightarrow> (Inl e, d)
                   | Inr language \<Rightarrow>
                       if s_code s = '''' \<or> \<not> utf8_valid (s_code s) then (Inl ''load submission: invalid source'', d)
                       else case load_match_players (ext ClPlayers) (s_match_id s) (s_player_id s) d of
                           Inl e \<Rightarrow> (Inl e, d)
                         | Inr players \<Rightarrow>
                             (case (if ext ClMark = IoOk then mark_running mark_now sid token lease d else None) of
                                None \<Rightarrow> (Inl ''mark submission running'', d)
                              | Some d' \<Rightarrow>
                                  (if ext ClCommit = IoOk then Inr (ClaimAcquired
                                     \<lparr>cs_submission_id = sid, cs_match_id = s_match_id s,
                                      cs_player_id = s_player_id s, cs_problem_id = m_problem_id m,
                                      cs_request_id = s_request_id s, cs_language = language,
                                      cs_source = s_code s, cs_tests = tests, cs_players = players,
                                      cs_attempt_token = token\<rparr>)
                                   else Inl ''commit submission claim'',
                                   commit_db (ext ClCommit) d d'))))"

section \<open>Complete\<close>

datatype complete_call = CpBegin | CpLockMatch | CpLockSubmission | CpCommitLost | CpPersist | CpWinner | CpCommit

definition persist_result :: "time \<Rightarrow> uuid \<Rightarrow> terminal_result \<Rightarrow> db \<Rightarrow> db option" where
  "persist_result now sid t d =
     update_submissions (\<lambda>r. s_id r = sid)
       (\<lambda>r. r\<lparr>s_status := ''completed'', s_result := Some (tr_verdict t),
             s_failure_kind := (if tr_failure_kind t = '''' then None else Some (tr_failure_kind t)),
             s_tests_passed := tr_tests_passed t, s_finished_at := Some now,
             s_attempt_token := None, s_lease_until := None\<rparr>) d"

text \<open>
  The winner claim of a passing completion; the caller's winner is kept when the match has
  one or is not active. The re-read after an update without a row cannot run, since the
  match row is locked, but is there.
\<close>

definition claim_winner ::
  "io \<Rightarrow> claimed_submission \<Rightarrow> terminal_result \<Rightarrow> match_row \<Rightarrow> db \<Rightarrow> (string + uuid option) \<times> db" where
  "claim_winner x c t m d =
     (if tr_verdict t = ''pass'' \<and> m_status m = ''active'' \<and> m_winner_id m = None then
        (case (if x = IoOk then finish_match (cs_match_id c) (Some (cs_player_id c)) d else None) of
           None \<Rightarrow> (Inl ''claim match winner'', d)
         | Some (d', True) \<Rightarrow> (Inr (Some (cs_player_id c)), d')
         | Some (d', False) \<Rightarrow>
             (case match_of d' (cs_match_id c) of
                None \<Rightarrow> (Inl ''load established winner'', d')
              | Some m' \<Rightarrow> (Inr (m_winner_id m'), d')))
      else (Inr (m_winner_id m), d))"

definition store_complete ::
  "bool \<Rightarrow> (complete_call \<Rightarrow> io) \<Rightarrow> time \<Rightarrow> claimed_submission \<Rightarrow> terminal_result \<Rightarrow> db
    \<Rightarrow> (string + completion_result) \<times> db" where
  "store_complete has_db ext now c t d =
     (if \<not> has_db \<or> \<not> valid_claimed_submission c then (Inl ''complete submission: invalid claim'', d)
      else case validate_terminal_result t (length (cs_tests c)) of
          Some e \<Rightarrow> (Inl (''complete submission: '' @ e), d)
        | None \<Rightarrow>
      if ext CpBegin \<noteq> IoOk then (Inl ''begin completion transaction'', d)
      else case (if ext CpLockMatch = IoOk then match_of d (cs_match_id c) else None) of
          None \<Rightarrow> (Inl ''lock completion match'', d)
        | Some m \<Rightarrow>
      (case (if ext CpLockSubmission = IoOk then submission_of d (cs_submission_id c) else None) of
         None \<Rightarrow> (Inl ''lock completion submission'', d)
       | Some s \<Rightarrow>
      if s_status s \<noteq> ''running'' \<or> s_match_id s \<noteq> cs_match_id c \<or> s_player_id s \<noteq> cs_player_id c
         \<or> s_attempt_token s \<noteq> Some (cs_attempt_token c)
      then (if ext CpCommitLost \<noteq> IoOk then Inl ''commit lost completion ownership''
            else Inr CompletionLostOwnership, d)
      else case (if ext CpPersist = IoOk then persist_result now (cs_submission_id c) t d else None) of
          None \<Rightarrow> (Inl ''persist submission result'', d)
        | Some d1 \<Rightarrow>
      (case claim_winner (ext CpWinner) c t m d1 of
         (Inl e, _) \<Rightarrow> (Inl e, d)
       | (Inr winner, d2) \<Rightarrow>
           (if ext CpCommit \<noteq> IoOk then Inl ''commit submission result''
            else Inr (CompletionApplied
              \<lparr>co_submission_id = cs_submission_id c, co_match_id = cs_match_id c,
               co_player_id = cs_player_id c, co_request_id = cs_request_id c, co_players = cs_players c,
               co_verdict = tr_verdict t, co_failure_kind = tr_failure_kind t,
               co_tests_passed = tr_tests_passed t, co_total_tests = int (length (cs_tests c)),
               co_winner_id = (case winner of None \<Rightarrow> nil_uuid | Some w \<Rightarrow> w)\<rparr>),
            commit_db (ext CpCommit) d d2))))"

section \<open>How the transactions end\<close>

lemma load_match_players_InrD:
  assumes "load_match_players x k u d = Inr ps"
  shows "players_of d k = [fst ps, snd ps]" "fst ps \<noteq> snd ps" "u \<in> {fst ps, snd ps}"
  using assms by (auto simp: load_match_players_def split: if_splits list.splits)

lemma check_stored_tests_length: "check_stored_tests ts = Inr cs \<Longrightarrow> length cs = length ts"
  by (induction ts arbitrary: cs rule: check_stored_tests.induct)
    (auto split: option.splits if_splits sum.splits)

lemma check_stored_tests_utf8:
  "check_stored_tests ts = Inr cs \<Longrightarrow> \<forall>c\<in>set cs. utf8_valid (tc_input c) \<and> utf8_valid (tc_expected c)"
  by (induction ts arbitrary: cs rule: check_stored_tests.induct)
    (auto split: option.splits if_splits sum.splits)

lemma those_length: "those xs = Some ys \<Longrightarrow> length xs = length ys"
  by (induction xs arbitrary: ys) (auto split: option.splits)

lemma decode_stored_tests_InrD:
  assumes "decode_stored_tests j = Inr ts"
  shows "ts \<noteq> []" "\<forall>c\<in>set ts. utf8_valid (tc_input c) \<and> utf8_valid (tc_expected c)"
    "jsonb_array_length j = Some (int (length ts))"
proof -
  obtain xs st where j: "j = JArray xs" "those (map stored_test_case xs) = Some st"
    and ne: "st \<noteq> []" and c: "check_stored_tests st = Inr ts"
    using assms by (auto simp: decode_stored_tests_def Let_def split: json.splits option.splits list.splits)
  show "ts \<noteq> []" "jsonb_array_length j = Some (int (length ts))"
    using check_stored_tests_length [OF c] ne those_length [OF j(2)] by (auto simp: j)
  show "\<forall>c\<in>set ts. utf8_valid (tc_input c) \<and> utf8_valid (tc_expected c)"
    using c by (rule check_stored_tests_utf8)
qed

lemma claim_row_of_SomeD:
  assumes "claim_row_of sid d = Some (s, m, p)"
  shows "submission_of d sid = Some s" "match_of d (s_match_id s) = Some m" "problem_of d (m_problem_id m) = Some p"
  using assms by (auto simp: claim_row_of_def split: option.splits)

lemma claim_row_of_total:
  assumes "db_inv d" "submission_of d sid = Some s"
  obtains m p where "claim_row_of sid d = Some (s, m, p)"
proof -
  obtain m where m: "match_of d (s_match_id s) = Some m"
    using submission_match [OF assms] by blast
  obtain p where "problem_of d (m_problem_id m) = Some p"
    using assms(1) m by (rule match_problem)
  with m assms(2) show thesis by (intro that) (simp add: claim_row_of_def)
qed

text \<open>A claim either leaves the database alone or takes the lease of a pending submission.\<close>

lemma store_claim_cases:
  assumes "store_claim has_db ext now mark_now sid token lease d = (res, d')"
  obtains (unchanged) "d' = d" "\<And>c. res \<noteq> Inr (ClaimAcquired c)"
  | (acquired) s m p tests players where
      "claim_row_of sid d = Some (s, m, p)" "s_status s = ''pending''" "token \<noteq> nil_uuid" "sid \<noteq> nil_uuid" "0 < lease"
      "decode_stored_tests (p_test_cases p) = Inr tests"
      "s_language s \<in> set [''python'', ''cpp'', ''java'']" "s_code s \<noteq> ''''" "utf8_valid (s_code s)"
      "load_match_players (ext ClPlayers) (s_match_id s) (s_player_id s) d = Inr players"
      "ext ClCommit \<noteq> IoErr" "mark_running mark_now sid token lease d = Some d'"
      "res = (if ext ClCommit = IoOk then Inr (ClaimAcquired
          \<lparr>cs_submission_id = sid, cs_match_id = s_match_id s, cs_player_id = s_player_id s,
           cs_problem_id = m_problem_id m, cs_request_id = s_request_id s, cs_language = s_language s,
           cs_source = s_code s, cs_tests = tests, cs_players = players, cs_attempt_token = token\<rparr>)
        else Inl ''commit submission claim'')"
proof (cases "d' = d \<and> (\<forall>c. res \<noteq> Inr (ClaimAcquired c))")
  case True
  with unchanged show thesis by simp
next
  case False
  from assms False obtain s m p where row: "claim_row_of sid d = Some (s, m, p)"
    and args: "sid \<noteq> nil_uuid" "token \<noteq> nil_uuid" "0 < lease"
    by (auto simp: store_claim_def split: if_splits option.splits)
  have p: "s_status s = ''pending''"
    using assms False row
    by (auto simp: store_claim_def claim_completed_def split: if_splits option.splits sum.splits)
  obtain tests where t: "decode_stored_tests (p_test_cases p) = Inr tests"
    using assms False row p by (auto simp: store_claim_def split: if_splits sum.splits)
  have l: "s_language s \<in> set [''python'', ''cpp'', ''java'']" "s_code s \<noteq> ''''" "utf8_valid (s_code s)"
    using assms False row p t
    by (auto simp: store_claim_def parse_stored_language_def split: if_splits)
  obtain players where pl: "load_match_players (ext ClPlayers) (s_match_id s) (s_player_id s) d = Inr players"
    using assms False row p t l
    by (auto simp: store_claim_def parse_stored_language_def split: if_splits sum.splits)
  show thesis
    using assms False row p t l pl
    by (intro acquired [OF row p args(2,1,3) t l pl])
      (auto simp: store_claim_def parse_stored_language_def commit_db_def io_applied_def
        split: if_splits option.splits)
qed

lemma mark_running_SomeD:
  assumes "mark_running now sid token lease d = Some d'"
  shows "d' = d\<lparr>db_submissions := sql_update (\<lambda>r. s_id r = sid \<and> s_status r = ''pending'')
    (\<lambda>r. r\<lparr>s_status := ''running'', s_attempts := s_attempts r + 1, s_attempt_token := Some token,
             s_lease_until := Some (now + microseconds lease)\<rparr>) (db_submissions d)\<rparr>"
  using update_submissions_SomeD(1) [OF assms [unfolded mark_running_def]] .

lemma mark_running_inv [inv_intros]:
  assumes "db_inv d" "mark_running now sid token lease d = Some d'"
  shows "db_inv d'"
  using assms(2) unfolding mark_running_def
  by (rule update_submissions_inv [OF assms(1)]) (auto simp: keeps_identity_def)

lemma store_claim_inv [inv_intros]:
  assumes "db_inv d" "store_claim has_db ext now mark_now sid token lease d = (res, d')"
  shows "db_inv d'"
  using assms(2)
proof (cases rule: store_claim_cases)
  case (acquired s m p tests players)
  from assms(1) acquired(12) show ?thesis by (rule mark_running_inv)
qed (use assms in simp)

text \<open>
  The database after a completion: the submission is completed, and a pass finishes an
  active match without a winner.
\<close>

definition completed_row :: "time \<Rightarrow> terminal_result \<Rightarrow> submission_row \<Rightarrow> submission_row" where
  "completed_row now t r = r\<lparr>s_status := ''completed'', s_result := Some (tr_verdict t),
     s_failure_kind := (if tr_failure_kind t = '''' then None else Some (tr_failure_kind t)),
     s_tests_passed := tr_tests_passed t, s_finished_at := Some now,
     s_attempt_token := None, s_lease_until := None\<rparr>"

definition with_completed :: "time \<Rightarrow> uuid \<Rightarrow> terminal_result \<Rightarrow> db \<Rightarrow> db" where
  "with_completed now sid t d =
     d\<lparr>db_submissions := sql_update (\<lambda>r. s_id r = sid) (completed_row now t) (db_submissions d)\<rparr>"

lemma persist_result_SomeD: "persist_result now sid t d = Some d' \<Longrightarrow> d' = with_completed now sid t d"
  unfolding persist_result_def with_completed_def completed_row_def by (rule update_submissions_SomeD(1))

lemma with_completed_submission_of:
  "submission_of (with_completed now sid t d) k =
     map_option (\<lambda>r. if s_id r = sid then completed_row now t r else r) (submission_of d k)"
  unfolding submission_of_def with_completed_def
  by (simp add: row_of_sql_update completed_row_def)

lemma with_completed_frame [simp]:
  "match_of (with_completed now sid t d) = match_of d"
  "is_player (with_completed now sid t d) = is_player d"
  "db_matches (with_completed now sid t d) = db_matches d"
  "db_players (with_completed now sid t d) = db_players d"
  "players_of (with_completed now sid t d) = players_of d"
  by (simp_all add: with_completed_def)

definition pass_wins :: "terminal_result \<Rightarrow> match_row \<Rightarrow> bool" where
  "pass_wins t m \<longleftrightarrow> tr_verdict t = ''pass'' \<and> m_status m = ''active'' \<and> m_winner_id m = None"

lemma store_complete_cases:
  assumes "store_complete has_db ext now c t d = (res, d')"
  obtains (unchanged) "d' = d" "\<And>co. res \<noteq> Inr (CompletionApplied co)"
  | (applied) s m where
      "valid_claimed_submission c" "validate_terminal_result t (length (cs_tests c)) = None"
      "match_of d (cs_match_id c) = Some m" "submission_of d (cs_submission_id c) = Some s"
      "s_status s = ''running''" "s_match_id s = cs_match_id c" "s_player_id s = cs_player_id c"
      "s_attempt_token s = Some (cs_attempt_token c)"
      "persist_result now (cs_submission_id c) t d = Some (with_completed now (cs_submission_id c) t d)"
      "if pass_wins t m
       then finish_match (cs_match_id c) (Some (cs_player_id c)) (with_completed now (cs_submission_id c) t d) = Some (d', True)
       else d' = with_completed now (cs_submission_id c) t d"
      "res = (if ext CpCommit \<noteq> IoOk then Inl ''commit submission result''
            else Inr (CompletionApplied
              \<lparr>co_submission_id = cs_submission_id c, co_match_id = cs_match_id c,
               co_player_id = cs_player_id c, co_request_id = cs_request_id c, co_players = cs_players c,
               co_verdict = tr_verdict t, co_failure_kind = tr_failure_kind t,
               co_tests_passed = tr_tests_passed t, co_total_tests = int (length (cs_tests c)),
               co_winner_id = (if pass_wins t m then cs_player_id c
                  else case m_winner_id m of None \<Rightarrow> nil_uuid | Some w \<Rightarrow> w)\<rparr>))"
proof (cases "d' = d \<and> (\<forall>co. res \<noteq> Inr (CompletionApplied co))")
  case True
  with unchanged show thesis by simp
next
  case False
  have a: "valid_claimed_submission c" "validate_terminal_result t (length (cs_tests c)) = None"
    using assms False by (auto simp: store_complete_def split: if_splits option.splits)
  obtain m where m: "match_of d (cs_match_id c) = Some m"
    using assms False a by (auto simp: store_complete_def split: if_splits option.splits)
  obtain s where s: "submission_of d (cs_submission_id c) = Some s"
    using assms False a m by (auto simp: store_complete_def split: if_splits option.splits)
  have o: "s_status s = ''running''" "s_match_id s = cs_match_id c" "s_player_id s = cs_player_id c"
      "s_attempt_token s = Some (cs_attempt_token c)"
    using assms False a m s by (auto simp: store_complete_def split: if_splits)
  obtain d1 where d1: "persist_result now (cs_submission_id c) t d = Some d1"
    using assms False a m s o by (auto simp: store_complete_def split: if_splits option.splits)
  note d1' = persist_result_SomeD [OF d1]
  have md: "match_of d1 (cs_match_id c) = Some m" using m by (simp add: d1')
  obtain w d2 where w: "claim_winner (ext CpWinner) c t m d1 = (Inr w, d2)"
    and r: "res = (if ext CpCommit \<noteq> IoOk then Inl ''commit submission result''
            else Inr (CompletionApplied
              \<lparr>co_submission_id = cs_submission_id c, co_match_id = cs_match_id c,
               co_player_id = cs_player_id c, co_request_id = cs_request_id c, co_players = cs_players c,
               co_verdict = tr_verdict t, co_failure_kind = tr_failure_kind t,
               co_tests_passed = tr_tests_passed t, co_total_tests = int (length (cs_tests c)),
               co_winner_id = (case w of None \<Rightarrow> nil_uuid | Some w \<Rightarrow> w)\<rparr>))"
    and d': "d' = commit_db (ext CpCommit) d d2"
    using assms False a m s o d1
    by (auto simp: store_complete_def split: if_splits option.splits prod.splits sum.splits)
  have d2: "d' = d2"
    using d' r False by (auto simp: commit_db_def io_applied_def split: if_splits)
  have w': "if pass_wins t m
       then finish_match (cs_match_id c) (Some (cs_player_id c)) d1 = Some (d', True) \<and> w = Some (cs_player_id c)
       else d' = d1 \<and> w = m_winner_id m"
    using w md d2
    by (auto simp: claim_winner_def pass_wins_def finish_match_def Let_def split: if_splits option.splits prod.splits)
  show thesis
    by (rule applied [OF a m s o]) (use d1 d1' w' r in \<open>auto split: if_splits\<close>)
qed

lemma persist_result_inv [inv_intros]:
  assumes "db_inv d" "persist_result now sid t d = Some d'"
  shows "db_inv d'"
  using assms(2) unfolding persist_result_def
  by (rule update_submissions_inv_tokens [OF assms(1)]) (auto simp: keeps_identity_def keeps_tokens_def)

lemma store_complete_inv [inv_intros]:
  assumes "db_inv d" "store_complete has_db ext now c t d = (res, d')"
  shows "db_inv d'"
  using assms(2)
proof (cases rule: store_complete_cases)
  case (applied s m)
  have "db_inv (with_completed now (cs_submission_id c) t d)"
    using assms(1) applied(9) by (rule persist_result_inv)
  then show ?thesis
    using applied(10) finish_match_inv by (auto split: if_splits)
qed (use assms in simp)

lemma mark_running_submission_of:
  assumes "mark_running now sid token lease d = Some d'"
  shows "submission_of d' k = map_option (\<lambda>r. if s_id r = sid \<and> s_status r = ''pending''
    then r\<lparr>s_status := ''running'', s_attempts := s_attempts r + 1, s_attempt_token := Some token,
             s_lease_until := Some (now + microseconds lease)\<rparr> else r) (submission_of d k)"
  unfolding mark_running_SomeD [OF assms] submission_of_def by (simp add: row_of_sql_update)

lemma claim_acquired_exclusive_row:
  assumes "store_claim has_db ext now mark_now sid token lease d = (Inr (ClaimAcquired c), d')"
  shows "\<exists>s. submission_of d' sid = Some s \<and> s_status s = ''running'' \<and> s_match_id s = cs_match_id c
    \<and> s_player_id s = cs_player_id c \<and> s_attempt_token s = Some (cs_attempt_token c)"
  using assms
proof (cases rule: store_claim_cases)
  case (acquired s m p tests players)
  note row = claim_row_of_SomeD [OF acquired(1)]
  have "s_id s = sid" using row(1) by (simp add: submission_ofD)
  with acquired(2) row(1) have "submission_of d' sid = Some (s\<lparr>s_status := ''running'', s_attempts := s_attempts s + 1,
      s_attempt_token := Some token, s_lease_until := Some (mark_now + microseconds lease)\<rparr>)"
    by (simp add: mark_running_submission_of [OF acquired(12)])
  with acquired(13) show ?thesis by (auto split: if_splits)
qed blast

text \<open>A submission that is not pending cannot be claimed.\<close>

lemma store_claim_not_pending:
  assumes "store_claim has_db ext now mark_now sid token lease d = (res, d')"
    and "submission_of d sid = Some s" "s_status s \<noteq> ''pending''"
  shows "d' = d \<and> (\<forall>c. res \<noteq> Inr (ClaimAcquired c))"
  using assms(1)
proof (cases rule: store_claim_cases)
  case (acquired s m p tests players)
  with assms(2,3) claim_row_of_SomeD(1) [OF acquired(1)] show ?thesis by simp
qed simp

text \<open>A submission that is not running cannot be completed.\<close>

lemma store_complete_not_running:
  assumes "store_complete has_db ext now c t d = (res, d')"
    and "submission_of d (cs_submission_id c) = Some s" "s_status s \<noteq> ''running''"
  shows "d' = d \<and> (\<forall>co. res \<noteq> Inr (CompletionApplied co))"
  using assms(1)
proof (cases rule: store_complete_cases)
  case (applied s m)
  with assms(2,3) show ?thesis by simp
qed simp

lemma store_complete_rows:
  assumes "store_complete has_db ext now c t d = (res, d')" "d' \<noteq> d \<or> (\<exists>co. res = Inr (CompletionApplied co))"
  obtains s m where "submission_of d (cs_submission_id c) = Some s" "s_status s = ''running''"
    "s_attempt_token s = Some (cs_attempt_token c)" "s_match_id s = cs_match_id c" "s_player_id s = cs_player_id c"
    "match_of d (cs_match_id c) = Some m"
    "\<forall>k. submission_of d' k = (if k = cs_submission_id c then Some (completed_row now t s) else submission_of d k)"
    "\<forall>k. match_of d' k = (if k = cs_match_id c \<and> pass_wins t m
        then Some (m\<lparr>m_status := ''finished'', m_winner_id := Some (cs_player_id c)\<rparr>) else match_of d k)"
    "players_of d' = players_of d" "db_problems d' = db_problems d" "problem_of d' = problem_of d"
  using assms(1)
proof (cases rule: store_complete_cases)
  case (applied s m)
  let ?d1 = "with_completed now (cs_submission_id c) t d"
  have sub: "submission_of ?d1 k = (if k = cs_submission_id c then Some (completed_row now t s) else submission_of d k)" for k
    using applied(4) by (cases "submission_of d k") (auto simp: with_completed_submission_of dest: submission_ofD)
  have pr: "problem_of ?d1 = problem_of d" "db_problems ?d1 = db_problems d"
    by (simp_all add: with_completed_def)
  show thesis
  proof (cases "pass_wins t m")
    case True
    with applied(10) have f: "finish_match (cs_match_id c) (Some (cs_player_id c)) ?d1 = Some (d', True)" by simp
    have m1: "match_of ?d1 (cs_match_id c) = Some m" using applied(3) by simp
    note fr = finish_match_frame [OF f]
    show thesis
      using True applied sub pr finish_match_match_of [OF f m1] fr by (intro that [of s m]) auto
  next
    case False
    with applied sub pr show thesis by (intro that [of s m]) auto
  qed
qed (use assms(2) in simp)

section \<open>Properties\<close>

text \<open>
  Property C10. One attempt at a time: a claim that acquires a submission found it pending,
  carries exactly its source, language, players and the tests of its problem, and leaves it
  running under the caller's token with one more attempt, every other submission and all
  else untouched; and from then on no claim, with any token, acquires it or changes anything.
\<close>

theorem claim_acquired_exclusive:
  assumes "store_claim has_db ext now mark_now sid token lease d = (Inr (ClaimAcquired c), d')"
  shows "(\<exists>s m p. claim_row_of sid d = Some (s, m, p) \<and> s_status s = ''pending''
      \<and> cs_submission_id c = sid \<and> cs_source c = s_code s \<and> cs_language c = s_language s
      \<and> cs_match_id c = s_match_id s \<and> cs_player_id c = s_player_id s \<and> cs_attempt_token c = token
      \<and> players_of d (s_match_id s) = [fst (cs_players c), snd (cs_players c)]
      \<and> decode_stored_tests (p_test_cases p) = Inr (cs_tests c)
      \<and> submission_of d' sid = Some (s\<lparr>s_status := ''running'', s_attempts := s_attempts s + 1,
            s_attempt_token := Some token, s_lease_until := Some (mark_now + microseconds lease)\<rparr>))
    \<and> (\<forall>k. k \<noteq> sid \<longrightarrow> submission_of d' k = submission_of d k)
    \<and> d'\<lparr>db_submissions := db_submissions d\<rparr> = d
    \<and> (\<forall>has_db' ext' now' mark_now' token' lease' res' d''.
         store_claim has_db' ext' now' mark_now' sid token' lease' d' = (res', d'')
         \<longrightarrow> d'' = d' \<and> (\<forall>c'. res' \<noteq> Inr (ClaimAcquired c')))"
  using assms
proof (cases rule: store_claim_cases)
  case (acquired s m p tests players)
  note row = claim_row_of_SomeD [OF acquired(1)]
  have sid: "s_id s = sid" using row(1) by (simp add: submission_ofD)
  have sub: "submission_of d' sid = Some (s\<lparr>s_status := ''running'', s_attempts := s_attempts s + 1,
      s_attempt_token := Some token, s_lease_until := Some (mark_now + microseconds lease)\<rparr>)"
    using acquired(2) row(1) sid by (simp add: mark_running_submission_of [OF acquired(12)])
  have other: "submission_of d' k = submission_of d k" if "k \<noteq> sid" for k
    using that by (cases "submission_of d k")
      (auto simp: mark_running_submission_of [OF acquired(12)] dest: submission_ofD)
  have c: "c = \<lparr>cs_submission_id = sid, cs_match_id = s_match_id s, cs_player_id = s_player_id s,
           cs_problem_id = m_problem_id m, cs_request_id = s_request_id s, cs_language = s_language s,
           cs_source = s_code s, cs_tests = tests, cs_players = players, cs_attempt_token = token\<rparr>"
    using acquired(13) by (simp split: if_splits)
  have same: "d'\<lparr>db_submissions := db_submissions d\<rparr> = d"
    by (simp add: mark_running_SomeD [OF acquired(12)])
  have later: "d'' = d' \<and> (\<forall>c'. res' \<noteq> Inr (ClaimAcquired c'))"
    if "store_claim has_db' ext' now' mark_now' sid token' lease' d' = (res', d'')"
    for has_db' ext' now' mark_now' token' lease' res' d''
    using store_claim_not_pending [OF that sub] by simp
  show ?thesis
    using acquired(1,2,6) sub other same later load_match_players_InrD(1) [OF acquired(10)] unfolding c by auto
qed blast

definition ex_claim :: "uuid \<Rightarrow> uuid \<Rightarrow> db \<Rightarrow> (string + claim_result) \<times> db" where
  "ex_claim sid token d = store_claim True (\<lambda>_. IoOk) 50 50 sid token 60000000000 d"

definition ex_claimed :: claimed_submission where
  "ex_claimed = \<lparr>cs_submission_id = 1001, cs_match_id = 100, cs_player_id = 1, cs_problem_id = 10,
     cs_request_id = 1001, cs_language = ''python'', cs_source = ''x'',
     cs_tests = [\<lparr>tc_input = ''1'', tc_expected = ''2''\<rparr>, \<lparr>tc_input = ''3'', tc_expected = ''4''\<rparr>],
     cs_players = (1, 2), cs_attempt_token = 77\<rparr>"

theorem claim_acquired_exclusive_witness:
  "snd (ex_claim 1001 78 (snd (ex_claim 1001 77 (ex_db [ex_pending 1001])))) = snd (ex_claim 1001 77 (ex_db [ex_pending 1001]))"
proof -
  let ?run = "ex_claim 1001 77 (ex_db [ex_pending 1001])"
  have "fst ?run = Inr (ClaimAcquired ex_claimed)" by code_simp
  then have run: "store_claim True (\<lambda>_. IoOk) 50 50 1001 77 60000000000 (ex_db [ex_pending 1001])
      = (Inr (ClaimAcquired ex_claimed), snd ?run)"
    by (simp add: ex_claim_def prod_eq_iff)
  show ?thesis
    using claim_acquired_exclusive [OF run] unfolding ex_claim_def by (metis prod.collapse)
qed

text \<open>
  Property C8. A result is recorded once, by the owner: if a completion changed the database,
  whatever it answered, then the submission was running under exactly the claim's attempt
  token, it is now completed with the given result and no other submission changed; and every
  later completion of this submission, with any claim, changes nothing and is not applied.
\<close>

theorem complete_once_by_owner:
  assumes "store_complete has_db ext now c t d = (res, d')"
    and "d' \<noteq> d \<or> (\<exists>co. res = Inr (CompletionApplied co))"
  shows "(\<exists>s. submission_of d (cs_submission_id c) = Some s \<and> s_status s = ''running''
      \<and> s_attempt_token s = Some (cs_attempt_token c)
      \<and> submission_of d' (cs_submission_id c) = Some (completed_row now t s))
    \<and> (\<forall>k. k \<noteq> cs_submission_id c \<longrightarrow> submission_of d' k = submission_of d k)
    \<and> (\<forall>has_db' ext' now' c' t' res' d''.
         cs_submission_id c' = cs_submission_id c \<and> store_complete has_db' ext' now' c' t' d' = (res', d'')
         \<longrightarrow> d'' = d' \<and> (\<forall>co. res' \<noteq> Inr (CompletionApplied co)))"
proof -
  from assms obtain s m where s: "submission_of d (cs_submission_id c) = Some s" "s_status s = ''running''"
    "s_attempt_token s = Some (cs_attempt_token c)"
    and d': "\<forall>k. submission_of d' k =
      (if k = cs_submission_id c then Some (completed_row now t s) else submission_of d k)"
    by (elim store_complete_rows) blast
  have later: "d'' = d' \<and> (\<forall>co. res' \<noteq> Inr (CompletionApplied co))"
    if "cs_submission_id c' = cs_submission_id c" "store_complete has_db' ext' now' c' t' d' = (res', d'')"
    for has_db' ext' now' c' t' res' d''
    using store_complete_not_running [OF that(2), of "completed_row now t s"] d' that(1)
    by (simp add: completed_row_def)
  have other: "\<forall>k. k \<noteq> cs_submission_id c \<longrightarrow> submission_of d' k = submission_of d k"
    using d' by simp
  show ?thesis
    by (intro conjI exI [of _ s] other) (use s d' in simp, use s d' in simp, use s d' in simp,
      use s d' in simp, use later in blast)
qed

definition ex_result :: "string \<Rightarrow> string \<Rightarrow> int \<Rightarrow> terminal_result" where
  "ex_result v k n = \<lparr>tr_verdict = v, tr_failure_kind = k, tr_tests_passed = n\<rparr>"

definition ex_complete :: "io \<Rightarrow> terminal_result \<Rightarrow> db \<Rightarrow> (string + completion_result) \<times> db" where
  "ex_complete x t d = store_complete True (\<lambda>c. if c = CpCommit then x else IoOk) 55 ex_claimed t d"

theorem complete_once_by_owner_witness:
  "snd (ex_complete IoOk (ex_result ''fail'' ''wrong_answer'' 1)
      (snd (ex_complete IoLost (ex_result ''pass'' [] 2) (ex_db [ex_running 1001]))))
    = snd (ex_complete IoLost (ex_result ''pass'' [] 2) (ex_db [ex_running 1001]))"
proof -
  let ?d = "ex_db [ex_running 1001]"
  let ?run = "ex_complete IoLost (ex_result ''pass'' [] 2) ?d"
  have run: "store_complete True (\<lambda>c. if c = CpCommit then IoLost else IoOk) 55 ex_claimed (ex_result ''pass'' [] 2) ?d
      = (fst ?run, snd ?run)"
    by (simp add: ex_complete_def)
  have "map s_status (db_submissions (snd ?run)) = [''completed'']" "map s_status (db_submissions ?d) = [''running'']"
    by code_simp+
  then have ne: "snd ?run \<noteq> ?d" by auto
  show ?thesis
    using complete_once_by_owner [OF run disjI1 [OF ne]] unfolding ex_complete_def by (metis prod.collapse)
qed

text \<open>
  Property C9. The first pass wins, and only a pass: a completion changes its match exactly
  when the verdict is a pass and the match is still active without a winner; then the match is
  finished and the submitting player has won it. A decided match keeps its winner, no
  other match changes, and an applied completion reports the winner that is stored.
\<close>

theorem complete_winner:
  assumes "store_complete has_db ext now c t d = (res, d')"
    and "d' \<noteq> d \<or> (\<exists>co. res = Inr (CompletionApplied co))"
  shows "(\<exists>m m'. match_of d (cs_match_id c) = Some m \<and> match_of d' (cs_match_id c) = Some m'
      \<and> m' = (if tr_verdict t = ''pass'' \<and> m_status m = ''active'' \<and> m_winner_id m = None
              then m\<lparr>m_status := ''finished'', m_winner_id := Some (cs_player_id c)\<rparr> else m)
      \<and> (\<forall>co. res = Inr (CompletionApplied co) \<longrightarrow>
            co_winner_id co = (case m_winner_id m' of None \<Rightarrow> nil_uuid | Some w \<Rightarrow> w)))
    \<and> (\<forall>k. k \<noteq> cs_match_id c \<longrightarrow> match_of d' k = match_of d k)"
  using assms(1)
proof (cases rule: store_complete_cases)
  case (applied s m)
  from assms obtain s0 m0 where m0: "match_of d (cs_match_id c) = Some m0"
    and d': "\<forall>k. match_of d' k = (if k = cs_match_id c \<and> pass_wins t m0
        then Some (m0\<lparr>m_status := ''finished'', m_winner_id := Some (cs_player_id c)\<rparr>) else match_of d k)"
    by (elim store_complete_rows) blast
  have [simp]: "m0 = m" using m0 applied(3) by simp
  have co: "co_winner_id co = (if pass_wins t m then cs_player_id c
      else case m_winner_id m of None \<Rightarrow> nil_uuid | Some w \<Rightarrow> w)" if "res = Inr (CompletionApplied co)" for co
    using applied(11) that by (auto split: if_splits)
  show ?thesis
    using applied(3) d' co by (auto simp: pass_wins_def split: option.splits)
qed (use assms(2) in simp)

theorem complete_winner_witness:
  "map_option m_winner_id (match_of (snd (ex_complete IoOk (ex_result ''pass'' [] 2) (ex_db [ex_running 1001]))) 100)
    = Some (Some 1)"
proof -
  let ?d = "ex_db [ex_running 1001]"
  let ?t = "ex_result ''pass'' [] 2"
  let ?run = "ex_complete IoOk ?t ?d"
  have run: "store_complete True (\<lambda>c. if c = CpCommit then IoOk else IoOk) 55 ex_claimed ?t ?d = (fst ?run, snd ?run)"
    by (simp add: ex_complete_def)
  have "case fst ?run of Inr (CompletionApplied co) \<Rightarrow> True | _ \<Rightarrow> False"
    by code_simp
  then have "\<exists>co. fst ?run = Inr (CompletionApplied co)"
    by (auto split: sum.splits completion_result.splits)
  from complete_winner [OF run disjI2 [OF this]]
  have "\<exists>m m'. match_of ?d 100 = Some m \<and> match_of (snd ?run) 100 = Some m' \<and>
      m' = (if tr_verdict ?t = ''pass'' \<and> m_status m = ''active'' \<and> m_winner_id m = None
        then m\<lparr>m_status := ''finished'', m_winner_id := Some 1\<rparr> else m)"
    unfolding ex_claimed_def by auto
  moreover have "match_of ?d 100 = Some ex_match" "tr_verdict ?t = ''pass''"
      "m_status ex_match = ''active''" "m_winner_id ex_match = None"
    by code_simp+
  ultimately show ?thesis by auto
qed

lemma persist_result_alt:
  "persist_result now sid t d = update_submissions (\<lambda>r. s_id r = sid) (completed_row now t) d"
  by (simp add: persist_result_def completed_row_def [abs_def])

lemma completed_row_checks:
  assumes "submission_ok d s" "validate_terminal_result t n = None" "int n \<le> int_max"
  shows "submission_checks (completed_row now t s)"
  using assms
  by (auto simp: submission_ok_def submission_checks_def completed_row_def validate_terminal_result_def
      split: if_splits)

lemma complete_applied_run:
  assumes "db_inv d" and "submission_of d (cs_submission_id c) = Some s"
    and "s_status s = ''running''" "s_match_id s = cs_match_id c" "s_player_id s = cs_player_id c"
      "s_attempt_token s = Some (cs_attempt_token c)"
    and "valid_claimed_submission c" "validate_terminal_result t (length (cs_tests c)) = None"
    and "int (length (cs_tests c)) \<le> int_max"
  shows "\<exists>co d'. store_complete True (\<lambda>_. IoOk) now c t d = (Inr (CompletionApplied co), d')
    \<and> co_verdict co = tr_verdict t \<and> co_tests_passed co = tr_tests_passed t
    \<and> submission_of d' (cs_submission_id c) = Some (completed_row now t s)"
proof -
  obtain m where m: "match_of d (cs_match_id c) = Some m"
    using submission_match [OF assms(1,2)] assms(4) by auto
  have ok: "submission_ok d s" using assms(1,2) by (rule submission_ok_of)
  have "r = s" if "r \<in> set (db_submissions d)" "s_id r = cs_submission_id c" for r
    using that submission_of_iff [OF assms(1), of "cs_submission_id c" r] assms(2) by simp
  then have per: "persist_result now (cs_submission_id c) t d = Some (with_completed now (cs_submission_id c) t d)"
    using completed_row_checks [OF ok assms(8,9), of now]
    by (auto simp: persist_result_alt update_submissions_def with_completed_def)
  let ?d1 = "with_completed now (cs_submission_id c) t d"
  have pl: "is_player ?d1 (cs_match_id c) (cs_player_id c)"
    using ok assms(4,5) by (simp add: submission_ok_def)
  obtain w d2 where w: "claim_winner IoOk c t m ?d1 = (Inr w, d2)"
  proof (cases "pass_wins t m")
    case True
    then have a: "m_status m = ''active''" "m_winner_id m = None" by (simp_all add: pass_wins_def)
    have "match_of ?d1 (cs_match_id c) = Some m" using m by simp
    then obtain d2 where "finish_match (cs_match_id c) (Some (cs_player_id c)) ?d1 = Some (d2, True)"
      using a pl by (elim finish_match_total [where w = "Some (cs_player_id c)"]) auto
    with True show thesis by (intro that) (simp add: claim_winner_def pass_wins_def)
  next
    case False
    then show thesis by (intro that) (auto simp: claim_winner_def pass_wins_def)
  qed
  let ?run = "store_complete True (\<lambda>_. IoOk) now c t d"
  obtain co where co: "?run = (Inr (CompletionApplied co), d2)" "co_verdict co = tr_verdict t"
      "co_tests_passed co = tr_tests_passed t"
    using assms(2-8) m per w by (simp add: store_complete_def)
  from co(1) obtain s' where s': "submission_of d (cs_submission_id c) = Some s'"
    and "submission_of d2 (cs_submission_id c) = Some (completed_row now t s')"
    by (rule store_complete_rows) auto
  with co assms(2) show ?thesis by auto
qed

text \<open>
  The owner's result is always recorded: for a valid claim that still owns its
  submission and a valid result, with no failing call, no constraint of the schema stands in
  the way of \<open>Complete\<close>, whatever the state of the match.
\<close>

theorem complete_applies:
  assumes "db_inv d" and "submission_of d (cs_submission_id c) = Some s"
    and "s_status s = ''running''" "s_match_id s = cs_match_id c" "s_player_id s = cs_player_id c"
      "s_attempt_token s = Some (cs_attempt_token c)"
    and "valid_claimed_submission c" "validate_terminal_result t (length (cs_tests c)) = None"
    and "int (length (cs_tests c)) \<le> int_max"
  shows "\<exists>co d'. store_complete True (\<lambda>_. IoOk) now c t d = (Inr (CompletionApplied co), d')
    \<and> co_verdict co = tr_verdict t \<and> co_tests_passed co = tr_tests_passed t
    \<and> submission_of d' (cs_submission_id c) = Some (completed_row now t s)"
  using assms by (rule complete_applied_run)

theorem complete_applies_witness:
  "submission_of (snd (store_complete True (\<lambda>_. IoOk) 55 ex_claimed (ex_result ''fail'' ''wrong_answer'' 1) (ex_db [ex_running 1001]))) 1001
    = Some (completed_row 55 (ex_result ''fail'' ''wrong_answer'' 1) (ex_running 1001))"
proof -
  let ?d = "ex_db [ex_running 1001]"
  have h: "db_inv ?d" "submission_of ?d (cs_submission_id ex_claimed) = Some (ex_running 1001)"
    "s_status (ex_running 1001) = ''running''" "s_match_id (ex_running 1001) = cs_match_id ex_claimed"
    "s_player_id (ex_running 1001) = cs_player_id ex_claimed"
    "s_attempt_token (ex_running 1001) = Some (cs_attempt_token ex_claimed)"
    "valid_claimed_submission ex_claimed"
    "validate_terminal_result (ex_result ''fail'' ''wrong_answer'' 1) (length (cs_tests ex_claimed)) = None"
    "int (length (cs_tests ex_claimed)) \<le> int_max"
    by code_simp+
  have "cs_submission_id ex_claimed = 1001" by (simp add: ex_claimed_def)
  with complete_applies [OF h, of 55] show ?thesis by auto
qed

text \<open>
  A redelivered job reproduces the result: when a claim and its completion have
  been applied, a later claim of the same submission under any token changes nothing and
  hands back exactly the completed submission that \<open>Complete\<close> reported, so the events of
  the first delivery are published again.
\<close>

theorem claim_replays_completion:
  assumes "store_claim has_db ext now mark_now sid token lease d = (Inr (ClaimAcquired c), d1)"
    and "store_complete has_db' ext' now' c t d1 = (Inr (CompletionApplied co), d2)"
    and "token' \<noteq> nil_uuid" "0 < lease'"
  shows "store_claim True (\<lambda>_. IoOk) now'' mark_now'' sid token' lease' d2 = (Inr (ClaimCompleted co), d2)"
  using assms(1)
proof (cases rule: store_claim_cases)
  case (acquired s m p tests players)
  note row = claim_row_of_SomeD [OF acquired(1)]
  let ?s1 = "s\<lparr>s_status := ''running'', s_attempts := s_attempts s + 1,
      s_attempt_token := Some token, s_lease_until := Some (mark_now + microseconds lease)\<rparr>"
  have sid: "s_id s = sid" using row(1) by (simp add: submission_ofD)
  have c: "c = \<lparr>cs_submission_id = sid, cs_match_id = s_match_id s, cs_player_id = s_player_id s,
           cs_problem_id = m_problem_id m, cs_request_id = s_request_id s, cs_language = s_language s,
           cs_source = s_code s, cs_tests = tests, cs_players = players, cs_attempt_token = token\<rparr>"
    using acquired(13) by (simp split: if_splits)
  note d1 = mark_running_SomeD [OF acquired(12)]
  have s1: "submission_of d1 sid = Some ?s1"
    using acquired(2) row(1) sid by (simp add: mark_running_submission_of [OF acquired(12)])
  have fr: "match_of d1 = match_of d" "players_of d1 = players_of d" "problem_of d1 = problem_of d"
    by (simp_all add: d1)
  from assms(2) obtain s' m' where s': "submission_of d1 (cs_submission_id c) = Some s'"
    and m': "match_of d1 (cs_match_id c) = Some m'"
    and sub: "\<forall>k. submission_of d2 k = (if k = cs_submission_id c then Some (completed_row now' t s') else submission_of d1 k)"
    and mat: "\<forall>k. match_of d2 k = (if k = cs_match_id c \<and> pass_wins t m'
        then Some (m'\<lparr>m_status := ''finished'', m_winner_id := Some (cs_player_id c)\<rparr>) else match_of d1 k)"
    and pl: "players_of d2 = players_of d1" "problem_of d2 = problem_of d1"
    by (rule store_complete_rows) auto
  have e: "s' = ?s1" "m' = m" using s' s1 m' row(2) by (simp_all add: c fr)
  let ?m = "if pass_wins t m then m\<lparr>m_status := ''finished'', m_winner_id := Some (s_player_id s)\<rparr> else m"
  have look: "claim_row_of sid d2 = Some (completed_row now' t ?s1, ?m, p)"
    using sub mat row by (simp add: claim_row_of_def c e fr pl completed_row_def)
  have lp: "load_match_players IoOk (s_match_id s) (s_player_id s) d2 = Inr players"
    using acquired(10) by (simp add: load_match_players_def pl fr split: if_splits)
  from assms(2) show ?thesis
  proof (cases rule: store_complete_cases)
    case (applied s0 m0)
    have [simp]: "m0 = m" using applied(3) row(2) by (simp add: c fr)
    have co: "co = \<lparr>co_submission_id = sid, co_match_id = s_match_id s, co_player_id = s_player_id s,
        co_request_id = s_request_id s, co_players = players, co_verdict = tr_verdict t,
        co_failure_kind = tr_failure_kind t, co_tests_passed = tr_tests_passed t,
        co_total_tests = int (length tests),
        co_winner_id = (if pass_wins t m then s_player_id s else case m_winner_id m of None \<Rightarrow> nil_uuid | Some w \<Rightarrow> w)\<rparr>"
      using applied(11) by (simp add: c split: if_splits)
    show ?thesis
      using assms(3,4) acquired(4,6) lp sid
      by (simp add: store_claim_def look claim_completed_def co completed_row_def)
  qed blast
qed blast

theorem claim_replays_completion_witness:
  "\<exists>co d2. ex_complete IoOk (ex_result ''pass'' [] 2) (snd (ex_claim 1001 77 (ex_db [ex_pending 1001]))) = (Inr (CompletionApplied co), d2)
    \<and> ex_claim 1001 99 d2 = (Inr (ClaimCompleted co), d2)"
proof -
  let ?run = "ex_claim 1001 77 (ex_db [ex_pending 1001])"
  let ?run2 = "ex_complete IoOk (ex_result ''pass'' [] 2) (snd ?run)"
  have "fst ?run = Inr (ClaimAcquired ex_claimed)" by code_simp
  then have run: "store_claim True (\<lambda>_. IoOk) 50 50 1001 77 60000000000 (ex_db [ex_pending 1001])
      = (Inr (ClaimAcquired ex_claimed), snd ?run)"
    by (simp add: ex_claim_def prod_eq_iff)
  have "case fst ?run2 of Inr (CompletionApplied co) \<Rightarrow> True | _ \<Rightarrow> False"
    by code_simp
  then obtain co where co: "fst ?run2 = Inr (CompletionApplied co)"
    by (auto split: sum.splits completion_result.splits)
  then have run2: "store_complete True (\<lambda>c. if c = CpCommit then IoOk else IoOk) 55 ex_claimed (ex_result ''pass'' [] 2)
      (snd ?run) = (Inr (CompletionApplied co), snd ?run2)"
    by (simp add: ex_complete_def prod_eq_iff)
  have t: "(99::uuid) \<noteq> nil_uuid" "(0::int) < 60000000000" by (simp_all add: nil_uuid_def)
  from claim_replays_completion [OF run run2 t] co show ?thesis
    unfolding ex_claim_def by (metis prod.collapse)
qed

end
