(* ===== verification/Proto.thy ===== *)
theory Proto
  imports Text
begin

text \<open>
  The wire messages of \<open>internal/proto/messages.go\<close>: message types and verdicts, the payload
  structs, \<open>Encode\<close>, \<open>StableEventID\<close>, the validation of an inbound submission, and the Redis
  channel a user's messages travel on (\<open>internal/redisx/keys.go\<close>). An envelope keeps its
  payload as a value; its JSON text is the subject of \<open>Wire\<close>.
\<close>

section \<open>Payloads\<close>

record submit_code_data =
  sc_match_id :: string
  sc_request_id :: string
  sc_language :: string
  sc_code :: string

record match_start_data =
  ms_match_id :: string
  ms_problem_id :: string
  ms_deadline :: time

record judging_data =
  jd_request_id :: string
  jd_submission_id :: string

record result_data =
  rd_event_id :: string
  rd_request_id :: string
  rd_submission_id :: string
  rd_match_id :: string
  rd_player_id :: string
  rd_verdict :: string
  rd_tests_passed :: int
  rd_total_tests :: int
  rd_winner_id :: string
  rd_outcome :: string
  rd_failure_kind :: "string option"

record match_end_data =
  me_event_id :: string
  me_match_id :: string
  me_winner_id :: string
  me_outcome :: string
  me_tests_passed :: int
  me_total_tests :: int

record error_data =
  ed_code :: string
  ed_message :: string
  ed_match_id :: string
  ed_request_id :: string

datatype message_data = ReadyData string | QueuedData | QueueLeftData bool
  | SubmitCodeData submit_code_data | MatchStartData match_start_data | JudgingData judging_data
  | ResultData result_data | MatchEndData match_end_data | ErrorData error_data

record envelope =
  env_type :: string
  env_data :: "message_data option"

text \<open>\<open>Encode\<close>: marshalling these structs cannot fail, so the only error is the missing type.\<close>

definition encode :: "string \<Rightarrow> message_data option \<Rightarrow> string + envelope" where
  "encode typ payload =
     (if typ = '''' then Inl ''encode: missing type'' else Inr \<lparr>env_type = typ, env_data = payload\<rparr>)"

section \<open>Event identifiers and channels\<close>

definition event_id_namespace :: uuid where
  "event_id_namespace = 0xed186aa41a2e5df68cc816de9f6d82e0"

definition stable_event_id :: "uuid_lib \<Rightarrow> string \<Rightarrow> uuid \<Rightarrow> uuid \<Rightarrow> uuid" where
  "stable_event_id U kind scope recipient =
     uuid_new_sha1 U event_id_namespace
       (''codeduel:result:'' @ kind @ '':'' @ uuid_string U scope @ '':'' @ uuid_string U recipient)"

definition user_channel :: "uuid_lib \<Rightarrow> uuid \<Rightarrow> string" where
  "user_channel U u = ''codeduel:user:'' @ uuid_string U u"

section \<open>Inbound submissions\<close>

definition max_submission_code_bytes :: nat where
  "max_submission_code_bytes = 64 * 1024"

definition validate_uuid :: "uuid_lib \<Rightarrow> string \<Rightarrow> string \<Rightarrow> string option" where
  "validate_uuid U name raw =
     (case uuid_parse U raw of
        None \<Rightarrow> Some (''invalid submit_code '' @ name)
      | Some u \<Rightarrow> if u = nil_uuid then Some (''invalid submit_code '' @ name) else None)"

text \<open>\<open>SubmitCodeData.Validate\<close>; the first error in the order of the code.\<close>

definition submit_code_validate :: "uuid_lib \<Rightarrow> submit_code_data \<Rightarrow> string option" where
  "submit_code_validate U s =
     (case validate_uuid U ''match_id'' (sc_match_id s) of
        Some e \<Rightarrow> Some e
      | None \<Rightarrow>
     (case validate_uuid U ''request_id'' (sc_request_id s) of
        Some e \<Rightarrow> Some e
      | None \<Rightarrow>
          if sc_language s \<notin> set [''python'', ''cpp'', ''java''] then Some ''invalid submit_code language''
          else if \<not> utf8_valid (sc_code s) then Some ''submit_code code is not valid UTF-8''
          else if CHR 0x00 \<in> set (sc_code s) then Some ''submit_code code contains NUL''
          else if blank (sc_code s) then Some ''submit_code code is empty''
          else if max_submission_code_bytes < length (sc_code s) then Some ''submit_code code exceeds size limit''
          else None))"

end
