(* ===== verification/JudgeService.thy ===== *)
theory JudgeService
  imports JudgeStore JudgeQueue Proto
begin

text \<open>
  The Judge worker: \<open>internal/judge/result.go\<close> (classification of outcomes, result events) and
  \<open>internal/judge/service.go\<close> (\<open>processJob\<close> and the read loop), with the supervision of the
  workers from \<open>internal/judge/run.go\<close>. The Go interfaces the service is built on are locales:
  \<open>submission_store\<close> (interpreted on \<open>store_claim\<close> and \<open>store_complete\<close>), \<open>judge_queue\<close>
  (interpreted on \<open>judge_finalize\<close>) and the publish callback \<open>result_publisher\<close>.
\<close>

section \<open>Results\<close>

record result_event =
  re_recipient :: uuid
  re_payload :: envelope

definition terminal_result_from_outcome :: "execution_outcome \<Rightarrow> nat \<Rightarrow> string + terminal_result" where
  "terminal_result_from_outcome out n =
     (let result = \<lparr>tr_verdict = '''', tr_failure_kind = '''', tr_tests_passed = eo_tests_passed out\<rparr>;
          k = eo_kind out;
          mapped =
            (if k = ''pass'' then Some (result\<lparr>tr_verdict := ''pass''\<rparr>)
             else if k = ''wrong_answer'' then Some (result\<lparr>tr_verdict := ''fail'', tr_failure_kind := ''wrong_answer''\<rparr>)
             else if k = ''compile_error'' then Some (result\<lparr>tr_verdict := ''error'', tr_failure_kind := ''compile_error''\<rparr>)
             else if k = ''runtime_error'' then Some (result\<lparr>tr_verdict := ''error'', tr_failure_kind := ''runtime_error''\<rparr>)
             else if k = ''output_limit'' then Some (result\<lparr>tr_verdict := ''error'', tr_failure_kind := ''output_limit''\<rparr>)
             else if k = ''timeout'' then Some (result\<lparr>tr_verdict := ''timeout''\<rparr>)
             else None)
      in case mapped of
          None \<Rightarrow> Inl ''map execution outcome: unknown kind''
        | Some t \<Rightarrow>
            (case validate_terminal_result t n of
               Some e \<Rightarrow> Inl (''map execution outcome: '' @ e)
             | None \<Rightarrow> Inr t))"

definition stable_result_event_id :: "uuid_lib \<Rightarrow> string \<Rightarrow> uuid \<Rightarrow> uuid \<Rightarrow> uuid" where
  "stable_result_event_id U kind sid recipient = stable_event_id U kind sid recipient"

definition result_data_for :: "uuid_lib \<Rightarrow> string \<Rightarrow> completed_submission \<Rightarrow> uuid \<Rightarrow> result_data" where
  "result_data_for U kind co recipient =
     \<lparr>rd_event_id = uuid_string U (stable_result_event_id U kind (co_submission_id co) recipient),
      rd_request_id = uuid_string U (co_request_id co),
      rd_submission_id = uuid_string U (co_submission_id co),
      rd_match_id = uuid_string U (co_match_id co),
      rd_player_id = uuid_string U (co_player_id co),
      rd_verdict = co_verdict co,
      rd_tests_passed = co_tests_passed co,
      rd_total_tests = co_total_tests co,
      rd_winner_id = (if co_winner_id co \<noteq> nil_uuid then uuid_string U (co_winner_id co) else ''''),
      rd_outcome = (if co_winner_id co \<noteq> nil_uuid
        then (if recipient = co_winner_id co then ''win'' else ''loss'') else ''''),
      rd_failure_kind = (if co_failure_kind co \<noteq> '''' then Some (co_failure_kind co) else None)\<rparr>"

fun result_events_for :: "uuid_lib \<Rightarrow> string \<Rightarrow> completed_submission \<Rightarrow> uuid list \<Rightarrow> string + result_event list" where
  "result_events_for U kind co [] = Inr []"
| "result_events_for U kind co (r # rs) =
     (case encode ''result'' (Some (ResultData (result_data_for U kind co r))) of
        Inl e \<Rightarrow> Inl (''build result event: '' @ e)
      | Inr payload \<Rightarrow>
          (case result_events_for U kind co rs of
             Inl e \<Rightarrow> Inl e
           | Inr evs \<Rightarrow> Inr (\<lparr>re_recipient = r, re_payload = payload\<rparr> # evs)))"

definition build_result_events :: "uuid_lib \<Rightarrow> completed_submission \<Rightarrow> string + result_event list" where
  "build_result_events U co =
     (case co_players co of (a, b) \<Rightarrow>
       if co_submission_id co = nil_uuid \<or> co_match_id co = nil_uuid \<or> co_player_id co = nil_uuid
          \<or> co_total_tests co \<le> 0 \<or> co_tests_passed co < 0 \<or> co_total_tests co < co_tests_passed co
       then Inl ''build result events: invalid completed submission''
       else if a = nil_uuid \<or> b = nil_uuid \<or> a = b \<or> (co_player_id co \<noteq> a \<and> co_player_id co \<noteq> b)
       then Inl ''build result events: invalid match players''
       else if co_winner_id co \<noteq> nil_uuid \<and> co_winner_id co \<noteq> a \<and> co_winner_id co \<noteq> b
       then Inl ''build result events: winner is not a match player''
       else result_events_for U
          (if co_winner_id co \<noteq> nil_uuid then ''winner-result'' else ''submission-result'') co [a, b])"

section \<open>The worker\<close>

record judge_service =
  js_has_logger :: bool
  js_has_queue :: bool
  js_has_store :: bool
  js_has_executor :: bool
  js_has_publish :: bool
  js_consumer :: string
  js_lease :: int
  js_limits :: limits

definition new_judge_service :: "judge_service \<Rightarrow> string + judge_service" where
  "new_judge_service s =
     (if \<not> js_has_logger s \<or> \<not> js_has_queue s \<or> \<not> js_has_store s \<or> \<not> js_has_executor s
         \<or> \<not> js_has_publish s \<or> js_consumer s = '''' \<or> js_lease s \<le> 0
      then Inl ''initialize judge service: missing dependency''
      else case limits_validate (js_limits s) of
          Some e \<Rightarrow> Inl (''initialize judge service limits: '' @ e)
        | None \<Rightarrow> Inr s)"

text \<open>\<open>publishAndFinalize\<close>: every event is tried, the job is finalized only if all went out.\<close>

fun publish_each ::
  "uuid_lib \<Rightarrow> (string \<Rightarrow> envelope \<Rightarrow> 'p \<Rightarrow> string option \<times> 'p) \<Rightarrow> result_event list \<Rightarrow> 'p \<Rightarrow> string list \<times> 'p" where
  "publish_each U publish [] p = ([], p)"
| "publish_each U publish (ev # evs) p =
     (case publish (user_channel U (re_recipient ev)) (re_payload ev) p of (err, p1) \<Rightarrow>
        (case publish_each U publish evs p1 of (errs, p2) \<Rightarrow>
           (case err of None \<Rightarrow> errs | Some e \<Rightarrow> (''publish result: '' @ e) # errs, p2)))"

definition publish_and_finalize ::
  "uuid_lib \<Rightarrow> (string \<Rightarrow> envelope \<Rightarrow> 'p \<Rightarrow> string option \<times> 'p) \<Rightarrow> (string \<Rightarrow> 'q \<Rightarrow> string option \<times> 'q)
    \<Rightarrow> string \<Rightarrow> completed_submission \<Rightarrow> 'q \<times> 'p \<Rightarrow> string option \<times> 'q \<times> 'p" where
  "publish_and_finalize U publish finalize entry co w =
     (case build_result_events U co of
        Inl e \<Rightarrow> (Some e, w)
      | Inr evs \<Rightarrow>
          (case publish_each U publish evs (snd w) of (errs, p) \<Rightarrow>
             if errs \<noteq> [] then (Some (concat errs), fst w, p)
             else (case finalize entry (fst w) of (err, q) \<Rightarrow> (err, q, p))))"

text \<open>
  \<open>processJob\<close>. The execution takes time, in which the other services go on: \<open>env\<close> is what they
  did to the database and the queue. \<open>token\<close> is the fresh attempt token.
\<close>

definition process_job ::
  "uuid_lib \<Rightarrow> judge_service
    \<Rightarrow> (uuid \<Rightarrow> uuid \<Rightarrow> int \<Rightarrow> 'd \<Rightarrow> (string + claim_result) \<times> 'd)
    \<Rightarrow> (claimed_submission \<Rightarrow> terminal_result \<Rightarrow> 'd \<Rightarrow> (string + completion_result) \<times> 'd)
    \<Rightarrow> (execution_request \<Rightarrow> string + execution_outcome)
    \<Rightarrow> ('d \<times> 'q \<Rightarrow> 'd \<times> 'q)
    \<Rightarrow> (string \<Rightarrow> envelope \<Rightarrow> 'p \<Rightarrow> string option \<times> 'p)
    \<Rightarrow> (string \<Rightarrow> 'q \<Rightarrow> string option \<times> 'q)
    \<Rightarrow> uuid \<Rightarrow> judge_job \<Rightarrow> 'd \<times> 'q \<times> 'p \<Rightarrow> string option \<times> 'd \<times> 'q \<times> 'p" where
  "process_job U s claim complete execute env publish finalize token job w =
     (case w of (d, q, p) \<Rightarrow>
      if jj_entry_id job = '''' then (Some ''process judge job: missing entry ID'', w)
      else if jj_decode_err job \<noteq> None then
        (case finalize (jj_entry_id job) q of (err, q') \<Rightarrow> (err, d, q', p))
      else case claim (jj_submission_id job) token (js_lease s) d of
          (Inl e, d1) \<Rightarrow> (Some (''claim submission: '' @ e), d1, q, p)
        | (Inr ClaimMissing, d1) \<Rightarrow> (case finalize (jj_entry_id job) q of (err, q') \<Rightarrow> (err, d1, q', p))
        | (Inr (ClaimRunning _), d1) \<Rightarrow> (case finalize (jj_entry_id job) q of (err, q') \<Rightarrow> (err, d1, q', p))
        | (Inr ClaimExpired, d1) \<Rightarrow> (None, d1, q, p)
        | (Inr (ClaimCompleted co), d1) \<Rightarrow>
            (case publish_and_finalize U publish finalize (jj_entry_id job) co (q, p) of (err, q', p') \<Rightarrow>
               (err, d1, q', p'))
        | (Inr (ClaimAcquired c), d1) \<Rightarrow>
            (let request = \<lparr>er_language = cs_language c, er_source = cs_source c, er_tests = cs_tests c,
                            er_limits = js_limits s\<rparr>
             in case env (d1, q) of (d2, q1) \<Rightarrow>
               (case execute request of
                  Inl e \<Rightarrow> (Some (''execute submission: '' @ e), d2, q1, p)
                | Inr outcome \<Rightarrow>
                    (case terminal_result_from_outcome outcome (length (cs_tests c)) of
                       Inl e \<Rightarrow> (Some (''classify submission: '' @ e), d2, q1, p)
                     | Inr terminal \<Rightarrow>
                         (case complete c terminal d2 of
                            (Inl e, d3) \<Rightarrow> (Some (''complete submission: '' @ e), d3, q1, p)
                          | (Inr CompletionLostOwnership, d3) \<Rightarrow>
                              (Some ''complete submission: submission completion ownership lost'', d3, q1, p)
                          | (Inr (CompletionApplied co), d3) \<Rightarrow>
                              (case publish_and_finalize U publish finalize (jj_entry_id job) co (q1, p) of
                                 (err, q', p') \<Rightarrow> (err, d3, q', p')))))))"

text \<open>
  The read loop of \<open>run\<close>; its own context can be cancelled at every point where the loop
  looks: before a read, after a failed read and while it waits to retry. Errors of a job are
  logged only. The loop never ends by itself, so \<open>fuel\<close> bounds its rounds.
\<close>

fun process_jobs :: "(judge_job \<Rightarrow> 'w \<Rightarrow> string option \<times> 'w) \<Rightarrow> judge_job list \<Rightarrow> 'w \<Rightarrow> 'w" where
  "process_jobs process [] w = w"
| "process_jobs process (j # js) w = process_jobs process js (snd (process j w))"

fun judge_run ::
  "(nat \<Rightarrow> bool) \<Rightarrow> (nat \<Rightarrow> 'w \<Rightarrow> (string + judge_job list) \<times> 'w) \<Rightarrow> (nat \<Rightarrow> judge_job \<Rightarrow> 'w \<Rightarrow> string option \<times> 'w)
    \<Rightarrow> nat \<Rightarrow> nat \<Rightarrow> 'w \<Rightarrow> (nat \<times> 'w) option" where
  "judge_run cancelled read process 0 n w = None"
| "judge_run cancelled read process (Suc fuel) n w =
     (if cancelled (3 * n) then Some (n, w)
      else case read n w of
          (Inl e, w1) \<Rightarrow>
            if cancelled (3 * n + 1) then Some (n, w1)
            else if cancelled (3 * n + 2) then Some (n, w1)
            else judge_run cancelled read process fuel (Suc n) w1
        | (Inr jobs, w1) \<Rightarrow>
            judge_run cancelled read process fuel (Suc n) (process_jobs (process n) jobs w1))"

section \<open>Supervision\<close>

text \<open>
  The select loop of \<open>runJudgeWorkers\<close> over the events it receives: a worker ended (with an
  error, \<open>None\<close> for \<open>context.Canceled\<close> or no error), the shutdown signal, the force-stop timer.
\<close>

datatype worker_event = WorkerDone "string option" | ShutdownSignal | ForceStop

record supervisor =
  sv_remaining :: nat
  sv_first_err :: "string option"
  sv_listening :: bool
  sv_force_armed :: bool
  sv_reads_cancelled :: bool
  sv_work_cancelled :: bool

definition supervisor_init :: "nat \<Rightarrow> supervisor" where
  "supervisor_init workers = \<lparr>sv_remaining = workers, sv_first_err = None, sv_listening = True,
     sv_force_armed = False, sv_reads_cancelled = False, sv_work_cancelled = False\<rparr>"

text \<open>One round of the select; an event whose channel is nil or that cannot occur is not received.\<close>

fun supervisor_step :: "worker_event \<Rightarrow> supervisor \<Rightarrow> supervisor" where
  "supervisor_step (WorkerDone err) s =
     (let s' = s\<lparr>sv_remaining := sv_remaining s - 1\<rparr> in
      case err of
        None \<Rightarrow> s'
      | Some e \<Rightarrow>
          if sv_first_err s = None
          then s'\<lparr>sv_first_err := Some e, sv_reads_cancelled := True, sv_force_armed := True, sv_listening := False\<rparr>
          else s')"
| "supervisor_step ShutdownSignal s =
     (if sv_listening s
      then s\<lparr>sv_reads_cancelled := True, sv_force_armed := True, sv_listening := False\<rparr> else s)"
| "supervisor_step ForceStop s =
     (if sv_force_armed s then s\<lparr>sv_work_cancelled := True, sv_force_armed := False\<rparr> else s)"

text \<open>The loop and its result: \<open>None\<close> while it still waits, else the error (of the context, \<open>None\<close>).\<close>

fun supervise :: "worker_event list \<Rightarrow> supervisor \<Rightarrow> (string option \<times> supervisor) option" where
  "supervise evs s =
     (if sv_remaining s = 0 then Some (sv_first_err s, s)
      else case evs of [] \<Rightarrow> None | ev # evs' \<Rightarrow> supervise evs' (supervisor_step ev s))"

definition run_judge_workers :: "nat \<Rightarrow> int \<Rightarrow> worker_event list \<Rightarrow> (string + string option) option" where
  "run_judge_workers workers grace evs =
     (if workers = 0 \<or> grace \<le> 0 then Some (Inl ''run judge workers: invalid configuration'')
      else map_option (\<lambda>r. Inr (fst r)) (supervise evs (supervisor_init workers)))"

declare supervise.simps [simp del]

section \<open>Classification and events\<close>

text \<open>
  Every outcome the sandbox may report is classified and no other: an outcome is
  mapped to a result exactly when its kind is one of the six, its passed tests are in range
  and a pass passed all of them; the result then satisfies what \<open>Complete\<close> demands, keeps the
  number of passed tests, and is a pass only for a pass.
\<close>

theorem terminal_result_iff_ok:
  "case terminal_result_from_outcome out n of
     Inl e \<Rightarrow> \<not> outcome_ok n out
   | Inr t \<Rightarrow> outcome_ok n out \<and> validate_terminal_result t n = None
       \<and> tr_tests_passed t = eo_tests_passed out
       \<and> (tr_verdict t = ''pass'' \<longleftrightarrow> eo_kind out = ''pass'')
       \<and> (tr_verdict t = ''timeout'' \<longleftrightarrow> eo_kind out = ''timeout'')
       \<and> tr_failure_kind t = (if eo_kind out \<in> {''pass'', ''timeout''} then [] else eo_kind out)"
  by (auto simp: terminal_result_from_outcome_def Let_def outcome_ok_def validate_terminal_result_def)

lemma terminal_result_Inr:
  "outcome_ok n out \<Longrightarrow> \<exists>t. terminal_result_from_outcome out n = Inr t \<and> validate_terminal_result t n = None
     \<and> tr_tests_passed t = eo_tests_passed out"
  by (auto simp: terminal_result_from_outcome_def Let_def outcome_ok_def validate_terminal_result_def)

lemma terminal_result_valid:
  "terminal_result_from_outcome out n = Inr t \<Longrightarrow> validate_terminal_result t n = None"
  by (auto simp: terminal_result_from_outcome_def Let_def split: if_splits option.splits)

lemma result_events_for_Inr:
  "result_events_for U kind co rs =
     Inr (map (\<lambda>r. \<lparr>re_recipient = r, re_payload = \<lparr>env_type = ''result'',
        env_data = Some (ResultData (result_data_for U kind co r))\<rparr>\<rparr>) rs)"
  by (induction rs) (simp_all add: encode_def)

definition events_ok :: "completed_submission \<Rightarrow> bool" where
  "events_ok co \<longleftrightarrow>
     co_submission_id co \<noteq> nil_uuid \<and> co_match_id co \<noteq> nil_uuid \<and>
     0 < co_total_tests co \<and> 0 \<le> co_tests_passed co \<and> co_tests_passed co \<le> co_total_tests co \<and>
     fst (co_players co) \<noteq> nil_uuid \<and> snd (co_players co) \<noteq> nil_uuid \<and>
     fst (co_players co) \<noteq> snd (co_players co) \<and> co_player_id co \<in> {fst (co_players co), snd (co_players co)} \<and>
     co_winner_id co \<in> {nil_uuid, fst (co_players co), snd (co_players co)}"

lemma build_result_events_cases:
  "events_ok co \<and> build_result_events U co =
     Inr (map (\<lambda>r. \<lparr>re_recipient = r, re_payload = \<lparr>env_type = ''result'',
        env_data = Some (ResultData (result_data_for U
          (if co_winner_id co \<noteq> nil_uuid then ''winner-result'' else ''submission-result'') co r))\<rparr>\<rparr>)
        [fst (co_players co), snd (co_players co)]) \<or>
   \<not> events_ok co \<and> (\<exists>e. build_result_events U co = Inl e)"
  by (cases "co_players co")
    (auto simp: build_result_events_def events_ok_def result_events_for_Inr simp del: result_events_for.simps)

text \<open>
  Both players hear the same result: the events of a completed submission are
  exactly one per player, in slot order, each with the same verdict, score and winner; when
  there is a winner exactly one of the two events says "win" and the other "loss", it is
  the winner's that says "win"; without a winner neither says anything.
\<close>

theorem result_events_both_players:
  assumes "build_result_events U co = Inr evs"
  shows "map re_recipient evs = [fst (co_players co), snd (co_players co)]
    \<and> distinct (map re_recipient evs) \<and> co_player_id co \<in> set (map re_recipient evs)
    \<and> (\<forall>ev\<in>set evs. \<exists>data. re_payload ev = \<lparr>env_type = ''result'', env_data = Some (ResultData data)\<rparr>
        \<and> rd_verdict data = co_verdict co \<and> rd_tests_passed data = co_tests_passed co
        \<and> rd_total_tests data = co_total_tests co
        \<and> rd_outcome data = (if co_winner_id co = nil_uuid then ''''
            else if re_recipient ev = co_winner_id co then ''win'' else ''loss''))
    \<and> (co_winner_id co \<noteq> nil_uuid \<longrightarrow> co_winner_id co \<in> set (map re_recipient evs))"
proof -
  from assms build_result_events_cases [of co U] have ok: "events_ok co"
    and evs: "evs = map (\<lambda>r. \<lparr>re_recipient = r, re_payload = \<lparr>env_type = ''result'',
        env_data = Some (ResultData (result_data_for U
          (if co_winner_id co \<noteq> nil_uuid then ''winner-result'' else ''submission-result'') co r))\<rparr>\<rparr>)
        [fst (co_players co), snd (co_players co)]"
    by auto
  show ?thesis
    using ok by (auto simp: evs events_ok_def result_data_for_def)
qed

definition ex_co :: completed_submission where
  "ex_co = \<lparr>co_submission_id = 1001, co_match_id = 100, co_player_id = 1, co_request_id = 1001, co_players = (1, 2),
     co_verdict = ''pass'', co_failure_kind = '''', co_tests_passed = 2, co_total_tests = 2, co_winner_id = 1\<rparr>"

theorem result_events_both_players_witness:
  "\<exists>evs. build_result_events ex_uuid_lib ex_co = Inr evs \<and> map re_recipient evs = [1, 2]"
proof -
  have "events_ok ex_co" by code_simp
  then obtain evs where evs: "build_result_events ex_uuid_lib ex_co = Inr evs"
    using build_result_events_cases [of ex_co ex_uuid_lib] by blast
  with result_events_both_players [OF evs] show ?thesis by (simp add: ex_co_def)
qed

section \<open>Interfaces of the worker\<close>

text \<open>Why the entry of a job may leave the queue.\<close>

definition job_done ::
  "('d \<Rightarrow> completed_submission \<Rightarrow> bool) \<Rightarrow> ('d \<Rightarrow> uuid \<Rightarrow> bool) \<Rightarrow> ('p \<Rightarrow> (string \<times> envelope) list)
    \<Rightarrow> uuid_lib \<Rightarrow> judge_job \<Rightarrow> 'p \<Rightarrow> 'd \<Rightarrow> 'p \<Rightarrow> bool" where
  "job_done recorded discardable log U job p d' p' \<longleftrightarrow>
     jj_decode_err job \<noteq> None \<or> discardable d' (jj_submission_id job) \<or>
     (\<exists>co evs. recorded d' co \<and> co_submission_id co = jj_submission_id job \<and> build_result_events U co = Inr evs \<and>
        log p' = log p @ map (\<lambda>ev. (user_channel U (re_recipient ev), re_payload ev)) evs)"

text \<open>
  What \<open>processJob\<close> relies on. The store: \<open>recorded d co\<close>, the database holds the completed
  submission \<open>co\<close>; \<open>discardable d sid\<close>, a job for \<open>sid\<close> is not needed (there is no such
  submission, or a live attempt owns it). The queue: only the entry named may go. The
  publisher: a successful call delivers exactly its message.
\<close>

locale submission_store =
  fixes claim :: "uuid \<Rightarrow> uuid \<Rightarrow> int \<Rightarrow> 'd \<Rightarrow> (string + claim_result) \<times> 'd"
    and complete :: "claimed_submission \<Rightarrow> terminal_result \<Rightarrow> 'd \<Rightarrow> (string + completion_result) \<times> 'd"
    and recorded :: "'d \<Rightarrow> completed_submission \<Rightarrow> bool"
    and discardable :: "'d \<Rightarrow> uuid \<Rightarrow> bool"
  assumes claim_completed:
      "claim sid token lease d = (Inr (ClaimCompleted co), d') \<Longrightarrow> recorded d' co \<and> co_submission_id co = sid"
    and claim_discards:
      "claim sid token lease d = (Inr ClaimMissing, d') \<Longrightarrow> discardable d' sid"
      "claim sid token lease d = (Inr (ClaimRunning lease_until), d') \<Longrightarrow> discardable d' sid"
    and claim_acquired:
      "claim sid token lease d = (Inr (ClaimAcquired c), d') \<Longrightarrow> cs_submission_id c = sid"
    and complete_applied:
      "complete c t d = (Inr (CompletionApplied co), d') \<Longrightarrow>
         recorded d' co \<and> co_submission_id co = cs_submission_id c"

locale judge_queue =
  fixes finalize :: "string \<Rightarrow> 'q \<Rightarrow> string option \<times> 'q"
    and entries :: "'q \<Rightarrow> string set"
  assumes finalize_frame: "finalize e q = (r, q') \<Longrightarrow> entries q' = entries q \<or> entries q' = entries q - {e}"
    and finalize_ok: "finalize e q = (None, q') \<Longrightarrow> e \<notin> entries q'"

locale result_publisher =
  fixes publish :: "string \<Rightarrow> envelope \<Rightarrow> 'p \<Rightarrow> string option \<times> 'p"
    and log :: "'p \<Rightarrow> (string \<times> envelope) list"
  assumes publish_ok: "publish ch e p = (None, p') \<Longrightarrow> log p' = log p @ [(ch, e)]"
begin

lemma publish_each_ok:
  "publish_each U publish evs p = ([], p') \<Longrightarrow>
     log p' = log p @ map (\<lambda>ev. (user_channel U (re_recipient ev), re_payload ev)) evs"
proof (induction evs arbitrary: p)
  case (Cons ev evs)
  obtain err p1 where p1: "publish (user_channel U (re_recipient ev)) (re_payload ev) p = (err, p1)"
    by fastforce
  obtain errs p2 where p2: "publish_each U publish evs p1 = (errs, p2)" by fastforce
  from Cons.prems p1 p2 have "err = None" "errs = []" "p2 = p'"
    by (auto split: option.splits)
  with Cons.IH [of p1] p1 p2 publish_ok show ?case by fastforce
qed simp

end

locale judge_backend =
  submission_store claim complete recorded discardable + judge_queue finalize entries + result_publisher publish log
  for claim :: "uuid \<Rightarrow> uuid \<Rightarrow> int \<Rightarrow> 'd \<Rightarrow> (string + claim_result) \<times> 'd"
    and complete :: "claimed_submission \<Rightarrow> terminal_result \<Rightarrow> 'd \<Rightarrow> (string + completion_result) \<times> 'd"
    and recorded discardable
    and finalize :: "string \<Rightarrow> 'q \<Rightarrow> string option \<times> 'q" and entries
    and publish :: "string \<Rightarrow> envelope \<Rightarrow> 'p \<Rightarrow> string option \<times> 'p" and log
begin

lemma publish_and_finalize_done:
  assumes "publish_and_finalize U publish finalize e co (q, p) = (err, q', p')"
  shows "q' = q \<or> (entries q' = entries q \<or> entries q' = entries q - {e}) \<and>
    (\<exists>evs. build_result_events U co = Inr evs \<and>
        log p' = log p @ map (\<lambda>ev. (user_channel U (re_recipient ev), re_payload ev)) evs)"
proof (cases "build_result_events U co")
  case (Inl m)
  with assms show ?thesis by (simp add: publish_and_finalize_def)
next
  case (Inr evs)
  obtain errs p1 where p1: "publish_each U publish evs p = (errs, p1)" by fastforce
  show ?thesis
  proof (cases "errs = []")
    case False
    with assms Inr p1 show ?thesis by (simp add: publish_and_finalize_def)
  next
    case True
    with assms Inr p1 have "finalize e q = (err, q')" "p1 = p'"
      by (auto simp: publish_and_finalize_def split: prod.splits)
    with p1 True finalize_frame publish_each_ok Inr show ?thesis by blast
  qed
qed

lemma job_done_published:
  assumes "recorded d' co" "co_submission_id co = jj_submission_id job"
    and "publish_and_finalize U publish finalize (jj_entry_id job) co (q, p) = (err, q', p')"
  shows "entries q' = entries q \<or> entries q' = entries q - {jj_entry_id job} \<and>
    job_done recorded discardable log U job p d' p'"
proof (cases "q' = q")
  case False
  with publish_and_finalize_done [OF assms(3)] obtain evs
    where q': "entries q' = entries q \<or> entries q' = entries q - {jj_entry_id job}"
    and evs: "build_result_events U co = Inr evs"
      "log p' = log p @ map (\<lambda>ev. (user_channel U (re_recipient ev), re_payload ev)) evs"
    by blast
  have "job_done recorded discardable log U job p d' p'"
    unfolding job_done_def using assms(1,2) evs by (intro disjI2 exI [of _ co] exI [of _ evs]) simp
  with q' show ?thesis by simp
qed simp

lemma process_job_done:
  assumes "process_job U s claim complete execute env publish finalize token job (d, q, p) = (err, d', q', p')"
  shows "\<exists>q0. (q0 = q \<or> (\<exists>d1. q0 = snd (env (d1, q)))) \<and>
    (entries q' = entries q0 \<or> entries q' = entries q0 - {jj_entry_id job} \<and> job_done recorded discardable log U job p d' p')"
proof (cases "jj_entry_id job = '''' \<or> jj_decode_err job \<noteq> None")
  case True
  with assms show ?thesis
    using finalize_frame [of "jj_entry_id job" q]
    by (intro exI [of _ q]) (auto simp: process_job_def job_done_def split: if_splits prod.splits)
next
  case False
  let ?e = "jj_entry_id job"
  obtain cr d1 where cl: "claim (jj_submission_id job) token (js_lease s) d = (cr, d1)" by fastforce
  note run = assms [unfolded process_job_def prod.case cl]
  consider (err) m where "cr = Inl m" | (missing) "cr = Inr ClaimMissing" | (running) t where "cr = Inr (ClaimRunning t)"
    | (expired) "cr = Inr ClaimExpired" | (completed) co where "cr = Inr (ClaimCompleted co)"
    | (acquired) c where "cr = Inr (ClaimAcquired c)"
    by (cases cr; cases "projr cr"; simp)
  then show ?thesis
  proof cases
    case missing
    with run False cl claim_discards(1) have "finalize ?e q = (err, q')" "discardable d' (jj_submission_id job)"
      by (auto split: prod.splits)
    from finalize_frame [OF this(1)] this(2) show ?thesis
      by (intro exI [of _ q]) (auto simp: job_done_def)
  next
    case running
    with run False cl claim_discards(2) have "finalize ?e q = (err, q')" "discardable d' (jj_submission_id job)"
      by (auto split: prod.splits)
    from finalize_frame [OF this(1)] this(2) show ?thesis
      by (intro exI [of _ q]) (auto simp: job_done_def)
  next
    case completed
    with run False have pf: "publish_and_finalize U publish finalize ?e co (q, p) = (err, q', p')" and "d1 = d'"
      by (auto split: prod.splits)
    with claim_completed cl completed have "recorded d' co" "co_submission_id co = jj_submission_id job"
      by simp_all
    from job_done_published [OF this pf] show ?thesis
      by (intro exI [of _ q]) simp
  next
    case acquired
    obtain d2 q1 where env: "env (d1, q) = (d2, q1)" by fastforce
    then have q1: "q1 = snd (env (d1, q))" by simp
    have "q' = q1 \<or> (\<exists>co t. complete c t d2 = (Inr (CompletionApplied co), d') \<and>
        publish_and_finalize U publish finalize ?e co (q1, p) = (err, q', p'))"
      using run False acquired env
      by (auto simp: Let_def split: prod.splits sum.splits completion_result.splits)
    then show ?thesis
    proof (elim disjE exE conjE)
      show ?thesis if "q' = q1" using that q1 by blast
      fix co t
      assume "complete c t d2 = (Inr (CompletionApplied co), d')"
        and pf: "publish_and_finalize U publish finalize ?e co (q1, p) = (err, q', p')"
      then have "recorded d' co" "co_submission_id co = jj_submission_id job"
        using complete_applied claim_acquired cl acquired by auto
      from job_done_published [OF this pf] q1 show ?thesis
        by (intro exI [of _ q1]) auto
    qed
  qed (use run False in auto)
qed

end

section \<open>The interfaces on the model\<close>

definition recorded :: "db \<Rightarrow> completed_submission \<Rightarrow> bool" where
  "recorded d co \<longleftrightarrow>
     (case (submission_of d (co_submission_id co), match_of d (co_match_id co)) of
        (Some s, Some m) \<Rightarrow>
          s_status s = ''completed'' \<and> s_result s = Some (co_verdict co) \<and>
          (case s_failure_kind s of None \<Rightarrow> '''' | Some k \<Rightarrow> k) = co_failure_kind co \<and>
          s_tests_passed s = co_tests_passed co \<and> s_match_id s = co_match_id co \<and>
          s_player_id s = co_player_id co \<and>
          (case m_winner_id m of None \<Rightarrow> nil_uuid | Some w \<Rightarrow> w) = co_winner_id co
      | _ \<Rightarrow> False)"

definition discardable :: "db \<Rightarrow> uuid \<Rightarrow> bool" where
  "discardable d sid \<longleftrightarrow>
     claim_row_of sid d = None \<or>
     (case submission_of d sid of None \<Rightarrow> False
      | Some s \<Rightarrow> s_status s = ''running'' \<and> s_attempt_token s \<noteq> None \<and> s_lease_until s \<noteq> None)"

text \<open>\<open>PUBLISH\<close>: the messages that reached Redis, in order.\<close>

definition redis_publish ::
  "(string \<Rightarrow> io) \<Rightarrow> string \<Rightarrow> envelope \<Rightarrow> (string \<times> envelope) list \<Rightarrow> string option \<times> (string \<times> envelope) list" where
  "redis_publish x ch e p =
     (if x ch = IoOk then None else Some ''publish'', if io_applied (x ch) then p @ [(ch, e)] else p)"

lemma store_claim_completedD:
  assumes "store_claim has_db ext now mark_now sid token lease d = (Inr (ClaimCompleted co), d')"
  shows "recorded d' co \<and> co_submission_id co = sid"
proof -
  from assms obtain s m p where row: "claim_row_of sid d = Some (s, m, p)" and "d' = d"
    and st: "s_status s = ''completed''" and cc: "claim_completed ext s m p d = Inr (ClaimCompleted co)"
    by (auto simp: store_claim_def split: if_splits option.splits sum.splits)
  note r = claim_row_of_SomeD [OF row]
  have sid: "s_id s = sid" using r(1) by (simp add: submission_ofD)
  with r st cc \<open>d' = d\<close> show ?thesis
    by (auto simp: claim_completed_def recorded_def split: option.splits sum.splits if_splits)
qed

lemma claim_acquired_cs:
  assumes "store_claim has_db ext now mark_now sid token lease d = (Inr (ClaimAcquired c), d')"
  shows "cs_submission_id c = sid"
  using assms by (cases rule: store_claim_cases) (auto split: if_splits)

lemma store_claim_kinds:
  assumes "store_claim has_db ext now mark_now sid token lease d = (Inr r, d')" "claim_row_of sid d = Some (s, m, p)"
  shows "r \<noteq> ClaimMissing"
    and "r = ClaimRunning until \<Longrightarrow> s_status s = ''running'' \<and> s_attempt_token s \<noteq> None \<and> s_lease_until s \<noteq> None \<and> d' = d"
  using assms
  by (auto simp: store_claim_def claim_completed_def split: if_splits option.splits sum.splits)

lemma store_claim_discards:
  assumes "store_claim has_db ext now mark_now sid token lease d = (Inr r, d')"
    "r = ClaimMissing \<or> r = ClaimRunning until"
  shows "discardable d' sid"
proof (cases "claim_row_of sid d")
  case None
  then have "d' = d" using assms(1) by (auto simp: store_claim_def split: if_splits)
  with None show ?thesis by (simp add: discardable_def)
next
  case (Some row)
  obtain s m p where row: "row = (s, m, p)" by (rule prod_cases3)
  with Some have cr: "claim_row_of sid d = Some (s, m, p)" by simp
  from store_claim_kinds [OF assms(1) cr] assms(2) claim_row_of_SomeD(1) [OF cr] show ?thesis
    by (auto simp: discardable_def)
qed

lemma store_complete_recorded:
  assumes "store_complete has_db ext now c t d = (Inr (CompletionApplied co), d')"
  shows "recorded d' co \<and> co_submission_id co = cs_submission_id c"
  using assms
proof (cases rule: store_complete_cases)
  case (applied s m)
  from assms obtain s' m' where r: "submission_of d (cs_submission_id c) = Some s'"
    "match_of d (cs_match_id c) = Some m'"
    and sub: "\<forall>k. submission_of d' k = (if k = cs_submission_id c then Some (completed_row now t s') else submission_of d k)"
    and mat: "\<forall>k. match_of d' k = (if k = cs_match_id c \<and> pass_wins t m'
        then Some (m'\<lparr>m_status := ''finished'', m_winner_id := Some (cs_player_id c)\<rparr>) else match_of d k)"
    by (rule store_complete_rows) auto
  have [simp]: "s' = s" "m' = m" using r applied(3,4) by simp_all
  have co: "co = \<lparr>co_submission_id = cs_submission_id c, co_match_id = cs_match_id c,
       co_player_id = cs_player_id c, co_request_id = cs_request_id c, co_players = cs_players c,
       co_verdict = tr_verdict t, co_failure_kind = tr_failure_kind t,
       co_tests_passed = tr_tests_passed t, co_total_tests = int (length (cs_tests c)),
       co_winner_id = (if pass_wins t m then cs_player_id c
          else case m_winner_id m of None \<Rightarrow> nil_uuid | Some w \<Rightarrow> w)\<rparr>"
    using applied(11) by (simp split: if_splits)
  show ?thesis
    using applied(3,6,7) sub mat by (simp add: recorded_def co completed_row_def)
qed blast

lemma judge_finalize_entries:
  assumes "judge_finalize client x e q = (r, q')"
  shows "set (stream_ids q') = set (stream_ids q) \<or> set (stream_ids q') = set (stream_ids q) - {e}"
    "r = None \<Longrightarrow> e \<notin> set (stream_ids q')"
proof -
  have ids: "set (stream_ids (xdel e q0)) = set (stream_ids q0) - {e}" for q0
    by (auto simp: stream_ids_def xdel_def)
  have fin: "set (stream_ids (snd (finalize_script e q))) = set (stream_ids q) \<or>
      set (stream_ids (snd (finalize_script e q))) = set (stream_ids q) - {e}"
    by (auto simp: finalize_script_def xack_def ids) (simp_all add: stream_ids_def)
  have one: "e \<notin> set (stream_ids (snd (finalize_script e q)))" if "fst (finalize_script e q) = 1"
    using that by (auto simp: finalize_script_def xack_def ids xrange_def filter_empty_conv split: if_splits)
      (auto simp: stream_ids_def)
  show "set (stream_ids q') = set (stream_ids q) \<or> set (stream_ids q') = set (stream_ids q) - {e}"
    using assms fin by (auto simp: judge_finalize_def split: if_splits prod.splits)
  show "e \<notin> set (stream_ids q')" if "r = None"
    using assms that one by (auto simp: judge_finalize_def split: if_splits prod.splits)
qed

interpretation jb: judge_backend
  "store_claim has_db ext now mark_now" "store_complete has_db' ext' now'" recorded discardable
  "judge_finalize client x" "\<lambda>q. set (stream_ids q)" "redis_publish px" "\<lambda>p. p"
  for has_db ext now mark_now has_db' ext' now' client x px
proof unfold_locales
  show "recorded d' co \<and> co_submission_id co = sid"
    if "store_claim has_db ext now mark_now sid token lease d = (Inr (ClaimCompleted co), d')"
    for sid token lease d co d'
    using that by (rule store_claim_completedD)
  show "cs_submission_id c = sid"
    if "store_claim has_db ext now mark_now sid token lease d = (Inr (ClaimAcquired c), d')"
    for sid token lease d c d'
    using claim_acquired_cs [OF that] .
qed (auto simp: redis_publish_def store_claim_discards store_complete_recorded split: if_splits
    dest: judge_finalize_entries)

section \<open>Properties of the worker\<close>


lemma result_events_completed:
  assumes "db_inv d" "store_claim has_db ext now mark_now sid token lease d = (Inr (ClaimAcquired c), d1)"
    and "store_complete has_db' ext' now' c t d1 = (Inr (CompletionApplied co), d2)"
    and "nil_uuid \<notin> set (players_of d (cs_match_id c))"
  shows "events_ok co"
  using assms(2)
proof (cases rule: store_claim_cases)
  case (acquired s m p tests players)
  have c: "c = \<lparr>cs_submission_id = sid, cs_match_id = s_match_id s, cs_player_id = s_player_id s,
           cs_problem_id = m_problem_id m, cs_request_id = s_request_id s, cs_language = s_language s,
           cs_source = s_code s, cs_tests = tests, cs_players = players, cs_attempt_token = token\<rparr>"
    using acquired(13) by (simp split: if_splits)
  note pl = load_match_players_InrD [OF acquired(10)]
  have w: "m_winner_id m = Some u \<Longrightarrow> u \<in> set (players_of d (s_match_id s))" for u
    using match_ok_of [OF assms(1) claim_row_of_SomeD(2) [OF acquired(1)]]
      claim_row_of_SomeD(2) [OF acquired(1)]
    by (auto simp: match_ok_def set_players_of dest: match_ofD)
  have fr: "match_of d1 = match_of d"
    by (simp add: mark_running_SomeD [OF acquired(12)])
  from assms(3) show ?thesis
  proof (cases rule: store_complete_cases)
    case (applied s0 m0)
    have "m0 = m" using applied(3) claim_row_of_SomeD(2) [OF acquired(1)] by (simp add: c fr)
    moreover have "0 \<le> tr_tests_passed t" "tr_tests_passed t \<le> int (length tests)"
      using applied(2) by (auto simp: c validate_terminal_result_def split: if_splits)
    moreover have "tests \<noteq> []" "s_match_id s \<noteq> nil_uuid" "sid \<noteq> nil_uuid"
      using applied(1) by (simp_all add: c valid_claimed_submission_def)
    ultimately show ?thesis
      using applied(11) assms(4) pl w
      by (auto simp: c events_ok_def split: if_splits option.splits)
  qed blast
qed blast

lemma finalize_pending:
  assumes "stream_ok q" "e \<in> set (pel_ids q)" "e \<noteq> ''''"
  shows "judge_finalize True IoOk e q = (None, snd (finalize_script e q))"
    "e \<notin> set (stream_ids (snd (finalize_script e q)))"
proof -
  show r: "judge_finalize True IoOk e q = (None, snd (finalize_script e q))"
    using assms by (simp add: judge_finalize_def finalize_script_cases)
  show "e \<notin> set (stream_ids (snd (finalize_script e q)))"
    using judge_finalize_entries(2) [OF r] by simp
qed

text \<open>
  Property C7. A job is carried through: when a delivered job's claim succeeds, nothing fails
  and nobody interferes, and the executor returns an admissible outcome, \<open>processJob\<close> ends
  without an error, the result is recorded with the outcome's score, both players' events are
  published, and the entry has left the stream.
\<close>

theorem process_job_completes:
  assumes "db_inv d" and "store_claim True (\<lambda>_. IoOk) now mark_now sid token (js_lease s) d = (Inr (ClaimAcquired c), d1)"
    and "valid_claimed_submission c" "nil_uuid \<notin> set (players_of d (cs_match_id c))"
      "int (length (cs_tests c)) \<le> int_max"
    and "jj_submission_id job = sid" "jj_entry_id job \<noteq> ''''" "jj_decode_err job = None"
    and "execute \<lparr>er_language = cs_language c, er_source = cs_source c, er_tests = cs_tests c, er_limits = js_limits s\<rparr> = Inr out"
      "outcome_ok (length (cs_tests c)) out"
    and "stream_ok q" "jj_entry_id job \<in> set (pel_ids q)"
  shows "\<exists>co evs d' q'. process_job U s (store_claim True (\<lambda>_. IoOk) now mark_now) (store_complete True (\<lambda>_. IoOk) now')
      execute (\<lambda>w. w) (redis_publish (\<lambda>_. IoOk)) (judge_finalize True IoOk) token job (d, q, p)
        = (None, d', q', p @ map (\<lambda>ev. (user_channel U (re_recipient ev), re_payload ev)) evs)
    \<and> recorded d' co \<and> co_submission_id co = sid \<and> co_tests_passed co = eo_tests_passed out
    \<and> build_result_events U co = Inr evs \<and> jj_entry_id job \<notin> set (stream_ids q')"
proof -
  obtain t where t: "terminal_result_from_outcome out (length (cs_tests c)) = Inr t"
    "validate_terminal_result t (length (cs_tests c)) = None" "tr_tests_passed t = eo_tests_passed out"
    using terminal_result_Inr [OF assms(10)] by blast
  have sid: "cs_submission_id c = sid" using claim_acquired_cs [OF assms(2)] .
  have inv: "db_inv d1" using assms(1,2) by (rule store_claim_inv)
  obtain s0 where s0: "submission_of d1 (cs_submission_id c) = Some s0" "s_status s0 = ''running''"
    "s_match_id s0 = cs_match_id c" "s_player_id s0 = cs_player_id c" "s_attempt_token s0 = Some (cs_attempt_token c)"
    using claim_acquired_exclusive_row [OF assms(2)] sid by auto
  from complete_applied_run [OF inv s0 assms(3) t(2) assms(5), of now'] obtain co d2
    where run: "store_complete True (\<lambda>_. IoOk) now' c t d1 = (Inr (CompletionApplied co), d2)"
      and co: "co_tests_passed co = tr_tests_passed t"
    by (elim exE conjE)
  note rec = store_complete_recorded [OF run]
  have ok: "events_ok co"
    using assms(1,2) run assms(4) by (rule result_events_completed)
  then obtain evs where evs: "build_result_events U co = Inr evs"
    using build_result_events_cases [of co U] by blast
  have pub: "publish_each U (redis_publish (\<lambda>_. IoOk)) evs p =
      ([], p @ map (\<lambda>ev. (user_channel U (re_recipient ev), re_payload ev)) evs)" for evs p
    by (induction evs arbitrary: p) (simp_all add: redis_publish_def)
  note fin = finalize_pending [OF assms(11,12,7)]
  have "process_job U s (store_claim True (\<lambda>_. IoOk) now mark_now) (store_complete True (\<lambda>_. IoOk) now')
      execute (\<lambda>w. w) (redis_publish (\<lambda>_. IoOk)) (judge_finalize True IoOk) token job (d, q, p)
    = (None, d2, snd (finalize_script (jj_entry_id job) q),
       p @ map (\<lambda>ev. (user_channel U (re_recipient ev), re_payload ev)) evs)"
    using assms(2,6-9) t(1) run by (simp add: process_job_def publish_and_finalize_def evs pub fin)
  with rec co t(3) evs fin(2) sid show ?thesis by auto
qed

text \<open>A worker of the example: one delivered job for the pending submission 1001.\<close>

definition ex_limits :: limits where
  "ex_limits = \<lparr>max_code_bytes = 65536, max_output_bytes = 100, compile_timeout = 10, test_timeout = 10,
     total_timeout = 60, cleanup_timeout = 5, nano_cpus = 1, memory_bytes = 1, memory_swap = 1, pid_limit = 1,
     workspace_bytes = 1, tmpfs_bytes = 1\<rparr>"

definition ex_service :: judge_service where
  "ex_service = \<lparr>js_has_logger = True, js_has_queue = True, js_has_store = True, js_has_executor = True,
     js_has_publish = True, js_consumer = ''w'', js_lease = 60000000000, js_limits = ex_limits\<rparr>"

definition ex_delivered :: stream where
  "ex_delivered = \<lparr>st_group = True, st_old = [(''e'', [])], st_new = [],
     st_pel = [\<lparr>pe_id = ''e'', pe_consumer = ''w'', pe_delivered = 40\<rparr>]\<rparr>"

definition ex_job :: "string option \<Rightarrow> judge_job" where
  "ex_job e = \<lparr>jj_entry_id = ''e'', jj_submission_id = 1001, jj_decode_err = e\<rparr>"

definition ex_process :: "string option \<Rightarrow> string option \<times> db \<times> stream \<times> (string \<times> envelope) list" where
  "ex_process e = process_job ex_uuid_lib ex_service (store_claim True (\<lambda>_. IoOk) 50 50)
     (store_complete True (\<lambda>_. IoOk) 55) (\<lambda>_. Inr \<lparr>eo_kind = ''pass'', eo_tests_passed = 2\<rparr>) (\<lambda>w. w)
     (redis_publish (\<lambda>_. IoOk)) (judge_finalize True IoOk) 77 (ex_job e) (ex_db [ex_pending 1001], ex_delivered, [])"


theorem process_job_completes_witness:
  "fst (ex_process None) = None \<and> ''e'' \<notin> set (stream_ids (fst (snd (snd (ex_process None)))))"
proof -
  let ?d = "ex_db [ex_pending 1001]"
  let ?c = "store_claim True (\<lambda>_. IoOk) 50 50 1001 77 (js_lease ex_service) ?d"
  have "fst ?c = Inr (ClaimAcquired ex_claimed)" by code_simp
  then have cl: "?c = (Inr (ClaimAcquired ex_claimed), snd ?c)" by (simp add: prod_eq_iff)
  have h: "db_inv ?d" "valid_claimed_submission ex_claimed" "nil_uuid \<notin> set (players_of ?d (cs_match_id ex_claimed))"
    "int (length (cs_tests ex_claimed)) \<le> int_max" "jj_submission_id (ex_job None) = 1001"
    "jj_entry_id (ex_job None) \<noteq> ''''" "jj_decode_err (ex_job None) = None"
    "outcome_ok (length (cs_tests ex_claimed)) \<lparr>eo_kind = ''pass'', eo_tests_passed = 2\<rparr>"
    "stream_ok ex_delivered" "jj_entry_id (ex_job None) \<in> set (pel_ids ex_delivered)"
    by code_simp+
  have out: "(\<lambda>_. Inr \<lparr>eo_kind = ''pass'', eo_tests_passed = 2\<rparr>) \<lparr>er_language = cs_language ex_claimed,
      er_source = cs_source ex_claimed, er_tests = cs_tests ex_claimed, er_limits = js_limits ex_service\<rparr>
    = Inr \<lparr>eo_kind = ''pass'', eo_tests_passed = 2\<rparr>"
    by simp
  from process_job_completes [OF h(1) cl h(2-7) out h(8-10), of ex_uuid_lib 55 "[]"]
  have "fst (ex_process None) = None \<and> jj_entry_id (ex_job None) \<notin> set (stream_ids (fst (snd (snd (ex_process None)))))"
    unfolding ex_process_def by (elim exE conjE) (simp only: fst_conv snd_conv simp_thms)
  then show ?thesis by (simp add: ex_job_def)
qed

section \<open>The loops end\<close>

lemma judge_run_within:
  assumes "cancelled (3 * (n + m))" "m < fuel"
  shows "\<exists>k w'. judge_run cancelled read process fuel n w = Some (k, w') \<and> n \<le> k \<and> k \<le> n + m \<and>
    (cancelled (3 * k) \<or> cancelled (3 * k + 1) \<or> cancelled (3 * k + 2)) \<and> (\<forall>j. n \<le> j \<and> j < k \<longrightarrow> \<not> cancelled (3 * j))"
  using assms
proof (induction fuel arbitrary: n m w)
  case (Suc fuel)
  show ?case
  proof (cases "cancelled (3 * n)")
    case True
    then show ?thesis by (intro exI [of _ n] exI [of _ w]) auto
  next
    case False
    with Suc.prems obtain m' where m: "m = Suc m'" by (cases m) auto
    have go: "\<exists>k w'. judge_run cancelled read process fuel (Suc n) w1 = Some (k, w') \<and> n \<le> k \<and> k \<le> n + m \<and>
        (cancelled (3 * k) \<or> cancelled (3 * k + 1) \<or> cancelled (3 * k + 2)) \<and> (\<forall>j. n \<le> j \<and> j < k \<longrightarrow> \<not> cancelled (3 * j))"
      for w1
    proof -
      have "cancelled (3 * (Suc n + m'))" "m' < fuel" using Suc.prems m by simp_all
      from Suc.IH [OF this, of w1] obtain k w' where k: "judge_run cancelled read process fuel (Suc n) w1 = Some (k, w')"
        "Suc n \<le> k" "k \<le> Suc n + m'" "cancelled (3 * k) \<or> cancelled (3 * k + 1) \<or> cancelled (3 * k + 2)"
        "\<forall>j. Suc n \<le> j \<and> j < k \<longrightarrow> \<not> cancelled (3 * j)"
        by blast
      have "\<not> cancelled (3 * j)" if "n \<le> j" "j < k" for j
        using that False k(5) by (cases "j = n") auto
      with k m show ?thesis by (intro exI [of _ k] exI [of _ w']) auto
    qed
    obtain r w1 where r: "read n w = (r, w1)" by fastforce
    show ?thesis
    proof (cases r)
      case (Inl e)
      with False r go [of w1] show ?thesis
        by (auto intro!: exI [of _ n])
    next
      case (Inr jobs)
      with False r go show ?thesis by simp
    qed
  qed
qed simp

text \<open>
  The read loop ends promptly and only on cancellation: if the context is
  cancelled by the beginning of round \<open>m\<close>, then whatever reads and jobs return, \<open>run\<close> returns
  in a round \<open>k\<close> no later than \<open>m\<close>, in which it saw the cancellation, and had seen none before.
\<close>

theorem judge_run_stops:
  assumes "cancelled (3 * m)"
  shows "\<exists>k w'. judge_run cancelled read process (Suc m) 0 w = Some (k, w') \<and> k \<le> m \<and>
    (cancelled (3 * k) \<or> cancelled (3 * k + 1) \<or> cancelled (3 * k + 2)) \<and> (\<forall>j<k. \<not> cancelled (3 * j))"
proof -
  have "cancelled (3 * (0 + m))" "m < Suc m" using assms by simp_all
  from judge_run_within [of cancelled 0 m "Suc m" read process w, OF this] show ?thesis by fastforce
qed

theorem judge_run_stops_witness:
  "\<exists>k w'. judge_run (\<lambda>i. 6 \<le> i) (\<lambda>n w. (Inr [], w + 1)) (\<lambda>n j w. (None, w)) 3 0 (0::nat) = Some (k, w') \<and> k \<le> 2"
  using judge_run_stops [of "\<lambda>i. 6 \<le> i" 2 "\<lambda>n w. (Inr [], w + 1)" "\<lambda>n j w. (None, w)" "0::nat"]
  by (auto simp: numeral_3_eq_3)

fun worker_errors :: "worker_event list \<Rightarrow> string list" where
  "worker_errors [] = []"
| "worker_errors (WorkerDone (Some e) # evs) = e # worker_errors evs"
| "worker_errors (_ # evs) = worker_errors evs"

fun is_worker_done :: "worker_event \<Rightarrow> bool" where
  "is_worker_done (WorkerDone _) = True"
| "is_worker_done _ = False"

fun stops_reads :: "worker_event \<Rightarrow> bool" where
  "stops_reads (WorkerDone (Some _)) = True"
| "stops_reads ShutdownSignal = True"
| "stops_reads _ = False"

lemma supervise_fold:
  "supervise evs s = Some (err, s') \<Longrightarrow> \<exists>k\<le>length evs. s' = fold supervisor_step (take k evs) s \<and>
     length (filter is_worker_done (take k evs)) = sv_remaining s \<and> err = sv_first_err s'"
proof (induction evs arbitrary: s)
  case Nil
  then show ?case by (auto simp: supervise.simps [of "[]"] split: if_splits)
next
  case (Cons ev evs)
  show ?case
  proof (cases "sv_remaining s = 0")
    case True
    with Cons.prems show ?thesis
      by (intro exI [of _ 0]) (auto simp: supervise.simps [of "ev # evs"])
  next
    case False
    with Cons.prems have "supervise evs (supervisor_step ev s) = Some (err, s')"
      by (simp add: supervise.simps [of "ev # evs"])
    from Cons.IH [OF this] obtain k where k: "k \<le> length evs" "s' = fold supervisor_step (take k evs) (supervisor_step ev s)"
      "length (filter is_worker_done (take k evs)) = sv_remaining (supervisor_step ev s)" "err = sv_first_err s'"
      by blast
    have "sv_remaining s = (if is_worker_done ev then Suc else id) (sv_remaining (supervisor_step ev s))"
      using False by (cases ev) (auto simp: Let_def split: option.split)
    with k show ?thesis
      by (intro exI [of _ "Suc k"]) simp
  qed
qed

lemma fold_first_err:
  "sv_first_err (fold supervisor_step evs s) =
     (case sv_first_err s of Some e \<Rightarrow> Some e
      | None \<Rightarrow> (case worker_errors evs of [] \<Rightarrow> None | e # _ \<Rightarrow> Some e))"
proof (induction evs arbitrary: s rule: worker_errors.induct)
  case 1
  then show ?case by (simp split: option.split)
qed (auto simp: Let_def split: option.split list.split)

lemma supervisor_step_work:
  "sv_work_cancelled (supervisor_step ev s) \<Longrightarrow> sv_work_cancelled s \<or> ev = ForceStop \<and> sv_force_armed s"
  by (cases ev) (auto simp: Let_def split: option.splits if_splits)

lemma supervisor_step_armed:
  "sv_force_armed (supervisor_step ev s) \<Longrightarrow> sv_force_armed s \<or> stops_reads ev"
  by (cases ev rule: stops_reads.cases) (auto simp: Let_def split: option.splits if_splits)

lemma fold_armed:
  "sv_force_armed (fold supervisor_step evs s) \<Longrightarrow> sv_force_armed s \<or> (\<exists>i<length evs. stops_reads (evs ! i))"
proof (induction evs arbitrary: s)
  case (Cons ev evs)
  from Cons.IH [of "supervisor_step ev s"] Cons.prems supervisor_step_armed [of ev s] show ?case
    by (auto simp: nth_Cons' intro: exI [of _ 0] exI [of _ "Suc i" for i])
qed simp

lemma fold_work_cancelled:
  "sv_work_cancelled (fold supervisor_step evs s) \<Longrightarrow>
     sv_work_cancelled s \<or> sv_force_armed s \<or>
     (\<exists>i j. i < j \<and> j < length evs \<and> stops_reads (evs ! i) \<and> evs ! j = ForceStop)"
proof (induction evs rule: rev_induct)
  case (snoc ev evs)
  let ?s = "fold supervisor_step evs s"
  from snoc.prems have "sv_work_cancelled (supervisor_step ev ?s)" by simp
  from supervisor_step_work [OF this] show ?case
  proof (elim disjE conjE)
    assume "sv_work_cancelled ?s"
    then consider "sv_work_cancelled s \<or> sv_force_armed s"
      | i j where "i < j" "j < length evs" "stops_reads (evs ! i)" "evs ! j = ForceStop"
      using snoc.IH by blast
    then show ?thesis
    proof cases
      case (2 i j)
      then have "i < j \<and> j < length (evs @ [ev]) \<and> stops_reads ((evs @ [ev]) ! i) \<and> (evs @ [ev]) ! j = ForceStop"
        by (simp add: nth_append)
      then show ?thesis by blast
    qed blast
  next
    assume ev: "ev = ForceStop" and "sv_force_armed ?s"
    from fold_armed [OF this(2)] show ?thesis
    proof (elim disjE exE conjE)
      fix i assume "i < length evs" "stops_reads (evs ! i)"
      with ev have "i < length evs \<and> length evs < length (evs @ [ev]) \<and> stops_reads ((evs @ [ev]) ! i)
          \<and> (evs @ [ev]) ! length evs = ForceStop"
        by (simp add: nth_append)
      then show ?thesis by blast
    qed simp
  qed
qed simp

text \<open>
  Workers are stopped gracefully: when \<open>runJudgeWorkers\<close> returns, every one of its
  workers has ended; the error it returns is the first error a worker ended with; and running
  work was cancelled only by the force-stop timer, after a shutdown signal or a worker's
  error had stopped the reads.
\<close>

theorem supervise_graceful:
  assumes "supervise evs (supervisor_init n) = Some (err, s)"
  shows "\<exists>k\<le>length evs. length (filter is_worker_done (take k evs)) = n
    \<and> err = (case worker_errors (take k evs) of [] \<Rightarrow> None | e # _ \<Rightarrow> Some e)
    \<and> (sv_work_cancelled s \<longrightarrow>
        (\<exists>i j. i < j \<and> j < k \<and> stops_reads (evs ! i) \<and> evs ! j = ForceStop))"
proof -
  from supervise_fold [OF assms] obtain k where k: "k \<le> length evs" "s = fold supervisor_step (take k evs) (supervisor_init n)"
    "length (filter is_worker_done (take k evs)) = n" "err = sv_first_err s"
    by (auto simp: supervisor_init_def)
  have e: "err = (case worker_errors (take k evs) of [] \<Rightarrow> None | e # _ \<Rightarrow> Some e)"
    unfolding k(4) k(2) fold_first_err by (simp add: supervisor_init_def)
  have "\<exists>i j. i < j \<and> j < k \<and> stops_reads (evs ! i) \<and> evs ! j = ForceStop" if "sv_work_cancelled s"
    using fold_work_cancelled [of "take k evs" "supervisor_init n"] that k(1) unfolding k(2)
    by (auto simp: supervisor_init_def) (meson less_trans nth_take)
  with k e show ?thesis by blast
qed

theorem supervise_graceful_witness:
  "\<exists>k\<le>4. length (filter is_worker_done (take k [ShutdownSignal, WorkerDone None, ForceStop, WorkerDone None])) = 2"
proof -
  let ?evs = "[ShutdownSignal, WorkerDone None, ForceStop, WorkerDone None]"
  have "supervise ?evs (supervisor_init 2) \<noteq> None" by code_simp
  then obtain err s where "supervise ?evs (supervisor_init 2) = Some (err, s)" by auto
  from supervise_graceful [OF this] show ?thesis by auto
qed

end
