(* ===== verification/Reaper.thy ===== *)
theory Reaper
  imports Submission JudgeService
begin

text \<open>
  The reaper: \<open>internal/reaper\<close>. It returns submissions with an expired lease to the pending
  state or, after too many attempts, fails them (\<open>leases.go\<close>); it replaces abandoned stream
  entries (\<open>stream.go\<close>); and it finalizes matches past their deadline (\<open>matches.go\<close>). The SQL
  of each transaction runs on a database under the row locks it takes; rows another
  transaction holds are skipped (\<open>locked\<close>).
\<close>

section \<open>Events\<close>

definition failed_result_data :: "uuid_lib \<Rightarrow> uuid \<Rightarrow> uuid \<Rightarrow> uuid \<Rightarrow> uuid \<Rightarrow> int \<Rightarrow> uuid \<Rightarrow> result_data" where
  "failed_result_data U sid rid mid pid n recipient =
     \<lparr>rd_event_id = uuid_string U (stable_event_id U ''infrastructure-failed'' sid recipient),
      rd_request_id = uuid_string U rid, rd_submission_id = uuid_string U sid,
      rd_match_id = uuid_string U mid, rd_player_id = uuid_string U pid,
      rd_verdict = ''failed'', rd_tests_passed = 0, rd_total_tests = n, rd_winner_id = '''',
      rd_outcome = '''', rd_failure_kind = Some ''infrastructure_error''\<rparr>"

text \<open>The payloads of a list of recipients; the first that cannot be encoded is the error.\<close>

fun encode_events :: "string \<Rightarrow> (uuid \<Rightarrow> message_data) \<Rightarrow> uuid list \<Rightarrow> string + result_event list" where
  "encode_events typ data [] = Inr []"
| "encode_events typ data (r # rs) =
     (case encode typ (Some (data r)) of
        Inl e \<Rightarrow> Inl e
      | Inr payload \<Rightarrow>
          (case encode_events typ data rs of
             Inl e \<Rightarrow> Inl e
           | Inr evs \<Rightarrow> Inr (\<lparr>re_recipient = r, re_payload = payload\<rparr> # evs)))"

definition build_failed_result_events ::
  "uuid_lib \<Rightarrow> uuid \<Rightarrow> uuid \<Rightarrow> uuid \<Rightarrow> uuid \<Rightarrow> uuid \<times> uuid \<Rightarrow> int \<Rightarrow> string + result_event list" where
  "build_failed_result_events U sid rid mid pid players n =
     (case players of (a, b) \<Rightarrow>
       if sid = nil_uuid \<or> rid = nil_uuid \<or> mid = nil_uuid \<or> pid = nil_uuid \<or> n < 0
          \<or> a = nil_uuid \<or> b = nil_uuid \<or> a = b \<or> (pid \<noteq> a \<and> pid \<noteq> b)
       then Inl ''build failed result events: invalid arguments''
       else encode_events ''result'' (\<lambda>r. ResultData (failed_result_data U sid rid mid pid n r)) [a, b])"

definition match_end_data_for :: "uuid_lib \<Rightarrow> uuid \<Rightarrow> int \<Rightarrow> uuid option \<Rightarrow> uuid \<times> uuid \<Rightarrow> int \<times> int \<Rightarrow> uuid \<Rightarrow> match_end_data" where
  "match_end_data_for U mid n winner players scores r =
     \<lparr>me_event_id = uuid_string U (stable_event_id U ''match-finalized'' mid r),
      me_match_id = uuid_string U mid,
      me_winner_id = (case winner of None \<Rightarrow> '''' | Some w \<Rightarrow> uuid_string U w),
      me_outcome = (case winner of None \<Rightarrow> ''draw'' | Some w \<Rightarrow> if r = w then ''win'' else ''loss''),
      me_tests_passed = (if r = fst players then fst scores else snd scores),
      me_total_tests = n\<rparr>"

definition build_match_end_events ::
  "uuid_lib \<Rightarrow> uuid \<Rightarrow> uuid \<times> uuid \<Rightarrow> int \<times> int \<Rightarrow> int \<Rightarrow> uuid option \<Rightarrow> string + result_event list" where
  "build_match_end_events U mid players scores n winner =
     (case players of (a, b) \<Rightarrow>
       if mid = nil_uuid \<or> n < 0 \<or> a = nil_uuid \<or> b = nil_uuid \<or> a = b \<or> fst scores < 0 \<or> snd scores < 0
       then Inl ''build match end events: invalid arguments''
       else if (case winner of None \<Rightarrow> False | Some w \<Rightarrow> w \<noteq> a \<and> w \<noteq> b)
       then Inl ''build match end events: winner is not a match player''
       else encode_events ''match_end'' (\<lambda>r. MatchEndData (match_end_data_for U mid n winner players scores r)) [a, b])"

section \<open>Expired leases\<close>

record reaper_config =
  rc_interval :: int
  rc_max_attempts :: int
  rc_stream_min_idle :: int
  rc_batch_size :: int

record lease_action =
  la_kind :: string
  la_submission_id :: uuid
  la_request_id :: uuid
  la_match_id :: uuid
  la_player_id :: uuid
  la_opponent_id :: uuid
  la_total_tests :: int

text \<open>The common table expression \<open>expired\<close>.\<close>

definition expired_leases :: "(submission_row \<Rightarrow> bool) \<Rightarrow> time \<Rightarrow> int \<Rightarrow> db \<Rightarrow> submission_row list" where
  "expired_leases locked now n d =
     sql_select locked
       (\<lambda>r. s_status r = ''running'' \<and> (case s_lease_until r of None \<Rightarrow> True | Some t \<Rightarrow> t \<le> now))
       (\<lambda>r. (s_lease_until r, s_id r)) n (db_submissions d)"

definition reset_row :: "submission_row \<Rightarrow> submission_row" where
  "reset_row r = r\<lparr>s_status := ''pending'', s_attempt_token := None, s_lease_until := None, s_last_enqueued_at := None\<rparr>"

definition poisoned_row :: "time \<Rightarrow> submission_row \<Rightarrow> submission_row" where
  "poisoned_row now r = r\<lparr>s_status := ''completed'', s_result := Some ''failed'',
     s_failure_kind := Some ''infrastructure_error'', s_attempt_token := None, s_lease_until := None,
     s_finished_at := Some now\<rparr>"

text \<open>
  The scalar subquery for the opponent: more than one row is an error (outer \<open>None\<close>), no row
  is \<open>NULL\<close>, which the scan leaves as the nil identifier.
\<close>

definition opponent_of :: "db \<Rightarrow> uuid \<Rightarrow> uuid \<Rightarrow> uuid option" where
  "opponent_of d k u =
     (case map mp_user_id (filter (\<lambda>p. mp_match_id p = k \<and> mp_user_id p \<noteq> u) (db_players d)) of
        [] \<Rightarrow> Some nil_uuid
      | [v] \<Rightarrow> Some v
      | _ \<Rightarrow> None)"

text \<open>
  One row of the final \<open>SELECT\<close> for an expired submission; \<open>Some []\<close> when the inner joins drop
  it, \<open>None\<close> when evaluating the row is an error.
\<close>

definition lease_action_of :: "int \<Rightarrow> db \<Rightarrow> submission_row \<Rightarrow> lease_action list option" where
  "lease_action_of max_attempts d r =
     (if s_attempts r < max_attempts then
        Some [\<lparr>la_kind = ''reset'', la_submission_id = s_id r, la_request_id = nil_uuid, la_match_id = nil_uuid,
               la_player_id = nil_uuid, la_opponent_id = nil_uuid, la_total_tests = 0\<rparr>]
      else
        (case match_of d (s_match_id r) of
           None \<Rightarrow> Some []
         | Some m \<Rightarrow>
             (case problem_of d (m_problem_id m) of
                None \<Rightarrow> Some []
              | Some p \<Rightarrow>
                  (case (opponent_of d (s_match_id r) (s_player_id r), jsonb_array_length (p_test_cases p)) of
                     (Some v, Some n) \<Rightarrow>
                       Some [\<lparr>la_kind = ''poisoned'', la_submission_id = s_id r, la_request_id = s_request_id r,
                              la_match_id = s_match_id r, la_player_id = s_player_id r, la_opponent_id = v,
                              la_total_tests = n\<rparr>]
                   | _ \<Rightarrow> None))))"

text \<open>The statement as a whole: the updates of \<open>reset\<close> and \<open>poisoned\<close> and the actions.\<close>

definition reclaim_statement ::
  "(submission_row \<Rightarrow> bool) \<Rightarrow> time \<Rightarrow> reaper_config \<Rightarrow> db \<Rightarrow> (lease_action list \<times> db) option" where
  "reclaim_statement locked now cfg d =
     (let expired = expired_leases locked now (rc_batch_size cfg) d;
          ids = map s_id expired
      in case update_submissions (\<lambda>r. s_id r \<in> set ids)
             (\<lambda>r. if s_attempts r < rc_max_attempts cfg then reset_row r else poisoned_row now r) d of
          None \<Rightarrow> None
        | Some d' \<Rightarrow>
            (case those (map (lease_action_of (rc_max_attempts cfg) d) expired) of
               None \<Rightarrow> None
             | Some as \<Rightarrow> Some (concat as, d')))"

datatype reclaim_call = RlBegin | RlSelect | RlCommit

fun lease_events :: "uuid_lib \<Rightarrow> lease_action list \<Rightarrow> string + result_event list" where
  "lease_events U [] = Inr []"
| "lease_events U (a # as) =
     (if la_kind a = ''reset'' then lease_events U as
      else if la_kind a = ''poisoned'' then
        (case build_failed_result_events U (la_submission_id a) (la_request_id a) (la_match_id a) (la_player_id a)
                (la_player_id a, la_opponent_id a) (la_total_tests a) of
           Inl e \<Rightarrow> Inl e
         | Inr evs \<Rightarrow>
             (case lease_events U as of
                Inl e \<Rightarrow> Inl e
              | Inr evs' \<Rightarrow> Inr (evs @ evs')))
      else Inl ''reclaim leases: unknown action'')"

definition publish_events ::
  "uuid_lib \<Rightarrow> (string \<Rightarrow> envelope \<Rightarrow> 'p \<Rightarrow> string option \<times> 'p) \<Rightarrow> result_event list \<Rightarrow> 'p \<Rightarrow> string option \<times> 'p" where
  "publish_events U publish evs p =
     (if evs = [] then (None, p)
      else case publish_each U publish evs p of (errs, p') \<Rightarrow>
        (if errs = [] then None else Some (concat errs), p'))"

definition reclaim_leases ::
  "uuid_lib \<Rightarrow> reaper_config \<Rightarrow> (string \<Rightarrow> envelope \<Rightarrow> 'p \<Rightarrow> string option \<times> 'p) \<Rightarrow> (reclaim_call \<Rightarrow> io)
    \<Rightarrow> (submission_row \<Rightarrow> bool) \<Rightarrow> time \<Rightarrow> db \<times> 'p \<Rightarrow> string option \<times> db \<times> 'p" where
  "reclaim_leases U cfg publish ext locked now w =
     (case w of (d, p) \<Rightarrow>
      if ext RlBegin \<noteq> IoOk then (Some ''reclaim leases: begin transaction'', w)
      else case (if ext RlSelect = IoOk then reclaim_statement locked now cfg d else None) of
          None \<Rightarrow> (Some ''reclaim leases: select expired'', w)
        | Some (actions, d') \<Rightarrow>
            if ext RlCommit \<noteq> IoOk
            then (Some ''reclaim leases: commit transaction'', commit_db (ext RlCommit) d d', p)
            else (case lease_events U actions of
                    Inl e \<Rightarrow> (Some e, d', p)
                  | Inr evs \<Rightarrow> (case publish_events U publish evs p of (err, p') \<Rightarrow> (err, d', p'))))"

section \<open>Abandoned stream entries\<close>

definition lookup_submission_status :: "io \<Rightarrow> uuid \<Rightarrow> db \<Rightarrow> string + string option" where
  "lookup_submission_status x sid d =
     (if sid = nil_uuid then Inl ''lookup submission status: invalid arguments''
      else if x \<noteq> IoOk then Inl ''lookup submission status''
      else Inr (map_option s_status (submission_of d sid)))"

definition handle_reclaimed_job ::
  "(uuid \<Rightarrow> db \<times> 'q \<Rightarrow> string option \<times> db \<times> 'q) \<Rightarrow> (string \<Rightarrow> 'q \<Rightarrow> string option \<times> 'q) \<Rightarrow> io
    \<Rightarrow> judge_job \<Rightarrow> db \<times> 'q \<Rightarrow> string option \<times> db \<times> 'q" where
  "handle_reclaimed_job redispatch finalize x job w =
     (case w of (d, q) \<Rightarrow>
      if jj_entry_id job = '''' then (Some ''reclaim stream job: missing entry ID'', w)
      else if jj_decode_err job \<noteq> None then
        (case finalize (jj_entry_id job) q of (err, q') \<Rightarrow> (err, d, q'))
      else case lookup_submission_status x (jj_submission_id job) d of
          Inl e \<Rightarrow> (Some e, w)
        | Inr None \<Rightarrow> (case finalize (jj_entry_id job) q of (err, q') \<Rightarrow> (err, d, q'))
        | Inr (Some status) \<Rightarrow>
            if status \<in> set [''pending'', ''completed''] then
              (case redispatch (jj_submission_id job) w of
                 (Some e, d', q') \<Rightarrow> (Some (''dispatch replacement job: '' @ e), d', q')
               | (None, d', q') \<Rightarrow>
                   (case finalize (jj_entry_id job) q' of (err, q'') \<Rightarrow> (err, d', q'')))
            else if status = ''running'' then (None, w)
            else (Some ''reclaim stream job: invalid status'', w))"

text \<open>The loop over the reclaimed jobs: it goes on after an error and reports the first one.\<close>

fun handle_reclaimed_jobs ::
  "(judge_job \<Rightarrow> 'w \<Rightarrow> string option \<times> 'w) \<Rightarrow> judge_job list \<Rightarrow> 'w \<Rightarrow> string option \<times> 'w" where
  "handle_reclaimed_jobs handle [] w = (None, w)"
| "handle_reclaimed_jobs handle (j # js) w =
     (case handle j w of (err, w1) \<Rightarrow>
        (case handle_reclaimed_jobs handle js w1 of (err', w2) \<Rightarrow>
           (case err of None \<Rightarrow> err' | Some e \<Rightarrow> Some e, w2)))"

definition sweep_stream ::
  "('q \<Rightarrow> (string + judge_job list \<times> string) \<times> 'q) \<Rightarrow> (judge_job \<Rightarrow> db \<times> 'q \<Rightarrow> string option \<times> db \<times> 'q)
    \<Rightarrow> db \<times> 'q \<Rightarrow> string option \<times> db \<times> 'q" where
  "sweep_stream reclaim handle w =
     (case reclaim (snd w) of
        (Inl e, q) \<Rightarrow> (Some (''sweep stream: reclaim idle jobs: '' @ e), fst w, q)
      | (Inr (jobs, _), q) \<Rightarrow> handle_reclaimed_jobs handle jobs (fst w, q))"

section \<open>Expired matches\<close>

definition decide_tiebreak_winner :: "uuid \<times> uuid \<Rightarrow> int \<times> int \<Rightarrow> uuid option" where
  "decide_tiebreak_winner players scores =
     (if snd scores < fst scores then Some (fst players)
      else if fst scores < snd scores then Some (snd players)
      else None)"

definition expired_matches :: "(match_row \<Rightarrow> bool) \<Rightarrow> time \<Rightarrow> int \<Rightarrow> db \<Rightarrow> match_row list" where
  "expired_matches locked now n d =
     sql_select locked (\<lambda>m. m_status m = ''active'' \<and> m_deadline m \<le> now)
       (\<lambda>m. (m_deadline m, m_id m)) n (db_matches d)"

definition open_submissions :: "db \<Rightarrow> uuid \<Rightarrow> int" where
  "open_submissions d k =
     int (length (filter (\<lambda>s. s_match_id s = k \<and> s_status s \<in> set [''pending'', ''running'']) (db_submissions d)))"

text \<open>\<open>COALESCE(MAX(tests_passed) FILTER (WHERE status = 'completed'), 0)\<close> for one player.\<close>

definition best_score :: "db \<Rightarrow> uuid \<Rightarrow> uuid \<Rightarrow> int" where
  "best_score d k u =
     (case map s_tests_passed (filter (\<lambda>s. s_match_id s = k \<and> s_player_id s = u \<and> s_status s = ''completed'')
            (db_submissions d)) of
        [] \<Rightarrow> 0
      | t # ts \<Rightarrow> fold max ts t)"

datatype finalize_call = FmCount | FmScores | FmTotal | FmUpdate

text \<open>\<open>finalizeMatch\<close> inside the transaction; a skipped match has no events.\<close>

definition finalize_match ::
  "uuid_lib \<Rightarrow> (finalize_call \<Rightarrow> io) \<Rightarrow> uuid \<Rightarrow> db \<Rightarrow> (string + result_event list) \<times> db" where
  "finalize_match U ext k d =
     (if ext FmCount \<noteq> IoOk then (Inl ''finalize match: count open submissions'', d)
      else if 0 < open_submissions d k then (Inr [], d)
      else if ext FmScores \<noteq> IoOk then (Inl ''finalize match: load scores'', d)
      else case players_of d k of
          [a, b] \<Rightarrow>
            if a = nil_uuid \<or> b = nil_uuid \<or> a = b then (Inr [], d)
            else let scores = (best_score d k a, best_score d k b) in
              (case (if ext FmTotal = IoOk then
                       (case match_of d k of
                          None \<Rightarrow> None
                        | Some m \<Rightarrow> (case problem_of d (m_problem_id m) of
                              None \<Rightarrow> None | Some p \<Rightarrow> jsonb_array_length (p_test_cases p)))
                     else None) of
                 None \<Rightarrow> (Inl ''finalize match: load total tests'', d)
               | Some n \<Rightarrow>
                   let winner = decide_tiebreak_winner (a, b) scores in
                   (case (if ext FmUpdate = IoOk then finish_match k winner d else None) of
                      None \<Rightarrow> (Inl ''finalize match: update match'', d)
                    | Some (d', False) \<Rightarrow> (Inr [], d')
                    | Some (d', True) \<Rightarrow> (build_match_end_events U k (a, b) scores n winner, d')))
        | _ \<Rightarrow> (Inr [], d))"

fun finalize_each ::
  "uuid_lib \<Rightarrow> (uuid \<Rightarrow> finalize_call \<Rightarrow> io) \<Rightarrow> uuid list \<Rightarrow> db \<Rightarrow> (string + result_event list) \<times> db" where
  "finalize_each U ext [] d = (Inr [], d)"
| "finalize_each U ext (k # ks) d =
     (case finalize_match U (ext k) k d of
        (Inl e, d1) \<Rightarrow> (Inl e, d1)
      | (Inr evs, d1) \<Rightarrow>
          (case finalize_each U ext ks d1 of
             (Inl e, d2) \<Rightarrow> (Inl e, d2)
           | (Inr evs', d2) \<Rightarrow> (Inr (evs @ evs'), d2)))"

datatype finalize_matches_call = FmBegin | FmSelect | FmMatch uuid finalize_call | FmCommit

definition finalize_matches ::
  "uuid_lib \<Rightarrow> reaper_config \<Rightarrow> (string \<Rightarrow> envelope \<Rightarrow> 'p \<Rightarrow> string option \<times> 'p) \<Rightarrow> (finalize_matches_call \<Rightarrow> io)
    \<Rightarrow> (match_row \<Rightarrow> bool) \<Rightarrow> time \<Rightarrow> db \<times> 'p \<Rightarrow> string option \<times> db \<times> 'p" where
  "finalize_matches U cfg publish ext locked now w =
     (case w of (d, p) \<Rightarrow>
      if ext FmBegin \<noteq> IoOk then (Some ''finalize matches: begin transaction'', w)
      else if ext FmSelect \<noteq> IoOk then (Some ''finalize matches: select expired'', w)
      else case finalize_each U (\<lambda>k c. ext (FmMatch k c))
              (map m_id (expired_matches locked now (rc_batch_size cfg) d)) d of
          (Inl e, _) \<Rightarrow> (Some e, w)
        | (Inr evs, d') \<Rightarrow>
            if ext FmCommit \<noteq> IoOk
            then (Some ''finalize matches: commit transaction'', commit_db (ext FmCommit) d d', p)
            else (case publish_events U publish evs p of (err, p') \<Rightarrow> (err, d', p')))"

section \<open>The service\<close>

definition new_reaper_service :: "bool \<Rightarrow> string \<Rightarrow> reaper_config \<Rightarrow> string + reaper_config" where
  "new_reaper_service has_deps consumer cfg =
     (if \<not> has_deps \<or> consumer = '''' then Inl ''initialize reaper: missing dependency''
      else if rc_interval cfg \<le> 0 \<or> rc_max_attempts cfg \<le> 0 \<or> rc_batch_size cfg \<le> 0 \<or> rc_stream_min_idle cfg < 0
      then Inl ''initialize reaper: invalid config''
      else Inr cfg)"

text \<open>
  \<open>tick\<close>: only the holder of the advisory lock works; the three steps run in order and an
  error ends the tick. Every path releases the lock.
\<close>

definition reaper_tick ::
  "(db \<times> 'p \<Rightarrow> string option \<times> db \<times> 'p) \<Rightarrow> (db \<times> 'q \<Rightarrow> string option \<times> db \<times> 'q)
    \<Rightarrow> (db \<times> 'p \<Rightarrow> string option \<times> db \<times> 'p) \<Rightarrow> io \<Rightarrow> io \<Rightarrow> bool \<Rightarrow> db \<times> 'q \<times> 'p \<Rightarrow> string option \<times> db \<times> 'q \<times> 'p" where
  "reaper_tick reclaim sweep finalize conn lock acquired w =
     (case w of (d, q, p) \<Rightarrow>
      if conn \<noteq> IoOk then (Some ''reaper tick: acquire connection'', w)
      else if lock \<noteq> IoOk then (Some ''reaper tick: try advisory lock'', w)
      else if \<not> acquired then (None, w)
      else case reclaim (d, p) of
          (Some e, d1, p1) \<Rightarrow> (Some e, d1, q, p1)
        | (None, d1, p1) \<Rightarrow>
            (case sweep (d1, q) of
               (Some e, d2, q2) \<Rightarrow> (Some e, d2, q2, p1)
             | (None, d2, q2) \<Rightarrow>
                 (case finalize (d2, p1) of (err, d3, p3) \<Rightarrow> (err, d3, q2, p3))))"

text \<open>\<open>run\<close>: ticks until the context is cancelled, which is seen before a tick or while waiting.\<close>

fun reaper_run :: "(nat \<Rightarrow> bool) \<Rightarrow> (nat \<Rightarrow> 'w \<Rightarrow> string option \<times> 'w) \<Rightarrow> nat \<Rightarrow> nat \<Rightarrow> 'w \<Rightarrow> (nat \<times> 'w) option" where
  "reaper_run cancelled tick 0 n w = None"
| "reaper_run cancelled tick (Suc fuel) n w =
     (if cancelled (2 * n) then Some (n, w)
      else let w1 = snd (tick n w) in
        if cancelled (2 * n + 1) then Some (n, w1) else reaper_run cancelled tick fuel (Suc n) w1)"

section \<open>Lemmas on leases\<close>

definition reclaimed_row :: "reaper_config \<Rightarrow> time \<Rightarrow> submission_row \<Rightarrow> submission_row" where
  "reclaimed_row cfg now r = (if s_attempts r < rc_max_attempts cfg then reset_row r else poisoned_row now r)"

lemma reclaimed_row_simps [simp]:
  "s_id (reclaimed_row cfg now r) = s_id r" "s_match_id (reclaimed_row cfg now r) = s_match_id r"
  "s_player_id (reclaimed_row cfg now r) = s_player_id r" "s_request_id (reclaimed_row cfg now r) = s_request_id r"
  "s_attempts (reclaimed_row cfg now r) = s_attempts r" "s_tests_passed (reclaimed_row cfg now r) = s_tests_passed r"
  "s_attempt_token (reclaimed_row cfg now r) = None" "s_lease_until (reclaimed_row cfg now r) = None"
  by (simp_all add: reclaimed_row_def reset_row_def poisoned_row_def)

lemma expired_leasesD:
  "r \<in> set (expired_leases locked now n d) \<Longrightarrow> r \<in> set (db_submissions d) \<and> s_status r = ''running''
     \<and> (case s_lease_until r of None \<Rightarrow> True | Some t \<Rightarrow> t \<le> now) \<and> \<not> locked r"
  unfolding expired_leases_def by (drule set_sql_select) auto

lemma reclaim_statement_SomeD:
  assumes "reclaim_statement locked now cfg d = Some (as, d')"
  shows "d' = d\<lparr>db_submissions := sql_update
      (\<lambda>r. s_id r \<in> s_id ` set (expired_leases locked now (rc_batch_size cfg) d)) (reclaimed_row cfg now) (db_submissions d)\<rparr>"
    "those (map (lease_action_of (rc_max_attempts cfg) d) (expired_leases locked now (rc_batch_size cfg) d)) = Some ass
      \<Longrightarrow> as = concat ass"
  using assms
  by (auto simp: reclaim_statement_def Let_def reclaimed_row_def [abs_def] split: option.splits
      dest: update_submissions_SomeD(1))

lemma reclaim_leases_cases:
  assumes "reclaim_leases U cfg publish ext locked now (d, p) = (err, d', p')"
  obtains (unchanged) "d' = d" "p' = p" "err \<noteq> None"
  | (reclaimed) as where "reclaim_statement locked now cfg d = Some (as, d')"
      "err = None \<Longrightarrow> \<exists>evs. lease_events U as = Inr evs \<and> publish_events U publish evs p = (None, p')"
proof (cases "d' = d \<and> p' = p \<and> err \<noteq> None")
  case True
  with unchanged show thesis by blast
next
  case False
  show thesis
  proof (cases "reclaim_statement locked now cfg d")
    case None
    with assms False show thesis by (simp add: reclaim_leases_def split: if_splits)
  next
    case (Some a)
    obtain as d1 where a: "a = (as, d1)" by fastforce
    show thesis
    proof (rule reclaimed)
      have "d' = d1"
        using assms False Some a
        by (auto simp: reclaim_leases_def commit_db_def split: if_splits sum.splits prod.splits)
      then show "reclaim_statement locked now cfg d = Some (as, d')"
        using Some a by simp
      show "\<exists>evs. lease_events U as = Inr evs \<and> publish_events U publish evs p = (None, p')" if "err = None"
        using assms that Some a
        by (auto simp: reclaim_leases_def split: if_splits sum.splits prod.splits)
    qed
  qed
qed

lemma reclaim_statement_inv [inv_intros]:
  assumes "db_inv d" "reclaim_statement locked now cfg d = Some (as, d')"
  shows "db_inv d'"
proof -
  let ?P = "\<lambda>r. s_id r \<in> set (map s_id (expired_leases locked now (rc_batch_size cfg) d))"
  have u: "update_submissions ?P
      (\<lambda>r. if s_attempts r < rc_max_attempts cfg then reset_row r else poisoned_row now r) d = Some d'"
    using assms(2) by (auto simp: reclaim_statement_def Let_def split: option.splits)
  show ?thesis
    by (rule update_submissions_inv_tokens [OF assms(1) u])
      (auto simp: keeps_identity_def keeps_tokens_def reset_row_def poisoned_row_def)
qed

lemma reclaim_leases_inv [inv_intros]:
  assumes "db_inv d" "reclaim_leases U cfg publish ext locked now (d, p) = (err, d', p')"
  shows "db_inv d'"
  using assms(2)
proof (cases rule: reclaim_leases_cases)
  case (reclaimed as)
  then show ?thesis using reclaim_statement_inv [OF assms(1)] by blast
qed (use assms in simp)

lemma expired_ids:
  assumes "db_inv d" "r \<in> set (db_submissions d)"
  shows "s_id r \<in> s_id ` set (expired_leases locked now n d) \<longleftrightarrow> r \<in> set (expired_leases locked now n d)"
proof
  assume "s_id r \<in> s_id ` set (expired_leases locked now n d)"
  then obtain x where x: "x \<in> set (expired_leases locked now n d)" "s_id x = s_id r" by force
  have "x = r"
    using distinct_key_eq [OF db_keys(1) [OF assms(1)], of x r] expired_leasesD [OF x(1)] assms(2) x(2) by blast
  with x(1) show "r \<in> set (expired_leases locked now n d)" by simp
qed simp

lemma reclaim_statement_submission_of:
  assumes "db_inv d" "reclaim_statement locked now cfg d = Some (as, d')"
  shows "submission_of d' k = map_option (\<lambda>r. if r \<in> set (expired_leases locked now (rc_batch_size cfg) d)
     then reclaimed_row cfg now r else r) (submission_of d k)"
proof -
  have "submission_of d' k = map_option (\<lambda>r. if s_id r \<in> s_id ` set (expired_leases locked now (rc_batch_size cfg) d)
     then reclaimed_row cfg now r else r) (submission_of d k)"
    unfolding submission_of_def reclaim_statement_SomeD(1) [OF assms(2)]
    by (simp add: row_of_sql_update)
  also have "\<dots> = map_option (\<lambda>r. if r \<in> set (expired_leases locked now (rc_batch_size cfg) d)
     then reclaimed_row cfg now r else r) (submission_of d k)"
  proof (cases "submission_of d k")
    case (Some r)
    then have "r \<in> set (db_submissions d)" by (simp add: submission_ofD)
    from expired_ids [OF assms(1) this] Some show ?thesis by simp
  qed simp
  finally show ?thesis .
qed

section \<open>Lemmas on matches\<close>

lemma best_score_cases:
  "best_score d k u = 0 \<and>
     (\<forall>s\<in>set (db_submissions d). \<not> (s_match_id s = k \<and> s_player_id s = u \<and> s_status s = ''completed'')) \<or>
   (\<exists>s\<in>set (db_submissions d). s_match_id s = k \<and> s_player_id s = u \<and> s_status s = ''completed''
      \<and> best_score d k u = s_tests_passed s) \<and>
   (\<forall>s\<in>set (db_submissions d). s_match_id s = k \<and> s_player_id s = u \<and> s_status s = ''completed''
      \<longrightarrow> s_tests_passed s \<le> best_score d k u)"
proof -
  let ?l = "filter (\<lambda>s. s_match_id s = k \<and> s_player_id s = u \<and> s_status s = ''completed'') (db_submissions d)"
  have fold_max: "fold max ts t \<in> set (t # ts) \<and> (\<forall>x\<in>set (t # ts). x \<le> fold max ts t)" for ts and t :: int
  proof (induction ts arbitrary: t)
    case (Cons a ts)
    from Cons.IH [of "max a t"] show ?case by (auto simp: max_def split: if_splits)
  qed simp
  show ?thesis
  proof (cases ?l)
    case Nil
    then show ?thesis by (auto simp: best_score_def filter_empty_conv)
  next
    case (Cons s ss)
    have b: "best_score d k u = fold max (map s_tests_passed ss) (s_tests_passed s)"
      by (simp add: best_score_def Cons)
    have l: "set ?l = set (s # ss)" by (simp only: Cons)
    note f = fold_max [of "map s_tests_passed ss" "s_tests_passed s", folded b]
    have in_l: "best_score d k u \<in> s_tests_passed ` set ?l"
      unfolding l using f by auto
    have le: "\<forall>x\<in>set ?l. s_tests_passed x \<le> best_score d k u"
      unfolding l using f by auto
    show ?thesis
      by (rule disjI2) (use in_l le in auto)
  qed
qed

lemma finalize_match_cases:
  assumes "finalize_match U ext k d = (res, d')"
  obtains (unchanged) "d' = d"
  | (finished) a b n where "open_submissions d k = 0" "players_of d k = [a, b]" "a \<noteq> b" "a \<noteq> nil_uuid" "b \<noteq> nil_uuid"
      "finish_match k (decide_tiebreak_winner (a, b) (best_score d k a, best_score d k b)) d = Some (d', True)"
      "res = build_match_end_events U k (a, b) (best_score d k a, best_score d k b) n
        (decide_tiebreak_winner (a, b) (best_score d k a, best_score d k b))"
proof (cases "d' = d")
  case True
  with unchanged show thesis by blast
next
  case False
  have o: "open_submissions d k = 0"
    using assms False by (auto simp: finalize_match_def open_submissions_def split: if_splits)
  obtain a b where pl: "players_of d k = [a, b]" "a \<noteq> nil_uuid" "b \<noteq> nil_uuid" "a \<noteq> b"
    using assms False by (auto simp: finalize_match_def split: if_splits list.splits)
  let ?w = "decide_tiebreak_winner (a, b) (best_score d k a, best_score d k b)"
  obtain n d1 f where f: "finish_match k ?w d = Some (d1, f)"
    and r: "(res, d') = (if f then build_match_end_events U k (a, b) (best_score d k a, best_score d k b) n ?w else Inr [], d1)"
    using assms False o pl
    by (auto simp: finalize_match_def Let_def split: if_splits option.splits bool.splits)
  have "f" using f r False by (cases f) (auto dest: finish_match_False)
  with finished [OF o pl(1,4,2,3)] f r show thesis by auto
qed

lemma finalize_match_inv [inv_intros]:
  assumes "db_inv d" "finalize_match U ext k d = (res, d')"
  shows "db_inv d'"
  using assms(2)
proof (cases rule: finalize_match_cases)
  case (finished a b n)
  from assms(1) finished(6) show ?thesis by (rule finish_match_inv)
qed (use assms in simp)

text \<open>What a finished match of a finalization looks like.\<close>

definition tiebreak_of :: "db \<Rightarrow> uuid \<Rightarrow> uuid option" where
  "tiebreak_of d k = (case players_of d k of
     [a, b] \<Rightarrow> decide_tiebreak_winner (a, b) (best_score d k a, best_score d k b) | _ \<Rightarrow> None)"

definition finalizable :: "db \<Rightarrow> uuid \<Rightarrow> bool" where
  "finalizable d k \<longleftrightarrow> open_submissions d k = 0 \<and>
     (case players_of d k of [a, b] \<Rightarrow> a \<noteq> b \<and> a \<noteq> nil_uuid \<and> b \<noteq> nil_uuid | _ \<Rightarrow> False)"

lemma finalize_match_effect:
  assumes "finalize_match U ext k d = (res, d')"
  shows "db_submissions d' = db_submissions d \<and> players_of d' = players_of d \<and>
    (\<forall>j. match_of d' j = match_of d j \<or>
       (\<exists>m. j = k \<and> match_of d j = Some m \<and> m_status m = ''active'' \<and> m_winner_id m = None \<and> finalizable d k \<and>
          match_of d' j = Some (m\<lparr>m_status := ''finished'', m_winner_id := tiebreak_of d k\<rparr>)))"
  using assms
proof (cases rule: finalize_match_cases)
  case (finished a b n)
  note f = finished(6)
  obtain m where m: "match_of d k = Some m" "m_status m = ''active''" "m_winner_id m = None"
    using f by (elim finish_match_SomeD)
  have tb: "tiebreak_of d k = decide_tiebreak_winner (a, b) (best_score d k a, best_score d k b)"
    and fi: "finalizable d k"
    using finished(1-5) by (simp_all add: tiebreak_of_def finalizable_def)
  show ?thesis
    using m fi finish_match_match_of [OF f m(1)] finish_match_frame [OF f] by (auto simp: tb)
qed simp

lemma scores_frame:
  assumes "db_submissions d' = db_submissions d" "players_of d' = players_of d"
  shows "tiebreak_of d' k = tiebreak_of d k" "finalizable d' k = finalizable d k"
    "open_submissions d' k = open_submissions d k" "best_score d' k u = best_score d k u"
  using assms by (simp_all add: tiebreak_of_def finalizable_def open_submissions_def best_score_def cong: list.case_cong)

lemma finalize_each_effect:
  assumes "finalize_each U ext ks d = (res, d')" "distinct ks"
  shows "db_submissions d' = db_submissions d \<and> players_of d' = players_of d \<and>
    (\<forall>j. match_of d' j = match_of d j \<or>
       (\<exists>m. j \<in> set ks \<and> match_of d j = Some m \<and> m_status m = ''active'' \<and> m_winner_id m = None \<and> finalizable d j \<and>
          match_of d' j = Some (m\<lparr>m_status := ''finished'', m_winner_id := tiebreak_of d j\<rparr>)))"
  using assms
proof (induction ks arbitrary: d res)
  case (Cons k ks)
  obtain r1 d1 where f: "finalize_match U (ext k) k d = (r1, d1)" by fastforce
  note e1 = finalize_match_effect [OF f]
  show ?case
  proof (cases "\<exists>evs. r1 = Inr evs")
    case False
    then have "d' = d1" using Cons.prems(1) f by (cases r1) auto
    with e1 show ?thesis by auto
  next
    case True
    then obtain r2 where rest: "finalize_each U ext ks d1 = (r2, d')"
      using Cons.prems(1) f by (fastforce split: prod.splits sum.splits)
    note e2 = Cons.IH [OF rest] and fr = scores_frame [of d1 d]
    have step: "match_of d1 j = match_of d j" if "j \<noteq> k" for j
      using e1 that by blast
    have last: "match_of d' k = match_of d1 k"
      using e2 Cons.prems(2) by auto
    show ?thesis
    proof (intro conjI allI)
      show "db_submissions d' = db_submissions d" "players_of d' = players_of d"
        using e1 e2 Cons.prems(2) by auto
      fix j
      show "match_of d' j = match_of d j \<or>
         (\<exists>m. j \<in> set (k # ks) \<and> match_of d j = Some m \<and> m_status m = ''active'' \<and> m_winner_id m = None \<and> finalizable d j \<and>
            match_of d' j = Some (m\<lparr>m_status := ''finished'', m_winner_id := tiebreak_of d j\<rparr>))"
      proof (cases "j = k")
        case True
        with e1 last show ?thesis by auto
      next
        case False
        have "match_of d' j = match_of d1 j \<or>
         (\<exists>m. j \<in> set ks \<and> match_of d1 j = Some m \<and> m_status m = ''active'' \<and> m_winner_id m = None \<and> finalizable d1 j \<and>
            match_of d' j = Some (m\<lparr>m_status := ''finished'', m_winner_id := tiebreak_of d1 j\<rparr>))"
          using e2 Cons.prems(2) by auto
        with step [OF False] fr e1 show ?thesis by auto
      qed
    qed
  qed
qed simp

lemma finalize_each_inv:
  "db_inv d \<Longrightarrow> finalize_each U ext ks d = (res, d') \<Longrightarrow> db_inv d'"
proof (induction ks arbitrary: d res)
  case (Cons k ks)
  obtain r1 d1 where f: "finalize_match U (ext k) k d = (r1, d1)" by fastforce
  have i1: "db_inv d1" using Cons.prems(1) f by (rule finalize_match_inv)
  show ?case
  proof (cases r1)
    case (Inl e)
    with Cons.prems(2) f i1 show ?thesis by simp
  next
    case (Inr evs)
    then obtain r2 where "finalize_each U ext ks d1 = (r2, d')"
      using Cons.prems(2) f by (fastforce split: prod.splits sum.splits)
    with Cons.IH i1 show ?thesis by blast
  qed
qed simp

lemma finalize_matches_cases:
  assumes "finalize_matches U cfg publish ext locked now (d, p) = (err, d', p')"
  obtains (unchanged) "d' = d" "p' = p" "err \<noteq> None"
  | (finalized) evs where "finalize_each U (\<lambda>k c. ext (FmMatch k c))
      (map m_id (expired_matches locked now (rc_batch_size cfg) d)) d = (Inr evs, d')"
      "err = None \<Longrightarrow> publish_events U publish evs p = (None, p')"
  using assms
  by (auto simp: finalize_matches_def commit_db_def split: if_splits sum.splits prod.splits)

lemma finalize_matches_inv [inv_intros]:
  assumes "db_inv d" "finalize_matches U cfg publish ext locked now (d, p) = (err, d', p')"
  shows "db_inv d'"
  using assms(2)
proof (cases rule: finalize_matches_cases)
  case (finalized evs)
  from assms(1) finalized(1) show ?thesis by (rule finalize_each_inv)
qed (use assms in simp)

lemma expired_matchesD:
  "m \<in> set (expired_matches locked now n d) \<Longrightarrow> m \<in> set (db_matches d) \<and> m_status m = ''active''
     \<and> m_deadline m \<le> now \<and> \<not> locked m"
  unfolding expired_matches_def by (drule set_sql_select) auto

section \<open>Properties of lease reclaim\<close>

text \<open>
  Property C13. Only expired attempts are taken away: whatever the outcome, a submission is
  unchanged by \<open>reclaimLeases\<close> unless it was running with its lease run out; then it is pending
  again, free to be dispatched at once, while it has attempts left, and otherwise completed
  as failed for infrastructure reasons. No other table changes.
\<close>

theorem reclaim_leases_effect:
  assumes "db_inv d" and "reclaim_leases U cfg publish ext locked now (d, p) = (err, d', p')"
  shows "(\<forall>k r. submission_of d k = Some r \<longrightarrow> submission_of d' k = Some r \<or>
      s_status r = ''running'' \<and> \<not> locked r \<and>
      (case s_lease_until r of None \<Rightarrow> True | Some t \<Rightarrow> t \<le> now) \<and>
      submission_of d' k = Some (if s_attempts r < rc_max_attempts cfg then reset_row r else poisoned_row now r))
    \<and> d'\<lparr>db_submissions := db_submissions d\<rparr> = d"
  using assms(2)
proof (cases rule: reclaim_leases_cases)
  case (reclaimed as)
  note sub = reclaim_statement_submission_of [OF assms(1) reclaimed(1)]
  show ?thesis
  proof (intro conjI allI impI)
    show "d'\<lparr>db_submissions := db_submissions d\<rparr> = d"
      by (simp add: reclaim_statement_SomeD(1) [OF reclaimed(1)])
    fix k r assume r: "submission_of d k = Some r"
    show "submission_of d' k = Some r \<or>
      s_status r = ''running'' \<and> \<not> locked r \<and>
      (case s_lease_until r of None \<Rightarrow> True | Some t \<Rightarrow> t \<le> now) \<and>
      submission_of d' k = Some (if s_attempts r < rc_max_attempts cfg then reset_row r else poisoned_row now r)"
      using sub [of k] r expired_leasesD [of r locked now "rc_batch_size cfg" d]
      by (cases "r \<in> set (expired_leases locked now (rc_batch_size cfg) d)") (simp_all add: reclaimed_row_def)
  qed
qed simp

definition ex_reaper :: reaper_config where
  "ex_reaper = \<lparr>rc_interval = 5, rc_max_attempts = 3, rc_stream_min_idle = 60, rc_batch_size = 10\<rparr>"

definition ex_reclaim :: "time \<Rightarrow> db \<Rightarrow> string option \<times> db \<times> (string \<times> envelope) list" where
  "ex_reclaim now d = reclaim_leases ex_uuid_lib ex_reaper (redis_publish (\<lambda>_. IoOk)) (\<lambda>_. IoOk) (\<lambda>_. False) now (d, [])"

theorem reclaim_leases_effect_witness:
  "(fst (snd (ex_reclaim 59 (ex_db [ex_running 8]))))\<lparr>db_submissions := [ex_running 8]\<rparr> = ex_db [ex_running 8]
    \<and> submission_of (fst (snd (ex_reclaim 59 (ex_db [ex_running 8])))) 8 = Some (ex_running 8)"
proof -
  let ?d = "ex_db [ex_running 8]"
  let ?run = "ex_reclaim 59 ?d"
  have run: "reclaim_leases ex_uuid_lib ex_reaper (redis_publish (\<lambda>_. IoOk)) (\<lambda>_. IoOk) (\<lambda>_. False) 59 (?d, [])
      = (fst ?run, fst (snd ?run), snd (snd ?run))"
    by (simp add: ex_reclaim_def)
  have "db_inv ?d" by code_simp
  note e = reclaim_leases_effect [OF this run]
  have r: "submission_of ?d 8 = Some (ex_running 8)" "s_lease_until (ex_running 8) = Some 60"
      "db_submissions ?d = [ex_running 8]"
    by (simp_all add: submission_of_def ex_db_def ex_running_def ex_pending_def)
  from e r show ?thesis by fastforce
qed

text \<open>
  Every abandoned attempt is recovered: when \<open>reclaimLeases\<close> reports no error and
  its batch has room, every submission whose lease has run out, and which no other
  transaction holds, is pending again or failed.
\<close>

theorem reclaim_leases_recovers:
  assumes "db_inv d" and "reclaim_leases U cfg publish ext locked now (d, p) = (None, d', p')"
    and "length (filter (\<lambda>r. (s_status r = ''running'' \<and> (case s_lease_until r of None \<Rightarrow> True | Some t \<Rightarrow> t \<le> now))
           \<and> \<not> locked r) (db_submissions d)) \<le> nat (rc_batch_size cfg)"
    and "submission_of d k = Some r" "s_status r = ''running''" "\<not> locked r"
    and "case s_lease_until r of None \<Rightarrow> True | Some t \<Rightarrow> t \<le> now"
  shows "submission_of d' k = Some (if s_attempts r < rc_max_attempts cfg then reset_row r else poisoned_row now r)"
  using assms(2)
proof (cases rule: reclaim_leases_cases)
  case (reclaimed as)
  have "r \<in> set (expired_leases locked now (rc_batch_size cfg) d)"
    unfolding expired_leases_def sql_select_complete [OF assms(3)]
    using assms(4-7) by (auto dest: submission_ofD)
  then show ?thesis
    using reclaim_statement_submission_of [OF assms(1) reclaimed(1), of k] assms(4)
    by (simp add: reclaimed_row_def)
qed simp

theorem reclaim_leases_recovers_witness:
  "map_option s_status (submission_of (fst (snd (ex_reclaim 61 (ex_db [ex_running 8])))) 8) = Some ''pending''"
proof -
  let ?d = "ex_db [ex_running 8]"
  let ?run = "ex_reclaim 61 ?d"
  have "fst ?run = None" by code_simp
  then have run: "reclaim_leases ex_uuid_lib ex_reaper (redis_publish (\<lambda>_. IoOk)) (\<lambda>_. IoOk) (\<lambda>_. False) 61 (?d, [])
      = (None, fst (snd ?run), snd (snd ?run))"
    by (simp add: ex_reclaim_def prod_eq_iff)
  have h: "db_inv ?d" "length (filter (\<lambda>r. (s_status r = ''running'' \<and> (case s_lease_until r of None \<Rightarrow> True | Some t \<Rightarrow> t \<le> 61))
      \<and> \<not> (\<lambda>_. False) r) (db_submissions ?d)) \<le> nat (rc_batch_size ex_reaper)"
    "submission_of ?d 8 = Some (ex_running 8)" "s_status (ex_running 8) = ''running''" "\<not> (\<lambda>_. False) (ex_running 8)"
    "case s_lease_until (ex_running 8) of None \<Rightarrow> True | Some t \<Rightarrow> t \<le> 61"
    "s_attempts (ex_running 8) < rc_max_attempts ex_reaper"
    by code_simp+
  from reclaim_leases_recovers [OF h(1) run h(2-6)] h(7) show ?thesis
    by (simp add: reset_row_def)
qed

section \<open>Properties of the stream sweep\<close>

text \<open>
  What the sweep relies on from the Judge queue: a job queue that can be enqueued to and
  finalized. \<open>jobs\<close> lists the entries in the stream with the submission each names.
\<close>

locale reclaim_queue =
  fixes enqueue :: "uuid \<Rightarrow> 'q \<Rightarrow> (string + string) \<times> 'q"
    and finalize :: "string \<Rightarrow> 'q \<Rightarrow> string option \<times> 'q"
    and key :: "uuid \<Rightarrow> string"
    and jobs :: "'q \<Rightarrow> (string \<times> string option) list"
  assumes enqueue_adds: "enqueue sid q = (Inr e, q') \<Longrightarrow> jobs q' = jobs q @ [(e, Some (key sid))]"
    and enqueue_keeps: "enqueue sid q = (r, q') \<Longrightarrow> set (jobs q) \<subseteq> set (jobs q')"
    and finalize_removes: "finalize e q = (err, q') \<Longrightarrow> jobs q' = jobs q \<or> jobs q' = filter (\<lambda>j. fst j \<noteq> e) (jobs q)"
begin

lemma dispatch_adds:
  assumes "dispatch D enqueue mark now sid (d, q) = (None, d', q')"
  shows "\<exists>e. enqueue sid q = (Inr e, q')"
  using assms by (auto simp: dispatch_def split: if_splits prod.splits sum.splits option.splits)

lemma dispatch_keeps:
  assumes "dispatch D enqueue mark now sid (d, q) = (r, d', q')"
  shows "set (jobs q) \<subseteq> set (jobs q')"
  using assms enqueue_keeps
  by (auto simp: dispatch_def split: if_splits prod.splits sum.splits option.splits; blast)

text \<open>Why a reclaimed entry may leave the stream: it is useless, or a new entry replaces it.\<close>

lemma handle_reclaimed_job_replaces:
  assumes "handle_reclaimed_job (dispatch D enqueue mark now) finalize x job (d, q) = (err, d', q')"
    and "jj_decode_err job = None" "submission_of d (jj_submission_id job) \<noteq> None"
  shows "set (jobs q) \<subseteq> set (jobs q') \<or>
    (\<exists>e q1. enqueue (jj_submission_id job) q = (Inr e, q1) \<and>
      jobs q' = filter (\<lambda>j. fst j \<noteq> jj_entry_id job) (jobs q @ [(e, Some (key (jj_submission_id job)))]))"
proof -
  obtain s where s: "submission_of d (jj_submission_id job) = Some s" using assms(3) by blast
  obtain dr d1 q1 where dp: "dispatch D enqueue mark now (jj_submission_id job) (d, q) = (dr, d1, q1)"
    by (rule prod_cases3)
  obtain fr q2 where fi: "finalize (jj_entry_id job) q1 = (fr, q2)" by fastforce
  consider "q' = q" | "q' = q1" | "dr = None" "q' = q2"
    using assms(1,2) s dp fi
    by (cases dr) (auto simp: handle_reclaimed_job_def lookup_submission_status_def split: if_splits)
  then show ?thesis
  proof cases
    case 2
    with dispatch_keeps [OF dp] show ?thesis by simp
  next
    case 3
    with dp obtain e where e: "enqueue (jj_submission_id job) q = (Inr e, q1)"
      using dispatch_adds by blast
    from finalize_removes [OF fi] enqueue_adds [OF e] 3(2) e show ?thesis by fastforce
  qed simp
qed

end

definition entry_jobs :: "stream \<Rightarrow> (string \<times> string option) list" where
  "entry_jobs q = map (\<lambda>m. (fst m, judge_job_field (snd m) ''submission_id'')) (st_old q @ st_new q)"

lemma entry_jobs_xdel: "entry_jobs (xdel e q) = filter (\<lambda>j. fst j \<noteq> e) (entry_jobs q)"
  by (simp add: entry_jobs_def xdel_def filter_map o_def)

lemma entry_jobs_pel [simp]: "entry_jobs (q\<lparr>st_pel := l\<rparr>) = entry_jobs q"
  by (simp add: entry_jobs_def)

interpretation rq: reclaim_queue "queue_enqueue U client x gen" "judge_finalize client' y" "uuid_string U" entry_jobs
  for U client x gen client' y
proof unfold_locales
  fix sid q e q'
  assume "queue_enqueue U client x gen sid q = (Inr e, q')"
  then show "entry_jobs q' = entry_jobs q @ [(e, Some (uuid_string U sid))]"
    by (auto simp: queue_enqueue_def judge_enqueue_def xadd_def entry_jobs_def judge_job_field_def split: if_splits)
next
  fix sid q r q'
  assume "queue_enqueue U client x gen sid q = (r, q')"
  then show "set (entry_jobs q) \<subseteq> set (entry_jobs q')"
    by (auto simp: queue_enqueue_def judge_enqueue_def xadd_def entry_jobs_def split: if_splits)
next
  fix e q r q'
  assume f: "judge_finalize client' y e q = (r, q')"
  show "entry_jobs q' = entry_jobs q \<or> entry_jobs q' = filter (\<lambda>j. fst j \<noteq> e) (entry_jobs q)"
    using f
    by (auto simp: judge_finalize_def finalize_script_def xack_def entry_jobs_xdel split: if_splits prod.splits)
qed

text \<open>
  Property C14. A reclaimed job is replaced before it is dropped: when the sweep handles a
  well-formed job of a submission that exists, then whatever fails, either no entry leaves
  the stream, or exactly the reclaimed one does and the stream holds a new entry for the
  same submission. Redis gives the new entry an identifier of its own.
\<close>

theorem reclaimed_job_replaced:
  assumes "handle_reclaimed_job (dispatch D (queue_enqueue U c x gen) mark now) (judge_finalize c' y) z job (d, q) = (err, d', q')"
    and "jj_decode_err job = None" "submission_of d (jj_submission_id job) \<noteq> None"
    and "gen q \<noteq> jj_entry_id job"
  shows "set (entry_jobs q) \<subseteq> set (entry_jobs q') \<or>
    set (entry_jobs q') = {j \<in> set (entry_jobs q). fst j \<noteq> jj_entry_id job}
      \<union> {(gen q, Some (uuid_string U (jj_submission_id job)))}"
proof -
  have g: "e = gen q" if "queue_enqueue U c x gen sid q = (Inr e, q1)" for sid e q1
    using that by (auto simp: queue_enqueue_def judge_enqueue_def split: if_splits)
  show ?thesis
    using rq.handle_reclaimed_job_replaces [OF assms(1-3)] assms(4) g by fastforce
qed

definition ex_entry :: stream where
  "ex_entry = \<lparr>st_group = True,
     st_old = [(''e'', [(''schema_version'', RString ''1''), (''submission_id'', RString ''iiiiiiii'')])],
     st_new = [], st_pel = [\<lparr>pe_id = ''e'', pe_consumer = ''w'', pe_delivered = 40\<rparr>]\<rparr>"

definition ex_handle :: "string option \<times> db \<times> stream" where
  "ex_handle = handle_reclaimed_job (dispatch ex_dispatcher (queue_enqueue ex_uuid_lib True (\<lambda>_. IoOk) ex_gen) IoOk 70)
     (judge_finalize True IoOk) IoOk \<lparr>jj_entry_id = ''e'', jj_submission_id = 8, jj_decode_err = None\<rparr>
     (ex_db [ex_pending 8], ex_entry)"

theorem reclaimed_job_replaced_witness:
  "map snd (entry_jobs (snd (snd ex_handle))) = [Some ''iiiiiiii''] \<and>
   (set (entry_jobs ex_entry) \<subseteq> set (entry_jobs (snd (snd ex_handle))) \<or>
    (ex_gen ex_entry, Some ''iiiiiiii'') \<in> set (entry_jobs (snd (snd ex_handle))))"
proof -
  let ?job = "\<lparr>jj_entry_id = ''e'', jj_submission_id = 8, jj_decode_err = None\<rparr> :: judge_job"
  have run: "handle_reclaimed_job (dispatch ex_dispatcher (queue_enqueue ex_uuid_lib True (\<lambda>_. IoOk) ex_gen) IoOk 70)
     (judge_finalize True IoOk) IoOk ?job (ex_db [ex_pending 8], ex_entry)
     = (fst ex_handle, fst (snd ex_handle), snd (snd ex_handle))"
    by (simp add: ex_handle_def)
  have h: "jj_decode_err ?job = None" "submission_of (ex_db [ex_pending 8]) (jj_submission_id ?job) \<noteq> None"
    "ex_gen ex_entry \<noteq> jj_entry_id ?job"
    by code_simp+
  have "map snd (entry_jobs (snd (snd ex_handle))) = [Some ''iiiiiiii'']"
    "uuid_string ex_uuid_lib 8 = ''iiiiiiii''"
    by code_simp+
  with reclaimed_job_replaced [OF run h] show ?thesis by auto
qed

section \<open>Properties of match finalization\<close>

text \<open>
  Property C15. A match is finalized only when it is due and by its best scores: whatever the
  outcome, \<open>finalizeMatches\<close> changes a match only if it was active past its deadline with every
  submission judged and exactly two players, and then it is finished and won by the player
  whose best completed submission passed more tests, by nobody on a tie. Nothing else of
  the match and no submission changes.
\<close>

theorem finalize_matches_effect:
  assumes "db_inv d" and "finalize_matches U cfg publish ext locked now (d, p) = (err, d', p')"
    and "match_of d k = Some m" and "match_of d' k \<noteq> Some m"
  shows "m_status m = ''active'' \<and> m_deadline m \<le> now
    \<and> (\<forall>s\<in>set (db_submissions d). s_match_id s = k \<longrightarrow> s_status s = ''completed'')
    \<and> (\<exists>a b. players_of d k = [a, b] \<and> a \<noteq> b \<and>
        match_of d' k = Some (m\<lparr>m_status := ''finished'', m_winner_id :=
          (if best_score d k b < best_score d k a then Some a
           else if best_score d k a < best_score d k b then Some b else None)\<rparr>))
    \<and> db_submissions d' = db_submissions d"
  using assms(2)
proof (cases rule: finalize_matches_cases)
  case (finalized evs)
  let ?ks = "map m_id (expired_matches locked now (rc_batch_size cfg) d)"
  have "distinct ?ks"
    unfolding expired_matches_def using db_keys(3) [OF assms(1)] by (rule distinct_map_sql_select)
  note e = finalize_each_effect [OF finalized(1) this]
  from e [THEN conjunct2, THEN conjunct2, rule_format, of k] assms(3,4)
  have k: "k \<in> set ?ks" "finalizable d k"
    and m': "match_of d' k = Some (m\<lparr>m_status := ''finished'', m_winner_id := tiebreak_of d k\<rparr>)"
    by auto
  from k(1) obtain m0 where m0: "m0 \<in> set (expired_matches locked now (rc_batch_size cfg) d)" "m_id m0 = k"
    by auto
  have "m0 = m"
    using distinct_key_eq [OF db_keys(3) [OF assms(1)], of m0 m] expired_matchesD [OF m0(1)] m0(2)
      match_ofD [OF assms(3)] by simp
  note due = expired_matchesD [OF m0(1) [unfolded this]]
  have "s_status s = ''completed''" if "s \<in> set (db_submissions d)" "s_match_id s = k" for s
    using k(2) that db_invD(2) [OF assms(1) that(1)]
    by (auto simp: finalizable_def open_submissions_def filter_empty_conv submission_ok_def submission_checks_def)
  moreover obtain a b where "players_of d k = [a, b]" "a \<noteq> b"
    using k(2) by (auto simp: finalizable_def split: list.splits)
  ultimately show ?thesis
    using due m' e by (simp add: tiebreak_of_def decide_tiebreak_winner_def)
qed (use assms in simp)

definition ex_finalize :: "time \<Rightarrow> db \<Rightarrow> string option \<times> db \<times> (string \<times> envelope) list" where
  "ex_finalize now d = finalize_matches ex_uuid_lib ex_reaper (redis_publish (\<lambda>_. IoOk)) (\<lambda>_. IoOk) (\<lambda>_. False) now (d, [])"

theorem finalize_matches_effect_witness:
  "match_of (fst (snd (ex_finalize 1000 (ex_db [ex_completed 8 1])))) 100 =
     Some (ex_match\<lparr>m_status := ''finished'', m_winner_id := Some 1\<rparr>)"
proof -
  let ?d = "ex_db [ex_completed 8 1]"
  let ?run = "ex_finalize 1000 ?d"
  have run: "finalize_matches ex_uuid_lib ex_reaper (redis_publish (\<lambda>_. IoOk)) (\<lambda>_. IoOk) (\<lambda>_. False) 1000 (?d, [])
      = (fst ?run, fst (snd ?run), snd (snd ?run))"
    by (simp add: ex_finalize_def)
  have h: "db_inv ?d" "match_of ?d 100 = Some ex_match" by code_simp+
  have "map_option m_status (match_of (fst (snd ?run)) 100) = Some ''finished''" "m_status ex_match = ''active''"
    by code_simp+
  then have ne: "match_of (fst (snd ?run)) 100 \<noteq> Some ex_match" by auto
  have s: "players_of ?d 100 = [1, 2]" "best_score ?d 100 1 = 1" "best_score ?d 100 2 = 0" by code_simp+
  from finalize_matches_effect [OF h(1) run h(2) ne] s show ?thesis by auto
qed

lemma encode_events_Inr:
  "typ \<noteq> '''' \<Longrightarrow> encode_events typ data rs =
     Inr (map (\<lambda>r. \<lparr>re_recipient = r, re_payload = \<lparr>env_type = typ, env_data = Some (data r)\<rparr>\<rparr>) rs)"
  by (induction rs) (simp_all add: encode_def)

lemma finalize_each_decides:
  assumes "finalize_each U ext ks d = (Inr evs, d')" "distinct ks" "k \<in> set ks"
    and "match_of d k = Some m" "m_status m = ''active''" "m_winner_id m = None" "finalizable d k"
  shows "\<exists>a b n evs1. players_of d k = [a, b] \<and>
    match_of d' k = Some (m\<lparr>m_status := ''finished'', m_winner_id := tiebreak_of d k\<rparr>) \<and>
    build_match_end_events U k (a, b) (best_score d k a, best_score d k b) n (tiebreak_of d k) = Inr evs1 \<and>
    set evs1 \<subseteq> set evs"
  using assms
proof (induction ks arbitrary: d evs)
  case (Cons j ks)
  obtain evs1 d1 evs2 where f: "finalize_match U (ext j) j d = (Inr evs1, d1)"
    and r: "finalize_each U ext ks d1 = (Inr evs2, d')" and evs: "evs = evs1 @ evs2"
    using Cons.prems(1) by (auto split: prod.splits sum.splits)
  note e1 = finalize_match_effect [OF f]
  show ?case
  proof (cases "k = j")
    case False
    then have m1: "match_of d1 k = Some m"
      using e1 [THEN conjunct2, THEN conjunct2, rule_format, of k] Cons.prems(4) by auto
    have fr: "tiebreak_of d1 k = tiebreak_of d k" "finalizable d1 k = finalizable d k"
      "\<And>u. best_score d1 k u = best_score d k u" "players_of d1 k = players_of d k"
      using e1 scores_frame [of d1 d] by auto
    have k: "k \<in> set ks" "distinct ks" using Cons.prems(2,3) False by auto
    from Cons.IH [OF r k(2,1) m1 Cons.prems(5,6)] Cons.prems(7) show ?thesis
      unfolding fr evs by fastforce
  next
    case True
    obtain a b where ab: "players_of d k = [a, b]" "a \<noteq> nil_uuid" "b \<noteq> nil_uuid" "a \<noteq> b"
      using Cons.prems(7) by (auto simp: finalizable_def split: list.splits)
    have "open_submissions d k = 0" using Cons.prems(7) by (simp add: finalizable_def)
    have pl: "case decide_tiebreak_winner (a, b) (best_score d k a, best_score d k b) of None \<Rightarrow> True | Some u \<Rightarrow> is_player d k u"
      using set_players_of [of d k] ab(1) by (auto simp: decide_tiebreak_winner_def)
    obtain d2 where fm: "finish_match k (decide_tiebreak_winner (a, b) (best_score d k a, best_score d k b)) d = Some (d2, True)"
      using finish_match_total [OF Cons.prems(4-6) pl] by blast
    have tb: "tiebreak_of d k = decide_tiebreak_winner (a, b) (best_score d k a, best_score d k b)"
      by (simp add: tiebreak_of_def ab(1))
    obtain n where b: "build_match_end_events U k (a, b) (best_score d k a, best_score d k b) n (tiebreak_of d k) = Inr evs1"
      and "d1 = d2"
      using f True ab fm \<open>open_submissions d k = 0\<close> unfolding tb
      by (auto simp: finalize_match_def Let_def split: if_splits option.splits)
    have "match_of d1 k = Some (m\<lparr>m_status := ''finished'', m_winner_id := tiebreak_of d k\<rparr>)"
      using finish_match_match_of [OF fm Cons.prems(4), of k] \<open>d1 = d2\<close> by (simp add: tb)
    moreover have "match_of d' k = match_of d1 k"
      using finalize_each_effect [OF r] Cons.prems(2) True by auto
    ultimately show ?thesis
      using b ab(1) by (intro exI [of _ a] exI [of _ b] exI [of _ n] exI [of _ evs1]) (simp add: evs)
  qed
qed simp

text \<open>
  Property C16. Every due match is decided and announced: when \<open>finalizeMatches\<close> reports no
  error and its batch has room, every active match past its deadline that has two players,
  no unjudged submission and no other transaction's lock is finished with its best-score
  winner, and both players have been sent their own score and outcome.
\<close>

theorem finalize_matches_decides:
  assumes "db_inv d" and "finalize_matches U cfg (redis_publish px) ext locked now (d, p) = (None, d', p')"
    and "length (filter (\<lambda>m. (m_status m = ''active'' \<and> m_deadline m \<le> now) \<and> \<not> locked m) (db_matches d))
      \<le> nat (rc_batch_size cfg)"
    and "match_of d k = Some m" "m_status m = ''active''" "m_deadline m \<le> now" "\<not> locked m"
    and "players_of d k = [a, b]" "a \<noteq> nil_uuid" "b \<noteq> nil_uuid" "open_submissions d k = 0"
  shows "match_of d' k = Some (m\<lparr>m_status := ''finished'', m_winner_id := tiebreak_of d k\<rparr>)
    \<and> (\<exists>n. \<forall>r\<in>{a, b}. (user_channel U r, \<lparr>env_type = ''match_end'', env_data = Some (MatchEndData
        (match_end_data_for U k n (tiebreak_of d k) (a, b) (best_score d k a, best_score d k b) r))\<rparr>) \<in> set p')"
  using assms(2)
proof (cases rule: finalize_matches_cases)
  case (finalized evs)
  let ?ks = "map m_id (expired_matches locked now (rc_batch_size cfg) d)"
  have dk: "distinct ?ks"
    unfolding expired_matches_def using db_keys(3) [OF assms(1)] by (rule distinct_map_sql_select)
  have "m \<in> set (expired_matches locked now (rc_batch_size cfg) d)"
    unfolding expired_matches_def sql_select_complete [OF assms(3)]
    using assms(4-7) by (auto dest: match_ofD)
  moreover have mk: "m_id m = k" using assms(4) by (simp add: match_ofD)
  ultimately have k: "k \<in> set ?ks" by force
  have w: "m_winner_id m = None"
    using match_ok_of [OF assms(1,4)] assms(5) by (auto simp: match_ok_def split: option.splits)
  have ab: "a \<noteq> b" using distinct_players_of [OF assms(1), of k] assms(8) by simp
  have fi: "finalizable d k" using assms(8-11) ab by (simp add: finalizable_def)
  from finalize_each_decides [OF finalized(1) dk k assms(4,5) w fi] assms(8) obtain n evs1 where
    m': "match_of d' k = Some (m\<lparr>m_status := ''finished'', m_winner_id := tiebreak_of d k\<rparr>)"
    and ev: "build_match_end_events U k (a, b) (best_score d k a, best_score d k b) n (tiebreak_of d k) = Inr evs1"
      "set evs1 \<subseteq> set evs"
    by auto
  have pub: "p' = p @ map (\<lambda>ev. (user_channel U (re_recipient ev), re_payload ev)) evs"
    using finalized(2) [OF refl] jb.publish_each_ok
    by (auto simp: publish_events_def split: if_splits prod.splits)
  have "evs1 = map (\<lambda>r. \<lparr>re_recipient = r, re_payload = \<lparr>env_type = ''match_end'', env_data = Some (MatchEndData
        (match_end_data_for U k n (tiebreak_of d k) (a, b) (best_score d k a, best_score d k b) r))\<rparr>\<rparr>) [a, b]"
    using ev(1) by (auto simp: build_match_end_events_def encode_events_Inr simp del: encode_events.simps split: if_splits)
  moreover have "(\<lambda>ev. (user_channel U (re_recipient ev), re_payload ev)) ` set evs1 \<subseteq> set p'"
    using ev(2) by (auto simp: pub)
  ultimately show ?thesis
    using m' by (intro conjI exI [of _ n] ballI) auto
qed simp

theorem finalize_matches_decides_witness:
  "match_of (fst (snd (ex_finalize 1000 (ex_db [ex_completed 8 1])))) 100 =
     Some (ex_match\<lparr>m_status := ''finished'', m_winner_id := tiebreak_of (ex_db [ex_completed 8 1]) 100\<rparr>)"
proof -
  let ?d = "ex_db [ex_completed 8 1]"
  let ?run = "ex_finalize 1000 ?d"
  have "fst ?run = None" by code_simp
  then have run: "finalize_matches ex_uuid_lib ex_reaper (redis_publish (\<lambda>_. IoOk)) (\<lambda>_. IoOk) (\<lambda>_. False) 1000 (?d, [])
      = (None, fst (snd ?run), snd (snd ?run))"
    by (simp add: ex_finalize_def prod_eq_iff)
  have h: "db_inv ?d" "length (filter (\<lambda>m. (m_status m = ''active'' \<and> m_deadline m \<le> 1000) \<and> \<not> (\<lambda>_. False) m) (db_matches ?d))
      \<le> nat (rc_batch_size ex_reaper)"
    "match_of ?d 100 = Some ex_match" "m_status ex_match = ''active''" "m_deadline ex_match \<le> 1000"
    "\<not> (\<lambda>_. False) ex_match" "players_of ?d 100 = [1, 2]" "(1::uuid) \<noteq> nil_uuid" "(2::uuid) \<noteq> nil_uuid"
    "open_submissions ?d 100 = 0"
    by code_simp+
  show ?thesis
    by (rule conjunct1 [OF finalize_matches_decides [OF h(1) run h(2-10)]])
qed

text \<open>The loop ends at the round whose start sees the context cancelled, if not before.\<close>

lemma reaper_run_stops: "cancelled (2 * (n + k)) \<Longrightarrow> k < fuel \<Longrightarrow> \<exists>r. reaper_run cancelled tick fuel n w = Some r"
proof (induction k arbitrary: n w fuel)
  case (Suc k)
  obtain f where f: "fuel = Suc f" using Suc.prems(2) by (cases fuel) auto
  with Suc.prems have "\<exists>r. reaper_run cancelled tick f (Suc n) w' = Some r" for w' by (intro Suc.IH) simp_all
  then show ?case by (simp add: f Let_def)
next
  case 0
  then show ?case by (cases fuel) simp_all
qed

end
