(* ===== verification/MatchQueue.thy ===== *)
theory MatchQueue
  imports Proto "HOL-Library.List_Lexorder" "HOL-Library.Char_ord"
begin

text \<open>
  The matchmaking queue: \<open>internal/redisx/member.go\<close>, \<open>queue.go\<close> and the four Lua scripts of
  \<open>scripts/\<close>. Redis keeps the queue as a sorted set of encoded members by score, a hash from
  user to the member queued for that user, the last score given out, and the presence keys
  the gateway maintains. Scores are microseconds; Redis holds them as doubles, which are exact
  below 2 to the 53, so they are integers here. A script runs atomically.

  The texts of members are JSON, written by \<open>encoding/json\<close> and read by it and, in the
  scripts, by \<open>cjson\<close>: a parameter \<open>codec\<close>, with \<open>codec_ok\<close> what is relied on.
\<close>

section \<open>Members\<close>

record queue_member =
  qm_user_id :: uuid
  qm_presence_key :: string
  qm_route :: string
  qm_rating :: int

record codec =
  marshal :: "queue_member \<Rightarrow> string"
  unmarshal :: "string \<Rightarrow> queue_member option"
  cjson_decode :: "string \<Rightarrow> json option"

definition presence_prefix :: "uuid_lib \<Rightarrow> uuid \<Rightarrow> string" where
  "presence_prefix U u = ''codeduel:presence:'' @ uuid_string U u @ '':''"

definition presence_key :: "uuid_lib \<Rightarrow> uuid \<Rightarrow> uuid \<Rightarrow> string" where
  "presence_key U u c = ''codeduel:presence:'' @ uuid_string U u @ '':'' @ uuid_string U c"

definition member_validate :: "uuid_lib \<Rightarrow> queue_member \<Rightarrow> string option" where
  "member_validate U m =
     (if qm_user_id m = nil_uuid then Some ''queue member: missing user ID''
      else if blank (qm_presence_key m) then Some ''queue member: missing presence key''
      else if blank (qm_route m) then Some ''queue member: missing route''
      else if qm_route m \<noteq> user_channel U (qm_user_id m) then Some ''queue member: route does not match user''
      else if \<not> has_prefix (qm_presence_key m) (presence_prefix U (qm_user_id m))
      then Some ''queue member: presence key does not match user''
      else case uuid_parse U (trim_prefix (qm_presence_key m) (presence_prefix U (qm_user_id m))) of
          None \<Rightarrow> Some ''queue member: invalid connection ID''
        | Some c \<Rightarrow> if c = nil_uuid then Some ''queue member: invalid connection ID'' else None)"

definition encode_member :: "uuid_lib \<Rightarrow> codec \<Rightarrow> queue_member \<Rightarrow> string + string" where
  "encode_member U C m = (case member_validate U m of Some e \<Rightarrow> Inl e | None \<Rightarrow> Inr (marshal C m))"

definition decode_member :: "uuid_lib \<Rightarrow> codec \<Rightarrow> string \<Rightarrow> string + queue_member" where
  "decode_member U C raw =
     (case unmarshal C raw of
        None \<Rightarrow> Inl ''decode queue member''
      | Some m \<Rightarrow> (case member_validate U m of Some e \<Rightarrow> Inl e | None \<Rightarrow> Inr m))"

section \<open>The Redis data\<close>

record mm =
  mm_queue :: "(string \<times> int) list"
  mm_members :: "string \<Rightarrow> string option"
  mm_last :: int
  mm_presence :: "string \<Rightarrow> bool"

definition zrem :: "string \<Rightarrow> (string \<times> int) list \<Rightarrow> (string \<times> int) list" where
  "zrem m z = filter (\<lambda>e. fst e \<noteq> m) z"

text \<open>The sorted set in its order: by score, then by member.\<close>

definition zadd :: "int \<Rightarrow> string \<Rightarrow> (string \<times> int) list \<Rightarrow> (string \<times> int) list" where
  "zadd s m z = insort_key (\<lambda>e. (snd e, fst e)) (m, s) (zrem m z)"

definition zscore :: "(string \<times> int) list \<Rightarrow> string \<Rightarrow> int option" where
  "zscore z m = map_of z m"

section \<open>The scripts\<close>

text \<open>\<open>enqueue.lua\<close>; \<open>now\<close> is \<open>TIME\<close> in microseconds. The result: whether the user is new, and the score.\<close>

definition enqueue_script :: "int \<Rightarrow> string \<Rightarrow> string \<Rightarrow> mm \<Rightarrow> (bool \<times> int) \<times> mm" where
  "enqueue_script now uid raw s =
     (let old = mm_members s uid;
          fresh =
            (let score = (if now \<le> mm_last s then mm_last s + 1 else now);
                 z = (case old of Some o' \<Rightarrow> if o' \<noteq> raw then zrem o' (mm_queue s) else mm_queue s | None \<Rightarrow> mm_queue s)
             in ((True, score),
                 s\<lparr>mm_queue := zadd score raw z, mm_members := (mm_members s)(uid \<mapsto> raw), mm_last := score\<rparr>))
      in case old of
          None \<Rightarrow> fresh
        | Some o' \<Rightarrow>
            (case zscore (mm_queue s) o' of
               None \<Rightarrow> fresh
             | Some sc \<Rightarrow>
                 ((False, sc),
                  if o' \<noteq> raw
                  then s\<lparr>mm_queue := zadd sc raw (zrem o' (mm_queue s)), mm_members := (mm_members s)(uid \<mapsto> raw)\<rparr>
                  else s)))"

text \<open>\<open>dequeue.lua\<close>: how many entries were removed.\<close>

definition dequeue_script :: "string \<Rightarrow> string \<Rightarrow> mm \<Rightarrow> int \<times> mm" where
  "dequeue_script uid raw s =
     (if mm_members s uid \<noteq> Some raw then (0, s)
      else (if zscore (mm_queue s) raw \<noteq> None then 1 else 0,
            s\<lparr>mm_queue := zrem raw (mm_queue s), mm_members := (mm_members s)(uid := None)\<rparr>))"

definition is_lower_hex :: "char \<Rightarrow> bool" where
  "is_lower_hex c \<longleftrightarrow> 48 \<le> byte c \<and> byte c \<le> 57 \<or> 97 \<le> byte c \<and> byte c \<le> 102"

definition lua_valid_uuid :: "string \<Rightarrow> bool" where
  "lua_valid_uuid v \<longleftrightarrow>
     v \<noteq> ''00000000-0000-0000-0000-000000000000'' \<and> length v = 36 \<and>
     (\<forall>i<36. if i \<in> set [8, 13, 18, 23] then v ! i = CHR ''-'' else is_lower_hex (v ! i))"

text \<open>A field of a decoded table; an array has none, and of repeated names the last counts.\<close>

definition lua_field :: "json \<Rightarrow> string \<Rightarrow> json option" where
  "lua_field j k = (case j of JObject ms \<Rightarrow> map_of (rev ms) k | _ \<Rightarrow> None)"

definition lua_string :: "json option \<Rightarrow> string option" where
  "lua_string j = (case j of Some (JString s) \<Rightarrow> Some s | _ \<Rightarrow> None)"

text \<open>The member check of \<open>pop_pair.lua\<close>: the user and presence key of a valid member.\<close>

definition lua_valid_member :: "json option \<Rightarrow> (string \<times> string) option" where
  "lua_valid_member j =
     (case j of
        None \<Rightarrow> None
      | Some t \<Rightarrow>
          (case lua_string (lua_field t ''user_id'') of
             None \<Rightarrow> None
           | Some uid \<Rightarrow>
               if \<not> lua_valid_uuid uid then None
               else (case lua_string (lua_field t ''presence_key'') of
                   None \<Rightarrow> None
                 | Some pk \<Rightarrow>
                     let prefix = ''codeduel:presence:'' @ uid @ '':'' in
                     if take (length prefix) pk = prefix \<and> lua_valid_uuid (drop (length prefix) pk)
                        \<and> lua_string (lua_field t ''route'') = Some (''codeduel:user:'' @ uid)
                        \<and> (case lua_field t ''rating'' of Some (JNumber _) \<Rightarrow> True | _ \<Rightarrow> False)
                     then Some (uid, pk) else None)))"

text \<open>
  \<open>remove_member\<close>. The user passed for an invalid member is whatever the JSON had: a string or
  number is looked up in the hash, nothing (or \<open>false\<close>) is skipped, and any other value is
  refused by \<open>redis.call\<close>, which aborts the script after the \<open>ZREM\<close> (first component \<open>True\<close>).
\<close>

definition remove_member :: "string \<Rightarrow> json option \<Rightarrow> mm \<Rightarrow> bool \<times> mm" where
  "remove_member raw uid s =
     (let s1 = s\<lparr>mm_queue := zrem raw (mm_queue s)\<rparr>;
          drop_user = (\<lambda>k. if mm_members s1 k = Some raw then s1\<lparr>mm_members := (mm_members s1)(k := None)\<rparr> else s1)
      in case uid of
          None \<Rightarrow> (False, s1)
        | Some (JBool False) \<Rightarrow> (False, s1)
        | Some (JString k) \<Rightarrow> (False, drop_user k)
        | Some (JNumber k) \<Rightarrow> (False, drop_user k)
        | Some _ \<Rightarrow> (True, s1))"

text \<open>The scan of \<open>pop_pair.lua\<close> over the first entries: the selected ones, at most two, in order.\<close>

fun pop_scan :: "codec \<Rightarrow> (string \<times> int) list \<Rightarrow> (string \<times> int) list \<Rightarrow> mm \<Rightarrow> bool \<times> (string \<times> int) list \<times> mm" where
  "pop_scan C [] sel s = (False, sel, s)"
| "pop_scan C ((raw, score) # es) sel s =
     (let j = cjson_decode C raw in
      case lua_valid_member j of
        None \<Rightarrow>
          (case remove_member raw (case j of None \<Rightarrow> None | Some t \<Rightarrow> lua_field t ''user_id'') s of
             (True, s1) \<Rightarrow> (True, sel, s1)
           | (False, s1) \<Rightarrow> pop_scan C es sel s1)
      | Some (uid, pk) \<Rightarrow>
          if mm_members s uid \<noteq> Some raw
          then pop_scan C es sel (s\<lparr>mm_queue := zrem raw (mm_queue s)\<rparr>)
          else if \<not> mm_presence s pk
          then pop_scan C es sel (snd (remove_member raw (Some (JString uid)) s))
          else if length sel < 2 then pop_scan C es (sel @ [(raw, score)]) s
          else pop_scan C es sel s)"

fun remove_selected :: "codec \<Rightarrow> (string \<times> int) list \<Rightarrow> mm \<Rightarrow> mm" where
  "remove_selected C [] s = s"
| "remove_selected C ((raw, _) # es) s =
     remove_selected C es (snd (remove_member raw
       (case cjson_decode C raw of None \<Rightarrow> None | Some t \<Rightarrow> lua_field t ''user_id'') s))"

text \<open>\<open>pop_pair.lua\<close>: an error, or the selected entries (none or two).\<close>

definition pop_pair_script :: "codec \<Rightarrow> int \<Rightarrow> mm \<Rightarrow> (string + (string \<times> int) list) \<times> mm" where
  "pop_pair_script C limit s =
     (case pop_scan C (take (nat limit) (mm_queue s)) [] s of
        (True, _, s1) \<Rightarrow> (Inl ''Lua redis lib command arguments must be strings or integers'', s1)
      | (False, sel, s1) \<Rightarrow>
          if length sel < 2 then (Inr [], s1) else (Inr sel, remove_selected C sel s1))"

text \<open>\<open>requeue.lua\<close> for one entry, and for all of them.\<close>

definition requeue_one :: "codec \<Rightarrow> string \<Rightarrow> string \<Rightarrow> int \<Rightarrow> mm \<Rightarrow> mm" where
  "requeue_one C uid raw score s =
     (case cjson_decode C raw of
        None \<Rightarrow> s
      | Some t \<Rightarrow>
          if lua_field t ''user_id'' = Some (JString uid)
             \<and> (case lua_string (lua_field t ''presence_key'') of None \<Rightarrow> False | Some pk \<Rightarrow> mm_presence s pk)
          then (case mm_members s uid of
                  None \<Rightarrow> s\<lparr>mm_queue := zadd score raw (mm_queue s), mm_members := (mm_members s)(uid \<mapsto> raw)\<rparr>
                | Some mapped \<Rightarrow>
                    if mapped = raw \<and> zscore (mm_queue s) raw = None
                    then s\<lparr>mm_queue := zadd score raw (mm_queue s)\<rparr> else s)
          else s)"

fun requeue_script :: "codec \<Rightarrow> (string \<times> string \<times> int) list \<Rightarrow> mm \<Rightarrow> mm" where
  "requeue_script C [] s = s"
| "requeue_script C ((uid, raw, score) # es) s = requeue_script C es (requeue_one C uid raw score s)"

section \<open>The Go client\<close>

record queue_entry =
  qe_member :: queue_member
  qe_score :: int
  qe_encoded :: string

definition default_scan_limit :: int where
  "default_scan_limit = 100"

definition new_queue_limit :: "int \<Rightarrow> int" where
  "new_queue_limit n = (if n \<le> 0 then default_scan_limit else n)"

definition queue_join :: "uuid_lib \<Rightarrow> codec \<Rightarrow> bool \<Rightarrow> io \<Rightarrow> int \<Rightarrow> queue_member \<Rightarrow> mm \<Rightarrow> (string + bool \<times> int) \<times> mm" where
  "queue_join U C client x now m s =
     (if \<not> client then (Inl ''enqueue member: missing Redis client'', s)
      else case encode_member U C m of
          Inl e \<Rightarrow> (Inl (''enqueue member: '' @ e), s)
        | Inr raw \<Rightarrow>
            (case enqueue_script now (uuid_string U (qm_user_id m)) raw s of (r, s') \<Rightarrow>
               (if x = IoOk then Inr r else Inl ''enqueue member: run script'', if io_applied x then s' else s)))"

definition queue_leave :: "uuid_lib \<Rightarrow> codec \<Rightarrow> bool \<Rightarrow> io \<Rightarrow> queue_member \<Rightarrow> mm \<Rightarrow> (string + bool) \<times> mm" where
  "queue_leave U C client x m s =
     (if \<not> client then (Inl ''dequeue member: missing Redis client'', s)
      else case encode_member U C m of
          Inl e \<Rightarrow> (Inl (''dequeue member: '' @ e), s)
        | Inr raw \<Rightarrow>
            (case dequeue_script (uuid_string U (qm_user_id m)) raw s of (n, s') \<Rightarrow>
               (if x = IoOk then Inr (n \<noteq> 0) else Inl ''dequeue member: run script'', if io_applied x then s' else s)))"

text \<open>Decoding the reply of \<open>pop_pair.lua\<close>: none or two entries of two different users.\<close>

definition decode_pair :: "uuid_lib \<Rightarrow> codec \<Rightarrow> (string \<times> int) list \<Rightarrow> string + (queue_entry \<times> queue_entry) option" where
  "decode_pair U C values =
     (case values of
        [] \<Rightarrow> Inr None
      | [(r1, s1), (r2, s2)] \<Rightarrow>
          (case decode_member U C r1 of
             Inl e \<Rightarrow> Inl (''pop pair: decode member 1: '' @ e)
           | Inr m1 \<Rightarrow>
               (case decode_member U C r2 of
                  Inl e \<Rightarrow> Inl (''pop pair: decode member 2: '' @ e)
                | Inr m2 \<Rightarrow>
                    if qm_user_id m1 = qm_user_id m2 then Inl ''pop pair: duplicate user''
                    else Inr (Some (\<lparr>qe_member = m1, qe_score = s1, qe_encoded = r1\<rparr>,
                                    \<lparr>qe_member = m2, qe_score = s2, qe_encoded = r2\<rparr>))))
      | _ \<Rightarrow> Inl ''pop pair: unexpected result length'')"

definition queue_pop_pair ::
  "uuid_lib \<Rightarrow> codec \<Rightarrow> bool \<Rightarrow> int \<Rightarrow> io \<Rightarrow> mm \<Rightarrow> (string + (queue_entry \<times> queue_entry) option) \<times> mm" where
  "queue_pop_pair U C client limit x s =
     (if \<not> client then (Inl ''pop pair: missing Redis client'', s)
      else if x = IoErr then (Inl ''pop pair: run script'', s)
      else case pop_pair_script C limit s of (r, s') \<Rightarrow>
        (if x = IoLost then Inl ''pop pair: run script''
         else (case r of Inl e \<Rightarrow> Inl (''pop pair: run script: '' @ e) | Inr values \<Rightarrow> decode_pair U C values), s'))"

fun requeue_args :: "uuid_lib \<Rightarrow> queue_entry list \<Rightarrow> string + (string \<times> string \<times> int) list" where
  "requeue_args U [] = Inr []"
| "requeue_args U (e # es) =
     (case member_validate U (qe_member e) of
        Some err \<Rightarrow> Inl (''requeue entries: invalid member: '' @ err)
      | None \<Rightarrow>
          if qe_encoded e = '''' then Inl ''requeue entries: member has no original encoding''
          else (case requeue_args U es of
              Inl err \<Rightarrow> Inl err
            | Inr args \<Rightarrow> Inr ((uuid_string U (qm_user_id (qe_member e)), qe_encoded e, qe_score e) # args)))"

definition queue_requeue :: "uuid_lib \<Rightarrow> codec \<Rightarrow> bool \<Rightarrow> io \<Rightarrow> queue_entry list \<Rightarrow> mm \<Rightarrow> string option \<times> mm" where
  "queue_requeue U C client x es s =
     (if es = [] then (None, s)
      else if \<not> client then (Some ''requeue entries: missing Redis client'', s)
      else case requeue_args U es of
          Inl e \<Rightarrow> (Some e, s)
        | Inr args \<Rightarrow>
            (if x = IoOk then None else Some ''requeue entries: run script'',
             if io_applied x then requeue_script C args s else s))"

section \<open>The queue invariant\<close>

definition zkey :: "string \<times> int \<Rightarrow> int \<times> string" where
  "zkey e = (snd e, fst e)"

definition owner :: "codec \<Rightarrow> string \<Rightarrow> string option" where
  "owner C raw = (case cjson_decode C raw of None \<Rightarrow> None | Some t \<Rightarrow> lua_string (lua_field t ''user_id''))"

text \<open>
  Every queued member is the one its owner's hash entry names, and every hash entry is
  queued: at most one place in the queue per user. Scores never exceed the last one given out.
\<close>

definition mm_ok :: "codec \<Rightarrow> mm \<Rightarrow> bool" where
  "mm_ok C s \<longleftrightarrow>
     distinct (map fst (mm_queue s)) \<and> sorted (map zkey (mm_queue s)) \<and>
     (\<forall>e\<in>set (mm_queue s). snd e \<le> mm_last s \<and>
        (\<exists>u. owner C (fst e) = Some u \<and> mm_members s u = Some (fst e))) \<and>
     (\<forall>u raw. mm_members s u = Some raw \<longrightarrow> owner C raw = Some u \<and> raw \<in> fst ` set (mm_queue s))"

lemma mm_okD:
  assumes "mm_ok C s"
  shows "distinct (map fst (mm_queue s))" "sorted (map zkey (mm_queue s))"
    "e \<in> set (mm_queue s) \<Longrightarrow> snd e \<le> mm_last s"
    "e \<in> set (mm_queue s) \<Longrightarrow> \<exists>u. owner C (fst e) = Some u \<and> mm_members s u = Some (fst e)"
    "mm_members s u = Some raw \<Longrightarrow> owner C raw = Some u"
    "mm_members s u = Some raw \<Longrightarrow> raw \<in> fst ` set (mm_queue s)"
  using assms unfolding mm_ok_def by blast+

lemma mm_okI:
  assumes "distinct (map fst (mm_queue s))" "sorted (map zkey (mm_queue s))"
    and "\<And>e. e \<in> set (mm_queue s) \<Longrightarrow> snd e \<le> mm_last s"
    and "\<And>e. e \<in> set (mm_queue s) \<Longrightarrow> \<exists>u. owner C (fst e) = Some u \<and> mm_members s u = Some (fst e)"
    and "\<And>u raw. mm_members s u = Some raw \<Longrightarrow> owner C raw = Some u"
    and "\<And>u raw. mm_members s u = Some raw \<Longrightarrow> raw \<in> fst ` set (mm_queue s)"
  shows "mm_ok C s"
  using assms unfolding mm_ok_def by blast

lemma zadd_zkey: "zadd s m z = insort_key zkey (m, s) (zrem m z)"
  by (simp add: zadd_def zkey_def [abs_def])

lemma set_zrem: "set (zrem m z) = {e \<in> set z. fst e \<noteq> m}"
  by (auto simp: zrem_def)

lemma set_zadd: "set (zadd s m z) = insert (m, s) {e \<in> set z. fst e \<noteq> m}"
  by (simp add: zadd_zkey set_insort_key set_zrem)

lemma zrem_ok:
  "distinct (map fst z) \<Longrightarrow> distinct (map fst (zrem m z))"
  "sorted (map zkey z) \<Longrightarrow> sorted (map zkey (zrem m z))"
  by (simp_all add: zrem_def distinct_map_filter sorted_filter)

lemma distinct_map_insort_key: "distinct (map g (insort_key f x xs)) \<longleftrightarrow> g x \<notin> g ` set xs \<and> distinct (map g xs)"
  by (induction xs) (auto simp: set_insort_key)

lemma zadd_ok:
  assumes "distinct (map fst z)" "sorted (map zkey z)"
  shows "distinct (map fst (zadd s m z))" "sorted (map zkey (zadd s m z))"
proof -
  show "distinct (map fst (zadd s m z))"
    using zrem_ok(1) [OF assms(1), of m] by (auto simp: zadd_zkey distinct_map_insort_key set_zrem)
  show "sorted (map zkey (zadd s m z))"
    using zrem_ok(2) [OF assms(2), of m] by (simp add: zadd_zkey sorted_insort_key)
qed

lemma zrem_id: "m \<notin> fst ` set z \<Longrightarrow> zrem m z = z"
  by (force simp: zrem_def filter_id_conv)

lemma zscore_iff: "distinct (map fst z) \<Longrightarrow> zscore z m = Some s \<longleftrightarrow> (m, s) \<in> set z"
  by (simp add: zscore_def map_of_eq_Some_iff)

lemma zscore_None_iff: "zscore z m = None \<longleftrightarrow> m \<notin> fst ` set z"
  by (simp add: zscore_def map_of_eq_None_iff)

text \<open>A member whose score exceeds every other goes to the end.\<close>

lemma zadd_append:
  assumes "\<And>e. e \<in> set z \<Longrightarrow> snd e < s" "m \<notin> fst ` set z"
  shows "zadd s m z = z @ [(m, s)]"
proof -
  have "insort_key zkey (m, s) z = z @ [(m, s)]"
    using assms(1)
  proof (induction z)
    case (Cons a z)
    have "\<not> zkey (m, s) \<le> zkey a"
      using Cons.prems [of a] by (simp add: zkey_def less_eq_prod_def)
    with Cons show ?case by simp
  qed simp
  then show ?thesis using assms(2) by (simp add: zadd_zkey zrem_id)
qed

lemma zrem_zrem [simp]: "zrem m (zrem m z) = zrem m z"
  by (simp add: zrem_def)

lemma zadd_zrem_same:
  assumes "distinct (map fst z)" "sorted (map zkey z)" "(m, s) \<in> set z"
  shows "zadd s m (zrem m z) = z"
proof -
  have inj: "zkey a = zkey b \<longleftrightarrow> a = b" for a b
    by (auto simp: zkey_def prod_eq_iff)
  have rem: "zrem m z = remove1 (m, s) z"
    using assms(1,3) by (induction z) (auto simp: zrem_def filter_id_conv rev_image_eqI)
  have "hd (filter (\<lambda>y. zkey (m, s) = zkey y) z) = (m, s)"
    using assms(3) by (induction z) (auto simp: inj)
  from insort_key_remove1 [OF assms(3,2) this]
  have "insort_key zkey (m, s) (zrem m z) = z" unfolding rem .
  then show ?thesis by (simp add: zadd_zkey)
qed

text \<open>Taking one user out of the queue and the hash, and putting one in.\<close>

definition drop_member :: "string \<Rightarrow> string \<Rightarrow> mm \<Rightarrow> mm" where
  "drop_member uid raw s = s\<lparr>mm_queue := zrem raw (mm_queue s), mm_members := (mm_members s)(uid := None)\<rparr>"

definition add_member :: "string \<Rightarrow> string \<Rightarrow> int \<Rightarrow> mm \<Rightarrow> mm" where
  "add_member uid raw score s =
     s\<lparr>mm_queue := zadd score raw (mm_queue s), mm_members := (mm_members s)(uid \<mapsto> raw),
       mm_last := max score (mm_last s)\<rparr>"

lemma drop_member_simps [simp]:
  "mm_queue (drop_member uid raw s) = zrem raw (mm_queue s)"
  "mm_members (drop_member uid raw s) = (mm_members s)(uid := None)"
  "mm_last (drop_member uid raw s) = mm_last s" "mm_presence (drop_member uid raw s) = mm_presence s"
  by (simp_all add: drop_member_def)

lemma add_member_simps [simp]:
  "mm_queue (add_member uid raw score s) = zadd score raw (mm_queue s)"
  "mm_members (add_member uid raw score s) = (mm_members s)(uid \<mapsto> raw)"
  "mm_last (add_member uid raw score s) = max score (mm_last s)"
  "mm_presence (add_member uid raw score s) = mm_presence s"
  by (simp_all add: add_member_def)

lemma drop_member_ok:
  assumes "mm_ok C s" "mm_members s uid = Some raw"
  shows "mm_ok C (drop_member uid raw s)"
proof (rule mm_okI)
  have own: "owner C raw = Some uid" using mm_okD(5) [OF assms] .
  show "distinct (map fst (mm_queue (drop_member uid raw s)))" "sorted (map zkey (mm_queue (drop_member uid raw s)))"
    using zrem_ok mm_okD(1,2) [OF assms(1)] by simp_all
  show "snd e \<le> mm_last (drop_member uid raw s)" if "e \<in> set (mm_queue (drop_member uid raw s))" for e
    using that mm_okD(3) [OF assms(1), of e] by (simp add: set_zrem)
  show "\<exists>u. owner C (fst e) = Some u \<and> mm_members (drop_member uid raw s) u = Some (fst e)"
    if "e \<in> set (mm_queue (drop_member uid raw s))" for e
  proof -
    have e: "e \<in> set (mm_queue s)" "fst e \<noteq> raw" using that by (auto simp: set_zrem)
    from mm_okD(4) [OF assms(1) e(1)] obtain u where u: "owner C (fst e) = Some u" "mm_members s u = Some (fst e)" by blast
    with e(2) assms(2) have "u \<noteq> uid" by auto
    with u show ?thesis by simp
  qed
  fix u r assume "mm_members (drop_member uid raw s) u = Some r"
  then have u: "u \<noteq> uid" "mm_members s u = Some r" by (auto split: if_splits)
  show o': "owner C r = Some u" using mm_okD(5) [OF assms(1) u(2)] .
  with own u(1) have "r \<noteq> raw" by auto
  with mm_okD(6) [OF assms(1) u(2)] show "r \<in> fst ` set (mm_queue (drop_member uid raw s))"
    by (force simp: set_zrem)
qed

lemma add_member_ok:
  assumes "mm_ok C s" "mm_members s uid = None" "owner C raw = Some uid"
  shows "mm_ok C (add_member uid raw score s)"
proof (rule mm_okI)
  have nin: "raw \<notin> fst ` set (mm_queue s)"
  proof
    assume "raw \<in> fst ` set (mm_queue s)"
    then obtain e where "e \<in> set (mm_queue s)" "fst e = raw" by blast
    with mm_okD(4) [OF assms(1)] assms(2,3) show False by fastforce
  qed
  then have set: "set (zadd score raw (mm_queue s)) = insert (raw, score) (set (mm_queue s))"
    by (auto simp: set_zadd)
  show "distinct (map fst (mm_queue (add_member uid raw score s)))"
    "sorted (map zkey (mm_queue (add_member uid raw score s)))"
    using zadd_ok [OF mm_okD(1,2) [OF assms(1)]] by simp_all
  fix e assume "e \<in> set (mm_queue (add_member uid raw score s))"
  then have e: "e = (raw, score) \<or> e \<in> set (mm_queue s)" by (simp add: set)
  show "snd e \<le> mm_last (add_member uid raw score s)"
    using e mm_okD(3) [OF assms(1), of e] by auto
  show "\<exists>u. owner C (fst e) = Some u \<and> mm_members (add_member uid raw score s) u = Some (fst e)"
    using e
  proof
    assume "e \<in> set (mm_queue s)"
    from mm_okD(4) [OF assms(1) this] obtain u where u: "owner C (fst e) = Some u" "mm_members s u = Some (fst e)" by blast
    with assms(2) have "u \<noteq> uid" by auto
    with u show ?thesis by simp
  qed (use assms(3) in simp)
next
  fix u r assume "mm_members (add_member uid raw score s) u = Some r"
  then have u: "u = uid \<and> r = raw \<or> u \<noteq> uid \<and> mm_members s u = Some r" by (auto split: if_splits)
  then show "owner C r = Some u" using assms(3) mm_okD(5) [OF assms(1)] by blast
  show "r \<in> fst ` set (mm_queue (add_member uid raw score s))"
    using u
  proof
    assume "u \<noteq> uid \<and> mm_members s u = Some r"
    then have m: "mm_members s u = Some r" ..
    have "r \<noteq> raw" using mm_okD(5) [OF assms(1) m] assms(3) \<open>u \<noteq> uid \<and> _\<close> by auto
    with mm_okD(6) [OF assms(1) m] show ?thesis by (force simp: set_zadd)
  qed (simp add: set_zadd)
qed

text \<open>On a consistent queue the enqueue script has two cases: a new user, and one who is queued already.\<close>

lemma enqueue_script_new:
  assumes "mm_members s uid = None"
  shows "enqueue_script now uid raw s =
    ((True, max now (mm_last s + 1)), add_member uid raw (max now (mm_last s + 1)) s)"
proof -
  have "(if now \<le> mm_last s then mm_last s + 1 else now) = max now (mm_last s + 1)" by simp
  moreover have "max (max now (mm_last s + 1)) (mm_last s) = max now (mm_last s + 1)" by simp
  ultimately show ?thesis
    using assms by (simp add: enqueue_script_def Let_def add_member_def)
qed

lemma enqueue_script_again:
  assumes "mm_ok C s" "mm_members s uid = Some old" "(old, sc) \<in> set (mm_queue s)"
  shows "enqueue_script now uid raw s = ((False, sc), add_member uid raw sc (drop_member uid old s))"
proof -
  have sc: "zscore (mm_queue s) old = Some sc"
    using assms(3) mm_okD(1) [OF assms(1)] by (simp add: zscore_iff)
  have l: "max sc (mm_last s) = mm_last s"
    using mm_okD(3) [OF assms(1,3)] by simp
  show ?thesis
  proof (cases "raw = old")
    case True
    have "zadd sc old (zrem old (mm_queue s)) = mm_queue s"
      using mm_okD(1,2) [OF assms(1)] assms(3) by (rule zadd_zrem_same)
    moreover have "(mm_members s)(uid \<mapsto> old) = mm_members s" using assms(2) by auto
    ultimately show ?thesis
      using assms(2) sc l True by (simp add: enqueue_script_def Let_def add_member_def drop_member_def)
  next
    case False
    then show ?thesis
      using assms(2) sc l by (auto simp: enqueue_script_def Let_def add_member_def drop_member_def)
  qed
qed

lemma queued_score:
  assumes "mm_ok C s" "mm_members s uid = Some raw"
  obtains sc where "(raw, sc) \<in> set (mm_queue s)"
  using mm_okD(6) [OF assms] by force

lemma enqueue_script_ok:
  assumes "mm_ok C s" "owner C raw = Some uid"
  shows "mm_ok C (snd (enqueue_script now uid raw s))"
proof (cases "mm_members s uid")
  case None
  then show ?thesis using assms by (simp add: enqueue_script_new add_member_ok)
next
  case (Some old)
  from assms(1) Some obtain sc where "(old, sc) \<in> set (mm_queue s)" by (rule queued_score)
  from enqueue_script_again [OF assms(1) Some this] show ?thesis
    using add_member_ok [OF drop_member_ok [OF assms(1) Some] _ assms(2)] by simp
qed

lemma dequeue_script_ok: "mm_ok C s \<Longrightarrow> mm_ok C (snd (dequeue_script uid raw s))"
  using drop_member_ok [of C s uid raw] by (simp add: dequeue_script_def drop_member_def)

lemma requeue_one_cases:
  assumes "mm_ok C s" "score \<le> mm_last s"
  obtains (same) "requeue_one C uid raw score s = s"
  | (add) t pk where "requeue_one C uid raw score s = add_member uid raw score s" "mm_members s uid = None"
      "owner C raw = Some uid" "cjson_decode C raw = Some t"
      "lua_string (lua_field t ''presence_key'') = Some pk" "mm_presence s pk"
proof (cases "cjson_decode C raw")
  case None
  then show ?thesis by (intro same) (simp add: requeue_one_def)
next
  case (Some t)
  show ?thesis
  proof (cases "lua_field t ''user_id'' = Some (JString uid)
       \<and> (case lua_string (lua_field t ''presence_key'') of None \<Rightarrow> False | Some pk \<Rightarrow> mm_presence s pk)")
    case False
    then show ?thesis using Some by (intro same) (auto simp: requeue_one_def)
  next
    case True
    then obtain pk where pk: "lua_string (lua_field t ''presence_key'') = Some pk" "mm_presence s pk"
      by (auto split: option.splits)
    have own: "owner C raw = Some uid" using True Some by (simp add: owner_def lua_string_def)
    show ?thesis
    proof (cases "mm_members s uid")
      case None
      have "max score (mm_last s) = mm_last s" using assms(2) by simp
      with True None Some have "requeue_one C uid raw score s = add_member uid raw score s"
        by (simp add: requeue_one_def add_member_def)
      from add [OF this None own Some pk] show ?thesis .
    next
      case (Some mapped)
      have "mapped = raw \<Longrightarrow> zscore (mm_queue s) raw \<noteq> None"
        using mm_okD(6) [OF assms(1) Some] by (simp add: zscore_None_iff)
      then show ?thesis
        using Some by (intro same) (auto simp: requeue_one_def split: option.split)
    qed
  qed
qed

lemma requeue_one_ok:
  assumes "mm_ok C s" "score \<le> mm_last s"
  shows "mm_ok C (requeue_one C uid raw score s)" "mm_last (requeue_one C uid raw score s) = mm_last s"
proof -
  from assms show "mm_ok C (requeue_one C uid raw score s)"
    by (cases rule: requeue_one_cases [of C s score uid raw]) (use assms add_member_ok in auto)
  show "mm_last (requeue_one C uid raw score s) = mm_last s"
    by (simp add: requeue_one_def split: option.split)
qed

lemma requeue_script_ok:
  "mm_ok C s \<Longrightarrow> (\<And>u r sc. (u, r, sc) \<in> set es \<Longrightarrow> sc \<le> mm_last s) \<Longrightarrow> mm_ok C (requeue_script C es s)"
proof (induction C es s rule: requeue_script.induct)
  case (2 C uid raw score es s)
  have "score \<le> mm_last s" using "2.prems"(2) [of uid raw score] by simp
  note o = requeue_one_ok [OF "2.prems"(1) this, of uid raw]
  have "mm_ok C (requeue_script C es (requeue_one C uid raw score s))"
    by (rule "2.IH" [OF o(1)]) (use "2.prems"(2) o(2) in auto)
  then show ?case by simp
qed simp

section \<open>Popping a pair\<close>

text \<open>An entry that may be matched: well-formed, the current one of its user, and its user is present.\<close>

definition matchable :: "codec \<Rightarrow> mm \<Rightarrow> string \<times> int \<Rightarrow> bool" where
  "matchable C s e \<longleftrightarrow>
     (case lua_valid_member (cjson_decode C (fst e)) of
        None \<Rightarrow> False
      | Some (uid, pk) \<Rightarrow> mm_members s uid = Some (fst e) \<and> mm_presence s pk)"

fun drop_entries :: "codec \<Rightarrow> (string \<times> int) list \<Rightarrow> mm \<Rightarrow> mm" where
  "drop_entries C [] s = s"
| "drop_entries C (e # es) s = drop_entries C es (drop_member (the (owner C (fst e))) (fst e) s)"

lemma drop_entries_ok:
  assumes "mm_ok C s" "set es \<subseteq> set (mm_queue s)" "distinct (map fst es)"
  shows "mm_ok C (drop_entries C es s) \<and>
    mm_queue (drop_entries C es s) = filter (\<lambda>e. fst e \<notin> fst ` set es) (mm_queue s) \<and>
    (\<forall>u. mm_members (drop_entries C es s) u =
       (case mm_members s u of None \<Rightarrow> None | Some raw \<Rightarrow> if raw \<in> fst ` set es then None else Some raw)) \<and>
    mm_presence (drop_entries C es s) = mm_presence s \<and> mm_last (drop_entries C es s) = mm_last s"
  using assms
proof (induction es arbitrary: s)
  case Nil
  then show ?case by (simp split: option.split)
next
  case (Cons e es)
  obtain u where u: "owner C (fst e) = Some u" "mm_members s u = Some (fst e)"
    using mm_okD(4) [OF Cons.prems(1), of e] Cons.prems(2) by auto
  let ?s = "drop_member u (fst e) s"
  have ok: "mm_ok C ?s" using Cons.prems(1) u(2) by (rule drop_member_ok)
  have sub1: "set es \<subseteq> set (mm_queue ?s)"
  proof
    fix x assume x: "x \<in> set es"
    have "fst e \<notin> fst ` set es" using Cons.prems(3) by simp
    with x have "fst x \<noteq> fst e" by (metis image_eqI)
    with x Cons.prems(2) show "x \<in> set (mm_queue (drop_member u (fst e) s))" by (auto simp: set_zrem)
  qed
  have sub2: "distinct (map fst es)" using Cons.prems(3) by simp
  note sub = sub1 sub2
  note ih = Cons.IH [OF ok sub]
  have run: "drop_entries C (e # es) s = drop_entries C es ?s" by (simp add: u(1))
  have q: "mm_queue (drop_entries C es ?s) = filter (\<lambda>x. fst x \<notin> fst ` set (e # es)) (mm_queue s)"
    using ih by (simp add: zrem_def)
  have m: "mm_members (drop_entries C es ?s) v =
      (case mm_members s v of None \<Rightarrow> None | Some raw \<Rightarrow> if raw \<in> fst ` set (e # es) then None else Some raw)" for v
  proof (cases "v = u")
    case True
    with ih u(2) show ?thesis by simp
  next
    case False
    have "mm_members s v \<noteq> Some (fst e)"
      using mm_okD(5) [OF Cons.prems(1), of v "fst e"] u(1) False by auto
    with ih False show ?thesis by (auto split: option.split)
  qed
  show ?case
    unfolding run using ih q m by simp
qed

lemma remove_member_drop:
  assumes "mm_ok C s" "e \<in> set (mm_queue s)"
  shows "remove_member (fst e) (case cjson_decode C (fst e) of None \<Rightarrow> None | Some t \<Rightarrow> lua_field t ''user_id'') s
    = (False, drop_member (the (owner C (fst e))) (fst e) s)"
proof -
  obtain u where u: "owner C (fst e) = Some u" "mm_members s u = Some (fst e)"
    using mm_okD(4) [OF assms] by blast
  then obtain t where "cjson_decode C (fst e) = Some t" "lua_field t ''user_id'' = Some (JString u)"
    by (auto simp: owner_def lua_string_def split: option.splits json.splits)
  with u show ?thesis by (simp add: remove_member_def drop_member_def Let_def)
qed

lemma lua_valid_member_owner:
  "lua_valid_member (cjson_decode C raw) = Some (uid, pk) \<Longrightarrow> owner C raw = Some uid"
  by (auto simp: lua_valid_member_def owner_def Let_def split: option.splits if_splits)

lemma lua_valid_member_field:
  "lua_valid_member (Some t) = Some (uid, pk) \<Longrightarrow> lua_field t ''user_id'' = Some (JString uid)"
  by (auto simp: lua_valid_member_def lua_string_def Let_def split: option.splits json.splits if_splits)

lemma matchable_drop:
  assumes "mm_ok C s" "e \<in> set (mm_queue s)" "e' \<in> set (mm_queue s)" "fst e' \<noteq> fst e"
  shows "matchable C (drop_member (the (owner C (fst e))) (fst e) s) e' = matchable C s e'"
proof -
  obtain u where u: "owner C (fst e) = Some u" using mm_okD(4) [OF assms(1,2)] by blast
  obtain u' where u': "owner C (fst e') = Some u'" "mm_members s u' = Some (fst e')"
    using mm_okD(4) [OF assms(1,3)] by blast
  have m: "mm_members s u = Some (fst e)"
    using mm_okD(4) [OF assms(1,2)] u by auto
  have ne: "u' \<noteq> u" using u' m assms(4) by auto
  show ?thesis
    using u u' ne lua_valid_member_owner [of C "fst e'"]
    by (auto simp: matchable_def split: option.split)
qed

lemma pop_scan_eq:
  assumes "mm_ok C s" "set es \<subseteq> set (mm_queue s)" "distinct (map fst es)" "length sel \<le> 2"
  shows "pop_scan C es sel s =
    (False, sel @ take (2 - length sel) (filter (matchable C s) es),
     drop_entries C (filter (\<lambda>e. \<not> matchable C s e) es) s)"
  using assms
proof (induction es arbitrary: sel s)
  case Nil
  then show ?case by simp
next
  case (Cons e es)
  obtain raw sc where e: "e = (raw, sc)" by fastforce
  have in_q: "e \<in> set (mm_queue s)" using Cons.prems(2) by simp
  obtain u where u: "owner C raw = Some u" "mm_members s u = Some raw"
    using mm_okD(4) [OF Cons.prems(1) in_q] e by auto
  let ?s = "drop_member u raw s"
  have ok: "mm_ok C ?s" using Cons.prems(1) u(2) by (rule drop_member_ok)
  have sub: "set es \<subseteq> set (mm_queue ?s)" "distinct (map fst es)" "set es \<subseteq> set (mm_queue s)"
    using Cons.prems(2,3) e by (auto simp: set_zrem)
  have same: "matchable C ?s x = matchable C s x" if "x \<in> set es" for x
    using matchable_drop [OF Cons.prems(1) in_q, of x] that Cons.prems(2,3) e u(1) by (auto simp: image_iff)
  have filt: "filter (matchable C ?s) es = filter (matchable C s) es"
      "filter (\<lambda>e. \<not> matchable C ?s e) es = filter (\<lambda>e. \<not> matchable C s e) es"
    using same by (auto intro: filter_cong)
  have rm: "remove_member raw (case cjson_decode C raw of None \<Rightarrow> None | Some t \<Rightarrow> lua_field t ''user_id'') s = (False, ?s)"
    using remove_member_drop [OF Cons.prems(1) in_q] e u(1) by simp
  show ?case
  proof (cases "matchable C s e")
    case True
    then obtain uid pk where v: "lua_valid_member (cjson_decode C raw) = Some (uid, pk)" "mm_members s uid = Some raw" "mm_presence s pk"
      by (auto simp: matchable_def e split: option.splits)
    have "pop_scan C (e # es) sel s = pop_scan C es (if length sel < 2 then sel @ [e] else sel) s"
      using v by (simp add: e Let_def)
    also have "\<dots> = (False, (if length sel < 2 then sel @ [e] else sel) @
        take (2 - length (if length sel < 2 then sel @ [e] else sel)) (filter (matchable C s) es),
        drop_entries C (filter (\<lambda>e. \<not> matchable C s e) es) s)"
      using Cons.prems(4) by (intro Cons.IH [OF Cons.prems(1) sub(3,2)]) auto
    also have "(if length sel < 2 then sel @ [e] else sel) @
        take (2 - length (if length sel < 2 then sel @ [e] else sel)) (filter (matchable C s) es) =
        sel @ take (2 - length sel) (filter (matchable C s) (e # es))"
    proof (cases "length sel < 2")
      case lt: True
      then have "2 - length sel = Suc (1 - length sel)" by simp
      with lt True show ?thesis by simp
    qed (use Cons.prems(4) in simp)
    finally show ?thesis using True by simp
  next
    case False
    have "pop_scan C (e # es) sel s = pop_scan C es sel ?s"
    proof (cases "lua_valid_member (cjson_decode C raw)")
      case None
      with rm show ?thesis by (simp add: e Let_def)
    next
      case (Some p)
      obtain uid pk where p: "p = (uid, pk)" by fastforce
      have "uid = u" using lua_valid_member_owner [of C raw uid pk] Some p u(1) by simp
      with False Some p u(2) have "\<not> mm_presence s pk" by (simp add: matchable_def e)
      moreover have "snd (remove_member raw (Some (JString u)) s) = ?s"
        using u(2) by (simp add: remove_member_def drop_member_def Let_def)
      ultimately show ?thesis
        using Some p u(2) \<open>uid = u\<close> by (simp add: e Let_def)
    qed
    with Cons.IH [OF ok sub(1,2) Cons.prems(4)] False u(1) e show ?thesis
      by (simp add: filt)
  qed
qed

lemma remove_selected_drop:
  assumes "mm_ok C s" "set es \<subseteq> set (mm_queue s)" "distinct (map fst es)"
  shows "remove_selected C es s = drop_entries C es s"
  using assms
proof (induction es arbitrary: s)
  case (Cons e es)
  have in_q: "e \<in> set (mm_queue s)" using Cons.prems(2) by simp
  obtain u where u: "owner C (fst e) = Some u" "mm_members s u = Some (fst e)"
    using mm_okD(4) [OF Cons.prems(1) in_q] by blast
  have ok: "mm_ok C (drop_member u (fst e) s)" using Cons.prems(1) u(2) by (rule drop_member_ok)
  have sub1: "set es \<subseteq> set (mm_queue (drop_member u (fst e) s))"
  proof
    fix x assume x: "x \<in> set es"
    have "fst e \<notin> fst ` set es" using Cons.prems(3) by simp
    with x have "fst x \<noteq> fst e" by (metis image_eqI)
    with x Cons.prems(2) show "x \<in> set (mm_queue (drop_member u (fst e) s))" by (auto simp: set_zrem)
  qed
  have sub2: "distinct (map fst es)" using Cons.prems(3) by simp
  note sub = sub1 sub2
  from Cons.IH [OF ok sub] remove_member_drop [OF Cons.prems(1) in_q] u(1) show ?case
    by (cases e) simp
qed simp

definition pop_window :: "int \<Rightarrow> mm \<Rightarrow> (string \<times> int) list" where
  "pop_window limit s = take (nat limit) (mm_queue s)"

definition pop_selected :: "codec \<Rightarrow> int \<Rightarrow> mm \<Rightarrow> (string \<times> int) list" where
  "pop_selected C limit s =
     (let good = filter (matchable C s) (pop_window limit s) in if length good < 2 then [] else take 2 good)"

lemma pop_window_ok:
  assumes "mm_ok C s"
  shows "set (filter P (pop_window limit s)) \<subseteq> set (mm_queue s)" "distinct (map fst (filter P (pop_window limit s)))"
proof -
  show "set (filter P (pop_window limit s)) \<subseteq> set (mm_queue s)"
    by (auto simp: pop_window_def dest: in_set_takeD)
  have "distinct (map fst (pop_window limit s))"
    using mm_okD(1) [OF assms] by (simp add: pop_window_def take_map [symmetric])
  then show "distinct (map fst (filter P (pop_window limit s)))" by (rule distinct_map_filter)
qed

lemma pop_pair_script_eq:
  assumes "mm_ok C s"
  shows "pop_pair_script C limit s = (Inr (pop_selected C limit s),
    drop_entries C (pop_selected C limit s) (drop_entries C (filter (\<lambda>e. \<not> matchable C s e) (pop_window limit s)) s))"
    "set (pop_selected C limit s) \<subseteq>
      set (mm_queue (drop_entries C (filter (\<lambda>e. \<not> matchable C s e) (pop_window limit s)) s))"
    "distinct (map fst (pop_selected C limit s))"
proof -
  let ?W = "pop_window limit s"
  let ?B = "filter (\<lambda>e. \<not> matchable C s e) ?W"
  let ?s1 = "drop_entries C ?B s"
  note w = pop_window_ok [OF assms]
  note d = drop_entries_ok [OF assms w [where P = "\<lambda>e. \<not> matchable C s e"]]
  have dw: "distinct (map fst ?W)" using w(2) [where P = "\<lambda>_. True"] by simp
  have sub: "set (filter (matchable C s) ?W) \<subseteq> set (mm_queue ?s1)"
  proof
    fix e assume "e \<in> set (filter (matchable C s) ?W)"
    then have e: "e \<in> set ?W" "matchable C s e" by auto
    have "fst e \<notin> fst ` set ?B"
    proof
      assume "fst e \<in> fst ` set ?B"
      then obtain b where "b \<in> set ?W" "\<not> matchable C s b" "fst b = fst e" by auto
      with distinct_key_eq [OF dw, of b e] e show False by auto
    qed
    moreover have "e \<in> set (mm_queue s)" using w(1) [where P = "\<lambda>_. True"] e(1) by auto
    ultimately show "e \<in> set (mm_queue ?s1)" using d by simp
  qed
  have sel: "set (pop_selected C limit s) \<subseteq> set (filter (matchable C s) ?W)"
    by (auto simp: pop_selected_def Let_def dest: in_set_takeD)
  with sub show s1: "set (pop_selected C limit s) \<subseteq> set (mm_queue ?s1)" by blast
  have "distinct (map fst (filter (matchable C s) ?W))" by (rule w(2))
  then show ds: "distinct (map fst (pop_selected C limit s))"
    by (simp add: pop_selected_def Let_def take_map [symmetric])
  have scan: "pop_scan C ?W [] s = (False, take 2 (filter (matchable C s) ?W), ?s1)"
    using pop_scan_eq [OF assms, of ?W "[]"] w(1) [where P = "\<lambda>_. True"] dw by simp
  show "pop_pair_script C limit s = (Inr (pop_selected C limit s), drop_entries C (pop_selected C limit s) ?s1)"
    unfolding pop_pair_script_def pop_window_def [symmetric] scan
    using remove_selected_drop [of C ?s1 "pop_selected C limit s"] d s1 ds
    by (auto simp: pop_selected_def Let_def min_def)
qed

lemma fst_image_mem:
  assumes "distinct (map fst q)" "e \<in> set q" "A \<subseteq> set q"
  shows "fst e \<in> fst ` A \<longleftrightarrow> e \<in> A"
proof
  assume "fst e \<in> fst ` A"
  then obtain a where a: "a \<in> A" "fst a = fst e" by (metis imageE)
  then have "a = e" using distinct_key_eq [OF assms(1), of a e] assms(2,3) by blast
  with a(1) show "e \<in> A" by simp
qed simp

lemma set_zrem_entry:
  assumes "distinct (map fst q)" "(raw, sc) \<in> set q"
  shows "set (zrem raw q) = set q - {(raw, sc)}"
proof (rule set_eqI)
  fix e
  show "e \<in> set (zrem raw q) \<longleftrightarrow> e \<in> set q - {(raw, sc)}"
    using distinct_key_eq [OF assms(1), of e "(raw, sc)"] assms(2) by (cases e) (auto simp: set_zrem)
qed

text \<open>Two consistent queues with the same entries are the same.\<close>

lemma mm_eqI:
  assumes "mm_ok C s" "mm_ok C s'" "set (mm_queue s) = set (mm_queue s')" "mm_members s = mm_members s'"
    "mm_last s = mm_last s'" "mm_presence s = mm_presence s'"
  shows "s = s'"
proof -
  have inj: "inj_on zkey A" for A by (auto simp: inj_on_def zkey_def prod_eq_iff)
  have "distinct (mm_queue s)" "distinct (mm_queue s')"
    using mm_okD(1) assms(1,2) by (auto simp: distinct_map)
  then have d: "distinct (map zkey (mm_queue s))" "distinct (map zkey (mm_queue s'))"
    using inj by (simp_all add: distinct_map)
  have "map zkey (mm_queue s) = map zkey (mm_queue s')"
    using sorted_distinct_set_unique [OF mm_okD(2) [OF assms(1)] d(1) mm_okD(2) [OF assms(2)] d(2)] assms(3)
    by simp
  then have "mm_queue s = mm_queue s'"
    using inj by (metis inj_map_eq_map)
  with assms(4-6) show ?thesis by (cases s; cases s') simp
qed

lemma add_drop_member:
  assumes "mm_ok C s" "(raw, sc) \<in> set (mm_queue s)" "mm_members s u = Some raw"
  shows "add_member u raw sc (drop_member u raw s) = s"
proof -
  have "max sc (mm_last s) = mm_last s" using mm_okD(3) [OF assms(1,2)] by simp
  moreover have "zadd sc raw (zrem raw (mm_queue s)) = mm_queue s"
    using mm_okD(1,2) [OF assms(1)] assms(2) by (rule zadd_zrem_same)
  moreover have "(mm_members s)(u \<mapsto> raw) = mm_members s" using assms(3) by auto
  ultimately show ?thesis by (simp add: add_member_def drop_member_def)
qed

section \<open>Properties\<close>

text \<open>
  The queue is first come, first served, one place per user: joining keeps the
  queue consistent; a new user goes behind everybody, with a score above every earlier one
  even when the clock stands still; a user who is queued already keeps the score while the
  entry is replaced by that of the new connection.
\<close>

theorem enqueue_fifo:
  assumes "mm_ok C s" and "owner C raw = Some uid" and "enqueue_script now uid raw s = ((new, score), s')"
  shows "mm_ok C s' \<and> mm_members s' = (mm_members s)(uid \<mapsto> raw) \<and> (new \<longleftrightarrow> mm_members s uid = None)
    \<and> (new \<longrightarrow> mm_queue s' = mm_queue s @ [(raw, score)] \<and> mm_last s < score)
    \<and> (\<not> new \<longrightarrow> (\<exists>old. mm_members s uid = Some old \<and> (old, score) \<in> set (mm_queue s) \<and>
          set (mm_queue s') = insert (raw, score) (set (mm_queue s) - {(old, score)})))"
proof -
  have ok: "mm_ok C s'" using enqueue_script_ok [OF assms(1,2), of now] assms(3) by simp
  show ?thesis
  proof (cases "mm_members s uid")
    case None
    let ?sc = "max now (mm_last s + 1)"
    have r: "new" "score = ?sc" "s' = add_member uid raw ?sc s"
      using assms(3) enqueue_script_new [of s uid now raw, OF None] by auto
    have "snd e < ?sc" if "e \<in> set (mm_queue s)" for e
      using mm_okD(3) [OF assms(1) that] by simp
    moreover have "raw \<notin> fst ` set (mm_queue s)"
      using mm_okD(4) [OF assms(1)] assms(2) None by force
    ultimately have "zadd ?sc raw (mm_queue s) = mm_queue s @ [(raw, ?sc)]" by (rule zadd_append)
    with ok None r show ?thesis by simp
  next
    case (Some old)
    from assms(1) Some obtain sc where sc: "(old, sc) \<in> set (mm_queue s)" by (rule queued_score)
    have r: "\<not> new" "score = sc" "s' = add_member uid raw sc (drop_member uid old s)"
      using assms(3) enqueue_script_again [OF assms(1) Some sc, of now raw] by auto
    have raw: "fst e \<noteq> raw" if "e \<in> set (mm_queue s)" "fst e \<noteq> old" for e
    proof
      assume "fst e = raw"
      with mm_okD(4) [OF assms(1) that(1)] assms(2) Some that(2) show False by auto
    qed
    have gone: "set (zrem old (mm_queue s)) = set (mm_queue s) - {(old, sc)}"
      using mm_okD(1) [OF assms(1)] sc by (rule set_zrem_entry)
    have "{e \<in> set (zrem old (mm_queue s)). fst e \<noteq> raw} = set (zrem old (mm_queue s))"
      unfolding set_zrem using raw by blast
    then have "set (mm_queue s') = insert (raw, score) (set (mm_queue s) - {(old, score)})"
      by (simp only: r(2,3) gone [symmetric] add_member_simps drop_member_simps set_zadd)
    moreover have "mm_members s' = (mm_members s)(uid \<mapsto> raw)" by (simp add: r(3))
    ultimately show ?thesis
      using ok Some r(1,2) sc by (intro conjI impI exI [of _ old]) simp_all
  qed
qed

definition ex_uid :: "char \<Rightarrow> string" where
  "ex_uid c = replicate 8 c @ ''-'' @ replicate 4 c @ ''-'' @ replicate 4 c @ ''-'' @ replicate 4 c @ ''-'' @ replicate 12 c"

definition ex_letter :: "uuid \<Rightarrow> char" where
  "ex_letter u = (if u = 1 then CHR ''a'' else if u = 2 then CHR ''b'' else if u = 4 then CHR ''d'' else CHR ''c'')"

definition ex_ids :: uuid_lib where
  "ex_ids = \<lparr>uuid_string = (\<lambda>u. ex_uid (ex_letter u)),
     uuid_parse = (\<lambda>s. if s = ex_uid (CHR ''a'') then Some 1 else if s = ex_uid (CHR ''b'') then Some 2
       else if s = ex_uid (CHR ''c'') then Some 3 else if s = ex_uid (CHR ''d'') then Some 4 else None),
     uuid_new_sha1 = (\<lambda>n s. of_nat (length s))\<rparr>"

definition ex_member :: "uuid \<Rightarrow> queue_member" where
  "ex_member u = \<lparr>qm_user_id = u, qm_presence_key = ''codeduel:presence:'' @ ex_uid (ex_letter u) @ '':'' @ ex_uid (CHR ''c''),
     qm_route = ''codeduel:user:'' @ ex_uid (ex_letter u), qm_rating = 0\<rparr>"

text \<open>Members of the example: their text is the letter of the user, their connection is \<open>c\<close>.\<close>

definition ex_codec :: codec where
  "ex_codec = \<lparr>marshal = (\<lambda>m. []),
     unmarshal = (\<lambda>raw. if raw = ''a'' then Some (ex_member 1) else if raw = ''b'' then Some (ex_member 2)
       else if raw = ''d'' then Some (ex_member 4) else None),
     cjson_decode = (\<lambda>raw. case raw of [c] \<Rightarrow> Some (JObject [(''user_id'', JString (ex_uid c)),
         (''presence_key'', JString (''codeduel:presence:'' @ ex_uid c @ '':'' @ ex_uid (CHR ''c''))),
         (''route'', JString (''codeduel:user:'' @ ex_uid c)), (''rating'', JNumber ''0'')])
       | _ \<Rightarrow> None)\<rparr>"

definition ex_mm :: "char list \<Rightarrow> mm" where
  "ex_mm cs = foldl (\<lambda>s c. snd (enqueue_script 5 (ex_uid c) [c] s))
     \<lparr>mm_queue = [], mm_members = Map.empty, mm_last = 0, mm_presence = (\<lambda>_. True)\<rparr> cs"

lemma ex_owner: "owner ex_codec [c] = Some (ex_uid c)"
  by (simp add: owner_def ex_codec_def lua_field_def lua_string_def)

lemma ex_mm_ok: "mm_ok ex_codec (ex_mm cs)"
proof (induction cs rule: rev_induct)
  case Nil
  then show ?case by (simp add: ex_mm_def mm_ok_def)
next
  case (snoc c cs)
  from enqueue_script_ok [OF snoc ex_owner, of 5] show ?case by (simp add: ex_mm_def)
qed

theorem enqueue_fifo_witness:
  "\<exists>score s'. enqueue_script 5 (ex_uid (CHR ''b'')) ''b'' (ex_mm ''a'') = ((True, score), s')
     \<and> mm_queue s' = mm_queue (ex_mm ''a'') @ [(''b'', score)]"
proof -
  let ?run = "enqueue_script 5 (ex_uid (CHR ''b'')) ''b'' (ex_mm ''a'')"
  have "fst (fst ?run)" by code_simp
  then have run: "?run = ((True, snd (fst ?run)), snd ?run)" by (simp add: prod_eq_iff)
  from enqueue_fifo [OF ex_mm_ok ex_owner run] run show ?thesis by blast
qed

lemma pop_pair_run:
  assumes "mm_ok C s"
  shows "\<exists>sel s'. pop_pair_script C limit s = (Inr sel, s') \<and> mm_ok C s'
    \<and> sel = (let good = filter (matchable C s) (take (nat limit) (mm_queue s)) in
             if length good < 2 then [] else take 2 good)
    \<and> mm_queue s' = filter (\<lambda>e. e \<notin> set sel \<and> (e \<in> set (take (nat limit) (mm_queue s)) \<longrightarrow> matchable C s e)) (mm_queue s)
    \<and> distinct (map (\<lambda>e. owner C (fst e)) sel)"
proof -
  let ?W = "pop_window limit s"
  let ?B = "filter (\<lambda>e. \<not> matchable C s e) ?W"
  let ?s1 = "drop_entries C ?B s"
  let ?sel = "pop_selected C limit s"
  note eq = pop_pair_script_eq [OF assms, of limit]
  note d1 = drop_entries_ok [OF assms pop_window_ok [OF assms, where P = "\<lambda>e. \<not> matchable C s e" and limit = limit]]
  have ok1: "mm_ok C ?s1" using d1 by blast
  note d2 = drop_entries_ok [OF ok1 eq(2,3)]
  have sub: "set ?W \<subseteq> set (mm_queue s)" "set ?sel \<subseteq> set ?W"
    by (auto simp: pop_window_def pop_selected_def Let_def dest!: in_set_takeD)
  have by_fst: "fst e \<in> fst ` A \<longleftrightarrow> e \<in> A" if "e \<in> set (mm_queue s)" "A \<subseteq> set (mm_queue s)" for e A
    using mm_okD(1) [OF assms] that by (rule fst_image_mem)
  have B: "set ?B \<subseteq> set (mm_queue s)" and S: "set ?sel \<subseteq> set (mm_queue s)" using sub by auto
  have "mm_queue (drop_entries C ?sel ?s1) = filter (\<lambda>e. fst e \<notin> fst ` set ?B \<and> fst e \<notin> fst ` set ?sel) (mm_queue s)"
    using d1 [THEN conjunct2, THEN conjunct1] d2 [THEN conjunct2, THEN conjunct1] by (simp only: filter_filter)
  also have "\<dots> = filter (\<lambda>e. e \<notin> set ?sel \<and> (e \<in> set ?W \<longrightarrow> matchable C s e)) (mm_queue s)"
    by (rule filter_cong [OF refl]) (simp only: by_fst [OF _ B] by_fst [OF _ S], auto)
  finally have q: "mm_queue (drop_entries C ?sel ?s1) =
      filter (\<lambda>e. e \<notin> set ?sel \<and> (e \<in> set ?W \<longrightarrow> matchable C s e)) (mm_queue s)" .
  have "inj_on (owner C) (fst ` set ?sel)"
  proof (rule inj_onI)
    fix a b assume "a \<in> fst ` set ?sel" "b \<in> fst ` set ?sel" and ab: "owner C a = owner C b"
    obtain x where x: "x \<in> set ?sel" "a = fst x" using \<open>a \<in> fst ` set ?sel\<close> by (rule imageE)
    obtain y where y: "y \<in> set ?sel" "b = fst y" using \<open>b \<in> fst ` set ?sel\<close> by (rule imageE)
    from S x(1) y(1) have "x \<in> set (mm_queue s)" "y \<in> set (mm_queue s)" by blast+
    with mm_okD(4) [OF assms] ab x(2) y(2) show "a = b" by (metis option.inject)
  qed
  then have "distinct (map (owner C) (map fst ?sel))"
    using eq(3) by (simp only: distinct_map set_map simp_thms)
  then have "distinct (map (\<lambda>e. owner C (fst e)) ?sel)" by (simp add: o_def)
  moreover have "mm_ok C (drop_entries C ?sel ?s1)" using d2 by (rule conjunct1)
  moreover note eq(1) q
  ultimately show ?thesis
    unfolding pop_window_def [symmetric]
    by (intro exI [of _ ?sel] exI [of _ "drop_entries C ?sel ?s1"] conjI)
      (simp_all add: pop_selected_def)
qed

text \<open>
  Property C20. The pair popped is the earliest that can play: on a consistent queue \<open>pop_pair\<close>
  never aborts; it returns the first two entries of the scanned window that are well-formed
  and current and whose users are present, of two different users, or nothing when there
  are no two. Exactly these and the unmatchable entries of the window leave the queue,
  which stays consistent.
\<close>

theorem pop_pair_earliest:
  assumes "mm_ok C s"
  shows "\<exists>sel s'. pop_pair_script C limit s = (Inr sel, s') \<and> mm_ok C s'
    \<and> sel = (let good = filter (matchable C s) (take (nat limit) (mm_queue s)) in
             if length good < 2 then [] else take 2 good)
    \<and> mm_queue s' = filter (\<lambda>e. e \<notin> set sel \<and> (e \<in> set (take (nat limit) (mm_queue s)) \<longrightarrow> matchable C s e)) (mm_queue s)
    \<and> distinct (map (\<lambda>e. owner C (fst e)) sel)"
  using assms by (rule pop_pair_run)

theorem pop_pair_earliest_witness:
  "\<exists>s'. pop_pair_script ex_codec 100 (ex_mm ''dab'') = (Inr (take 2 (mm_queue (ex_mm ''dab''))), s')
     \<and> map fst (mm_queue s') = [''b'']"
proof -
  have f: "fst (pop_pair_script ex_codec 100 (ex_mm ''dab'')) = Inr (take 2 (mm_queue (ex_mm ''dab'')))"
    "map fst (mm_queue (snd (pop_pair_script ex_codec 100 (ex_mm ''dab'')))) = [''b'']"
    by code_simp+
  from pop_pair_earliest [OF ex_mm_ok, of 100 "''dab''"] obtain sel s' where
    "pop_pair_script ex_codec 100 (ex_mm ''dab'') = (Inr sel, s')" by blast
  with f show ?thesis by simp
qed

lemma lua_valid_member_requeue:
  "lua_valid_member (cjson_decode C raw) = Some (uid, pk) \<Longrightarrow>
     \<exists>t. cjson_decode C raw = Some t \<and> lua_field t ''user_id'' = Some (JString uid) \<and>
       lua_string (lua_field t ''presence_key'') = Some pk"
  by (auto simp: lua_valid_member_def lua_string_def Let_def split: option.splits json.splits if_splits)

lemma requeue_one_restores:
  assumes "lua_valid_member (cjson_decode C raw) = Some (uid, pk)" "mm_presence s pk" "mm_members s uid = None" "sc \<le> mm_last s"
  shows "requeue_one C uid raw sc s = add_member uid raw sc s"
proof -
  obtain t where t: "cjson_decode C raw = Some t" "lua_field t ''user_id'' = Some (JString uid)"
    "lua_string (lua_field t ''presence_key'') = Some pk"
    using lua_valid_member_requeue [OF assms(1)] by blast
  have "max sc (mm_last s) = mm_last s" using assms(4) by simp
  with t assms(2,3) show ?thesis by (simp add: requeue_one_def add_member_def)
qed

lemma matchable_owner:
  assumes "matchable C s (raw, sc)" "owner C raw = Some u"
  obtains pk where "lua_valid_member (cjson_decode C raw) = Some (u, pk)" "mm_presence s pk"
proof -
  obtain uid pk where v: "lua_valid_member (cjson_decode C raw) = Some (uid, pk)" "mm_presence s pk"
    using assms(1) by (auto simp: matchable_def split: option.splits)
  have "uid = u" using lua_valid_member_owner [OF v(1)] assms(2) by simp
  with v that show thesis by simp
qed

text \<open>
  A requeue undoes a pop: giving both popped entries back, while their users are
  present, leaves a consistent queue with exactly the entries it had before the pop, in the
  same order, less the unmatchable ones the pop had removed.
\<close>

theorem requeue_undoes_pop:
  assumes "mm_ok C s" and "pop_pair_script C limit s = (Inr [(r1, s1), (r2, s2)], s')"
    and "owner C r1 = Some u1" "owner C r2 = Some u2"
  shows "mm_ok C (requeue_script C [(u1, r1, s1), (u2, r2, s2)] s')
    \<and> mm_queue (requeue_script C [(u1, r1, s1), (u2, r2, s2)] s') =
        filter (\<lambda>e. e \<in> set (take (nat limit) (mm_queue s)) \<longrightarrow> matchable C s e) (mm_queue s)"
proof -
  let ?W = "pop_window limit s"
  let ?B = "filter (\<lambda>e. \<not> matchable C s e) ?W"
  let ?s1 = "drop_entries C ?B s"
  note eq = pop_pair_script_eq [OF assms(1), of limit]
  note d1 = drop_entries_ok [OF assms(1) pop_window_ok [OF assms(1), where P = "\<lambda>e. \<not> matchable C s e" and limit = limit]]
  have sel: "pop_selected C limit s = [(r1, s1), (r2, s2)]" and s': "s' = drop_entries C [(r1, s1), (r2, s2)] ?s1"
    using assms(2) eq(1) by auto
  have ok1: "mm_ok C ?s1" using d1 by blast
  have in1: "(r1, s1) \<in> set (mm_queue ?s1)" "(r2, s2) \<in> set (mm_queue ?s1)" "r1 \<noteq> r2"
    using eq(2,3) sel by auto
  have mem: "mm_members ?s1 u1 = Some r1" "mm_members ?s1 u2 = Some r2"
    using mm_okD(4) [OF ok1 in1(1)] mm_okD(4) [OF ok1 in1(2)] assms(3,4) by auto
  then have ne: "u1 \<noteq> u2" using in1(3) by auto
  have "matchable C s e" if "e \<in> {(r1, s1), (r2, s2)}" for e
  proof -
    have "e \<in> set (pop_selected C limit s)" using that sel by auto
    then show ?thesis by (auto simp: pop_selected_def Let_def split: if_splits dest!: in_set_takeD)
  qed
  then have m12: "matchable C s (r1, s1)" "matchable C s (r2, s2)" by auto
  obtain p1 where v1: "lua_valid_member (cjson_decode C r1) = Some (u1, p1)" "mm_presence s p1"
    using m12(1) assms(3) by (rule matchable_owner)
  obtain p2 where v2: "lua_valid_member (cjson_decode C r2) = Some (u2, p2)" "mm_presence s p2"
    using m12(2) assms(4) by (rule matchable_owner)
  note v = v1 v2
  let ?a = "drop_member u2 r2 (drop_member u1 r1 ?s1)"
  have s'a: "s' = ?a" by (simp add: s' assms(3,4))
  have le: "s1 \<le> mm_last ?s1" "s2 \<le> mm_last ?s1"
    using mm_okD(3) [OF ok1 in1(1)] mm_okD(3) [OF ok1 in1(2)] by simp_all
  have pres: "mm_presence ?s1 = mm_presence s" using d1 by blast
  have q1: "requeue_one C u1 r1 s1 ?a = add_member u1 r1 s1 ?a"
    using v(1,2) le ne pres by (intro requeue_one_restores [of C r1 u1 p1]) simp_all
  have q2: "requeue_one C u2 r2 s2 (add_member u1 r1 s1 ?a) = add_member u2 r2 s2 (add_member u1 r1 s1 ?a)"
    using v(3,4) le ne pres by (intro requeue_one_restores [of C r2 u2 p2]) simp_all
  have ok_a: "mm_ok C ?a"
    using drop_member_ok [OF drop_member_ok [OF ok1 mem(1)], of u2 r2] mem(2) ne by simp
  have ok_b: "mm_ok C (add_member u1 r1 s1 ?a)"
    using add_member_ok [OF ok_a _ assms(3)] ne by simp
  have ok_c: "mm_ok C (add_member u2 r2 s2 (add_member u1 r1 s1 ?a))"
    using add_member_ok [OF ok_b _ assms(4)] ne by simp
  have "add_member u2 r2 s2 (add_member u1 r1 s1 ?a) = ?s1"
  proof (rule mm_eqI [OF ok_c ok1])
    have z1: "set (zrem r1 (mm_queue ?s1)) = set (mm_queue ?s1) - {(r1, s1)}"
      using mm_okD(1) [OF ok1] in1(1) by (rule set_zrem_entry)
    have "set (zrem r2 (zrem r1 (mm_queue ?s1))) = set (zrem r1 (mm_queue ?s1)) - {(r2, s2)}"
      using zrem_ok(1) [OF mm_okD(1) [OF ok1]] in1 by (intro set_zrem_entry) (simp_all add: set_zrem)
    with z1 have z: "set (mm_queue ?a) = set (mm_queue ?s1) - {(r1, s1), (r2, s2)}" by auto
    have "{e \<in> insert (r1, s1) {e \<in> set (mm_queue ?a). fst e \<noteq> r1}. fst e \<noteq> r2} = insert (r1, s1) (set (mm_queue ?a))"
      using in1(3) by (auto simp: set_zrem)
    then show "set (mm_queue (add_member u2 r2 s2 (add_member u1 r1 s1 ?a))) = set (mm_queue ?s1)"
      unfolding add_member_simps set_zadd [of _ _ "zadd _ _ _"] set_zadd z using in1(1,2) by auto
    show "mm_members (add_member u2 r2 s2 (add_member u1 r1 s1 ?a)) = mm_members ?s1"
      using mem by auto
  qed (use le in simp_all)
  then have r: "requeue_script C [(u1, r1, s1), (u2, r2, s2)] s' = ?s1"
    by (simp add: s'a q1 q2)
  have "mm_queue ?s1 = filter (\<lambda>e. e \<in> set ?W \<longrightarrow> matchable C s e) (mm_queue s)"
  proof -
    have "fst e \<in> fst ` set ?B \<longleftrightarrow> e \<in> set ?B" if "e \<in> set (mm_queue s)" for e
      using pop_window_ok(1) [OF assms(1), where P = "\<lambda>e. \<not> matchable C s e" and limit = limit]
      by (intro fst_image_mem [OF mm_okD(1) [OF assms(1)] that])
    with d1 show ?thesis by (auto intro!: filter_cong)
  qed
  with ok1 r show ?thesis by (simp add: pop_window_def)
qed

theorem requeue_undoes_pop_witness:
  "map fst (mm_queue (requeue_script ex_codec [(ex_uid (CHR ''d''), ''d'', 5), (ex_uid (CHR ''a''), ''a'', 6)]
      (snd (pop_pair_script ex_codec 100 (ex_mm ''dab''))))) = [''d'', ''a'', ''b'']"
proof -
  let ?run = "pop_pair_script ex_codec 100 (ex_mm ''dab'')"
  have "fst ?run = Inr [(''d'', 5), (''a'', 6)]" by code_simp
  then have run: "?run = (Inr [(''d'', 5), (''a'', 6)], snd ?run)" by (simp add: prod_eq_iff)
  have "map fst (filter (\<lambda>e. e \<in> set (take (nat 100) (mm_queue (ex_mm ''dab''))) \<longrightarrow> matchable ex_codec (ex_mm ''dab'') e)
      (mm_queue (ex_mm ''dab''))) = [''d'', ''a'', ''b'']"
    by code_simp
  with requeue_undoes_pop [OF ex_mm_ok run ex_owner ex_owner] show ?thesis by simp
qed

section \<open>Members through the queue\<close>

text \<open>
  A queued text is the text of a valid member when \<open>encoding/json\<close> and \<open>cjson\<close> both read that
  member from it; \<open>codec_ok\<close>: they do so on what \<open>encoding/json\<close> writes for the member.
\<close>

definition member_text :: "uuid_lib \<Rightarrow> codec \<Rightarrow> string \<Rightarrow> queue_member \<Rightarrow> bool" where
  "member_text U C raw m \<longleftrightarrow>
     member_validate U m = None \<and> raw \<noteq> '''' \<and> unmarshal C raw = Some m \<and>
     (case cjson_decode C raw of
        None \<Rightarrow> False
      | Some t \<Rightarrow> lua_field t ''user_id'' = Some (JString (uuid_string U (qm_user_id m))) \<and>
          lua_field t ''presence_key'' = Some (JString (qm_presence_key m)))"

definition codec_ok :: "uuid_lib \<Rightarrow> codec \<Rightarrow> queue_member \<Rightarrow> bool" where
  "codec_ok U C m \<longleftrightarrow> member_text U C (marshal C m) m"

definition texts_ok :: "uuid_lib \<Rightarrow> codec \<Rightarrow> mm \<Rightarrow> bool" where
  "texts_ok U C s \<longleftrightarrow> (\<forall>e\<in>set (mm_queue s). case unmarshal C (fst e) of
       None \<Rightarrow> False | Some m \<Rightarrow> member_text U C (fst e) m)"

lemma texts_okD:
  assumes "texts_ok U C s" "e \<in> set (mm_queue s)"
  obtains m where "member_text U C (fst e) m"
  using assms by (auto simp: texts_ok_def split: option.splits)

lemma member_textD:
  assumes "member_text U C raw m"
  shows "member_validate U m = None" "unmarshal C raw = Some m" "raw \<noteq> []"
    "owner C raw = Some (uuid_string U (qm_user_id m))" "decode_member U C raw = Inr m"
  using assms by (auto simp: member_text_def owner_def lua_string_def decode_member_def split: option.splits)

lemma requeue_one_mono:
  "mm_presence (requeue_one C uid raw sc s) = mm_presence s"
  "mm_members s u \<noteq> None \<Longrightarrow> mm_members (requeue_one C uid raw sc s) u \<noteq> None"
  by (auto simp: requeue_one_def split: option.split)

lemma requeue_script_mono:
  "mm_presence (requeue_script C es s) = mm_presence s"
  "mm_members s u \<noteq> None \<Longrightarrow> mm_members (requeue_script C es s) u \<noteq> None"
proof -
  show "mm_presence (requeue_script C es s) = mm_presence s"
    by (induction C es s rule: requeue_script.induct) (simp_all add: requeue_one_mono)
  show "mm_members s u \<noteq> None \<Longrightarrow> mm_members (requeue_script C es s) u \<noteq> None"
  proof (induction C es s rule: requeue_script.induct)
    case (2 C uid raw score es s)
    then show ?case using requeue_one_mono(2) [of s u C uid raw score] by simp
  qed simp
qed

text \<open>A requeued member is in the queue again, unless its connection is gone.\<close>

lemma requeue_one_settles:
  assumes "member_text U C raw m"
  shows "mm_members (requeue_one C (uuid_string U (qm_user_id m)) raw sc s) (uuid_string U (qm_user_id m)) \<noteq> None
    \<or> \<not> mm_presence s (qm_presence_key m)"
  using assms by (auto simp: requeue_one_def member_text_def lua_string_def split: option.splits)

lemma requeue_script_settles:
  assumes "(uuid_string U (qm_user_id m), raw, sc) \<in> set es" "member_text U C raw m"
  shows "mm_members (requeue_script C es s) (uuid_string U (qm_user_id m)) \<noteq> None
    \<or> \<not> mm_presence s (qm_presence_key m)"
  using assms(1)
proof (induction es arbitrary: s)
  case (Cons x es)
  obtain u r c where x: "x = (u, r, c)" by (cases x)
  show ?case
  proof (cases "x = (uuid_string U (qm_user_id m), raw, sc)")
    case True
    with requeue_one_settles [OF assms(2), of sc s]
      requeue_script_mono(2) [of "requeue_one C (uuid_string U (qm_user_id m)) raw sc s" "uuid_string U (qm_user_id m)" C es]
    show ?thesis by auto
  next
    case False
    with Cons.prems have "(uuid_string U (qm_user_id m), raw, sc) \<in> set es" by auto
    from Cons.IH [OF this, of "requeue_one C u r c s"] show ?thesis
      by (simp add: x requeue_one_mono)
  qed
qed simp

lemma requeue_args_mem:
  assumes "requeue_args U es = Inr args" "e \<in> set es"
  shows "(uuid_string U (qm_user_id (qe_member e)), qe_encoded e, qe_score e) \<in> set args"
  using assms by (induction es arbitrary: args) (auto split: option.splits if_splits sum.splits)

lemma queue_requeue_settles:
  assumes "queue_requeue U C client x es s = (None, s')" "e \<in> set es" "member_text U C (qe_encoded e) (qe_member e)"
  shows "mm_members s' (uuid_string U (qm_user_id (qe_member e))) \<noteq> None
    \<or> \<not> mm_presence s' (qm_presence_key (qe_member e))"
proof -
  obtain args where "requeue_args U es = Inr args" "s' = requeue_script C args s"
    using assms(1,2) by (auto simp: queue_requeue_def split: if_splits sum.splits)
  with requeue_args_mem [OF this(1) assms(2)] requeue_script_settles [OF _ assms(3)]
  show ?thesis by (simp add: requeue_script_mono)
qed

lemma pop_pair_run_members:
  assumes "mm_ok C s" and "texts_ok U C s" and "queue_pop_pair U C True limit IoOk s = (r, s')"
  shows "mm_ok C s' \<and> texts_ok U C s' \<and> (r = Inr None \<or>
    (\<exists>e1 e2. r = Inr (Some (e1, e2)) \<and> member_text U C (qe_encoded e1) (qe_member e1)
       \<and> member_text U C (qe_encoded e2) (qe_member e2) \<and> qm_user_id (qe_member e1) \<noteq> qm_user_id (qe_member e2)
       \<and> {(qe_encoded e1, qe_score e1), (qe_encoded e2, qe_score e2)} \<subseteq> set (mm_queue s)))"
proof -
  let ?good = "filter (matchable C s) (take (nat limit) (mm_queue s))"
  obtain sel where run: "pop_pair_script C limit s = (Inr sel, s')" and ok: "mm_ok C s'"
    and sel: "sel = (if length ?good < 2 then [] else take 2 ?good)" and sub: "set (mm_queue s') \<subseteq> set (mm_queue s)"
    and owners: "distinct (map (\<lambda>e. owner C (fst e)) sel)" and r: "r = decode_pair U C sel"
    using pop_pair_run [OF assms(1), of limit] assms(3) by (auto simp: queue_pop_pair_def Let_def)
  have texts: "texts_ok U C s'" using assms(2) sub by (auto simp: texts_ok_def)
  have selsub: "set sel \<subseteq> set (mm_queue s)" by (auto simp: sel dest!: in_set_takeD)
  show ?thesis
  proof (cases "length ?good < 2")
    case True
    with r sel ok texts show ?thesis by (simp add: decode_pair_def)
  next
    case False
    then have "length sel = Suc (Suc 0)" by (simp add: sel)
    then obtain a b where ab: "sel = [a, b]" by (auto simp: length_Suc_conv)
    obtain m1 where m1: "member_text U C (fst a) m1" using texts_okD [OF assms(2), of a] selsub ab by auto
    obtain m2 where m2: "member_text U C (fst b) m2" using texts_okD [OF assms(2), of b] selsub ab by auto
    have "qm_user_id m1 \<noteq> qm_user_id m2" using owners ab member_textD(4) [OF m1] member_textD(4) [OF m2] by auto
    then have "r = Inr (Some (\<lparr>qe_member = m1, qe_score = snd a, qe_encoded = fst a\<rparr>,
        \<lparr>qe_member = m2, qe_score = snd b, qe_encoded = fst b\<rparr>))"
      using r ab member_textD(5) [OF m1] member_textD(5) [OF m2] by (cases a; cases b) (simp add: decode_pair_def)
    with ok texts m1 m2 \<open>qm_user_id m1 \<noteq> qm_user_id m2\<close> selsub ab show ?thesis by simp
  qed
qed

text \<open>
  What \<open>Join\<close> stored comes back: on a consistent queue of texts both decoders
  agree on, \<open>PopPair\<close> fails to decode nothing: it returns no pair, or two queued entries with
  exactly the members their texts were written for, of two different users.
\<close>

theorem pop_pair_members:
  assumes "mm_ok C s" and "texts_ok U C s" and "queue_pop_pair U C True limit IoOk s = (r, s')"
  shows "mm_ok C s' \<and> texts_ok U C s' \<and> (r = Inr None \<or>
    (\<exists>e1 e2. r = Inr (Some (e1, e2)) \<and> member_text U C (qe_encoded e1) (qe_member e1)
       \<and> member_text U C (qe_encoded e2) (qe_member e2) \<and> qm_user_id (qe_member e1) \<noteq> qm_user_id (qe_member e2)
       \<and> {(qe_encoded e1, qe_score e1), (qe_encoded e2, qe_score e2)} \<subseteq> set (mm_queue s)))"
  using assms by (rule pop_pair_run_members)

theorem pop_pair_members_witness:
  "\<exists>e1 e2 s'. queue_pop_pair ex_ids ex_codec True 100 IoOk (ex_mm ''dab'') = (Inr (Some (e1, e2)), s')
     \<and> qm_user_id (qe_member e1) = 4 \<and> qm_user_id (qe_member e2) = 1
     \<and> member_text ex_ids ex_codec (qe_encoded e1) (qe_member e1)"
proof -
  let ?run = "queue_pop_pair ex_ids ex_codec True 100 IoOk (ex_mm ''dab'')"
  have f: "case fst ?run of Inr (Some (e1, e2)) \<Rightarrow> qm_user_id (qe_member e1) = 4 \<and> qm_user_id (qe_member e2) = 1
      | _ \<Rightarrow> False" "texts_ok ex_ids ex_codec (ex_mm ''dab'')"
    by code_simp+
  then obtain e1 e2 where e: "fst ?run = Inr (Some (e1, e2))" "qm_user_id (qe_member e1) = 4" "qm_user_id (qe_member e2) = 1"
    by (auto split: sum.splits option.splits)
  have run: "?run = (Inr (Some (e1, e2)), snd ?run)" using e(1) by (simp add: prod_eq_iff)
  from pop_pair_members [OF ex_mm_ok f(2) run] have "member_text ex_ids ex_codec (qe_encoded e1) (qe_member e1)" by simp
  with run e(2,3) show ?thesis by blast
qed

text \<open>
  A malformed entry whose user is \<open>null\<close> is not discarded like the others: the script removes it
  and then fails on the user, so \<open>PopPair\<close> looks at no entry behind it in that round.
\<close>

lemma null_user_aborts:
  assumes "mm_queue s = (raw, score) # es" "0 < limit" "cjson_decode C raw = Some (JObject [(''user_id'', JNull)])"
  shows "\<exists>err. queue_pop_pair U C True limit IoOk s = (Inl err, s\<lparr>mm_queue := zrem raw (mm_queue s)\<rparr>)"
proof -
  obtain n where n: "nat limit = Suc n" using assms(2) gr0_implies_Suc by force
  have user: "lua_field (JObject [(''user_id'', JNull)]) ''user_id'' = Some JNull" by (simp add: lua_field_def)
  then have "lua_valid_member (cjson_decode C raw) = None"
    using assms(3) by (simp add: lua_valid_member_def lua_string_def)
  then show ?thesis
    using assms(1,3) user by (simp add: queue_pop_pair_def pop_pair_script_def remove_member_def n)
qed

end
