(* ===== verification/Match.thy ===== *)
theory Match
  imports MatchQueue JudgeService
begin

text \<open>
  The match maker: \<open>internal/match\<close>. \<open>create_match\<close> is the transaction of \<open>create.go\<close> that
  opens a match between two queued players; \<open>match_step\<close> one round of the service of
  \<open>service.go\<close> (restore what could not be requeued, pop a pair, create, announce);
  \<open>match_run\<close> and \<open>dispatcher_run\<close> the two loops \<open>run.go\<close> starts.

  A transaction is one step on the database: \<open>SELECT ... FOR UPDATE\<close> on both users keeps any other
  transaction from adding a player row for them until it ends.
\<close>

section \<open>Creating a match\<close>

record created_match =
  cm_match_id :: uuid
  cm_problem_id :: uuid
  cm_deadline :: time
  cm_players :: "queue_member \<times> queue_member"

record active_match_claim =
  ac_user_id :: uuid
  ac_match_id :: uuid

text \<open>
  An error of \<open>createMatch\<close>: any failure, or the joined \<open>MissingPlayersError\<close> and
  \<open>ActiveMatchConflictError\<close> that \<open>errors.As\<close> finds in it.
\<close>

datatype create_error = CreateFailed string
  | CreateIneligible (missing_error: "uuid list option") (active_error: "active_match_claim list option")

definition match_for :: "active_match_claim list \<Rightarrow> uuid \<Rightarrow> uuid option" where
  "match_for claims u = map_option ac_match_id (row_of ac_user_id u claims)"

definition missing_has :: "uuid list \<Rightarrow> uuid \<Rightarrow> bool" where
  "missing_has ids u \<longleftrightarrow> u \<in> set ids"

datatype create_call = CmBegin | CmLock uuid | CmClaims | CmProblem | CmInsertMatch | CmInsertPlayer nat
  | CmReload | CmCommit

definition load_active_match_claims :: "io \<Rightarrow> uuid list \<Rightarrow> db \<Rightarrow> string + active_match_claim list" where
  "load_active_match_claims x ids d =
     (if x \<noteq> IoOk then Inl ''create match: load active claims''
      else Inr (map (\<lambda>c. \<lparr>ac_user_id = am_user_id c, ac_match_id = am_match_id c\<rparr>)
             (sort_key am_user_id (filter (\<lambda>c. am_user_id c \<in> set ids) (db_claims d)))))"

text \<open>\<open>SELECT id FROM users WHERE id = $1 FOR UPDATE\<close> for each player: those that do not exist.\<close>

fun lock_players :: "(create_call \<Rightarrow> io) \<Rightarrow> db \<Rightarrow> uuid list \<Rightarrow> string + uuid list" where
  "lock_players ext d [] = Inr []"
| "lock_players ext d (u # us) =
     (if ext (CmLock u) \<noteq> IoOk then Inl ''create match: lock player''
      else case lock_players ext d us of
          Inl e \<Rightarrow> Inl e
        | Inr missing \<Rightarrow> Inr (if user_of d u = None then u # missing else missing))"

text \<open>\<open>SELECT id FROM problems ORDER BY created_at, id LIMIT 1\<close>.\<close>

definition select_problem :: "db \<Rightarrow> problem_row option" where
  "select_problem d =
     (case sort_key (\<lambda>p. (p_created_at p, p_id p)) (db_problems d) of [] \<Rightarrow> None | p # _ \<Rightarrow> Some p)"

definition new_match :: "time \<Rightarrow> uuid \<Rightarrow> uuid \<Rightarrow> int \<Rightarrow> match_row" where
  "new_match now mid pid duration =
     \<lparr>m_id = mid, m_problem_id = pid, m_status = ''active'', m_winner_id = None,
      m_deadline = now + milliseconds duration * 1000, m_created_at = now\<rparr>"

text \<open>The player rows, slot by slot: the failing player and whether its claim was taken, or the database.\<close>

fun insert_players :: "(create_call \<Rightarrow> io) \<Rightarrow> uuid \<Rightarrow> nat \<Rightarrow> uuid list \<Rightarrow> db \<Rightarrow> bool + db" where
  "insert_players ext mid i [] d = Inr d"
| "insert_players ext mid i (u # us) d =
     (case (if ext (CmInsertPlayer (i + 1)) = IoOk
            then insert_player \<lparr>mp_match_id = mid, mp_user_id = u, mp_slot = int i + 1\<rparr> d else Inl False) of
        Inl claimed \<Rightarrow> Inl claimed
      | Inr d1 \<Rightarrow> insert_players ext mid (i + 1) us d1)"

text \<open>The part of \<open>createMatch\<close> between \<open>Begin\<close> and \<open>Commit\<close>.\<close>

definition create_match_tx ::
  "(create_call \<Rightarrow> io) \<Rightarrow> time \<Rightarrow> uuid \<Rightarrow> int \<Rightarrow> queue_member \<times> queue_member \<Rightarrow> db
    \<Rightarrow> create_error + created_match \<times> db" where
  "create_match_tx ext now mid duration ps d =
     (let users = [qm_user_id (fst ps), qm_user_id (snd ps)];
          ids = sort users in
      case lock_players ext d ids of
        Inl e \<Rightarrow> Inl (CreateFailed e)
      | Inr missing \<Rightarrow>
     (case load_active_match_claims (ext CmClaims) ids d of
        Inl e \<Rightarrow> Inl (CreateFailed e)
      | Inr claims \<Rightarrow>
          if missing \<noteq> [] \<or> claims \<noteq> []
          then Inl (CreateIneligible (if missing \<noteq> [] then Some missing else None)
                 (if claims \<noteq> [] then Some claims else None))
          else case (if ext CmProblem = IoOk then select_problem d else None) of
              None \<Rightarrow> Inl (CreateFailed ''create match: select problem'')
            | Some p \<Rightarrow>
          (case (if ext CmInsertMatch = IoOk then insert_match (new_match now mid (p_id p) duration) d else None) of
              None \<Rightarrow> Inl (CreateFailed ''create match: insert match'')
            | Some d1 \<Rightarrow>
          (case insert_players ext mid 0 users d1 of
              Inl claimed \<Rightarrow>
                if claimed then
                  (case load_active_match_claims (ext CmReload) ids d of
                     Inl e \<Rightarrow> Inl (CreateFailed e)
                   | Inr claims2 \<Rightarrow>
                       if claims2 \<noteq> [] then Inl (CreateIneligible None (Some claims2))
                       else Inl (CreateFailed ''create match: insert player''))
                else Inl (CreateFailed ''create match: insert player'')
            | Inr d2 \<Rightarrow>
                Inr (\<lparr>cm_match_id = mid, cm_problem_id = p_id p,
                      cm_deadline = m_deadline (new_match now mid (p_id p) duration), cm_players = ps\<rparr>, d2)))))"

definition create_match ::
  "uuid_lib \<Rightarrow> bool \<Rightarrow> int \<Rightarrow> (create_call \<Rightarrow> io) \<Rightarrow> time \<Rightarrow> uuid \<Rightarrow> queue_member \<times> queue_member \<Rightarrow> db
    \<Rightarrow> (create_error + created_match) \<times> db" where
  "create_match U has_db duration ext now mid ps d =
     (if milliseconds duration \<le> 0
      then (Inl (CreateFailed ''create match: duration must be at least one millisecond''), d)
      else if member_validate U (fst ps) \<noteq> None then (Inl (CreateFailed ''create match: invalid player 1''), d)
      else if member_validate U (snd ps) \<noteq> None then (Inl (CreateFailed ''create match: invalid player 2''), d)
      else if qm_user_id (fst ps) = qm_user_id (snd ps)
      then (Inl (CreateFailed ''create match: players must be distinct''), d)
      else if \<not> has_db then (Inl (CreateFailed ''create match: missing database''), d)
      else if ext CmBegin \<noteq> IoOk then (Inl (CreateFailed ''create match: begin transaction''), d)
      else case create_match_tx ext now mid duration ps d of
          Inl e \<Rightarrow> (Inl e, d)
        | Inr (cm, d2) \<Rightarrow>
            (if ext CmCommit \<noteq> IoOk then Inl (CreateFailed ''create match: commit'') else Inr cm,
             commit_db (ext CmCommit) d d2))"

section \<open>The service\<close>

text \<open>
  The context a call is given: the caller's, cancelled or not, or a fresh one with a timeout.
\<close>

datatype call_context = CallerContext bool | FreshContext int

definition default_poll_interval :: int where
  "default_poll_interval = 250 * 1000000"

definition default_retry_interval :: int where
  "default_retry_interval = 500 * 1000000"

definition requeue_timeout :: int where
  "requeue_timeout = 2 * 1000000000"

text \<open>What the service is built from; the queue of \<open>pairQueue\<close>, \<open>create\<close>, \<open>publish\<close> and \<open>encode\<close>.\<close>

record ('d, 'q, 'p) match_service =
  sv_pop :: "'q \<Rightarrow> (string + (queue_entry \<times> queue_entry) option) \<times> 'q"
  sv_requeue :: "call_context \<Rightarrow> queue_entry list \<Rightarrow> 'q \<Rightarrow> string option \<times> 'q"
  sv_create :: "queue_member \<times> queue_member \<Rightarrow> 'd \<Rightarrow> (create_error + created_match) \<times> 'd"
  sv_publish :: "string \<Rightarrow> envelope \<Rightarrow> 'p \<Rightarrow> string option \<times> 'p"
  sv_encode :: "string \<Rightarrow> message_data option \<Rightarrow> string + envelope"
  sv_poll_interval :: int
  sv_retry_interval :: int

text \<open>The state: the entries waiting to be requeued, the database, the queue and what was published.\<close>

record ('d, 'q, 'p) match_world =
  mw_pending :: "queue_entry list"
  mw_db :: 'd
  mw_queue :: 'q
  mw_pub :: 'p

definition new_match_service ::
  "bool \<Rightarrow> ('q \<Rightarrow> (string + (queue_entry \<times> queue_entry) option) \<times> 'q)
    \<Rightarrow> (call_context \<Rightarrow> queue_entry list \<Rightarrow> 'q \<Rightarrow> string option \<times> 'q)
    \<Rightarrow> (queue_member \<times> queue_member \<Rightarrow> 'd \<Rightarrow> (create_error + created_match) \<times> 'd)
    \<Rightarrow> (string \<Rightarrow> envelope \<Rightarrow> 'p \<Rightarrow> string option \<times> 'p) \<Rightarrow> string + ('d, 'q, 'p) match_service" where
  "new_match_service has_deps pop requeue create publish =
     (if \<not> has_deps then Inl ''initialize match service: missing dependency''
      else Inr \<lparr>sv_pop = pop, sv_requeue = requeue, sv_create = create, sv_publish = publish, sv_encode = encode,
             sv_poll_interval = default_poll_interval, sv_retry_interval = default_retry_interval\<rparr>)"

definition requeue_or_retain ::
  "('d, 'q, 'p) match_service \<Rightarrow> bool \<Rightarrow> queue_entry list \<Rightarrow> ('d, 'q, 'p) match_world \<Rightarrow> bool \<times> ('d, 'q, 'p) match_world" where
  "requeue_or_retain S done es w =
     (if es = [] then (True, w)
      else case sv_requeue S (if done then FreshContext requeue_timeout else CallerContext False) es (mw_queue w) of
          (None, q) \<Rightarrow> (True, w\<lparr>mw_queue := q\<rparr>)
        | (Some _, q) \<Rightarrow> (False, w\<lparr>mw_queue := q, mw_pending := mw_pending w @ es\<rparr>))"

definition restore_pending ::
  "('d, 'q, 'p) match_service \<Rightarrow> bool \<Rightarrow> ('d, 'q, 'p) match_world \<Rightarrow> bool \<times> ('d, 'q, 'p) match_world" where
  "restore_pending S done w =
     (if mw_pending w = [] then (True, w)
      else case sv_requeue S (CallerContext done) (mw_pending w) (mw_queue w) of
          (None, q) \<Rightarrow> (True, w\<lparr>mw_queue := q, mw_pending := []\<rparr>)
        | (Some _, q) \<Rightarrow> (False, w\<lparr>mw_queue := q\<rparr>))"

definition publish_active_match_error ::
  "uuid_lib \<Rightarrow> ('d, 'q, 'p) match_service \<Rightarrow> string \<Rightarrow> uuid \<Rightarrow> 'p \<Rightarrow> 'p" where
  "publish_active_match_error U S route mid p =
     (case sv_encode S ''error'' (Some (ErrorData \<lparr>ed_code = ''already_in_match'',
              ed_message = ''player already has an active match'', ed_match_id = uuid_string U mid, ed_request_id = ''''\<rparr>)) of
        Inl _ \<Rightarrow> p
      | Inr payload \<Rightarrow> snd (sv_publish S route payload p))"

text \<open>What an ineligibility error says of a user: missing, or in this active match.\<close>

definition reported_missing :: "uuid list option \<Rightarrow> uuid \<Rightarrow> bool" where
  "reported_missing missing u \<longleftrightarrow> (case missing of None \<Rightarrow> False | Some ids \<Rightarrow> missing_has ids u)"

definition reported_match :: "active_match_claim list option \<Rightarrow> uuid \<Rightarrow> uuid option" where
  "reported_match active u = (case active of None \<Rightarrow> None | Some claims \<Rightarrow> match_for claims u)"

text \<open>\<open>handleIneligiblePlayers\<close>: the loop over the pair, then the requeue of the eligible ones.\<close>

fun sort_out_players ::
  "uuid_lib \<Rightarrow> ('d, 'q, 'p) match_service \<Rightarrow> active_match_claim list option \<Rightarrow> uuid list option \<Rightarrow> queue_entry list
    \<Rightarrow> 'p \<Rightarrow> queue_entry list \<times> 'p" where
  "sort_out_players U S active missing [] p = ([], p)"
| "sort_out_players U S active missing (e # es) p =
     (let u = qm_user_id (qe_member e) in
      if reported_missing missing u
      then sort_out_players U S active missing es p
      else case reported_match active u of
          Some mid \<Rightarrow>
            sort_out_players U S active missing es (publish_active_match_error U S (qm_route (qe_member e)) mid p)
        | None \<Rightarrow>
            (case sort_out_players U S active missing es p of (eligible, p') \<Rightarrow> (e # eligible, p')))"

definition handle_ineligible_players ::
  "uuid_lib \<Rightarrow> ('d, 'q, 'p) match_service \<Rightarrow> bool \<Rightarrow> queue_entry \<times> queue_entry \<Rightarrow> active_match_claim list option
    \<Rightarrow> uuid list option \<Rightarrow> ('d, 'q, 'p) match_world \<Rightarrow> bool \<times> ('d, 'q, 'p) match_world" where
  "handle_ineligible_players U S done pair active missing w =
     (case sort_out_players U S active missing [fst pair, snd pair] (mw_pub w) of
        (eligible, p) \<Rightarrow> requeue_or_retain S done eligible (w\<lparr>mw_pub := p\<rparr>))"

text \<open>
  \<open>step\<close>: the delay before the next round and the new state. \<open>done0\<close> and \<open>done1\<close> say whether the
  context is cancelled when pending entries are restored and when popped ones are requeued.
\<close>

definition match_step ::
  "uuid_lib \<Rightarrow> ('d, 'q, 'p) match_service \<Rightarrow> bool \<Rightarrow> bool \<Rightarrow> ('d, 'q, 'p) match_world \<Rightarrow> int \<times> ('d, 'q, 'p) match_world" where
  "match_step U S done0 done1 w0 =
     (case restore_pending S done0 w0 of
        (False, w1) \<Rightarrow> (sv_retry_interval S, w1)
      | (True, w1) \<Rightarrow>
     (case sv_pop S (mw_queue w1) of
        (Inl _, q) \<Rightarrow> (sv_retry_interval S, w1\<lparr>mw_queue := q\<rparr>)
      | (Inr None, q) \<Rightarrow> (sv_poll_interval S, w1\<lparr>mw_queue := q\<rparr>)
      | (Inr (Some (e1, e2)), q) \<Rightarrow>
          let players = (qe_member e1, qe_member e2); w2 = w1\<lparr>mw_queue := q\<rparr> in
     (case sv_create S players (mw_db w2) of
        (Inl (CreateIneligible missing active), d) \<Rightarrow>
          (case handle_ineligible_players U S done1 (e1, e2) active missing (w2\<lparr>mw_db := d\<rparr>) of
             (False, w3) \<Rightarrow> (sv_retry_interval S, w3)
           | (True, w3) \<Rightarrow> (0, w3))
      | (Inl (CreateFailed _), d) \<Rightarrow>
          (sv_retry_interval S, snd (requeue_or_retain S done1 [e1, e2] (w2\<lparr>mw_db := d\<rparr>)))
      | (Inr created, d) \<Rightarrow>
     (case sv_encode S ''match_start'' (Some (MatchStartData \<lparr>ms_match_id = uuid_string U (cm_match_id created),
              ms_problem_id = uuid_string U (cm_problem_id created), ms_deadline = cm_deadline created\<rparr>)) of
        Inl _ \<Rightarrow> (sv_retry_interval S, w2\<lparr>mw_db := d\<rparr>)
      | Inr payload \<Rightarrow>
          (case sv_publish S (qm_route (fst players)) payload (mw_pub w2) of (err1, p1) \<Rightarrow>
           (case sv_publish S (qm_route (snd players)) payload p1 of (err2, p2) \<Rightarrow>
              (if err1 \<noteq> None \<or> err2 \<noteq> None then sv_retry_interval S else 0,
               w2\<lparr>mw_db := d, mw_pub := p2\<rparr>)))))))"

text \<open>
  \<open>run\<close>: rounds until the context is cancelled, which is seen before a round
  (\<open>cancelled (2 * n)\<close>) or, after a positive delay, while waiting (\<open>cancelled (2 * n + 1)\<close>).
\<close>

fun match_run :: "(nat \<Rightarrow> bool) \<Rightarrow> (nat \<Rightarrow> 'w \<Rightarrow> int \<times> 'w) \<Rightarrow> nat \<Rightarrow> nat \<Rightarrow> 'w \<Rightarrow> (nat \<times> 'w) option" where
  "match_run cancelled step 0 n w = None"
| "match_run cancelled step (Suc fuel) n w =
     (if cancelled (2 * n) then Some (n, w)
      else case step n w of (delay, w1) \<Rightarrow>
        if delay \<le> 0 then match_run cancelled step fuel (Suc n) w1
        else if cancelled (2 * n + 1) then Some (n, w1) else match_run cancelled step fuel (Suc n) w1)"

text \<open>\<open>runSubmissionDispatcher\<close>: a dispatch round, whose error is only logged, then the interval.\<close>

fun dispatcher_run :: "(nat \<Rightarrow> bool) \<Rightarrow> (nat \<Rightarrow> 'w \<Rightarrow> (string + int) \<times> 'w) \<Rightarrow> nat \<Rightarrow> nat \<Rightarrow> 'w \<Rightarrow> (nat \<times> 'w) option" where
  "dispatcher_run cancelled pending 0 n w = None"
| "dispatcher_run cancelled pending (Suc fuel) n w =
     (if cancelled (2 * n) then Some (n, w)
      else let w1 = snd (pending n w) in
        if cancelled (2 * n + 1) then Some (n, w1) else dispatcher_run cancelled pending fuel (Suc n) w1)"

section \<open>Lemmas on creation\<close>

definition in_active_match :: "db \<Rightarrow> uuid \<Rightarrow> bool" where
  "in_active_match d u \<longleftrightarrow> (\<exists>c\<in>set (db_claims d). am_user_id c = u)"

lemma in_active_match_iff:
  assumes "db_inv d"
  shows "in_active_match d u \<longleftrightarrow> (\<exists>k. is_player d k u \<and> active_match d k)"
proof -
  have "in_active_match d u \<longleftrightarrow> (\<exists>k. \<exists>c\<in>set (db_claims d). am_user_id c = u \<and> am_match_id c = k)"
    by (auto simp: in_active_match_def)
  then show ?thesis
    using claim_iff [OF db_invD(5) [OF assms]] by simp
qed

lemma lock_players_Inr:
  "lock_players ext d ids = Inr missing \<Longrightarrow> missing = filter (\<lambda>u. user_of d u = None) ids"
  by (induction ids arbitrary: missing) (auto split: if_splits sum.splits)

lemma lock_players_ok:
  "(\<And>u. u \<in> set ids \<Longrightarrow> ext (CmLock u) = IoOk) \<Longrightarrow>
     lock_players ext d ids = Inr (filter (\<lambda>u. user_of d u = None) ids)"
  by (induction ids) auto

lemma load_claims_Inr:
  assumes "load_active_match_claims x ids d = Inr claims"
  shows "match_for claims u = (if u \<in> set ids then map_option am_match_id (row_of am_user_id u
      (sort_key am_user_id (filter (\<lambda>c. am_user_id c \<in> set ids) (db_claims d)))) else None)"
    "claims = [] \<longleftrightarrow> (\<forall>u\<in>set ids. \<not> in_active_match d u)"
proof -
  let ?t = "sort_key am_user_id (filter (\<lambda>c. am_user_id c \<in> set ids) (db_claims d))"
  let ?f = "\<lambda>c. \<lparr>ac_user_id = am_user_id c, ac_match_id = am_match_id c\<rparr>"
  have claims: "claims = map ?f ?t"
    using assms by (auto simp: load_active_match_claims_def split: if_splits)
  have f: "map_option ac_match_id (row_of ac_user_id u (map ?f t)) = map_option am_match_id (row_of am_user_id u t)" for t
    by (induction t) simp_all
  have "row_of am_user_id u ?t = None" if "u \<notin> set ids"
    using that by (auto simp: row_of_None_iff)
  then show "match_for claims u = (if u \<in> set ids then map_option am_match_id (row_of am_user_id u ?t) else None)"
    by (simp add: match_for_def claims f)
  have "claims = [] \<longleftrightarrow> set ?t = {}" unfolding set_empty by (simp add: claims)
  also have "\<dots> \<longleftrightarrow> (\<forall>u\<in>set ids. \<not> in_active_match d u)"
    unfolding set_sort set_filter in_active_match_def by blast
  finally show "claims = [] \<longleftrightarrow> (\<forall>u\<in>set ids. \<not> in_active_match d u)" .
qed

text \<open>The match a claim names is the user's active match.\<close>

lemma match_for_claims:
  assumes "db_inv d" "load_active_match_claims x ids d = Inr claims" "u \<in> set ids"
  shows "match_for claims u = Some k \<longleftrightarrow> is_player d k u \<and> active_match d k"
proof -
  let ?t = "sort_key am_user_id (filter (\<lambda>c. am_user_id c \<in> set ids) (db_claims d))"
  have "distinct (map am_user_id (filter (\<lambda>c. am_user_id c \<in> set ids) (db_claims d)))"
    using db_keys(6) [OF assms(1)] by (rule distinct_map_filter)
  then have dist: "distinct (map am_user_id ?t)" by (simp add: distinct_map)
  have "match_for claims u = Some k \<longleftrightarrow> (\<exists>c. row_of am_user_id u ?t = Some c \<and> am_match_id c = k)"
    using load_claims_Inr(1) [OF assms(2), of u] assms(3) by auto
  also have "\<dots> \<longleftrightarrow> (\<exists>c\<in>set (db_claims d). am_user_id c = u \<and> am_match_id c = k)"
    unfolding row_of_Some_iff [OF dist] using assms(3) by auto
  also have "\<dots> \<longleftrightarrow> is_player d k u \<and> active_match d k"
    by (rule claim_iff [OF db_invD(5) [OF assms(1)]])
  finally show ?thesis .
qed

lemma insert_players_two:
  assumes "insert_players ext mid 0 [u, v] d1 = Inr d2"
  obtains d where "insert_player \<lparr>mp_match_id = mid, mp_user_id = u, mp_slot = 1\<rparr> d1 = Inr d"
    "insert_player \<lparr>mp_match_id = mid, mp_user_id = v, mp_slot = 2\<rparr> d = Inr d2"
  using assms by (auto split: if_splits sum.splits)

text \<open>A transaction that creates a match: who, which problem, and the database it leaves.\<close>

lemma create_match_tx_Inr:
  assumes "create_match_tx ext now mid duration ps d = Inr (cm, d2)"
  obtains p d1 where "select_problem d = Some p"
    "insert_match (new_match now mid (p_id p) duration) d = Some d1"
    "insert_players ext mid 0 [qm_user_id (fst ps), qm_user_id (snd ps)] d1 = Inr d2"
    "cm = \<lparr>cm_match_id = mid, cm_problem_id = p_id p,
           cm_deadline = now + milliseconds duration * 1000, cm_players = ps\<rparr>"
    "user_of d (qm_user_id (fst ps)) \<noteq> None" "user_of d (qm_user_id (snd ps)) \<noteq> None"
    "\<not> in_active_match d (qm_user_id (fst ps))" "\<not> in_active_match d (qm_user_id (snd ps))"
proof -
  let ?us = "[qm_user_id (fst ps), qm_user_id (snd ps)]"
  obtain missing where m: "lock_players ext d (sort ?us) = Inr missing"
    using assms by (auto simp: create_match_tx_def Let_def split: sum.splits)
  obtain claims where c: "load_active_match_claims (ext CmClaims) (sort ?us) d = Inr claims"
    using assms m by (auto simp: create_match_tx_def Let_def split: sum.splits)
  have none: "missing = []" "claims = []"
    using assms m c by (auto simp: create_match_tx_def Let_def split: if_splits)
  obtain p where p: "select_problem d = Some p"
    using assms m c none by (auto simp: create_match_tx_def Let_def split: if_splits option.splits)
  obtain d1 where d1: "insert_match (new_match now mid (p_id p) duration) d = Some d1"
    using assms m c none p by (auto simp: create_match_tx_def Let_def split: if_splits option.splits)
  have ins: "insert_players ext mid 0 ?us d1 = Inr d2" and cm: "cm = \<lparr>cm_match_id = mid, cm_problem_id = p_id p,
           cm_deadline = m_deadline (new_match now mid (p_id p) duration), cm_players = ps\<rparr>"
    using assms m c none p d1
    by (auto simp: create_match_tx_def Let_def simp del: insert_players.simps sort_key_simps split: if_splits sum.splits)
  have us: "user_of d u \<noteq> None" "\<not> in_active_match d u" if "u \<in> set ?us" for u
  proof -
    have "filter (\<lambda>u. user_of d u = None) (sort ?us) = []" using lock_players_Inr [OF m] none by simp
    then show "user_of d u \<noteq> None" using that unfolding filter_empty_conv set_sort by blast
    show "\<not> in_active_match d u" using load_claims_Inr(2) [OF c] none that unfolding set_sort by blast
  qed
  show thesis
    by (rule that [OF p d1 ins _ us(1) us(1) us(2) us(2)]) (simp_all add: cm new_match_def)
qed

lemma select_problem_first:
  assumes "select_problem d = Some p"
  shows "p \<in> set (db_problems d)" "q \<in> set (db_problems d) \<Longrightarrow> (p_created_at p, p_id p) \<le> (p_created_at q, p_id q)"
proof -
  let ?k = "\<lambda>p. (p_created_at p, p_id p)"
  obtain ps where ps: "sort_key ?k (db_problems d) = p # ps"
    using assms by (auto simp: select_problem_def split: list.splits)
  have set: "set (p # ps) = set (db_problems d)" unfolding ps [symmetric] by simp
  then show "p \<in> set (db_problems d)" by auto
  have "sorted (map ?k (p # ps))" unfolding ps [symmetric] by simp
  then show "q \<in> set (db_problems d) \<Longrightarrow> ?k p \<le> ?k q" using set by auto
qed

lemma select_problem_None: "select_problem d = None \<longleftrightarrow> db_problems d = []"
proof -
  have "select_problem d = None \<longleftrightarrow> sort_key (\<lambda>p. (p_created_at p, p_id p)) (db_problems d) = []"
    by (simp add: select_problem_def split: list.split)
  then show ?thesis by (metis length_0_conv length_sort)
qed

lemma no_players_of_new_match:
  assumes "db_inv d" "match_of d mid = None"
  shows "filter (\<lambda>p. mp_match_id p = mid) (db_players d) = []"
proof -
  have "mp_match_id p \<noteq> mid" if "p \<in> set (db_players d)" for p
    using db_invD(4) [OF assms(1) that] assms(2) by (auto simp: player_ok_def)
  then show ?thesis by (simp add: filter_empty_conv)
qed

lemma insert_match_in_active: "insert_match m d = Some d1 \<Longrightarrow> in_active_match d1 u = in_active_match d u"
  by (drule insert_match_SomeD(1)) (simp add: in_active_match_def)

text \<open>The two player rows of a new match go in exactly when neither user has a claim.\<close>

lemma insert_players_new_match:
  assumes inv: "db_inv d" and m: "insert_match (new_match now mid pid duration) d = Some d1"
    and ins: "insert_players ext mid 0 [u, v] d1 = Inr d2"
  shows "db_inv d2" "players_of d2 mid = [u, v]" "match_of d2 = match_of d1" "db_submissions d2 = db_submissions d"
    "in_active_match d2 w \<longleftrightarrow> in_active_match d w \<or> w = u \<or> w = v" "u \<noteq> v"
    "k \<noteq> mid \<Longrightarrow> players_of d2 k = players_of d k"
proof -
  note m1 = insert_match_SomeD [OF m]
  obtain d1' where i1: "insert_player \<lparr>mp_match_id = mid, mp_user_id = u, mp_slot = 1\<rparr> d1 = Inr d1'"
    and i2: "insert_player \<lparr>mp_match_id = mid, mp_user_id = v, mp_slot = 2\<rparr> d1' = Inr d2"
    using ins by (rule insert_players_two)
  have inv1: "db_inv d1" using inv m by (rule insert_match_inv) (simp add: new_match_def)
  have inv1': "db_inv d1'" using inv1 i1 by (rule insert_player_inv)
  show "db_inv d2" using inv1' i2 by (rule insert_player_inv)
  note p1 = insert_player_InrD [OF i1] and p2 = insert_player_InrD [OF i2]
  show mo: "match_of d2 = match_of d1" by (simp add: match_of_def fun_eq_iff p1 p2)
  show "db_submissions d2 = db_submissions d" by (simp add: p1 p2 m1)
  have none: "filter (\<lambda>p. mp_match_id p = mid) (db_players d) = []"
    using inv m1(2) by (intro no_players_of_new_match) (simp_all add: new_match_def)
  have pl: "db_players d2 = db_players d @ [\<lparr>mp_match_id = mid, mp_user_id = u, mp_slot = 1\<rparr>,
      \<lparr>mp_match_id = mid, mp_user_id = v, mp_slot = 2\<rparr>]"
    by (simp add: p1 p2 m1)
  show "players_of d2 mid = [u, v]" by (simp add: players_of_def pl none)
  show "k \<noteq> mid \<Longrightarrow> players_of d2 k = players_of d k" by (simp add: players_of_def pl)
  show "u \<noteq> v" using p2(7) by (auto simp: is_player_def p1(5))
  have act: "active_match d1 mid" using m1(5) by (simp add: active_match_def new_match_def)
  then have "active_match d1' mid" by (simp add: active_match_def match_of_def p1)
  with act have "db_claims d2 = db_claims d @ [\<lparr>am_user_id = u, am_match_id = mid\<rparr>, \<lparr>am_user_id = v, am_match_id = mid\<rparr>]"
    by (simp add: p1 p2 m1)
  then show "in_active_match d2 w \<longleftrightarrow> in_active_match d w \<or> w = u \<or> w = v"
    by (auto simp: in_active_match_def)
qed

lemma insert_players_new_match_ok:
  assumes inv: "db_inv d" and m: "insert_match (new_match now mid pid duration) d = Some d1"
    and u: "user_of d u \<noteq> None" "user_of d v \<noteq> None" "u \<noteq> v" "\<not> in_active_match d u" "\<not> in_active_match d v"
  shows "insert_players ext mid 0 [u, v] d1 \<noteq> Inl True"
    "(\<And>i. ext (CmInsertPlayer i) = IoOk) \<Longrightarrow> \<exists>d2. insert_players ext mid 0 [u, v] d1 = Inr d2"
proof -
  let ?pu = "\<lparr>mp_match_id = mid, mp_user_id = u, mp_slot = 1\<rparr>" and ?pv = "\<lparr>mp_match_id = mid, mp_user_id = v, mp_slot = 2\<rparr>"
  note m1 = insert_match_SomeD [OF m]
  have none: "mp_match_id p \<noteq> mid" if "p \<in> set (db_players d)" for p
    using no_players_of_new_match [OF inv] m1(2) that by (auto simp: filter_empty_conv new_match_def)
  have act: "match_of d1 mid = Some (new_match now mid pid duration)" using m1(5) by (simp add: new_match_def)
  let ?d1' = "d1\<lparr>db_players := db_players d1 @ [?pu], db_claims := db_claims d1 @ [\<lparr>am_user_id = u, am_match_id = mid\<rparr>]\<rparr>"
  have i1: "insert_player ?pu d1 = Inr ?d1'"
    using none u(1,4) act
    by (auto simp: insert_player_def is_player_def m1(1) Let_def in_active_match_def new_match_def user_of_def)
  have act': "match_of ?d1' mid = Some (new_match now mid pid duration)" using act by (simp add: match_of_def)
  have i2: "\<exists>d2. insert_player ?pv ?d1' = Inr d2"
    using none u(2,3,5) act'
    by (auto simp: insert_player_def is_player_def m1(1) Let_def in_active_match_def new_match_def user_of_def)
  then show "insert_players ext mid 0 [u, v] d1 \<noteq> Inl True"
    using i1 by (auto split: sum.splits)
  show "(\<And>i. ext (CmInsertPlayer i) = IoOk) \<Longrightarrow> \<exists>d2. insert_players ext mid 0 [u, v] d1 = Inr d2"
    using i1 i2 by auto
qed


lemma create_match_Inr:
  assumes "create_match U has_db duration ext now mid ps d = (Inr cm, d')"
  shows "create_match_tx ext now mid duration ps d = Inr (cm, d')" "0 < milliseconds duration"
    "member_validate U (fst ps) = None" "member_validate U (snd ps) = None"
  using assms by (auto simp: create_match_def split: if_splits sum.splits)

text \<open>What a transaction that creates a match does, committed or not.\<close>

lemma create_match_tx_creates:
  assumes "db_inv d" and "create_match_tx ext now mid duration ps d = Inr (cm, d')"
  shows "db_inv d'" "match_of d mid = None" "players_of d' mid = [qm_user_id (fst ps), qm_user_id (snd ps)]"
    "qm_user_id (fst ps) \<noteq> qm_user_id (snd ps)"
    "cm_match_id cm = mid" "cm_players cm = ps" "cm_deadline cm = now + milliseconds duration * 1000"
    "match_of d' k = (if k = mid then Some (new_match now mid (cm_problem_id cm) duration) else match_of d k)"
    "\<exists>p. select_problem d = Some p \<and> p_id p = cm_problem_id cm"
    "user_of d (qm_user_id (fst ps)) \<noteq> None" "user_of d (qm_user_id (snd ps)) \<noteq> None"
    "\<not> in_active_match d (qm_user_id (fst ps))" "\<not> in_active_match d (qm_user_id (snd ps))"
    "in_active_match d' w \<longleftrightarrow> in_active_match d w \<or> w = qm_user_id (fst ps) \<or> w = qm_user_id (snd ps)"
    "db_submissions d' = db_submissions d" "k \<noteq> mid \<Longrightarrow> players_of d' k = players_of d k"
proof -
  obtain p d1 where p: "select_problem d = Some p"
    and m: "insert_match (new_match now mid (p_id p) duration) d = Some d1"
    and ins: "insert_players ext mid 0 [qm_user_id (fst ps), qm_user_id (snd ps)] d1 = Inr d'"
    and cm: "cm = \<lparr>cm_match_id = mid, cm_problem_id = p_id p,
           cm_deadline = now + milliseconds duration * 1000, cm_players = ps\<rparr>"
    and us: "user_of d (qm_user_id (fst ps)) \<noteq> None" "user_of d (qm_user_id (snd ps)) \<noteq> None"
    "\<not> in_active_match d (qm_user_id (fst ps))" "\<not> in_active_match d (qm_user_id (snd ps))"
    using assms(2) by (rule create_match_tx_Inr)
  note i = insert_players_new_match [OF assms(1) m ins]
  show "db_inv d'" "players_of d' mid = [qm_user_id (fst ps), qm_user_id (snd ps)]"
    "qm_user_id (fst ps) \<noteq> qm_user_id (snd ps)" "db_submissions d' = db_submissions d"
    by (fact i(1) i(2) i(6) i(4))+
  show "in_active_match d' w \<longleftrightarrow> in_active_match d w \<or> w = qm_user_id (fst ps) \<or> w = qm_user_id (snd ps)"
    by (rule i(5))
  show "k \<noteq> mid \<Longrightarrow> players_of d' k = players_of d k" by (rule i(7))
  show "match_of d mid = None" using insert_match_SomeD(2) [OF m] by (simp add: new_match_def)
  show "match_of d' k = (if k = mid then Some (new_match now mid (cm_problem_id cm) duration) else match_of d k)"
    unfolding i(3) using insert_match_SomeD(5) [OF m, of k] by (simp add: cm new_match_def)
  show "\<exists>p. select_problem d = Some p \<and> p_id p = cm_problem_id cm" using p cm by simp
  show "cm_match_id cm = mid" "cm_players cm = ps" "cm_deadline cm = now + milliseconds duration * 1000"
    by (simp_all add: cm)
  show "user_of d (qm_user_id (fst ps)) \<noteq> None" "user_of d (qm_user_id (snd ps)) \<noteq> None"
    "\<not> in_active_match d (qm_user_id (fst ps))" "\<not> in_active_match d (qm_user_id (snd ps))"
    by (fact us)+
qed

lemma create_match_db_cases:
  assumes "create_match U has_db duration ext now mid ps d = (res, d')"
  obtains "d' = d" "\<And>cm. res \<noteq> Inr cm" | cm where "create_match_tx ext now mid duration ps d = Inr (cm, d')"
    "res = Inr cm \<or> ext CmCommit = IoLost"
proof -
  consider "d' = d \<and> (\<forall>cm. res \<noteq> Inr cm)"
    | cm where "create_match_tx ext now mid duration ps d = Inr (cm, d')" "res = Inr cm \<or> ext CmCommit = IoLost"
    using assms by (cases "ext CmCommit") (auto simp: create_match_def split: if_splits sum.splits prod.splits)
  then show thesis using that by blast
qed

lemma create_match_inv [inv_intros]:
  assumes "db_inv d" "create_match U has_db duration ext now mid ps d = (res, d')"
  shows "db_inv d'"
  using assms(2)
proof (cases rule: create_match_db_cases)
  case 1
  with assms(1) show ?thesis by simp
next
  case (2 cm)
  from create_match_tx_creates(1) [OF assms(1) this(1)] show ?thesis .
qed


lemma eligible_players:
  assumes "filter (\<lambda>u. user_of d u = None) (sort us) = []" "load_active_match_claims x (sort us) d = Inr []" "v \<in> set us"
  shows "user_of d v \<noteq> None" "\<not> in_active_match d v"
proof -
  show "user_of d v \<noteq> None" using assms(1,3) unfolding filter_empty_conv set_sort by blast
  show "\<not> in_active_match d v" using load_claims_Inr(2) [OF assms(2)] assms(3) unfolding set_sort by blast
qed

text \<open>An ineligibility error reports exactly the missing users and the active matches of the others.\<close>

lemma create_match_tx_ineligible:
  assumes inv: "db_inv d" and ne: "qm_user_id (fst ps) \<noteq> qm_user_id (snd ps)"
    and tx: "create_match_tx ext now mid duration ps d = Inl (CreateIneligible missing active)"
    and u: "u = qm_user_id (fst ps) \<or> u = qm_user_id (snd ps)"
  shows "reported_missing missing u \<longleftrightarrow> user_of d u = None"
    "reported_match active u = Some k \<longleftrightarrow> is_player d k u \<and> active_match d k"
    "\<exists>v. (v = qm_user_id (fst ps) \<or> v = qm_user_id (snd ps)) \<and> (user_of d v = None \<or> in_active_match d v)"
proof -
  let ?us = "[qm_user_id (fst ps), qm_user_id (snd ps)]"
  obtain ms where ms: "lock_players ext d (sort ?us) = Inr ms"
    using tx by (auto simp: create_match_tx_def Let_def split: sum.splits)
  obtain cs where cs: "load_active_match_claims (ext CmClaims) (sort ?us) d = Inr cs"
    using tx ms by (auto simp: create_match_tx_def Let_def split: sum.splits)
  note msf = lock_players_Inr [OF ms] and csf = load_claims_Inr(2) [OF cs]
  have ineligible: "ms \<noteq> [] \<or> cs \<noteq> []"
  proof (rule ccontr)
    assume none: "\<not> (ms \<noteq> [] \<or> cs \<noteq> [])"
    have ok: "user_of d v \<noteq> None" "\<not> in_active_match d v" if "v \<in> set ?us" for v
      using eligible_players [OF _ _ that] none msf cs by simp_all
    obtain p :: problem_row and d1 where "insert_match (new_match now mid (p_id p) duration) d = Some d1"
        "insert_players ext mid 0 ?us d1 = Inl True"
      using tx ms cs none
      by (auto simp: create_match_tx_def Let_def simp del: insert_players.simps sort_key_simps
          split: if_splits sum.splits option.splits)
    with insert_players_new_match_ok(1) [OF inv this(1) ok(1) ok(1) ne ok(2) ok(2)] show False by simp
  qed
  then have res: "missing = (if ms \<noteq> [] then Some ms else None)" "active = (if cs \<noteq> [] then Some cs else None)"
    using tx ms cs by (auto simp: create_match_tx_def Let_def)
  have us: "u \<in> set (sort ?us)" unfolding set_sort using u by auto
  show "reported_missing missing u \<longleftrightarrow> user_of d u = None"
    using us unfolding reported_missing_def missing_has_def res by (cases "ms = []") (auto simp: msf filter_empty_conv simp del: sort_key_simps)
  show "reported_match active u = Some k \<longleftrightarrow> is_player d k u \<and> active_match d k"
    using match_for_claims [OF inv cs us, of k] by (auto simp: reported_match_def res match_for_def)
  show "\<exists>v. (v = qm_user_id (fst ps) \<or> v = qm_user_id (snd ps)) \<and> (user_of d v = None \<or> in_active_match d v)"
    using ineligible csf unfolding msf filter_empty_conv set_sort by auto
qed

text \<open>With every statement going through, a transaction fails on ineligible players only.\<close>

lemma create_match_tx_total:
  assumes inv: "db_inv d" and ne: "qm_user_id (fst ps) \<noteq> qm_user_id (snd ps)"
    and fresh: "match_of d mid = None" and prob: "db_problems d \<noteq> []"
  shows "create_match_tx (\<lambda>_. IoOk) now mid duration ps d \<noteq> Inl (CreateFailed e)"
proof -
  let ?us = "[qm_user_id (fst ps), qm_user_id (snd ps)]"
  let ?ms = "filter (\<lambda>u. user_of d u = None) (sort ?us)"
  have ms: "lock_players (\<lambda>_. IoOk) d (sort ?us) = Inr ?ms" by (rule lock_players_ok) simp
  obtain cs where cs: "load_active_match_claims IoOk (sort ?us) d = Inr cs"
    by (simp add: load_active_match_claims_def)
  note csf = load_claims_Inr(2) [OF cs]
  show ?thesis
  proof (cases "?ms \<noteq> [] \<or> cs \<noteq> []")
    case True
    with ms cs show ?thesis by (simp add: create_match_tx_def Let_def del: sort_key_simps) blast?
  next
    case False
    have ok: "user_of d v \<noteq> None" "\<not> in_active_match d v" if "v \<in> set ?us" for v
      using eligible_players [OF _ _ that] False cs by simp_all
    obtain p where p: "select_problem d = Some p" using prob select_problem_None [of d] by blast
    have "p \<in> set (db_problems d)" by (rule select_problem_first(1) [OF p])
    then have "problem_of d (p_id p) \<noteq> None" by (auto simp: problem_of_def row_of_None_iff)
    then obtain d1 where d1: "insert_match (new_match now mid (p_id p) duration) d = Some d1"
      using fresh by (simp add: insert_match_def new_match_def match_checks_def)
    obtain d2 where "insert_players (\<lambda>_. IoOk) mid 0 ?us d1 = Inr d2"
      using insert_players_new_match_ok(2) [OF inv d1 ok(1) ok(1) ne ok(2) ok(2), of "\<lambda>_. IoOk"]
      by (auto simp del: insert_players.simps)
    with ms cs False p d1 show ?thesis
      by (simp add: create_match_tx_def Let_def del: insert_players.simps sort_key_simps)
  qed
qed


section \<open>Properties of creation\<close>

text \<open>
  Property C17. A created match is complete: \<open>createMatch\<close> returns a match only when both users
  existed and had no active match. The database then has one more match, active, on the
  earliest problem, with a deadline in the future, the two users as its only players in the
  order given, and both of them, nobody else, newly in an active match; everything else and the
  invariant are kept.
\<close>

theorem create_match_creates:
  assumes "db_inv d" and "create_match U has_db duration ext now mid ps d = (Inr cm, d')"
  shows "db_inv d' \<and> cm_match_id cm = mid \<and> cm_players cm = ps \<and> match_of d mid = None
    \<and> (\<forall>k. match_of d' k = (if k = mid then Some \<lparr>m_id = mid, m_problem_id = cm_problem_id cm, m_status = ''active'',
          m_winner_id = None, m_deadline = cm_deadline cm, m_created_at = now\<rparr> else match_of d k))
    \<and> now < cm_deadline cm
    \<and> (\<exists>p. p \<in> set (db_problems d) \<and> p_id p = cm_problem_id cm
         \<and> (\<forall>q\<in>set (db_problems d). (p_created_at p, p_id p) \<le> (p_created_at q, p_id q)))
    \<and> players_of d' mid = [qm_user_id (fst ps), qm_user_id (snd ps)]
    \<and> qm_user_id (fst ps) \<noteq> qm_user_id (snd ps)
    \<and> user_of d (qm_user_id (fst ps)) \<noteq> None \<and> user_of d (qm_user_id (snd ps)) \<noteq> None
    \<and> {u. in_active_match d' u} = {u. in_active_match d u} \<union> {qm_user_id (fst ps), qm_user_id (snd ps)}
    \<and> {u. in_active_match d u} \<inter> {qm_user_id (fst ps), qm_user_id (snd ps)} = {}
    \<and> db_submissions d' = db_submissions d"
proof -
  note cm = create_match_Inr [OF assms(2)]
  note c = create_match_tx_creates [OF assms(1) cm(1)]
  obtain p where p: "select_problem d = Some p" "p_id p = cm_problem_id cm" using c(9) by blast
  have "now < cm_deadline cm" using cm(2) by (simp add: c(7))
  moreover have "\<forall>k. match_of d' k = (if k = mid then Some \<lparr>m_id = mid, m_problem_id = cm_problem_id cm, m_status = ''active'',
      m_winner_id = None, m_deadline = cm_deadline cm, m_created_at = now\<rparr> else match_of d k)"
    using c(8) by (simp add: c(7) new_match_def)
  moreover have "\<exists>p. p \<in> set (db_problems d) \<and> p_id p = cm_problem_id cm
      \<and> (\<forall>q\<in>set (db_problems d). (p_created_at p, p_id p) \<le> (p_created_at q, p_id q))"
    using select_problem_first [OF p(1)] p(2) by blast
  moreover have "{u. in_active_match d' u} = {u. in_active_match d u} \<union> {qm_user_id (fst ps), qm_user_id (snd ps)}"
    using c(14) by blast
  moreover have "{u. in_active_match d u} \<inter> {qm_user_id (fst ps), qm_user_id (snd ps)} = {}"
    using c(12,13) by blast
  ultimately show ?thesis using c(1-6,10,11,15) by (intro conjI)
qed

definition ex_mdb :: db where
  "ex_mdb = (ex_db [])\<lparr>db_users := [ex_user 1, ex_user 2, ex_user 3, ex_user 4]\<rparr>"

definition ex_create :: "uuid \<Rightarrow> uuid \<Rightarrow> db \<Rightarrow> (create_error + created_match) \<times> db" where
  "ex_create u v = create_match ex_ids True 60000000000 (\<lambda>_. IoOk) 2000 102 (ex_member u, ex_member v)"

lemma ex_mdb_inv: "db_inv ex_mdb"
  by code_simp

theorem create_match_creates_witness:
  "\<exists>cm d'. ex_create 3 4 ex_mdb = (Inr cm, d') \<and> players_of d' 102 = [3, 4] \<and> cm_match_id cm = 102"
proof -
  have "case ex_create 3 4 ex_mdb of (Inr cm, d') \<Rightarrow> True | _ \<Rightarrow> False" by code_simp
  then obtain cm d' where r: "ex_create 3 4 ex_mdb = (Inr cm, d')" by (auto split: prod.splits sum.splits)
  from create_match_creates [OF ex_mdb_inv r [unfolded ex_create_def]] r show ?thesis
    by (simp add: ex_member_def)
qed




section \<open>The contract of the queue and the round that relies on it\<close>

text \<open>
  What the service relies on: an entry \<open>Requeue\<close> reported back is settled. The service itself
  must never drop an entry that is neither settled, nor still pending, nor accounted for by
  the database.
\<close>

locale pair_queue =
  fixes requeue :: "call_context \<Rightarrow> queue_entry list \<Rightarrow> 'q \<Rightarrow> string option \<times> 'q"
    and settled :: "'q \<Rightarrow> queue_entry \<Rightarrow> bool"
    and genuine :: "queue_entry \<Rightarrow> bool"
  assumes requeue_settles:
    "requeue c es q = (None, q') \<Longrightarrow> e \<in> set es \<Longrightarrow> genuine e \<Longrightarrow> settled q' e"
begin

definition kept :: "('d, 'q, 'p) match_world \<Rightarrow> queue_entry \<Rightarrow> bool" where
  "kept w e \<longleftrightarrow> e \<in> set (mw_pending w) \<or> settled (mw_queue w) e"

lemma requeue_or_retain_keeps:
  assumes "requeue_or_retain S done es w = (ok, w')" "sv_requeue S = requeue" "e \<in> set es" "genuine e"
  shows "kept w' e"
proof -
  let ?c = "if done then FreshContext requeue_timeout else CallerContext False"
  obtain err q where r: "requeue ?c es (mw_queue w) = (err, q)" by fastforce
  have step: "(case err of None \<Rightarrow> (True, w\<lparr>mw_queue := q\<rparr>)
      | Some _ \<Rightarrow> (False, w\<lparr>mw_queue := q, mw_pending := mw_pending w @ es\<rparr>)) = (ok, w')"
    using assms(1,3) unfolding requeue_or_retain_def assms(2) r by (cases es) simp_all
  show ?thesis
  proof (cases err)
    case None
    with step have "w' = w\<lparr>mw_queue := q\<rparr>" by simp
    with requeue_settles [OF r [unfolded None] assms(3,4)] show ?thesis by (simp add: kept_def)
  next
    case (Some m)
    with step have "e \<in> set (mw_pending w')" using assms(3) by auto
    then show ?thesis by (simp add: kept_def)
  qed
qed

lemma sort_out_players_fst:
  "fst (sort_out_players U S active missing es p) =
     filter (\<lambda>e. \<not> reported_missing missing (qm_user_id (qe_member e)) \<and> reported_match active (qm_user_id (qe_member e)) = None) es"
proof (induction es arbitrary: p)
  case (Cons e es)
  show ?case using Cons.IH by (simp add: Let_def case_prod_beta split: option.split)
qed simp

lemma handle_ineligible_players_keeps:
  assumes "handle_ineligible_players U S done (e1, e2) active missing w = (ok, w')" "sv_requeue S = requeue"
    and "e = e1 \<or> e = e2" "genuine e"
    and "\<not> reported_missing missing (qm_user_id (qe_member e))" "reported_match active (qm_user_id (qe_member e)) = None"
  shows "kept w' e"
proof -
  obtain eligible p where so: "sort_out_players U S active missing [e1, e2] (mw_pub w) = (eligible, p)" by fastforce
  with assms(1) have r: "requeue_or_retain S done eligible (w\<lparr>mw_pub := p\<rparr>) = (ok, w')"
    by (simp add: handle_ineligible_players_def del: sort_out_players.simps)
  have "eligible = filter (\<lambda>e. \<not> reported_missing missing (qm_user_id (qe_member e))
      \<and> reported_match active (qm_user_id (qe_member e)) = None) [e1, e2]"
    using sort_out_players_fst [of U S active missing "[e1, e2]" "mw_pub w"] so by (simp only: fst_conv)
  then have "e \<in> set eligible" using assms(3,5,6) by auto
  with requeue_or_retain_keeps [OF r assms(2)] assms(4) show ?thesis by simp
qed

end

lemma requeue_or_retain_db: "mw_db (snd (requeue_or_retain S done es w)) = mw_db w"
  by (simp add: requeue_or_retain_def split: prod.split option.split)

lemma handle_ineligible_players_db: "mw_db (snd (handle_ineligible_players U S done pair active missing w)) = mw_db w"
  by (simp add: handle_ineligible_players_def requeue_or_retain_db split: prod.split)

text \<open>A round that popped a pair: what became of it.\<close>

lemma match_step_popped:
  assumes "match_step U S done0 done1 w = (delay, w')" "restore_pending S done0 w = (True, w1)"
    and "sv_pop S (mw_queue w1) = (Inr (Some (e1, e2)), q)"
  obtains (created) cm where "sv_create S (qe_member e1, qe_member e2) (mw_db w1) = (Inr cm, mw_db w')"
  | (failed) m d where "sv_create S (qe_member e1, qe_member e2) (mw_db w1) = (Inl (CreateFailed m), d)"
      "w' = snd (requeue_or_retain S done1 [e1, e2] (w1\<lparr>mw_queue := q, mw_db := d\<rparr>))"
  | (ineligible) missing active d where
      "sv_create S (qe_member e1, qe_member e2) (mw_db w1) = (Inl (CreateIneligible missing active), d)"
      "w' = snd (handle_ineligible_players U S done1 (e1, e2) active missing (w1\<lparr>mw_queue := q, mw_db := d\<rparr>))"
proof -
  obtain res d where c: "sv_create S (qe_member e1, qe_member e2) (mw_db w1) = (res, d)" by fastforce
  show thesis
  proof (cases res)
    case (Inr cm)
    have "mw_db w' = d"
      using assms c Inr by (auto simp: match_step_def Let_def split: sum.splits prod.splits if_splits)
    with created c Inr show thesis by simp
  next
    case (Inl e)
    show thesis
    proof (cases e)
      case (CreateFailed m)
      with assms c Inl show thesis by (intro failed) (auto simp: match_step_def Let_def)
    next
      case (CreateIneligible missing active)
      with assms c Inl show thesis
        by (intro ineligible) (auto simp: match_step_def Let_def split: prod.splits bool.splits)
    qed
  qed
qed

definition settled_entry :: "uuid_lib \<Rightarrow> mm \<Rightarrow> queue_entry \<Rightarrow> bool" where
  "settled_entry U s e \<longleftrightarrow> mm_members s (uuid_string U (qm_user_id (qe_member e))) \<noteq> None
     \<or> \<not> mm_presence s (qm_presence_key (qe_member e))"

interpretation pq: pair_queue "\<lambda>c. queue_requeue U C client (y c)" "settled_entry U"
  "\<lambda>e. member_text U C (qe_encoded e) (qe_member e)" for U C client y
  by unfold_locales (simp only: settled_entry_def, rule queue_requeue_settles)


section \<open>Properties of the service\<close>



definition ex_match_service :: "uuid \<Rightarrow> (db, mm, (string \<times> envelope) list) match_service" where
  "ex_match_service mid = \<lparr>sv_pop = queue_pop_pair ex_ids ex_codec True 100 IoOk,
     sv_requeue = (\<lambda>c. queue_requeue ex_ids ex_codec True IoOk),
     sv_create = create_match ex_ids True 60000000000 (\<lambda>_. IoOk) 2000 mid,
     sv_publish = redis_publish (\<lambda>_. IoOk), sv_encode = encode,
     sv_poll_interval = default_poll_interval, sv_retry_interval = default_retry_interval\<rparr>"

definition ex_match_world :: "string \<Rightarrow> (db, mm, (string \<times> envelope) list) match_world" where
  "ex_match_world cs = \<lparr>mw_pending = [], mw_db = ex_mdb, mw_queue = ex_mm cs, mw_pub = []\<rparr>"

lemma ex_match_world_simps:
  "restore_pending S done0 (ex_match_world cs) = (True, ex_match_world cs)"
  "mw_db (ex_match_world cs) = ex_mdb" "mw_queue (ex_match_world cs) = ex_mm cs" "mw_pub (ex_match_world cs) = []"
  by (simp_all add: restore_pending_def ex_match_world_def)

lemma ex_pop_da:
  "queue_pop_pair ex_ids ex_codec True 100 IoOk (ex_mm ''da'') =
    (Inr (Some (\<lparr>qe_member = ex_member 4, qe_score = 5, qe_encoded = ''d''\<rparr>,
                \<lparr>qe_member = ex_member 1, qe_score = 6, qe_encoded = ''a''\<rparr>)),
     snd (queue_pop_pair ex_ids ex_codec True 100 IoOk (ex_mm ''da'')))"
proof -
  have "fst (queue_pop_pair ex_ids ex_codec True 100 IoOk (ex_mm ''da'')) =
    Inr (Some (\<lparr>qe_member = ex_member 4, qe_score = 5, qe_encoded = ''d''\<rparr>,
                \<lparr>qe_member = ex_member 1, qe_score = 6, qe_encoded = ''a''\<rparr>))"
    by code_simp
  then show ?thesis by (simp add: prod_eq_iff)
qed

lemma ex_texts_da: "texts_ok ex_ids ex_codec (ex_mm ''da'')"
  by code_simp


text \<open>The messages a round has to send, by what became of the match.\<close>

definition start_message :: "uuid_lib \<Rightarrow> created_match \<Rightarrow> envelope" where
  "start_message U cm = \<lparr>env_type = ''match_start'', env_data = Some (MatchStartData
     \<lparr>ms_match_id = uuid_string U (cm_match_id cm), ms_problem_id = uuid_string U (cm_problem_id cm),
      ms_deadline = cm_deadline cm\<rparr>)\<rparr>"

definition active_match_message :: "uuid_lib \<Rightarrow> uuid \<Rightarrow> envelope" where
  "active_match_message U k = \<lparr>env_type = ''error'', env_data = Some (ErrorData \<lparr>ed_code = ''already_in_match'',
     ed_message = ''player already has an active match'', ed_match_id = uuid_string U k, ed_request_id = ''''\<rparr>)\<rparr>"

definition due_messages :: "uuid_lib \<Rightarrow> queue_entry list \<Rightarrow> create_error + created_match \<Rightarrow> (string \<times> envelope) list" where
  "due_messages U es res =
     (case res of
        Inr cm \<Rightarrow> map (\<lambda>e. (qm_route (qe_member e), start_message U cm)) es
      | Inl (CreateFailed _) \<Rightarrow> []
      | Inl (CreateIneligible missing active) \<Rightarrow> concat (map (\<lambda>e.
          if reported_missing missing (qm_user_id (qe_member e)) then []
          else case reported_match active (qm_user_id (qe_member e)) of
              None \<Rightarrow> [] | Some k \<Rightarrow> [(qm_route (qe_member e), active_match_message U k)]) es))"

lemma redis_publish_log: "snd (redis_publish px ch e p) = p @ filter (\<lambda>m. io_applied (px (fst m))) [(ch, e)]"
  by (simp add: redis_publish_def)

lemma redis_publish_err: "fst (redis_publish px ch e p) = None \<longleftrightarrow> px ch = IoOk"
  by (simp add: redis_publish_def)

lemma due_messages_Cons:
  "due_messages U (e # es) (Inl (CreateIneligible missing active)) =
     (if reported_missing missing (qm_user_id (qe_member e)) then []
      else case reported_match active (qm_user_id (qe_member e)) of
          None \<Rightarrow> [] | Some k \<Rightarrow> [(qm_route (qe_member e), active_match_message U k)])
     @ due_messages U es (Inl (CreateIneligible missing active))"
  by (simp add: due_messages_def)

lemma sort_out_players_log:
  assumes "sv_publish S = redis_publish px" "sv_encode S = encode"
  shows "snd (sort_out_players U S active missing es p) =
    p @ filter (\<lambda>m. io_applied (px (fst m))) (due_messages U es (Inl (CreateIneligible missing active)))"
proof (induction es arbitrary: p)
  case (Cons e es)
  have pub: "publish_active_match_error U S route k p = p @ filter (\<lambda>m. io_applied (px (fst m))) [(route, active_match_message U k)]" for route k p
    by (simp add: publish_active_match_error_def assms encode_def active_match_message_def redis_publish_log)
  show ?case
  proof (cases "reported_missing missing (qm_user_id (qe_member e))")
    case True
    then show ?thesis by (simp add: Let_def Cons.IH due_messages_Cons)
  next
    case False
    then show ?thesis
      by (cases "reported_match active (qm_user_id (qe_member e))")
        (simp_all add: Let_def Cons.IH due_messages_Cons pub case_prod_beta)
  qed
qed (simp add: due_messages_def)

lemma requeue_or_retain_pub: "mw_pub (snd (requeue_or_retain S done es w)) = mw_pub w"
  by (simp add: requeue_or_retain_def split: prod.split option.split)

text \<open>
  The right players hear the right thing: a round that popped a pair sends exactly
  the due messages, in order, less those Redis did not take: the match start to both players of a
  created match; to a player who is already in a match the error with that match; nothing
  to anybody when creation failed. After creating a match it goes on at once if and only if both
  messages went out.
\<close>

theorem match_step_announces:
  assumes "sv_publish S = redis_publish px" and "sv_encode S = encode" and "0 < sv_retry_interval S"
    and "restore_pending S done0 w = (True, w1)" and "sv_pop S (mw_queue w1) = (Inr (Some (e1, e2)), q)"
    and "sv_create S (qe_member e1, qe_member e2) (mw_db w1) = (res, d)"
    and "match_step U S done0 done1 w = (delay, w')"
  shows "mw_pub w' = mw_pub w @ filter (\<lambda>m. io_applied (px (fst m))) (due_messages U [e1, e2] res)
    \<and> (case res of Inl _ \<Rightarrow> True
       | Inr _ \<Rightarrow> delay = 0 \<longleftrightarrow> px (qm_route (qe_member e1)) = IoOk \<and> px (qm_route (qe_member e2)) = IoOk)"
proof -
  have pub1: "mw_pub w1 = mw_pub w"
    using assms(4) by (auto simp: restore_pending_def split: if_splits prod.splits option.splits)
  show ?thesis
  proof (cases res)
    case (Inr cm)
    have enc: "sv_encode S ''match_start'' (Some (MatchStartData \<lparr>ms_match_id = uuid_string U (cm_match_id cm),
        ms_problem_id = uuid_string U (cm_problem_id cm), ms_deadline = cm_deadline cm\<rparr>)) = Inr (start_message U cm)"
      by (simp add: assms(2) encode_def start_message_def)
    let ?p1 = "redis_publish px (qm_route (qe_member e1)) (start_message U cm) (mw_pub w1)"
    let ?p2 = "redis_publish px (qm_route (qe_member e2)) (start_message U cm) (snd ?p1)"
    have "match_step U S done0 done1 w = (if fst ?p1 \<noteq> None \<or> fst ?p2 \<noteq> None then sv_retry_interval S else 0,
        w1\<lparr>mw_queue := q, mw_db := d, mw_pub := snd ?p2\<rparr>)"
      using assms(1,4-6) by (simp add: match_step_def Let_def Inr enc case_prod_beta)
    then have "delay = (if fst ?p1 \<noteq> None \<or> fst ?p2 \<noteq> None then sv_retry_interval S else 0)" "mw_pub w' = snd ?p2"
      using assms(7) by auto
    then show ?thesis
      using assms(3) by (simp add: redis_publish_log redis_publish_err Inr due_messages_def pub1)
  next
    case (Inl err)
    show ?thesis
    proof (cases err)
      case (CreateFailed m)
      then have "w' = snd (requeue_or_retain S done1 [e1, e2] (w1\<lparr>mw_queue := q, mw_db := d\<rparr>))"
        using assms(4-7) Inl by (auto simp: match_step_def Let_def)
      then show ?thesis by (simp add: requeue_or_retain_pub Inl CreateFailed due_messages_def pub1)
    next
      case (CreateIneligible missing active)
      then have "w' = snd (handle_ineligible_players U S done1 (e1, e2) active missing (w1\<lparr>mw_queue := q, mw_db := d\<rparr>))"
        using assms(4-7) Inl by (auto simp: match_step_def Let_def split: prod.splits bool.splits)
      then have "mw_pub w' = snd (sort_out_players U S active missing [e1, e2] (mw_pub w1))"
        by (simp add: handle_ineligible_players_def requeue_or_retain_pub case_prod_beta del: sort_out_players.simps)
      then show ?thesis
        by (simp only: sort_out_players_log [OF assms(1,2)] Inl CreateIneligible pub1 sum.case simp_thms)
    qed
  qed
qed

theorem match_step_announces_witness:
  "\<exists>delay w'. match_step ex_ids (ex_match_service 102) False False (ex_match_world ''da'') = (delay, w')
     \<and> mw_pub w' = [(''codeduel:user:'' @ ex_uid (CHR ''a''), active_match_message ex_ids 100)]"
proof -
  let ?e1 = "\<lparr>qe_member = ex_member 4, qe_score = 5, qe_encoded = ''d''\<rparr>"
  let ?e2 = "\<lparr>qe_member = ex_member 1, qe_score = 6, qe_encoded = ''a''\<rparr>"
  obtain delay w' where r: "match_step ex_ids (ex_match_service 102) False False (ex_match_world ''da'') = (delay, w')"
    by fastforce
  obtain res d where c: "sv_create (ex_match_service 102) (qe_member ?e1, qe_member ?e2) (mw_db (ex_match_world ''da'')) = (res, d)"
    by fastforce
  have "due_messages ex_ids [?e1, ?e2] (fst (sv_create (ex_match_service 102) (qe_member ?e1, qe_member ?e2) (mw_db (ex_match_world ''da''))))
      = [(''codeduel:user:'' @ ex_uid (CHR ''a''), active_match_message ex_ids 100)]"
    by code_simp
  then have due: "due_messages ex_ids [?e1, ?e2] res = [(''codeduel:user:'' @ ex_uid (CHR ''a''), active_match_message ex_ids 100)]"
    by (simp only: c fst_conv)
  have pop: "sv_pop (ex_match_service 102) (mw_queue (ex_match_world ''da'')) = (Inr (Some (?e1, ?e2)),
      snd (queue_pop_pair ex_ids ex_codec True 100 IoOk (ex_mm ''da'')))"
    unfolding ex_match_world_simps by (simp add: ex_match_service_def, rule ex_pop_da)
  have "mw_pub w' = mw_pub (ex_match_world ''da'') @ filter (\<lambda>m. io_applied ((\<lambda>_. IoOk) (fst m))) (due_messages ex_ids [?e1, ?e2] res)"
    using match_step_announces [OF _ _ _ ex_match_world_simps(1) pop c r, of "\<lambda>_. IoOk"]
    by (simp add: ex_match_service_def default_retry_interval_def)
  with r due show ?thesis by (simp add: ex_match_world_simps)
qed

text \<open>Both loops end at the round whose start sees the context cancelled, if not before.\<close>

lemma match_run_stops: "cancelled (2 * (n + k)) \<Longrightarrow> k < fuel \<Longrightarrow> \<exists>r. match_run cancelled step fuel n w = Some r"
proof (induction k arbitrary: n w fuel)
  case (Suc k)
  obtain f where f: "fuel = Suc f" using Suc.prems(2) by (cases fuel) auto
  with Suc.prems have "\<exists>r. match_run cancelled step f (Suc n) w'' = Some r" for w'' by (intro Suc.IH) simp_all
  then show ?case by (simp add: f split: prod.split)
next
  case 0
  then show ?case by (cases fuel) simp_all
qed

lemma dispatcher_run_stops:
  "cancelled (2 * (n + k)) \<Longrightarrow> k < fuel \<Longrightarrow> \<exists>r. dispatcher_run cancelled pending fuel n w = Some r"
proof (induction k arbitrary: n w fuel)
  case (Suc k)
  obtain f where f: "fuel = Suc f" using Suc.prems(2) by (cases fuel) auto
  with Suc.prems have "\<exists>r. dispatcher_run cancelled pending f (Suc n) w'' = Some r" for w'' by (intro Suc.IH) simp_all
  then show ?case by (simp add: f Let_def)
next
  case 0
  then show ?case by (cases fuel) simp_all
qed

end
