(* ===== verification/GoStd.thy ===== *)
theory GoStd
  imports Text
begin

text \<open>
  What the configuration and the sandbox code use of Go's \<open>strings\<close>, \<open>strconv\<close>, \<open>fmt\<close> and
  \<open>time\<close> packages: 64-bit wrap-around, \<open>TrimSpace\<close>, \<open>Split\<close> and \<open>Cut\<close> at one character,
  \<open>ToLower\<close>, \<open>Contains\<close>, decimal numbers (\<open>%d\<close>, \<open>ParseInt\<close>) and \<open>ParseDuration\<close>.
\<close>

section \<open>64-bit arithmetic\<close>

text \<open>The value of an \<open>int64\<close> expression whose mathematical value is \<open>x\<close>.\<close>

definition wrap64 :: "int \<Rightarrow> int" where
  "wrap64 x = (x + 2 ^ 63) mod 2 ^ 64 - 2 ^ 63"

lemma wrap64_range: "- (2 ^ 63) \<le> wrap64 x" "wrap64 x < 2 ^ 63"
  using pos_mod_bound [of "2 ^ 64" "x + 2 ^ 63"] by (simp_all add: wrap64_def)

lemma wrap64_id: "- (2 ^ 63) \<le> x \<Longrightarrow> x < 2 ^ 63 \<Longrightarrow> wrap64 x = x"
  by (simp add: wrap64_def)

section \<open>Strings\<close>

text \<open>
  \<open>strings.ToLower\<close>: on ASCII text it maps the letters; on other text it is the Unicode case
  mapping, a parameter \<open>lower\<close>.
\<close>

definition to_lower :: "(string \<Rightarrow> string) \<Rightarrow> string \<Rightarrow> string" where
  "to_lower lower s = (if \<forall>c\<in>set s. byte c < 128 then map ascii_lower s else lower s)"

definition contains :: "string \<Rightarrow> string \<Rightarrow> bool" where
  "contains s p \<longleftrightarrow> (\<exists>i\<in>set [0..<Suc (length s)]. has_prefix (drop i s) p)"

text \<open>\<open>strings.TrimSpace\<close>: white space is dropped from the left and then from the right.\<close>

function trim_left :: "string \<Rightarrow> string" where
  "trim_left [] = []"
| "trim_left (c # s) =
     (if space_width (c # s) = 0 then c # s else trim_left (drop (space_width (c # s)) (c # s)))"
  by pat_completeness auto
termination
  by (relation "measure length") auto

text \<open>The width of the white space at the end, given the reversed string.\<close>

definition space_width_rev :: "string \<Rightarrow> nat" where
  "space_width_rev s =
     (case List.find (\<lambda>e. map byte (take (length e) s) = rev e) space_encodings of
        None \<Rightarrow> 0 | Some e \<Rightarrow> length e)"

function trim_right_rev :: "string \<Rightarrow> string" where
  "trim_right_rev [] = []"
| "trim_right_rev (c # s) =
     (if space_width_rev (c # s) = 0 then c # s else trim_right_rev (drop (space_width_rev (c # s)) (c # s)))"
  by pat_completeness auto
termination
  by (relation "measure length") auto

definition trim_space :: "string \<Rightarrow> string" where
  "trim_space s = rev (trim_right_rev (rev (trim_left s)))"

text \<open>\<open>strings.Split(s, sep)\<close> and \<open>strings.Cut(s, sep)\<close> for a separator of one character.\<close>

fun split_on :: "char \<Rightarrow> string \<Rightarrow> string list" where
  "split_on sep [] = [[]]"
| "split_on sep (c # s) =
     (if c = sep then [] # split_on sep s
      else (case split_on sep s of [] \<Rightarrow> [[c]] | w # ws \<Rightarrow> (c # w) # ws))"

definition cut :: "char \<Rightarrow> string \<Rightarrow> string \<times> string \<times> bool" where
  "cut sep s = (case dropWhile (\<lambda>c. c \<noteq> sep) s of
       [] \<Rightarrow> (s, [], False)
     | _ # after \<Rightarrow> (takeWhile (\<lambda>c. c \<noteq> sep) s, after, True))"

section \<open>Numbers\<close>

definition is_digit :: "char \<Rightarrow> bool" where
  "is_digit c \<longleftrightarrow> 48 \<le> byte c \<and> byte c \<le> 57"

definition digit_value :: "char \<Rightarrow> int" where
  "digit_value c = of_char c - 48"

definition digit_char :: "nat \<Rightarrow> char" where
  "digit_char n = ''0123456789'' ! n"

text \<open>\<open>%d\<close> of a number that is not negative.\<close>

function decimal :: "nat \<Rightarrow> string" where
  "decimal n = (if n < 10 then [digit_char n] else decimal (n div 10) @ [digit_char (n mod 10)])"
  by pat_completeness auto
termination
  by (relation "measure id") auto

declare decimal.simps [simp del]

fun digits_value :: "string \<Rightarrow> int \<Rightarrow> int" where
  "digits_value [] acc = acc"
| "digits_value (c # s) acc = digits_value s (10 * acc + digit_value c)"

text \<open>\<open>strconv.ParseInt(s, 10, 64)\<close>, \<open>None\<close> for an error.\<close>

definition parse_int64 :: "string \<Rightarrow> int option" where
  "parse_int64 s =
     (let neg = (s \<noteq> [] \<and> hd s = CHR ''-'');
          t = (if s \<noteq> [] \<and> (hd s = CHR ''-'' \<or> hd s = CHR ''+'') then tl s else s)
      in if t = [] \<or> \<not> (\<forall>c\<in>set t. is_digit c) then None
         else let v = digits_value t 0 in
           if neg then (if 2 ^ 63 < v then None else Some (- v))
           else (if 2 ^ 63 \<le> v then None else Some v))"

section \<open>Durations\<close>

text \<open>
  \<open>time.ParseDuration\<close>, in nanoseconds, \<open>None\<close> for an error. A fraction is converted by a
  floating-point expression of the library; \<open>scaled f unit k\<close> stands for its value for the
  digits \<open>f\<close> after the point, scaled by \<open>10 ^ k\<close>.
\<close>

fun leading_int :: "string \<Rightarrow> int \<Rightarrow> int option" where
  "leading_int [] x = Some x"
| "leading_int (c # s) x =
     (if 2 ^ 63 div 10 < x then None
      else let y = 10 * x + digit_value c in if 2 ^ 63 < y then None else leading_int s y)"

fun leading_fraction :: "string \<Rightarrow> int \<Rightarrow> nat \<Rightarrow> int \<times> nat" where
  "leading_fraction [] x k = (x, k)"
| "leading_fraction (c # s) x k =
     (if (2 ^ 63 - 1) div 10 < x then (x, k)
      else let y = 10 * x + digit_value c in if 2 ^ 63 < y then (x, k) else leading_fraction s y (k + 1))"

definition unit_map :: "(string \<times> int) list" where
  "unit_map = [(''ns'', 1), (''us'', 1000), ([CHR 0xC2, CHR 0xB5, CHR ''s''], 1000), ([CHR 0xCE, CHR 0xBC, CHR ''s''], 1000),
     (''ms'', 1000000), (''s'', 1000000000), (''m'', 60000000000), (''h'', 3600000000000)]"

definition unit_char :: "char \<Rightarrow> bool" where
  "unit_char c \<longleftrightarrow> c \<noteq> CHR ''.'' \<and> \<not> is_digit c"

text \<open>One number with its unit: the value and the rest of the text.\<close>

definition parse_term :: "(int \<Rightarrow> int \<Rightarrow> nat \<Rightarrow> nat) \<Rightarrow> string \<Rightarrow> (int \<times> string) option" where
  "parse_term scaled s =
     (let pre = takeWhile is_digit s; s1 = dropWhile is_digit s;
          point = (s1 \<noteq> [] \<and> hd s1 = CHR ''.'');
          post = (if point then takeWhile is_digit (tl s1) else []);
          s2 = (if point then dropWhile is_digit (tl s1) else s1);
          u = takeWhile unit_char s2
      in case leading_int pre 0 of
           None \<Rightarrow> None
         | Some v \<Rightarrow>
             if pre = [] \<and> post = [] then None
             else if u = [] then None
             else case map_of unit_map u of
                 None \<Rightarrow> None
               | Some unit \<Rightarrow>
                   if 2 ^ 63 div unit < v then None
                   else (case leading_fraction post 0 0 of (f, k) \<Rightarrow>
                     let w = v * unit + (if 0 < f then int (scaled f unit k) else 0) in
                     if 2 ^ 63 < w then None else Some (w, dropWhile unit_char s2)))"

lemma parse_term_shorter:
  assumes "parse_term scaled s = Some (w, rest)"
  shows "length rest < length s"
proof -
  let ?s1 = "dropWhile is_digit s"
  let ?s2 = "if ?s1 \<noteq> [] \<and> hd ?s1 = CHR ''.'' then dropWhile is_digit (tl ?s1) else ?s1"
  have "takeWhile unit_char ?s2 \<noteq> [] \<and> rest = dropWhile unit_char ?s2"
    using assms unfolding parse_term_def Let_def
    by (auto simp del: takeWhile_eq_Nil_iff dropWhile_eq_Nil_conv split: option.splits if_splits prod.splits)
  moreover have "length ?s2 \<le> length s"
    using length_dropWhile_le [of is_digit s] length_dropWhile_le [of is_digit "tl ?s1"] by (auto simp del: dropWhile_eq_Nil_conv intro: le_trans)
  moreover have "length ?s2 = length (takeWhile unit_char ?s2) + length (dropWhile unit_char ?s2)"
    by (metis length_append takeWhile_dropWhile_id)
  ultimately show ?thesis by (cases "takeWhile unit_char ?s2") (auto simp del: takeWhile_eq_Nil_iff)
qed

function parse_terms :: "(int \<Rightarrow> int \<Rightarrow> nat \<Rightarrow> nat) \<Rightarrow> string \<Rightarrow> int \<Rightarrow> int option" where
  "parse_terms scaled [] d = Some d"
| "parse_terms scaled (c # s) d =
     (case parse_term scaled (c # s) of
        None \<Rightarrow> None
      | Some (w, rest) \<Rightarrow> if 2 ^ 63 < d + w then None else parse_terms scaled rest (d + w))"
  by pat_completeness auto
termination
  by (relation "measure (\<lambda>(_, s, _). length s)") (auto dest: parse_term_shorter)

definition parse_duration :: "(int \<Rightarrow> int \<Rightarrow> nat \<Rightarrow> nat) \<Rightarrow> string \<Rightarrow> int option" where
  "parse_duration scaled s =
     (let neg = (s \<noteq> [] \<and> hd s = CHR ''-'');
          t = (if s \<noteq> [] \<and> (hd s = CHR ''-'' \<or> hd s = CHR ''+'') then tl s else s)
      in if t = ''0'' then Some 0
         else if t = [] then None
         else case parse_terms scaled t 0 of
             None \<Rightarrow> None
           | Some d \<Rightarrow> if neg then Some (- d) else if 2 ^ 63 - 1 < d then None else Some d)"

text \<open>A duration is an \<open>int64\<close>: at most \<open>2 ^ 63 - 1\<close> nanoseconds.\<close>

lemma digit_value_nonneg: "is_digit c \<Longrightarrow> 0 \<le> digit_value c"
proof -
  assume "is_digit c"
  then have "48 \<le> (of_char c :: nat)" by (simp add: is_digit_def)
  moreover have "(of_char c :: int) = int (of_char c)" by (simp add: of_char_def take_bit_of_nat flip: of_nat_of_char)
  ultimately show ?thesis by (simp add: digit_value_def)
qed

lemma leading_int_nonneg:
  "leading_int s x = Some v \<Longrightarrow> 0 \<le> x \<Longrightarrow> \<forall>c\<in>set s. is_digit c \<Longrightarrow> 0 \<le> v"
  by (induction s x rule: leading_int.induct) (auto simp: Let_def digit_value_nonneg split: if_splits)

lemma parse_term_nonneg:
  assumes "parse_term scaled s = Some (w, rest)"
  shows "0 \<le> w"
proof -
  obtain v u unit x where v: "leading_int (takeWhile is_digit s) 0 = Some v" and u: "map_of unit_map u = Some unit"
    and w: "w = v * unit + int x"
    using assms unfolding parse_term_def Let_def
    by (auto simp del: takeWhile_eq_Nil_iff dropWhile_eq_Nil_conv split: option.splits if_splits prod.splits)
  have "0 \<le> v" using leading_int_nonneg [OF v] by (auto dest: set_takeWhileD)
  moreover have "0 \<le> unit" using map_of_SomeD [OF u] by (auto simp: unit_map_def)
  ultimately show ?thesis by (simp add: w)
qed

lemma parse_terms_nonneg: "parse_terms scaled s d = Some v \<Longrightarrow> 0 \<le> d \<Longrightarrow> 0 \<le> v"
  by (induction scaled s d rule: parse_terms.induct)
     (auto split: option.splits prod.splits if_splits dest: parse_term_nonneg)

lemma parse_duration_range:
  assumes "parse_duration scaled s = Some v" and "0 < v"
  shows "v < 2 ^ 63"
  using assms by (auto simp: parse_duration_def Let_def split: if_splits option.splits dest: parse_terms_nonneg)

lemma parse_int64_range: "parse_int64 s = Some v \<Longrightarrow> 0 < v \<Longrightarrow> v < 2 ^ 63"
proof -
  have pos: "0 \<le> digits_value t acc" if "\<forall>c\<in>set t. is_digit c" "0 \<le> acc" for t acc
    using that by (induction t acc rule: digits_value.induct) (auto simp: digit_value_nonneg)
  assume "parse_int64 s = Some v" "0 < v"
  then show ?thesis using pos [of "tl s" 0] by (auto simp: parse_int64_def Let_def split: if_splits)
qed

end
