(* ===== verification/Accounts.thy ===== *)
theory Accounts
  imports GoStd Example
begin

text \<open>
  Accounts: \<open>internal/auth/service.go\<close> over the \<open>users\<close> table of migrations 000001 and
  000006. \<open>bcrypt\<close> is not part of the repository; it, the case mapping of text that is not
  ASCII (of Go and of PostgreSQL) and \<open>net.ParseIP\<close> are the parameters \<open>account_lib\<close>.
\<close>

section \<open>The users table\<close>

datatype compare_result = CompareMatch | CompareMismatch | CompareFailed

record account_lib =
  al_lower :: "string \<Rightarrow> string"
  al_pg_lower :: "string \<Rightarrow> string"
  al_parse_ip :: "string \<Rightarrow> bool"
  al_generate :: "string \<Rightarrow> string \<Rightarrow> string option"
  al_compare :: "string \<Rightarrow> string \<Rightarrow> compare_result"

text \<open>The number of characters of a text; a byte that is not UTF-8 counts as one.\<close>

function rune_count :: "string \<Rightarrow> nat" where
  "rune_count [] = 0"
| "rune_count (c # s) = Suc (rune_count (drop (utf8_width c s - 1) s))"
  by pat_completeness auto
termination
  by (relation "measure length") auto

definition btrim :: "string \<Rightarrow> string" where
  "btrim s = rev (dropWhile (\<lambda>c. c = CHR '' '') (rev (dropWhile (\<lambda>c. c = CHR '' '') s)))"

text \<open>\<open>users_email_normalized_check\<close> and \<open>users_display_name_check\<close>.\<close>

definition user_checks :: "account_lib \<Rightarrow> user_row \<Rightarrow> bool" where
  "user_checks A r \<longleftrightarrow>
     u_email r = to_lower (al_pg_lower A) (u_email r) \<and> u_email r = btrim (u_email r) \<and>
     3 \<le> length (u_email r) \<and> length (u_email r) \<le> 254 \<and>
     u_display_name r = btrim (u_display_name r) \<and>
     1 \<le> rune_count (u_display_name r) \<and> rune_count (u_display_name r) \<le> 64"

text \<open>
  \<open>INSERT INTO users\<close>: the checks, the primary key and \<open>users_email_key\<close>, whose violation the
  code tells from the others (\<open>True\<close>).
\<close>

definition insert_user :: "account_lib \<Rightarrow> user_row \<Rightarrow> db \<Rightarrow> bool + db" where
  "insert_user A r d =
     (if \<not> user_checks A r \<or> (\<exists>u\<in>set (db_users d). u_id u = u_id r) then Inl False
      else if \<exists>u\<in>set (db_users d). u_email u = u_email r then Inl True
      else Inr (d\<lparr>db_users := db_users d @ [r]\<rparr>))"

definition users_ok :: "account_lib \<Rightarrow> db \<Rightarrow> bool" where
  "users_ok A d \<longleftrightarrow> distinct (map u_id (db_users d)) \<and> distinct (map u_email (db_users d)) \<and>
     (\<forall>u\<in>set (db_users d). user_checks A u)"

section \<open>Credentials\<close>

record account_user =
  au_id :: uuid
  au_email :: string
  au_display_name :: string
  au_created_at :: time

datatype auth_error = ErrInvalidEmail | ErrInvalidPassword | ErrEmailTaken | ErrInvalidCredentials
  | ErrUserNotFound | AuthFailed string

text \<open>
  When \<open>mail.ParseAddress(s)\<close> returns the address \<open>s\<close> itself, for valid UTF-8: the forms with a
  display name, a quoted local part, a comment or a group return a shorter address, which leaves
  a dot-atom, an \<open>@\<close>, and a dot-atom or an IP address in brackets.
\<close>

definition is_atext :: "char \<Rightarrow> bool" where
  "is_atext c \<longleftrightarrow> 128 \<le> byte c \<or>
     (33 \<le> byte c \<and> byte c \<le> 126 \<and> c \<notin> set ''()<>[]:;@,'' \<and> c \<noteq> CHR 0x5C \<and> c \<noteq> CHR 0x22)"

definition dot_atom :: "string \<Rightarrow> bool" where
  "dot_atom s \<longleftrightarrow> s \<noteq> [] \<and> list_all is_atext s \<and> hd s \<noteq> CHR ''.'' \<and> last s \<noteq> CHR ''.'' \<and> \<not> contains s ''..''"

definition bracketed_ip :: "(string \<Rightarrow> bool) \<Rightarrow> string \<Rightarrow> bool" where
  "bracketed_ip parse_ip s \<longleftrightarrow>
     2 \<le> length s \<and> hd s = CHR ''['' \<and> last s = CHR '']'' \<and> parse_ip (butlast (tl s))"

definition parses_to_itself :: "(string \<Rightarrow> bool) \<Rightarrow> string \<Rightarrow> bool" where
  "parses_to_itself parse_ip s =
     (case cut (CHR ''@'') s of (local, domain, found) \<Rightarrow>
        found \<and> dot_atom local \<and> (dot_atom domain \<or> bracketed_ip parse_ip domain))"

definition max_email_bytes :: nat where "max_email_bytes = 254"

definition max_display_runes :: nat where "max_display_runes = 64"

definition normalize_email :: "account_lib \<Rightarrow> string \<Rightarrow> auth_error + string" where
  "normalize_email A raw =
     (let normalized = to_lower (al_lower A) (trim_space raw) in
      if \<not> utf8_valid normalized \<or> length normalized < 3 \<or> max_email_bytes < length normalized
      then Inl ErrInvalidEmail
      else if \<not> parses_to_itself (al_parse_ip A) normalized \<or> count_list normalized (CHR ''@'') \<noteq> 1
      then Inl ErrInvalidEmail
      else case cut (CHR ''@'') normalized of (local, domain, found) \<Rightarrow>
        if \<not> found \<or> local = [] \<or> domain = [] \<or> trim_space local \<noteq> local \<or> max_display_runes < rune_count local
        then Inl ErrInvalidEmail else Inr normalized)"

definition min_password_bytes :: nat where "min_password_bytes = 8"

definition max_password_bytes :: nat where "max_password_bytes = 72"

definition validate_password :: "string \<Rightarrow> auth_error option" where
  "validate_password p =
     (if \<not> utf8_valid p \<or> length p < min_password_bytes \<or> max_password_bytes < length p
      then Some ErrInvalidPassword else None)"

definition dummy_password_hash :: string where
  "dummy_password_hash = ''$2a$10$7EqJtq98hPqEX7fNZaFWoO5tO6M3jI1Q11khFhRvpZB2M7fS5QwNm''"

section \<open>The service\<close>

definition account_columns :: "user_row \<Rightarrow> account_user" where
  "account_columns r =
     \<lparr>au_id = u_id r, au_email = u_email r, au_display_name = u_display_name r, au_created_at = u_created_at r\<rparr>"

text \<open>
  \<open>Register\<close>; \<open>fresh\<close> and \<open>now\<close> are the defaults of the columns \<open>id\<close> and \<open>created_at\<close>, \<open>ext\<close> the
  outcome of the statement.
\<close>

definition register ::
  "account_lib \<Rightarrow> bool \<Rightarrow> io \<Rightarrow> uuid \<Rightarrow> time \<Rightarrow> string \<Rightarrow> string \<Rightarrow> string \<Rightarrow> db \<Rightarrow> (auth_error + account_user) \<times> db" where
  "register A has_db ext fresh now salt raw_email password d =
     (case normalize_email A raw_email of
        Inl e \<Rightarrow> (Inl e, d)
      | Inr email \<Rightarrow>
     (case validate_password password of
        Some e \<Rightarrow> (Inl e, d)
      | None \<Rightarrow>
          if \<not> has_db then (Inl (AuthFailed ''register user: missing database''), d)
          else case al_generate A salt password of
              None \<Rightarrow> (Inl (AuthFailed ''register user: hash password''), d)
            | Some hash \<Rightarrow>
                let row = \<lparr>u_id = fresh, u_email = email, u_password_hash = Some hash,
                           u_display_name = fst (cut (CHR ''@'') email), u_created_at = now\<rparr>
                in if \<not> io_applied ext then (Inl (AuthFailed ''register user: insert''), d)
                   else (case insert_user A row d of
                       Inl taken \<Rightarrow>
                         (Inl (if taken \<and> ext = IoOk then ErrEmailTaken else AuthFailed ''register user: insert''), d)
                     | Inr d' \<Rightarrow>
                         (if ext = IoOk then Inr (account_columns row) else Inl (AuthFailed ''register user: insert''), d'))))"

text \<open>The comparison that equalizes the work of a login without an account or a password.\<close>

definition login_without_hash :: "account_lib \<Rightarrow> string \<Rightarrow> auth_error" where
  "login_without_hash A password =
     (case al_compare A dummy_password_hash password of
        CompareFailed \<Rightarrow> AuthFailed ''login user: dummy password comparison''
      | _ \<Rightarrow> ErrInvalidCredentials)"

definition user_by_email :: "db \<Rightarrow> string \<Rightarrow> user_row option" where
  "user_by_email d email = row_of u_email email (db_users d)"

definition login :: "account_lib \<Rightarrow> bool \<Rightarrow> io \<Rightarrow> string \<Rightarrow> string \<Rightarrow> db \<Rightarrow> auth_error + account_user" where
  "login A has_db ext raw_email password d =
     (case normalize_email A raw_email of
        Inl _ \<Rightarrow> Inl ErrInvalidCredentials
      | Inr email \<Rightarrow>
     (case validate_password password of
        Some _ \<Rightarrow> Inl ErrInvalidCredentials
      | None \<Rightarrow>
          if \<not> has_db then Inl (AuthFailed ''login user: missing database'')
          else if ext \<noteq> IoOk then Inl (AuthFailed ''login user: lookup'')
          else case user_by_email d email of
              None \<Rightarrow> Inl (login_without_hash A password)
            | Some r \<Rightarrow>
                (case u_password_hash r of
                   None \<Rightarrow> Inl (login_without_hash A password)
                 | Some h \<Rightarrow>
                     (case al_compare A h password of
                        CompareMatch \<Rightarrow> Inr (account_columns r)
                      | CompareMismatch \<Rightarrow> Inl ErrInvalidCredentials
                      | CompareFailed \<Rightarrow> Inl (AuthFailed ''login user: compare password'')))))"

definition user_by_id :: "bool \<Rightarrow> io \<Rightarrow> uuid \<Rightarrow> db \<Rightarrow> auth_error + account_user" where
  "user_by_id has_db ext k d =
     (if \<not> has_db then Inl (AuthFailed ''get user: missing database'')
      else if ext \<noteq> IoOk then Inl (AuthFailed ''get user: lookup'')
      else case user_of d k of None \<Rightarrow> Inl ErrUserNotFound | Some r \<Rightarrow> Inr (account_columns r))"

section \<open>Lemmas on credentials\<close>

lemma cut_SomeD:
  assumes "cut sep s = (a, b, True)"
  shows "s = a @ sep # b" "sep \<notin> set a"
proof -
  obtain x where x: "dropWhile (\<lambda>c. c \<noteq> sep) s = x # b" and a: "a = takeWhile (\<lambda>c. c \<noteq> sep) s"
    using assms by (auto simp: cut_def split: list.splits)
  have "x = sep" using hd_dropWhile [of "\<lambda>c. c \<noteq> sep" s] x by force
  with x a show "s = a @ sep # b" by (metis takeWhile_dropWhile_id)
  show "sep \<notin> set a" unfolding a by (auto dest: set_takeWhileD)
qed

lemma dropWhile_hd: "s = [] \<or> \<not> P (hd s) \<Longrightarrow> dropWhile P s = s"
  by (cases s) auto

lemma btrim_id: "s = [] \<or> hd s \<noteq> CHR '' '' \<and> last s \<noteq> CHR '' '' \<Longrightarrow> btrim s = s"
  by (auto simp: btrim_def dropWhile_hd hd_rev)

lemma atext_not_space: "is_atext c \<Longrightarrow> c \<noteq> CHR '' ''"
  unfolding is_atext_def by (rule notI) simp

lemma dot_atom_ends: "dot_atom s \<Longrightarrow> s \<noteq> [] \<and> hd s \<noteq> CHR '' '' \<and> last s \<noteq> CHR '' ''"
  using atext_not_space by (auto simp: dot_atom_def list_all_iff)

lemma rune_count_pos: "s \<noteq> [] \<Longrightarrow> 1 \<le> rune_count s"
  by (cases s) simp_all

lemma ascii_lower_idem [simp]: "ascii_lower (ascii_lower c) = ascii_lower c"
  by (auto simp: ascii_lower_def)

lemma ascii_lower_ascii: "byte c < 128 \<Longrightarrow> byte (ascii_lower c) < 128"
  by (auto simp: ascii_lower_def)

definition ascii :: "string \<Rightarrow> bool" where
  "ascii s \<longleftrightarrow> (\<forall>c\<in>set s. byte c < 128)"

lemma to_lower_ascii: "ascii s \<Longrightarrow> to_lower f s = map ascii_lower s"
  by (simp add: to_lower_def ascii_def)

lemma to_lower_lowered: "ascii s \<Longrightarrow> to_lower f (map ascii_lower s) = map ascii_lower s"
  by (simp add: to_lower_def ascii_def ascii_lower_ascii comp_def)

lemma set_trim_left: "set (trim_left s) \<subseteq> set s"
proof (induction s rule: trim_left.induct)
  case (2 c s)
  then show ?case using set_drop_subset [of "space_width (c # s)" "c # s"] by auto
qed simp

lemma set_trim_right_rev: "set (trim_right_rev s) \<subseteq> set s"
proof (induction s rule: trim_right_rev.induct)
  case (2 c s)
  then show ?case using set_drop_subset [of "space_width_rev (c # s)" "c # s"] by auto
qed simp

lemma set_trim_space: "set (trim_space s) \<subseteq> set s"
  using set_trim_left [of s] set_trim_right_rev [of "rev (trim_left s)"] by (auto simp: trim_space_def)

lemma ascii_trim_space: "ascii s \<Longrightarrow> ascii (trim_space s)"
  using set_trim_space [of s] by (auto simp: ascii_def)

text \<open>The parts of a normalized email.\<close>

lemma normalize_email_InrD:
  assumes "normalize_email A raw = Inr email"
  obtains local domain where "email = to_lower (al_lower A) (trim_space raw)" "cut (CHR ''@'') email = (local, domain, True)"
    "email = local @ CHR ''@'' # domain" "dot_atom local" "dot_atom domain \<or> bracketed_ip (al_parse_ip A) domain"
    "rune_count local \<le> 64" "3 \<le> length email" "length email \<le> 254" "utf8_valid email"
proof -
  obtain local domain found where c: "cut (CHR ''@'') email = (local, domain, found)"
    by (metis prod_cases3)
  have n: "email = to_lower (al_lower A) (trim_space raw)" "utf8_valid email" "3 \<le> length email" "length email \<le> 254"
    "parses_to_itself (al_parse_ip A) email"
    using assms by (auto simp: normalize_email_def Let_def max_email_bytes_def split: if_splits prod.splits)
  have f: "found" "dot_atom local" "dot_atom domain \<or> bracketed_ip (al_parse_ip A) domain"
    using n(5) c by (auto simp: parses_to_itself_def)
  have "rune_count local \<le> 64"
    using assms c n(1) by (auto simp: normalize_email_def Let_def max_display_runes_def split: if_splits)
  with that n f c cut_SomeD(1) show thesis by (metis (full_types))
qed

text \<open>
  A normalized email and its local part satisfy the checks of the table, when PostgreSQL's
  \<open>lower\<close> agrees that the email is in lower case, as it does for ASCII.
\<close>

lemma normalized_user_checks:
  assumes "normalize_email A raw = Inr email" "to_lower (al_pg_lower A) email = email"
    and "u_email r = email" "u_display_name r = fst (cut (CHR ''@'') email)"
  shows "user_checks A r"
proof -
  obtain local domain where c: "cut (CHR ''@'') email = (local, domain, True)" and e: "email = local @ CHR ''@'' # domain"
    and l: "dot_atom local" and d: "dot_atom domain \<or> bracketed_ip (al_parse_ip A) domain" and rc: "rune_count local \<le> 64"
    and len: "3 \<le> length email" "length email \<le> 254"
    using normalize_email_InrD [OF assms(1)] by metis
  have "domain \<noteq> [] \<and> last domain \<noteq> CHR '' ''"
    using d dot_atom_ends [of domain] by (auto simp: bracketed_ip_def)
  then have "btrim email = email"
    using dot_atom_ends [OF l] by (intro btrim_id) (auto simp: e)
  moreover have "btrim local = local"
    using dot_atom_ends [OF l] by (intro btrim_id) auto
  moreover have "1 \<le> rune_count local"
    using dot_atom_ends [OF l] by (intro rune_count_pos) auto
  ultimately show ?thesis
    using assms(2-4) len rc by (simp add: user_checks_def c)
qed

lemma normalized_ascii:
  assumes "ascii raw" "normalize_email A raw = Inr email"
  shows "to_lower f email = email"
proof -
  have "email = map ascii_lower (trim_space raw)"
    using normalize_email_InrD [OF assms(2)] to_lower_ascii [OF ascii_trim_space [OF assms(1)]] by metis
  then show ?thesis using to_lower_lowered [OF ascii_trim_space [OF assms(1)]] by simp
qed

section \<open>Lemmas on the service\<close>

lemma insert_user_InrD:
  assumes "insert_user A r d = Inr d'"
  shows "d' = d\<lparr>db_users := db_users d @ [r]\<rparr>" "user_checks A r"
    "\<And>u. u \<in> set (db_users d) \<Longrightarrow> u_id u \<noteq> u_id r \<and> u_email u \<noteq> u_email r"
  using assms by (auto simp: insert_user_def split: if_splits)

lemma insert_user_ok:
  assumes "users_ok A d" "insert_user A r d = Inr d'"
  shows "users_ok A d'"
  using assms(1) insert_user_InrD [OF assms(2)] by (fastforce simp: users_ok_def)

lemma users_frame [simp]:
  "is_player (d\<lparr>db_users := us\<rparr>) = is_player d" "match_of (d\<lparr>db_users := us\<rparr>) = match_of d"
  "problem_of (d\<lparr>db_users := us\<rparr>) = problem_of d" "active_match (d\<lparr>db_users := us\<rparr>) = active_match d"
  by (simp_all add: is_player_def match_of_def problem_of_def active_match_def fun_eq_iff)

lemma insert_user_inv:
  assumes "db_inv d" "insert_user A r d = Inr d'"
  shows "db_inv d'"
proof -
  have d': "d' = d\<lparr>db_users := db_users d @ [r]\<rparr>" using insert_user_InrD(1) [OF assms(2)] .
  have u: "user_of d' k \<noteq> None" if "user_of d k \<noteq> None" for k
    using that by (auto simp: d' user_of_def row_of_append)
  show ?thesis
  proof (rule db_invI)
    show "keys_ok d'" using db_invD(1) [OF assms(1)] by (simp add: d' keys_ok_def)
    show "submission_ok d' x" if "x \<in> set (db_submissions d')" for x
      using db_invD(2) [OF assms(1), of x] that by (simp add: d' submission_ok_def)
    show "match_ok d' m" if "m \<in> set (db_matches d')" for m
      using db_invD(3) [OF assms(1), of m] that by (simp add: d' match_ok_def split: option.splits)
    show "player_ok d' p" if "p \<in> set (db_players d')" for p
      using db_invD(4) [OF assms(1), of p] that u by (simp add: d' player_ok_def)
    show "claims_ok d'" using db_invD(5) [OF assms(1)] by (simp add: d' claims_ok_def)
  qed
qed

lemma register_db_cases:
  assumes "register A has_db ext fresh now salt raw pw d = (res, d')"
  shows "d' = d \<or> (\<exists>r. insert_user A r d = Inr d' \<and> Inr (u_email r) = normalize_email A raw)"
  using assms
  by (auto simp: register_def Let_def split: sum.splits option.splits if_splits)

lemma register_InrD:
  assumes "register A has_db ext fresh now salt raw pw d = (Inr u, d')"
  obtains email hash where "normalize_email A raw = Inr email" "validate_password pw = None"
    "al_generate A salt pw = Some hash"
    "u = account_columns \<lparr>u_id = fresh, u_email = email, u_password_hash = Some hash,
           u_display_name = fst (cut (CHR ''@'') email), u_created_at = now\<rparr>"
    "insert_user A \<lparr>u_id = fresh, u_email = email, u_password_hash = Some hash,
           u_display_name = fst (cut (CHR ''@'') email), u_created_at = now\<rparr> d = Inr d'"
  using assms by (auto simp: register_def Let_def split: sum.splits option.splits if_splits)

text \<open>A sequence of registrations.\<close>

record registration =
  rg_has_db :: bool
  rg_ext :: io
  rg_id :: uuid
  rg_now :: time
  rg_salt :: string
  rg_email :: string
  rg_password :: string

definition register_one :: "account_lib \<Rightarrow> registration \<Rightarrow> db \<Rightarrow> (auth_error + account_user) \<times> db" where
  "register_one A g d =
     register A (rg_has_db g) (rg_ext g) (rg_id g) (rg_now g) (rg_salt g) (rg_email g) (rg_password g) d"

fun register_all :: "account_lib \<Rightarrow> registration list \<Rightarrow> db \<Rightarrow> db" where
  "register_all A [] d = d"
| "register_all A (g # gs) d = register_all A gs (snd (register_one A g d))"

lemma register_one_cases: "snd (register_one A g d) = d \<or> (\<exists>r. insert_user A r d = Inr (snd (register_one A g d)))"
  using register_db_cases unfolding register_one_def by (metis prod.collapse)

lemma register_all_keeps:
  assumes "P d" "\<And>d r d'. P d \<Longrightarrow> insert_user A r d = Inr d' \<Longrightarrow> P d'"
  shows "P (register_all A gs d)"
  using assms(1)
proof (induction gs arbitrary: d)
  case (Cons g gs)
  have "P (snd (register_one A g d))"
    using register_one_cases [of A g d] assms(2) Cons.prems by metis
  with Cons.IH show ?case by simp
qed simp

lemma register_all_users_ok: "users_ok A d \<Longrightarrow> users_ok A (register_all A gs d)"
  by (erule register_all_keeps) (rule insert_user_ok)

lemma register_all_inv: "db_inv d \<Longrightarrow> db_inv (register_all A gs d)"
  by (erule register_all_keeps) (rule insert_user_inv)

lemma register_all_email:
  assumes "user_by_email d email = Some r"
  shows "user_by_email (register_all A gs d) email = Some r"
  using assms
  by (rule register_all_keeps)
     (auto simp: user_by_email_def row_of_append dest: insert_user_InrD(1))

lemma register_all_id:
  assumes "user_of d k = Some r"
  shows "user_of (register_all A gs d) k = Some r"
  using assms
  by (rule register_all_keeps)
     (auto simp: user_of_def row_of_append dest: insert_user_InrD(1))

definition bcrypt_ok :: "account_lib \<Rightarrow> bool" where
  "bcrypt_ok A \<longleftrightarrow> (\<forall>salt p. length p \<le> 72 \<longrightarrow>
     (\<exists>h. al_generate A salt p = Some h \<and> al_compare A h p = CompareMatch))"

lemma login_known:
  assumes "normalize_email A raw = Inr email" "validate_password pw = None"
    and "user_by_email d email = Some r" "u_password_hash r = Some h" "al_compare A h pw = CompareMatch"
  shows "login A True IoOk raw pw d = Inr (account_columns r)"
  using assms by (simp add: login_def)

lemma registered_logs_in:
  assumes "bcrypt_ok A"
    and "register A has_db ext fresh now salt raw pw d = (Inr u, d1)"
    and "normalize_email A raw2 = normalize_email A raw"
  shows "login A True IoOk raw2 pw (register_all A gs d1) = Inr u
    \<and> user_by_id True IoOk (au_id u) (register_all A gs d1) = Inr u \<and> au_id u = fresh"
proof -
  obtain email hash where r: "normalize_email A raw = Inr email" "validate_password pw = None"
    "al_generate A salt pw = Some hash"
    "u = account_columns \<lparr>u_id = fresh, u_email = email, u_password_hash = Some hash,
           u_display_name = fst (cut (CHR ''@'') email), u_created_at = now\<rparr>"
    "insert_user A \<lparr>u_id = fresh, u_email = email, u_password_hash = Some hash,
           u_display_name = fst (cut (CHR ''@'') email), u_created_at = now\<rparr> d = Inr d1"
    using register_InrD [OF assms(2)] .
  let ?r = "\<lparr>u_id = fresh, u_email = email, u_password_hash = Some hash,
           u_display_name = fst (cut (CHR ''@'') email), u_created_at = now\<rparr>"
  have "length pw \<le> 72" using r(2) by (simp add: validate_password_def max_password_bytes_def split: if_splits)
  then have "\<exists>h. al_generate A salt pw = Some h \<and> al_compare A h pw = CompareMatch"
    using assms(1) by (simp add: bcrypt_ok_def)
  then have m: "al_compare A hash pw = CompareMatch" by (simp add: r(3))
  note i = insert_user_InrD [OF r(5)]
  have "row_of u_email email (db_users d) = None" "row_of u_id fresh (db_users d) = None"
    using i(3) by (auto simp: row_of_None_iff)
  then have "user_by_email d1 email = Some ?r" "user_of d1 fresh = Some ?r"
    by (simp_all add: i(1) user_by_email_def user_of_def row_of_append)
  note later = register_all_email [OF this(1)] register_all_id [OF this(2)]
  have "login A True IoOk raw2 pw (register_all A gs d1) = Inr (account_columns ?r)"
    by (rule login_known [OF _ r(2) later(1) _ m]) (simp_all add: assms(3) r(1))
  with later(2) show ?thesis
    by (simp add: user_by_id_def r(4)) (simp add: account_columns_def)
qed

lemma register_result:
  assumes "bcrypt_ok A" "ascii raw" "\<forall>u\<in>set (db_users d). u_id u \<noteq> fresh"
  shows "fst (register A True IoOk fresh now salt raw pw d) =
         (case normalize_email A raw of
            Inl e \<Rightarrow> Inl e
          | Inr email \<Rightarrow>
              (case validate_password pw of
                 Some e \<Rightarrow> Inl e
               | None \<Rightarrow>
                   if \<exists>u\<in>set (db_users d). u_email u = email then Inl ErrEmailTaken
                   else Inr \<lparr>au_id = fresh, au_email = email,
                             au_display_name = fst (cut (CHR ''@'') email), au_created_at = now\<rparr>))"
proof (cases "normalize_email A raw")
  case (Inr email)
  show ?thesis
  proof (cases "validate_password pw")
    case None
    then have "length pw \<le> 72" by (simp add: validate_password_def max_password_bytes_def split: if_splits)
    then obtain h where h: "al_generate A salt pw = Some h"
      using assms(1) by (auto simp: bcrypt_ok_def)
    have c: "user_checks A \<lparr>u_id = fresh, u_email = email, u_password_hash = Some h,
         u_display_name = fst (cut (CHR ''@'') email), u_created_at = now\<rparr>"
      using normalized_user_checks [OF Inr normalized_ascii [OF assms(2) Inr]] by simp
    show ?thesis
      using assms(3) by (auto simp: register_def Inr None h Let_def insert_user_def c account_columns_def)
  qed (simp add: register_def Inr)
qed (simp add: register_def)

text \<open>Normalizing a normalized email changes nothing, for ASCII.\<close>

lemma visible_not_space:
  assumes "33 \<le> byte c" "byte c < 128"
  shows "space_width (c # s) = 0" "space_width_rev (c # s) = 0"
  using assms by (simp_all add: space_width_def space_width_rev_def space_encodings_def)

lemma trim_space_visible:
  assumes "s \<noteq> []" "33 \<le> byte (hd s)" "byte (hd s) < 128" "33 \<le> byte (last s)" "byte (last s) < 128"
  shows "trim_space s = s"
proof -
  obtain c t where s: "s = c # t" using assms(1) by (cases s) auto
  have l: "trim_left s = s" using visible_not_space [of c t] assms(2,3) s by simp
  obtain d u where r: "rev s = d # u" using assms(1) by (cases "rev s") auto
  then have d: "last s = d" by (metis hd_rev list.sel(1))
  have "trim_right_rev (rev s) = rev s" using visible_not_space [of d u] assms(4,5) d r by simp
  with l show ?thesis by (simp add: trim_space_def)
qed

lemma atext_visible: "is_atext c \<Longrightarrow> 33 \<le> byte c"
  by (auto simp: is_atext_def)

lemma normalize_email_idem:
  assumes "ascii raw" "normalize_email A raw = Inr email"
  shows "normalize_email A email = Inr email"
proof -
  obtain local domain where e: "email = to_lower (al_lower A) (trim_space raw)" "email = local @ CHR ''@'' # domain"
    and l: "dot_atom local" and dm: "dot_atom domain \<or> bracketed_ip (al_parse_ip A) domain"
    using normalize_email_InrD [OF assms(2)] by metis
  have lower: "to_lower (al_lower A) email = email" using normalized_ascii [OF assms] .
  have asc: "ascii email"
    using e(1) to_lower_ascii [OF ascii_trim_space [OF assms(1)]] ascii_trim_space [OF assms(1)] ascii_lower_ascii
    by (auto simp: ascii_def)
  have ne: "email \<noteq> []" using e(2) by simp
  have low: "byte (hd email) < 128" "byte (last email) < 128"
    using asc hd_in_set [OF ne] last_in_set [OF ne] unfolding ascii_def by blast+
  have hi: "33 \<le> byte (hd email)"
    using l e(2) atext_visible [of "hd local"] by (cases local) (auto simp: dot_atom_def)
  have "domain \<noteq> [] \<and> 33 \<le> byte (last domain)"
    using dm atext_visible [of "last domain"] by (auto simp: dot_atom_def list_all_iff bracketed_ip_def)
  then have "33 \<le> byte (last email)" using e(2) by simp
  then have "trim_space email = email"
    using ne low hi by (intro trim_space_visible)
  with assms(2) lower e(1) show ?thesis
    by (simp add: normalize_email_def Let_def)
qed

section \<open>Properties\<close>

text \<open>
  Who registered can log in: after a successful \<open>Register\<close> and whatever
  registrations follow, \<open>Login\<close> with the same password and any spelling of the email that
  normalizes to the same address returns the registered account, and so does \<open>UserByID\<close>.
\<close>

theorem register_then_login:
  assumes "bcrypt_ok A"
    and "register A has_db ext fresh now salt raw pw d = (Inr u, d1)"
    and "normalize_email A raw2 = normalize_email A raw"
  shows "login A True IoOk raw2 pw (register_all A gs d1) = Inr u
    \<and> user_by_id True IoOk (au_id u) (register_all A gs d1) = Inr u \<and> au_id u = fresh"
  using assms by (rule registered_logs_in)

text \<open>The row of the account that an email and a password name.\<close>

definition holds_account :: "account_lib \<Rightarrow> string \<Rightarrow> string \<Rightarrow> user_row \<Rightarrow> bool" where
  "holds_account A raw pw r \<longleftrightarrow> normalize_email A raw = Inr (u_email r) \<and> validate_password pw = None \<and>
     (case u_password_hash r of None \<Rightarrow> False | Some h \<Rightarrow> al_compare A h pw = CompareMatch)"

lemma login_holder:
  assumes "distinct (map u_email (db_users d))" "r \<in> set (db_users d)" "holds_account A raw pw r"
  shows "login A True IoOk raw pw d = Inr (account_columns r)"
proof -
  have "user_by_email d (u_email r) = Some r"
    using row_of_Some_iff [OF assms(1)] assms(2) by (simp add: user_by_email_def)
  then show ?thesis
    using assms(3) login_known by (auto simp: holds_account_def split: option.splits)
qed

lemma login_stranger:
  assumes "\<forall>h. al_compare A h pw \<noteq> CompareFailed" "\<forall>r\<in>set (db_users d). \<not> holds_account A raw pw r"
  shows "login A True IoOk raw pw d = Inl ErrInvalidCredentials"
proof -
  have dummy: "login_without_hash A pw = ErrInvalidCredentials"
    using assms(1) by (auto simp: login_without_hash_def split: compare_result.splits)
  have known: "\<not> holds_account A raw pw r \<and> u_email r = email" if "user_by_email d email = Some r" for r email
    using that assms(2) by (auto simp: user_by_email_def dest: row_of_SomeD)
  show ?thesis
  proof (cases "normalize_email A raw")
    case (Inr email)
    show ?thesis
    proof (cases "user_by_email d email")
      case (Some r)
      have e: "u_email r = email" and n: "\<not> holds_account A raw pw r" using known [OF Some] by simp_all
      from n show ?thesis
        using assms(1) by (auto simp: login_def holds_account_def Inr Some e dummy split: option.splits compare_result.splits)
    qed (simp add: login_def Inr dummy split: option.splits)
  qed (simp add: login_def)
qed


text \<open>
  Registrations keep the constraints of the users table and the invariant of the
  database, whatever their arguments and failures; and with a working database an ASCII email
  and a password that are valid are registered, unless the email is taken: no constraint but
  \<open>users_email_key\<close> can refuse the row.
\<close>

theorem register_decides:
  assumes "db_inv d" "users_ok A d" "bcrypt_ok A"
  shows "users_ok A (register_all A gs d) \<and> db_inv (register_all A gs d)
    \<and> (ascii raw \<and> (\<forall>u\<in>set (db_users d). u_id u \<noteq> fresh) \<longrightarrow>
       fst (register A True IoOk fresh now salt raw pw d) =
         (case normalize_email A raw of
            Inl e \<Rightarrow> Inl e
          | Inr email \<Rightarrow>
              (case validate_password pw of
                 Some e \<Rightarrow> Inl e
               | None \<Rightarrow>
                   if \<exists>u\<in>set (db_users d). u_email u = email then Inl ErrEmailTaken
                   else Inr \<lparr>au_id = fresh, au_email = email,
                             au_display_name = fst (cut (CHR ''@'') email), au_created_at = now\<rparr>)))"
  using register_all_users_ok [OF assms(2)] register_all_inv [OF assms(1)] register_result [OF assms(3)]
  by blast

section \<open>Witnesses\<close>

definition ex_accounts :: account_lib where
  "ex_accounts = \<lparr>al_lower = (\<lambda>s. s), al_pg_lower = (\<lambda>s. s), al_parse_ip = (\<lambda>s. False),
     al_generate = (\<lambda>salt p. Some (CHR ''$'' # p)),
     al_compare = (\<lambda>h p. if h = CHR ''$'' # p then CompareMatch else CompareMismatch)\<rparr>"

lemma ex_bcrypt_ok: "bcrypt_ok ex_accounts"
  by (simp add: bcrypt_ok_def ex_accounts_def)

definition ex_users :: db where
  "ex_users = \<lparr>db_users = [\<lparr>u_id = 1, u_email = ''bob@example.com'', u_password_hash = Some ''$hunter22!'',
       u_display_name = ''bob'', u_created_at = 0\<rparr>],
     db_problems = [], db_matches = [], db_players = [], db_claims = [], db_submissions = []\<rparr>"

definition ex_registered :: "(auth_error + account_user) \<times> db" where
  "ex_registered = register ex_accounts True IoOk 5 100 ''s'' '' Alice@Example.COM '' ''correct horse'' ex_users"

definition ex_alice :: account_user where
  "ex_alice = \<lparr>au_id = 5, au_email = ''alice@example.com'', au_display_name = ''alice'', au_created_at = 100\<rparr>"

lemma ex_registered_Inr: "ex_registered = (Inr ex_alice, snd ex_registered)"
  by code_simp

definition ex_again :: registration where
  "ex_again = \<lparr>rg_has_db = True, rg_ext = IoOk, rg_id = 6, rg_now = 200, rg_salt = ''t'', rg_email = ''alice@example.com'',
     rg_password = ''another one''\<rparr>"

theorem register_then_login_witness:
  "login ex_accounts True IoOk ''ALICE@example.com'' ''correct horse''
     (register_all ex_accounts [ex_again] (snd ex_registered)) = Inr ex_alice"
proof -
  have "normalize_email ex_accounts ''ALICE@example.com'' = normalize_email ex_accounts '' Alice@Example.COM ''"
    by code_simp
  from register_then_login [OF ex_bcrypt_ok _ this, of True IoOk 5 100 "''s''" "''correct horse''" ex_users ex_alice
      "snd ex_registered" "[ex_again]"] ex_registered_Inr
  show ?thesis by (simp only: ex_registered_def)
qed


theorem register_decides_witness:
  "users_ok ex_accounts (register_all ex_accounts [ex_again, ex_again] ex_users)
   \<and> fst (register ex_accounts True IoOk 9 300 ''s'' ''BOB@example.com '' ''password'' ex_users) = Inl ErrEmailTaken"
proof -
  have i: "db_inv ex_users" by code_simp
  have u: "users_ok ex_accounts ex_users" by code_simp
  have a: "ascii ''BOB@example.com '' \<and> (\<forall>u\<in>set (db_users ex_users). u_id u \<noteq> 9)" by code_simp
  have n: "normalize_email ex_accounts ''BOB@example.com '' = Inr ''bob@example.com''" by code_simp
  have p: "validate_password ''password'' = None" by code_simp
  have t: "\<exists>u\<in>set (db_users ex_users). u_email u = ''bob@example.com''" by code_simp
  show ?thesis
    using register_decides [OF i u ex_bcrypt_ok, where gs = "[ex_again, ex_again]" and fresh = 9 and now = 300
        and salt = "''s''" and raw = "''BOB@example.com ''" and pw = "''password''"] a t
    by (simp only: n p sum.case option.case if_True simp_thms) blast
qed

end
