(* ===== verification/System.thy ===== *)
theory System
  imports Contest Reaper Match Accounts
begin

text \<open>
  The services together: the state they share (the database, the judge stream, what was
  published and the database clock) and one step for every operation of a service that
  changes it. A step runs an operation of a component theory from the shared state,
  with any arguments and any outcome of the calls it makes; the order of the steps is that of
  the transactions. The state is abstracted to a contest, and every step is shown to be a
  sequence of contest steps.
\<close>

section \<open>The steps\<close>

record sys =
  sy_db :: db
  sy_stream :: stream
  sy_pub :: "(string \<times> envelope) list"
  sy_now :: time

text \<open>What is fixed: the identifier library, the reaper's settings and the duration of a match.\<close>

record sys_params =
  sp_uuid :: uuid_lib
  sp_reaper :: reaper_config
  sp_duration :: int

inductive sys_step :: "sys_params \<Rightarrow> sys \<Rightarrow> sys \<Rightarrow> bool" for P where
  clock: "sy_now s \<le> t \<Longrightarrow> sys_step P s (s\<lparr>sy_now := t\<rparr>)"
| gateway_registers: "register A has_db ext fresh now salt email password (sy_db s) = (res, d)
     \<Longrightarrow> sys_step P s (s\<lparr>sy_db := d\<rparr>)"
| gateway_submit: "gateway_accept (sp_uuid P) D x gen mark marked_at ext (sy_now s) created fresh r (sy_db s, sy_stream s)
     = (res, d, q) \<Longrightarrow> sys_step P s (s\<lparr>sy_db := d, sy_stream := q\<rparr>)"
| matchmaker_create: "create_match (sp_uuid P) has_db (sp_duration P) ext (sy_now s) mid ps (sy_db s) = (res, d)
     \<Longrightarrow> sys_step P s (s\<lparr>sy_db := d\<rparr>)"
| matchmaker_dispatch: "dispatch_pending D (queue_enqueue (sp_uuid P) client x gen) ext locked now (sy_db s, sy_stream s)
     = (res, d, q) \<Longrightarrow> sys_step P s (s\<lparr>sy_db := d, sy_stream := q\<rparr>)"
| matchmaker_publishes: "redis_publish px ch env (sy_pub s) = (err, p) \<Longrightarrow> sys_step P s (s\<lparr>sy_pub := p\<rparr>)"
| judge_ensures_group: "ensure_group client x (sy_stream s) = (err, q) \<Longrightarrow> sys_step P s (s\<lparr>sy_stream := q\<rparr>)"
| judge_reads: "judge_read (sp_uuid P) client x ctx_done now consumer count block (sy_stream s) = (res, q)
     \<Longrightarrow> sys_step P s (s\<lparr>sy_stream := q\<rparr>)"
| judge_claims: "store_claim has_db ext now mark_now sid token lease (sy_db s) = (res, d)
     \<Longrightarrow> sys_step P s (s\<lparr>sy_db := d\<rparr>)"
| judge_completes: "store_complete has_db ext now c t (sy_db s) = (res, d) \<Longrightarrow> sys_step P s (s\<lparr>sy_db := d\<rparr>)"
| judge_publishes: "publish_and_finalize (sp_uuid P) (redis_publish px) (judge_finalize client x) entry co (sy_stream s, sy_pub s)
     = (err, q, p) \<Longrightarrow> sys_step P s (s\<lparr>sy_stream := q, sy_pub := p\<rparr>)"
| judge_discards: "judge_finalize client x entry (sy_stream s) = (err, q) \<Longrightarrow> sys_step P s (s\<lparr>sy_stream := q\<rparr>)"
| reaper_reclaims: "reclaim_leases (sp_uuid P) (sp_reaper P) (redis_publish px) ext locked now (sy_db s, sy_pub s) = (err, d, p)
     \<Longrightarrow> sys_step P s (s\<lparr>sy_db := d, sy_pub := p\<rparr>)"
| reaper_sweeps: "sweep_stream (reclaim_idle (sp_uuid P) client x now consumer min_idle start count)
       (\<lambda>job. handle_reclaimed_job (dispatch D (queue_enqueue (sp_uuid P) client' x' gen) (mark job) (marked_at job))
          (judge_finalize client (y job)) (z job) job) (sy_db s, sy_stream s) = (err, d, q)
     \<Longrightarrow> sys_step P s (s\<lparr>sy_db := d, sy_stream := q\<rparr>)"
| reaper_finalizes: "finalize_matches (sp_uuid P) (sp_reaper P) (redis_publish px) ext locked (sy_now s) (sy_db s, sy_pub s)
     = (err, d, p) \<Longrightarrow> sys_step P s (s\<lparr>sy_db := d, sy_pub := p\<rparr>)"

text \<open>The system starts with users and problems only.\<close>

definition sys_init :: "sys \<Rightarrow> bool" where
  "sys_init s \<longleftrightarrow> db_inv (sy_db s) \<and> db_matches (sy_db s) = [] \<and> db_players (sy_db s) = [] \<and> db_submissions (sy_db s) = []"

inductive reachable :: "sys_params \<Rightarrow> sys \<Rightarrow> bool" for P where
  init: "sys_init s \<Longrightarrow> reachable P s"
| step: "reachable P s \<Longrightarrow> sys_step P s s' \<Longrightarrow> reachable P s'"

section \<open>The abstraction\<close>

definition phase_of :: "submission_row \<Rightarrow> phase" where
  "phase_of r =
     (if s_status r = ''pending'' then Pending (s_attempts r)
      else if s_status r = ''running'' then Running (s_attempts r) (case s_attempt_token r of None \<Rightarrow> nil_uuid | Some t \<Rightarrow> t)
      else Done (s_attempts r) (case s_result r of None \<Rightarrow> '''' | Some v \<Rightarrow> v) (s_tests_passed r))"

definition standing_of :: "match_row \<Rightarrow> standing" where
  "standing_of m = (if m_status m = ''active'' then Open (m_deadline m) else Decided (m_deadline m) (m_winner_id m))"

definition entry_of :: "submission_row \<Rightarrow> contest_entry" where
  "entry_of r = \<lparr>en_match = s_match_id r, en_player = s_player_id r, en_phase = phase_of r\<rparr>"

definition db_contest :: "time \<Rightarrow> db \<Rightarrow> contest" where
  "db_contest t d = \<lparr>ct_now = t, ct_entries = (\<lambda>k. map_option entry_of (submission_of d k)),
     ct_matches = (\<lambda>k. map_option standing_of (match_of d k)), ct_players = players_of d\<rparr>"

definition contest_of :: "sys \<Rightarrow> contest" where
  "contest_of s = db_contest (sy_now s) (sy_db s)"

lemma db_contest_simps [simp]:
  "ct_now (db_contest t d) = t" "ct_entries (db_contest t d) k = map_option entry_of (submission_of d k)"
  "ct_matches (db_contest t d) k = map_option standing_of (match_of d k)" "ct_players (db_contest t d) = players_of d"
  by (simp_all add: db_contest_def)

lemma entry_of_simps [simp]:
  "en_match (entry_of r) = s_match_id r" "en_player (entry_of r) = s_player_id r" "en_phase (entry_of r) = phase_of r"
  by (simp_all add: entry_of_def)

lemma contest_eqI:
  assumes "ct_now c = ct_now c'" "\<And>k. ct_entries c k = ct_entries c' k" "\<And>k. ct_matches c k = ct_matches c' k"
    "\<And>k. ct_players c k = ct_players c' k"
  shows "(c :: contest) = c'"
  using assms by (cases c; cases c') (auto simp: fun_eq_iff)

lemma playing_db_contest:
  assumes "db_inv d"
  shows "playing (db_contest t d) m u \<longleftrightarrow> is_player d m u \<and> active_match d m"
  by (auto simp: playing_def set_players_of active_match_def standing_of_def split: option.splits)

section \<open>Steps that leave the contest as it is\<close>

lemma same_but_enqueued_inv:
  assumes "db_inv d" "same_but_enqueued d d'"
  shows "db_inv d'"
proof -
  let ?f = "\<lambda>r. r\<lparr>s_last_enqueued_at := None\<rparr>"
  have "db_inv (x\<lparr>db_submissions := map ?f (db_submissions x)\<rparr>) = db_inv x" for x
    by (simp add: inv_defs submission_checks_def o_def is_player_def match_of_def problem_of_def user_of_def active_match_def)
  with assms show ?thesis unfolding same_but_enqueued_def by metis
qed

lemma same_but_enqueued_contest:
  assumes "same_but_enqueued d d'"
  shows "db_contest t d' = db_contest t d"
proof (rule contest_eqI)
  let ?f = "\<lambda>r. r\<lparr>s_last_enqueued_at := None\<rparr>"
  note eq = assms [unfolded same_but_enqueued_def]
  have "db_matches d' = db_matches d" "db_players d' = db_players d"
    using arg_cong [OF eq, of db_matches] arg_cong [OF eq, of db_players] by simp_all
  then show "ct_matches (db_contest t d') k = ct_matches (db_contest t d) k"
    "ct_players (db_contest t d') k = ct_players (db_contest t d) k" for k
    by (simp_all add: match_of_def players_of_def)
  have m: "map ?f (db_submissions d') = map ?f (db_submissions d)"
    using arg_cong [OF eq, of db_submissions] by simp
  have look: "map_option entry_of (row_of s_id k x) = map_option entry_of (row_of s_id k (map ?f x))" for k x
    by (induction x) (auto simp: entry_of_def phase_of_def)
  show "ct_entries (db_contest t d') k = ct_entries (db_contest t d) k" for k
    by (simp add: submission_of_def look [of k "db_submissions d'"] look [of k "db_submissions d"] m)
qed simp

lemma register_contest:
  assumes "register A has_db ext fresh now salt email password d = (res, d')"
  shows "db_contest t d' = db_contest t d"
proof -
  have "\<exists>us. d' = d\<lparr>db_users := us\<rparr>"
  proof (cases "d' = d")
    case True
    then have "d' = d\<lparr>db_users := db_users d\<rparr>" by simp
    then show ?thesis ..
  qed (use register_db_cases [OF assms] insert_user_InrD(1) in metis)
  then obtain us where d': "d' = d\<lparr>db_users := us\<rparr>" ..
  show ?thesis
    by (rule contest_eqI) (simp_all add: d' submission_of_def players_of_def)
qed

lemma register_inv:
  "db_inv d \<Longrightarrow> register A has_db ext fresh now salt email password d = (res, d') \<Longrightarrow> db_inv d'"
  using register_db_cases insert_user_inv by metis

lemma dispatch_pending_same:
  assumes "dispatch_pending D (queue_enqueue U client x gen) ext locked now w = (res, d', q')"
  shows "same_but_enqueued (fst w) d'"
proof (cases "d' = fst w")
  case False
  then show ?thesis
    using jq.dispatch_pending_marked [OF assms] by (simp add: same_but_enqueued_marked)
qed simp

lemma same_but_enqueued_trans:
  "same_but_enqueued a b \<Longrightarrow> same_but_enqueued b c \<Longrightarrow> same_but_enqueued a c"
  by (simp add: same_but_enqueued_def)

lemma handle_reclaimed_job_same:
  assumes "handle_reclaimed_job (dispatch D (queue_enqueue U c x gen) mark now) fin z job (d, q) = (err, d', q')"
  shows "same_but_enqueued d d'"
  using assms
  by (auto simp: handle_reclaimed_job_def split: if_splits sum.splits option.splits prod.splits dest: dispatch_same)

lemma handle_reclaimed_jobs_same:
  assumes "\<And>j d q err d' q'. handle j (d, q) = (err, d', q') \<Longrightarrow> same_but_enqueued d d'"
    and "handle_reclaimed_jobs handle js w = (err, d', q')"
  shows "same_but_enqueued (fst w) d'"
  using assms(2)
proof (induction js arbitrary: w err)
  case (Cons j js)
  obtain e1 d1 q1 where j: "handle j w = (e1, d1, q1)" by (metis prod_cases3)
  obtain e2 where js: "handle_reclaimed_jobs handle js (d1, q1) = (e2, d', q')"
    using Cons.prems j by (auto split: prod.splits)
  have "same_but_enqueued (fst w) d1" using assms(1) [of j "fst w" "snd w"] j by simp
  with Cons.IH [OF js] show ?case by (simp add: same_but_enqueued_trans)
qed simp

lemma sweep_stream_same:
  assumes "sweep_stream reclaim (\<lambda>job. handle_reclaimed_job (dispatch D (queue_enqueue U c x gen) (mark job) (now job))
     (fin job) (z job) job) w = (err, d', q')"
  shows "same_but_enqueued (fst w) d'"
proof -
  obtain r q where r: "reclaim (snd w) = (r, q)" by fastforce
  show ?thesis
  proof (cases r)
    case (Inl e)
    with assms r show ?thesis by (simp add: sweep_stream_def)
  next
    case (Inr p)
    obtain js nxt where p: "p = (js, nxt)" by fastforce
    have "handle_reclaimed_jobs (\<lambda>job. handle_reclaimed_job (dispatch D (queue_enqueue U c x gen) (mark job) (now job))
     (fin job) (z job) job) js (fst w, q) = (err, d', q')"
      using assms r Inr p by (simp add: sweep_stream_def)
    from handle_reclaimed_jobs_same [OF handle_reclaimed_job_same this] show ?thesis by simp
  qed
qed

section \<open>Steps of the contest\<close>

abbreviation steps :: "int \<Rightarrow> contest \<Rightarrow> contest \<Rightarrow> bool" where
  "steps N \<equiv> (contest_step N)\<^sup>*\<^sup>*"

lemma one_step: "contest_step N c c' \<Longrightarrow> c' = c'' \<Longrightarrow> steps N c c''"
  by auto

lemma accept_tx_steps:
  assumes inv: "db_inv d" and tx: "accept_tx ext t created fresh r d = (res, d')"
  shows "steps N (db_contest t d) (db_contest t d')"
  using tx
proof (cases rule: accept_tx_cases)
  case (inserted m)
  let ?r = "new_submission fresh created r"
  note d' = insert_submission_SomeD [OF inserted(7)]
  have id: "s_id ?r = fresh" by (simp add: new_submission_def)
  have none: "submission_of d fresh = None"
    using d'(2) id by (simp add: submission_of_def row_of_None_iff)
  have sub: "submission_of d' k = (if k = fresh then Some ?r else submission_of d k)" for k
    using none id by (auto simp: submission_of_def d'(1) row_of_append split: option.split)
  have e: "entry_of ?r = \<lparr>en_match = rq_match_id r, en_player = rq_player_id r, en_phase = Pending 0\<rparr>"
    by (simp add: entry_of_def new_submission_def phase_of_def)
  show ?thesis
  proof (rule one_step)
    show "contest_step N (db_contest t d) ((db_contest t d)\<lparr>ct_entries := (ct_entries (db_contest t d))
        (fresh \<mapsto> \<lparr>en_match = rq_match_id r, en_player = rq_player_id r, en_phase = Pending 0\<rparr>)\<rparr>)"
      using none inserted(2-5)
      by (intro contest_step.submit [where dl = "m_deadline m"]) (simp_all add: standing_of_def set_players_of)
    show "(db_contest t d)\<lparr>ct_entries := (ct_entries (db_contest t d))
        (fresh \<mapsto> \<lparr>en_match = rq_match_id r, en_player = rq_player_id r, en_phase = Pending 0\<rparr>)\<rparr> = db_contest t d'"
      by (rule contest_eqI) (simp_all add: sub e, simp_all add: d'(1))
  qed
qed simp_all

lemma create_match_steps:
  assumes inv: "db_inv d" and cr: "create_match U has_db duration ext t mid ps d = (res, d')"
  shows "steps N (db_contest t d) (db_contest t d')"
  using cr
proof (cases rule: create_match_db_cases)
  case (2 cm)
  note c = create_match_tx_creates [OF inv 2(1)]
  let ?u = "qm_user_id (fst ps)" and ?v = "qm_user_id (snd ps)"
  let ?dl = "t + milliseconds duration * 1000"
  show ?thesis
  proof (cases "0 < milliseconds duration")
    case False
    with cr have "d' = d" by (simp add: create_match_def)
    then show ?thesis by simp
  next
    case dur: True
    show ?thesis
  proof (rule one_step)
    show "contest_step N (db_contest t d) ((db_contest t d)\<lparr>ct_matches := (ct_matches (db_contest t d))(mid \<mapsto> Open ?dl),
        ct_players := (ct_players (db_contest t d))(mid := [?u, ?v])\<rparr>)"
    proof (rule contest_step.open_match)
      show "\<forall>k. \<not> playing (db_contest t d) k ?u \<and> \<not> playing (db_contest t d) k ?v"
        using c(12,13) by (simp add: playing_db_contest [OF inv] in_active_match_iff [OF inv])
    qed (use c(2,4) dur in simp_all)
    show "(db_contest t d)\<lparr>ct_matches := (ct_matches (db_contest t d))(mid \<mapsto> Open ?dl),
        ct_players := (ct_players (db_contest t d))(mid := [?u, ?v])\<rparr> = db_contest t d'"
      using c(3,8,15,16) by (intro contest_eqI) (simp_all add: standing_of_def new_match_def submission_of_def)
  qed
  qed
qed simp

lemma update_one_contest:
  assumes "submission_of d k = Some s" "\<And>j. submission_of d' j = (if j = k then Some s' else submission_of d j)"
    and "match_of d' = match_of d" "players_of d' = players_of d" "s_match_id s' = s_match_id s" "s_player_id s' = s_player_id s"
  shows "set_phase k (entry_of s) (phase_of s') (db_contest t d) = db_contest t d'"
  by (rule contest_eqI) (auto simp: assms entry_of_def)

lemma store_claim_steps:
  assumes cl: "store_claim has_db ext now mark_now sid token lease d = (res, d')"
  shows "steps N (db_contest t d) (db_contest t d')"
  using cl
proof (cases rule: store_claim_cases)
  case (acquired s m p tests players)
  note row = claim_row_of_SomeD [OF acquired(1)] and d' = mark_running_SomeD [OF acquired(12)]
  let ?s = "s\<lparr>s_status := ''running'', s_attempts := s_attempts s + 1, s_attempt_token := Some token,
      s_lease_until := Some (mark_now + microseconds lease)\<rparr>"
  have sub: "submission_of d' j = (if j = sid then Some ?s else submission_of d j)" for j
  proof -
    have "submission_of d' j = map_option (\<lambda>r. if s_id r = sid \<and> s_status r = ''pending'' then r\<lparr>s_status := ''running'',
        s_attempts := s_attempts r + 1, s_attempt_token := Some token, s_lease_until := Some (mark_now + microseconds lease)\<rparr>
        else r) (submission_of d j)"
      by (simp add: submission_of_def d' row_of_sql_update)
    then show ?thesis
      using row(1) acquired(2) submission_ofD [of d j] by (cases "submission_of d j") auto
  qed
  show ?thesis
  proof (rule one_step)
    show "contest_step N (db_contest t d) (set_phase sid (entry_of s) (Running (s_attempts s + 1) token) (db_contest t d))"
      using row(1) acquired(2) by (intro contest_step.claim) (simp_all add: phase_of_def)
    have "phase_of ?s = Running (s_attempts s + 1) token" by (simp add: phase_of_def)
    with update_one_contest [OF row(1) sub] show "set_phase sid (entry_of s) (Running (s_attempts s + 1) token) (db_contest t d) = db_contest t d'"
      by (simp add: d' match_of_def players_of_def fun_eq_iff)
  qed
qed simp

lemma store_complete_steps:
  assumes inv: "db_inv d" and co: "store_complete has_db ext now c tr d = (res, d')"
  shows "steps N (db_contest t d) (db_contest t d')"
  using co
proof (cases rule: store_complete_cases)
  case (applied s m)
  let ?k = "cs_submission_id c" and ?m = "cs_match_id c"
  let ?d1 = "with_completed now ?k tr d"
  let ?s = "completed_row now tr s"
  have sub: "submission_of ?d1 j = (if j = ?k then Some ?s else submission_of d j)" for j
    using applied(4) submission_ofD [of d j]
    by (cases "submission_of d j") (auto simp: with_completed_submission_of)
  have ph: "phase_of s = Running (s_attempts s) (cs_attempt_token c)"
    using applied(5,8) by (simp add: phase_of_def)
  have ph': "phase_of ?s = Done (s_attempts s) (tr_verdict tr) (tr_tests_passed tr)"
    by (simp add: phase_of_def completed_row_def)
  have eq: "set_phase ?k (entry_of s) (phase_of ?s) (db_contest t d) = db_contest t ?d1"
    by (rule update_one_contest [OF applied(4) sub]) (simp_all add: completed_row_def)
  show ?thesis
  proof (cases "pass_wins tr m")
    case True
    then have f: "finish_match ?m (Some (cs_player_id c)) ?d1 = Some (d', True)" using applied(10) by simp
    have m1: "match_of ?d1 ?m = Some m" using applied(3) by simp
    note fr = finish_match_frame [OF f] and fm = finish_match_match_of [OF f m1]
    let ?c' = "(set_phase ?k (entry_of s) (Done (s_attempts s) ''pass'' (tr_tests_passed tr)) (db_contest t d))
       \<lparr>ct_matches := (ct_matches (db_contest t d))(en_match (entry_of s) \<mapsto> Decided (m_deadline m) (Some (en_player (entry_of s))))\<rparr>"
    show ?thesis
    proof (rule one_step)
      show "contest_step N (db_contest t d) ?c'"
        using applied(3,4,6) ph True
        by (intro contest_step.wins) (simp_all add: pass_wins_def standing_of_def)
      show "?c' = db_contest t d'"
      proof (rule contest_eqI)
        have "entry_of ?s = (entry_of s)\<lparr>en_phase := Done (s_attempts s) ''pass'' (tr_tests_passed tr)\<rparr>"
          using True ph' by (simp add: entry_of_def pass_wins_def) (simp add: completed_row_def)
        then show "ct_entries ?c' j = ct_entries (db_contest t d') j" for j
          by (simp add: fr sub)
        show "ct_matches ?c' j = ct_matches (db_contest t d') j" for j
          using applied(6,7) by (simp add: fm standing_of_def)
      qed (simp_all add: fr)
    qed
  next
    case False
    then have d': "d' = ?d1" using applied(10) by simp
    have ok: "match_ok d m" using inv applied(3) by (rule match_ok_of)
    have "tr_verdict tr \<noteq> ''pass'' \<or> (\<exists>dl w. standing_of m = Decided dl w)"
      using False ok by (auto simp: pass_wins_def standing_of_def match_ok_def split: option.splits)
    then show ?thesis
      using applied(3,4,6) ph
      by (intro one_step [OF contest_step.judged eq [unfolded ph' d' [symmetric]]]) simp_all
  qed
qed simp

text \<open>Several submissions moved on at once, by the reaper.\<close>

lemma reclaim_many:
  assumes "finite K" "\<And>k. k \<in> K \<Longrightarrow> \<exists>n token. ct_entries c k = Some (f k) \<and> en_phase (f k) = Running n token
      \<and> (n < N \<and> g k = Pending n \<or> N \<le> n \<and> (\<exists>p. g k = Done n ''failed'' p))"
  shows "steps N c (c\<lparr>ct_entries := (\<lambda>k. if k \<in> K then Some ((f k)\<lparr>en_phase := g k\<rparr>) else ct_entries c k)\<rparr>)"
  using assms
proof (induction K rule: finite_induct)
  case (insert k K)
  let ?c = "c\<lparr>ct_entries := (\<lambda>k. if k \<in> K then Some ((f k)\<lparr>en_phase := g k\<rparr>) else ct_entries c k)\<rparr>"
  obtain n token where e: "ct_entries c k = Some (f k)" "en_phase (f k) = Running n token"
    and g: "n < N \<and> g k = Pending n \<or> N \<le> n \<and> (\<exists>p. g k = Done n ''failed'' p)"
    using insert.prems [of k] by auto
  have ek: "ct_entries ?c k = Some (f k)" using e(1) insert.hyps(2) by simp
  have next_step: "contest_step N ?c (set_phase k (f k) (g k) ?c)"
    using g contest_step.reset [OF ek e(2)] contest_step.give_up [OF ek e(2)] by auto
  have "steps N c ?c" by (rule insert.IH, rule insert.prems) simp
  then have "steps N c (set_phase k (f k) (g k) ?c)" using next_step by (rule rtranclp.rtrancl_into_rtrancl)
  moreover have "set_phase k (f k) (g k) ?c =
      c\<lparr>ct_entries := (\<lambda>j. if j \<in> insert k K then Some ((f j)\<lparr>en_phase := g j\<rparr>) else ct_entries c j)\<rparr>"
    by (rule contest_eqI) (simp_all add: set_phase_def)
  ultimately show ?case by simp
qed simp

lemma reclaim_leases_steps:
  assumes inv: "db_inv d" and rc: "reclaim_leases U cfg publish ext locked now (d, p) = (err, d', p')"
  shows "steps (rc_max_attempts cfg) (db_contest t d) (db_contest t d')"
  using rc
proof (cases rule: reclaim_leases_cases)
  case (reclaimed as)
  let ?N = "rc_max_attempts cfg"
  let ?E = "expired_leases locked now (rc_batch_size cfg) d"
  let ?K = "s_id ` set ?E"
  let ?f = "\<lambda>k. the (map_option entry_of (submission_of d k))"
  let ?g = "\<lambda>k. the (map_option (\<lambda>r. phase_of (reclaimed_row cfg now r)) (submission_of d k))"
  note d' = reclaim_statement_submission_of [OF inv reclaimed(1)] and d2 = reclaim_statement_SomeD(1) [OF reclaimed(1)]
  have E: "submission_of d (s_id r) = Some r" "s_status r = ''running''" if "r \<in> set ?E" for r
    using expired_leasesD [OF that] submission_of_iff [OF inv] by auto
  have K: "k \<in> ?K \<longleftrightarrow> (\<exists>r. submission_of d k = Some r \<and> r \<in> set ?E)" for k
    using E(1) submission_ofD by force
  have "steps ?N (db_contest t d) ((db_contest t d)\<lparr>ct_entries :=
      (\<lambda>k. if k \<in> ?K then Some ((?f k)\<lparr>en_phase := ?g k\<rparr>) else ct_entries (db_contest t d) k)\<rparr>)"
  proof (rule reclaim_many)
    fix k assume "k \<in> ?K"
    then obtain r where r: "submission_of d k = Some r" "r \<in> set ?E" using K by blast
    with E(2) show "\<exists>n token. ct_entries (db_contest t d) k = Some (?f k) \<and> en_phase (?f k) = Running n token
      \<and> (n < ?N \<and> ?g k = Pending n \<or> ?N \<le> n \<and> (\<exists>p. ?g k = Done n ''failed'' p))"
      by (auto simp: phase_of_def reclaimed_row_def reset_row_def poisoned_row_def)
  qed simp
  also have "(db_contest t d)\<lparr>ct_entries :=
      (\<lambda>k. if k \<in> ?K then Some ((?f k)\<lparr>en_phase := ?g k\<rparr>) else ct_entries (db_contest t d) k)\<rparr> = db_contest t d'"
  proof (rule contest_eqI)
    fix k
    show "ct_entries ((db_contest t d)\<lparr>ct_entries :=
      (\<lambda>k. if k \<in> ?K then Some ((?f k)\<lparr>en_phase := ?g k\<rparr>) else ct_entries (db_contest t d) k)\<rparr>) k = ct_entries (db_contest t d') k"
    proof (cases "submission_of d k")
      case None
      with K [of k] show ?thesis by (simp add: d')
    next
      case (Some r)
      with K [of k] show ?thesis by (simp add: d' entry_of_def)
    qed
  qed (simp_all add: d2 match_of_def players_of_def)
  finally show ?thesis .
qed simp

lemma finalize_match_steps:
  assumes inv: "db_inv d" and f: "finalize_match U ext k d = (res, d')"
    and due: "\<And>m. match_of d k = Some m \<Longrightarrow> m_deadline m \<le> t"
  shows "steps N (db_contest t d) (db_contest t d')"
  using f
proof (cases rule: finalize_match_cases)
  case (finished a b n)
  let ?w = "decide_tiebreak_winner (a, b) (best_score d k a, best_score d k b)"
  obtain m where m: "match_of d k = Some m" "m_status m = ''active''"
    using finished(6) by (elim finish_match_SomeD)
  note fr = finish_match_frame [OF finished(6)] and fm = finish_match_match_of [OF finished(6) m(1)]
  have done_: "\<exists>n v p. phase_of r = Done n v p" if "submission_of d j = Some r" "s_match_id r = k" for j r
  proof -
    have "r \<in> set (db_submissions d)" using that(1) by (simp add: submission_ofD)
    then have "s_status r \<notin> {''pending'', ''running''}"
      using finished(1) that(2) by (auto simp: open_submissions_def filter_empty_conv)
    then show ?thesis by (simp add: phase_of_def)
  qed
  show ?thesis
  proof (rule one_step)
    show "contest_step N (db_contest t d) ((db_contest t d)\<lparr>ct_matches := (ct_matches (db_contest t d))(k \<mapsto> Decided (m_deadline m) ?w)\<rparr>)"
      using m due done_ finished(2)
      by (intro contest_step.expires) (auto simp: standing_of_def decide_tiebreak_winner_def split: if_splits)
    show "(db_contest t d)\<lparr>ct_matches := (ct_matches (db_contest t d))(k \<mapsto> Decided (m_deadline m) ?w)\<rparr> = db_contest t d'"
      by (rule contest_eqI) (simp_all add: fr fm standing_of_def)
  qed
qed simp

lemma finalize_each_steps:
  "db_inv d \<Longrightarrow> finalize_each U ext ks d = (res, d') \<Longrightarrow>
     (\<And>k m. k \<in> set ks \<Longrightarrow> match_of d k = Some m \<Longrightarrow> m_deadline m \<le> t) \<Longrightarrow>
     steps N (db_contest t d) (db_contest t d')"
proof (induction ks arbitrary: d res)
  case (Cons k ks)
  obtain r1 d1 where f: "finalize_match U (ext k) k d = (r1, d1)" by fastforce
  have s1: "steps N (db_contest t d) (db_contest t d1)"
    using Cons.prems(3) [of k] by (intro finalize_match_steps [OF Cons.prems(1) f]) simp
  have i1: "db_inv d1" using Cons.prems(1) f by (rule finalize_match_inv)
  have due: "m_deadline m \<le> t" if "j \<in> set ks" "match_of d1 j = Some m" for j m
    using finalize_match_effect [OF f, THEN conjunct2, THEN conjunct2, rule_format, of j] that Cons.prems(3) [of j] by auto
  show ?case
  proof (cases r1)
    case (Inl e)
    with Cons.prems(2) f s1 show ?thesis by simp
  next
    case (Inr evs)
    then obtain r2 where "finalize_each U ext ks d1 = (r2, d')"
      using Cons.prems(2) f by (fastforce split: prod.splits sum.splits)
    from Cons.IH [OF i1 this due] s1 show ?thesis by (simp add: rtranclp_trans)
  qed
qed simp

lemma finalize_matches_steps:
  assumes inv: "db_inv d" and f: "finalize_matches U cfg publish ext locked t (d, p) = (err, d', p')"
  shows "steps N (db_contest t d) (db_contest t d')"
  using f
proof (cases rule: finalize_matches_cases)
  case (finalized evs)
  show ?thesis
  proof (rule finalize_each_steps [OF inv finalized(1)])
    fix k m assume k: "k \<in> set (map m_id (expired_matches locked t (rc_batch_size cfg) d))" and m: "match_of d k = Some m"
    obtain m0 where m0: "m0 \<in> set (expired_matches locked t (rc_batch_size cfg) d)" "m_id m0 = k" using k by auto
    have "match_of d k = Some m0" using expired_matchesD [OF m0(1)] m0(2) match_of_iff [OF inv] by blast
    with m expired_matchesD [OF m0(1)] show "m_deadline m \<le> t" by simp
  qed
qed simp

section \<open>Every step of the system\<close>

lemma gateway_accept_db:
  assumes "gateway_accept U D x gen mark marked_at ext t created fresh r (d, q) = (res, d', q')"
  obtains res0 d0 where "accept_tx ext t created fresh r d = (res0, d0)" "same_but_enqueued d0 d'" | "d' = d"
proof (cases "request_valid r")
  case True
  from gateway_accept_tx [OF assms True] obtain res0 d0
    where "accept_tx ext t created fresh r (fst (d, q)) = (res0, d0)" "same_but_enqueued d0 d'" by metis
  then show thesis using that(1) by simp
next
  case False
  with assms have "d' = d" by (simp add: gateway_accept_def accept_def)
  then show thesis by (rule that(2))
qed

lemma sys_step_inv:
  assumes "sys_step P s s'" "db_inv (sy_db s)"
  shows "db_inv (sy_db s')"
  using assms(1)
proof cases
  case (gateway_registers A has_db ext fresh now salt email password res d)
  with register_inv [OF assms(2)] show ?thesis by simp
next
  case (gateway_submit D x gen mark marked_at ext created fresh r res d q)
  from gateway_submit(2) show ?thesis
    by (cases rule: gateway_accept_db)
      (use assms(2) in \<open>auto simp: gateway_submit(1) intro: same_but_enqueued_inv accept_tx_inv\<close>)
next
  case (matchmaker_create has_db ext mid ps res d)
  with create_match_inv [OF assms(2)] show ?thesis by simp
next
  case (matchmaker_dispatch D client x gen ext locked now res d q)
  with dispatch_pending_same [OF matchmaker_dispatch(2)] same_but_enqueued_inv [OF assms(2)] show ?thesis by simp
next
  case (judge_claims has_db ext now mark_now sid token lease res d)
  with store_claim_inv [OF assms(2)] show ?thesis by simp
next
  case (judge_completes has_db ext now c t res d)
  with store_complete_inv [OF assms(2)] show ?thesis by simp
next
  case (reaper_reclaims px ext locked now err d p)
  with reclaim_leases_inv [OF assms(2)] show ?thesis by simp
next
  case (reaper_sweeps client x now consumer min_idle start count D client' x' gen mark marked_at y z err d q)
  with sweep_stream_same [OF reaper_sweeps(2)] same_but_enqueued_inv [OF assms(2)] show ?thesis by simp
next
  case (reaper_finalizes px ext locked err d p)
  with finalize_matches_inv [OF assms(2)] show ?thesis by simp
qed (use assms(2) in simp_all)

text \<open>The refinement: whatever a step of the services does, it is a sequence of contest steps.\<close>

lemma sys_step_steps:
  assumes "sys_step P s s'" "db_inv (sy_db s)"
  shows "steps (rc_max_attempts (sp_reaper P)) (contest_of s) (contest_of s')"
  using assms(1)
proof cases
  case (clock t)
  have "contest_step (rc_max_attempts (sp_reaper P)) (contest_of s) ((contest_of s)\<lparr>ct_now := t\<rparr>)"
    using clock(2) by (intro contest_step.time_passes) (simp add: contest_of_def)
  then show ?thesis by (rule one_step) (simp add: clock(1) contest_of_def db_contest_def)
next
  case (gateway_registers A has_db ext fresh now salt email password res d)
  with register_contest [OF gateway_registers(2)] show ?thesis by (simp add: contest_of_def)
next
  case (gateway_submit D x gen mark marked_at ext created fresh r res d q)
  from gateway_submit(2) show ?thesis
  proof (cases rule: gateway_accept_db)
    case (1 res0 d0)
    with accept_tx_steps [OF assms(2)] show ?thesis
      by (simp add: gateway_submit(1) contest_of_def same_but_enqueued_contest)
  qed (simp add: gateway_submit(1) contest_of_def)
next
  case (matchmaker_create has_db ext mid ps res d)
  with create_match_steps [OF assms(2)] show ?thesis by (simp add: contest_of_def)
next
  case (matchmaker_dispatch D client x gen ext locked now res d q)
  with same_but_enqueued_contest [OF dispatch_pending_same [OF matchmaker_dispatch(2)]] show ?thesis
    by (simp add: contest_of_def)
next
  case (judge_claims has_db ext now mark_now sid token lease res d)
  with store_claim_steps [OF judge_claims(2)] show ?thesis by (simp add: contest_of_def)
next
  case (judge_completes has_db ext now c t res d)
  with store_complete_steps [OF assms(2)] show ?thesis by (simp add: contest_of_def)
next
  case (reaper_reclaims px ext locked now err d p)
  with reclaim_leases_steps [OF assms(2)] show ?thesis by (simp add: contest_of_def)
next
  case (reaper_sweeps client x now consumer min_idle start count D client' x' gen mark marked_at y z err d q)
  with same_but_enqueued_contest [OF sweep_stream_same [OF reaper_sweeps(2)]] show ?thesis
    by (simp add: contest_of_def)
next
  case (reaper_finalizes px ext locked err d p)
  with finalize_matches_steps [OF assms(2)] show ?thesis by (simp add: contest_of_def)
qed (simp_all add: contest_of_def)

lemma sys_init_ok:
  assumes "sys_init s"
  shows "contest_ok N (contest_of s)"
  using assms
  by (auto simp: sys_init_def contest_of_def contest_ok_def submission_of_def match_of_def playing_def)

lemma reachable_ok:
  assumes "reachable P s" "0 < rc_max_attempts (sp_reaper P)"
  shows "db_inv (sy_db s)" "contest_ok (rc_max_attempts (sp_reaper P)) (contest_of s)"
proof -
  have "db_inv (sy_db s) \<and> contest_ok (rc_max_attempts (sp_reaper P)) (contest_of s)"
    using assms(1)
  proof induction
    case (init s)
    then show ?case using sys_init_ok by (simp add: sys_init_def)
  next
    case (step s s')
    then have i: "db_inv (sy_db s)" "contest_ok (rc_max_attempts (sp_reaper P)) (contest_of s)" by simp_all
    show ?case
      using sys_step_inv [OF step.hyps(2) i(1)] contest_steps_ok [OF sys_step_steps [OF step.hyps(2) i(1)] i(2) assms(2)] by simp
  qed
  then show "db_inv (sy_db s)" "contest_ok (rc_max_attempts (sp_reaper P)) (contest_of s)" by simp_all
qed

lemma sys_steps_steps:
  assumes "(sys_step P)\<^sup>*\<^sup>* s s'" "db_inv (sy_db s)"
  shows "db_inv (sy_db s') \<and> steps (rc_max_attempts (sp_reaper P)) (contest_of s) (contest_of s')"
  using assms(1)
proof induction
  case base
  with assms(2) show ?case by simp
next
  case (step y z)
  then have i: "db_inv (sy_db y)" and st: "steps (rc_max_attempts (sp_reaper P)) (contest_of s) (contest_of y)" by simp_all
  show ?case
    using sys_step_inv [OF step.hyps(2) i] rtranclp_trans [OF st sys_step_steps [OF step.hyps(2) i]] by simp
qed

section \<open>Reading the contest back\<close>

lemma contest_of_simps:
  "ct_entries (contest_of s) k = map_option entry_of (submission_of (sy_db s) k)"
  "ct_matches (contest_of s) k = map_option standing_of (match_of (sy_db s) k)"
  "ct_players (contest_of s) = players_of (sy_db s)" "ct_now (contest_of s) = sy_now s"
  by (simp_all add: contest_of_def)

lemma completed_phase:
  assumes "db_inv d" "submission_of d k = Some r"
  shows "s_status r = ''completed'' \<longleftrightarrow> (\<exists>n v p. phase_of r = Done n v p)"
    "phase_of r = Done n v p \<Longrightarrow> s_status r = ''completed'' \<and> s_result r = Some v \<and> s_attempts r = n \<and> s_tests_passed r = p"
  using submission_ok_of [OF assms] by (auto simp: submission_ok_def submission_checks_def phase_of_def split: if_splits)

lemma finished_standing:
  assumes "db_inv d" "match_of d k = Some m"
  shows "m_status m = ''finished'' \<longleftrightarrow> (\<exists>dl w. standing_of m = Decided dl w)"
    "standing_of m = Decided dl w \<Longrightarrow> m_status m = ''finished'' \<and> m_winner_id m = w \<and> m_deadline m = dl"
    "standing_of m = Open dl \<Longrightarrow> m_status m = ''active'' \<and> m_deadline m = dl"
  using match_ok_of [OF assms] by (auto simp: match_ok_def match_checks_def standing_of_def split: if_splits)

end
