(* ===== verification/Progress.thy ===== *)
theory Progress
  imports System
begin

text \<open>
  No dead ends: from every reachable state the services can still bring a match to its end. The
  theory builds the run that does it, out of the steps of \<open>System\<close>: judges finish the
  submissions that are open, the clock passes the deadline, and the reaper decides the match.
\<close>

section \<open>What can be judged\<close>

definition judgeable :: "submission_row \<Rightarrow> bool" where
  "judgeable r \<longleftrightarrow> s_id r \<noteq> nil_uuid \<and> s_request_id r \<noteq> nil_uuid \<and> s_code r \<noteq> '''' \<and> utf8_valid (s_code r)
     \<and> s_attempt_token r \<noteq> Some nil_uuid"

definition stored_tests :: "db \<Rightarrow> uuid \<Rightarrow> test_case list option" where
  "stored_tests d k =
     (case match_of d k of
        None \<Rightarrow> None
      | Some m \<Rightarrow> (case problem_of d (m_problem_id m) of
            None \<Rightarrow> None
          | Some p \<Rightarrow> (case decode_stored_tests (p_test_cases p) of Inl _ \<Rightarrow> None | Inr ts \<Rightarrow> Some ts)))"

definition open_rows :: "db \<Rightarrow> uuid \<Rightarrow> uuid set" where
  "open_rows d k = {j. \<exists>r. submission_of d j = Some r \<and> s_match_id r = k \<and> s_status r \<in> {''pending'', ''running''}}"

text \<open>Two databases with the same matches, players and problems.\<close>

definition same_matches :: "db \<Rightarrow> db \<Rightarrow> bool" where
  "same_matches d d' \<longleftrightarrow> match_of d' = match_of d \<and> players_of d' = players_of d \<and> problem_of d' = problem_of d"

lemma same_matches_trans: "same_matches a b \<Longrightarrow> same_matches b c \<Longrightarrow> same_matches a c"
  by (simp add: same_matches_def)

lemma same_matches_tests: "same_matches d d' \<Longrightarrow> stored_tests d' k = stored_tests d k"
  unfolding same_matches_def stored_tests_def by (elim conjE) (simp only:)

lemma stored_testsD:
  assumes "stored_tests d k = Some ts"
  obtains m p where "match_of d k = Some m" "problem_of d (m_problem_id m) = Some p" "decode_stored_tests (p_test_cases p) = Inr ts"
  using assms by (auto simp: stored_tests_def split: option.splits sum.splits)

lemma open_submissions_0: "db_inv d \<Longrightarrow> open_rows d k = {} \<Longrightarrow> open_submissions d k = 0"
  by (auto simp: open_rows_def open_submissions_def filter_empty_conv submission_of_iff)

lemma finite_open_rows: "finite (open_rows d k)"
proof (rule finite_subset)
  show "open_rows d k \<subseteq> s_id ` set (db_submissions d)"
    by (auto simp: open_rows_def dest!: submission_ofD)
qed simp

section \<open>Judging one submission\<close>

lemma judge_running:
  assumes inv: "db_inv d" and r: "submission_of d j = Some r" "s_match_id r = k" "s_status r = ''running''" "judgeable r"
    and k: "k \<noteq> nil_uuid" "players_of d k = [a, b]" "a \<noteq> nil_uuid" "b \<noteq> nil_uuid"
    and ts: "stored_tests d k = Some ts" "int (length ts) \<le> int_max"
  shows "\<exists>c t res d' r'. store_complete True (\<lambda>_. IoOk) now c t d = (res, d') \<and> same_matches d d'
    \<and> (\<forall>i. submission_of d' i = (if i = j then Some r' else submission_of d i)) \<and> s_status r' = ''completed''"
proof -
  have id: "s_id r = j" using r(1) by (simp add: submission_ofD)
  have ok: "submission_ok d r" using inv r(1) by (rule submission_ok_of)
  then obtain token where token: "s_attempt_token r = Some token" using r(3) by (auto simp: submission_ok_def)
  have "s_player_id r \<in> {a, b}" using ok set_players_of [of d k] k(2) r(2) by (auto simp: submission_ok_def)
  then have u: "s_player_id r \<noteq> nil_uuid" using k(3,4) by auto
  obtain m p where "match_of d k = Some m" "problem_of d (m_problem_id m) = Some p"
    and "decode_stored_tests (p_test_cases p) = Inr ts" using ts(1) by (elim stored_testsD)
  then have ne: "ts \<noteq> []" by (intro decode_stored_tests_InrD(1))
  let ?c = "\<lparr>cs_submission_id = j, cs_match_id = k, cs_player_id = s_player_id r, cs_problem_id = nil_uuid,
    cs_request_id = s_request_id r, cs_language = s_language r, cs_source = s_code r, cs_tests = ts, cs_players = (a, b),
    cs_attempt_token = token\<rparr>"
  let ?t = "\<lparr>tr_verdict = ''fail'', tr_failure_kind = ''wrong_answer'', tr_tests_passed = 0\<rparr>"
  have valid: "valid_claimed_submission ?c"
    using r(4) id k(1) u token ne by (auto simp: valid_claimed_submission_def judgeable_def)
  have t: "validate_terminal_result ?t (length (cs_tests ?c)) = None" by (simp add: validate_terminal_result_def)
  have row: "submission_of d (cs_submission_id ?c) = Some r" "s_match_id r = cs_match_id ?c" "s_player_id r = cs_player_id ?c"
    "s_attempt_token r = Some (cs_attempt_token ?c)" "int (length (cs_tests ?c)) \<le> int_max"
    using r(1,2) token ts(2) by simp_all
  obtain co d' where run: "store_complete True (\<lambda>_. IoOk) now ?c ?t d = (Inr (CompletionApplied co), d')"
    using complete_applied_run [OF inv row(1) r(3) row(2-4) valid t row(5), of now] by (elim exE conjE)
  show ?thesis
  proof (cases rule: store_complete_rows [OF run])
    case (2 s m)
    have "same_matches d d'" using 2(8-11) by (auto simp: same_matches_def pass_wins_def fun_eq_iff)
    moreover have "s_status (completed_row now ?t r) = ''completed''" by (simp add: completed_row_def)
    moreover have "\<forall>i. submission_of d' i = (if i = j then Some (completed_row now ?t r) else submission_of d i)"
      using 2(1,7) r(1) by simp
    ultimately show ?thesis using run by blast
  qed blast
qed

lemma judge_takes:
  assumes inv: "db_inv d" and r: "submission_of d j = Some r" "s_match_id r = k" "s_status r = ''pending''" "judgeable r"
      "s_attempts r < int_max"
    and k: "players_of d k = [a, b]" and ts: "stored_tests d k = Some ts"
  shows "\<exists>res d' r'. store_claim True (\<lambda>_. IoOk) now now j 1 1 d = (res, d') \<and> same_matches d d'
    \<and> (\<forall>i. submission_of d' i = (if i = j then Some r' else submission_of d i))
    \<and> s_status r' = ''running'' \<and> s_match_id r' = k \<and> judgeable r'"
proof -
  have id: "s_id r = j" using r(1) by (simp add: submission_ofD)
  have ok: "submission_ok d r" using inv r(1) by (rule submission_ok_of)
  then have checks: "submission_checks r" by (simp add: submission_ok_def)
  have u: "s_player_id r \<in> {a, b}" using ok set_players_of [of d k] k r(2) by (auto simp: submission_ok_def)
  have ab: "a \<noteq> b" using distinct_players_of [OF inv, of k] k by simp
  obtain m p where m: "match_of d k = Some m" "problem_of d (m_problem_id m) = Some p"
    and t: "decode_stored_tests (p_test_cases p) = Inr ts" using ts by (elim stored_testsD)
  let ?f = "\<lambda>r. r\<lparr>s_status := ''running'', s_attempts := s_attempts r + 1, s_attempt_token := Some 1,
      s_lease_until := Some (now + microseconds 1)\<rparr>"
  have only: "x = r" if "x \<in> set (db_submissions d)" "s_id x = j" for x
    using that submission_of_iff [OF inv, of j x] r(1) by simp
  have "submission_checks (?f r)" using checks r(3,5) by (auto simp: submission_checks_def)
  then have all: "\<forall>x\<in>set (db_submissions d). s_id x = j \<and> s_status x = ''pending'' \<longrightarrow> submission_checks (?f x)"
    using only by blast
  let ?d' = "d\<lparr>db_submissions := sql_update (\<lambda>r. s_id r = j \<and> s_status r = ''pending'') ?f (db_submissions d)\<rparr>"
  have mark: "mark_running now j 1 1 d = Some ?d'"
    unfolding mark_running_def update_submissions_def by (rule if_P) (rule all)
  have row: "claim_row_of j d = Some (r, m, p)" using r(1,2) m by (simp add: claim_row_of_def)
  have lang: "parse_stored_language (s_language r) = Inr (s_language r)"
    using checks by (simp add: parse_stored_language_def submission_checks_def)
  have pl: "load_match_players IoOk (s_match_id r) (s_player_id r) d = Inr (a, b)"
    using k u ab r(2) by (auto simp: load_match_players_def)
  have "\<exists>res. store_claim True (\<lambda>_. IoOk) now now j 1 1 d = (res, ?d')"
    using row r(3,4) id t lang pl mark by (simp add: store_claim_def judgeable_def nil_uuid_def commit_db_def)
  moreover have "\<forall>i. submission_of ?d' i = (if i = j then Some (?f r) else submission_of d i)"
  proof
    fix i show "submission_of ?d' i = (if i = j then Some (?f r) else submission_of d i)"
    using r(1,3) id by (cases "submission_of d i") (auto simp: mark_running_submission_of [OF mark] dest: submission_ofD)
  qed
  moreover have "same_matches d ?d'"
    by (simp add: same_matches_def match_of_def players_of_def problem_of_def fun_eq_iff)
  moreover have "s_status (?f r) = ''running''" "s_match_id (?f r) = k" "judgeable (?f r)"
    using r(2,4) by (simp_all add: judgeable_def nil_uuid_def)
  ultimately show ?thesis by blast
qed

lemma judge_one:
  assumes inv: "db_inv (sy_db s)" and r: "submission_of (sy_db s) j = Some r" "s_match_id r = k"
      "s_status r \<in> {''pending'', ''running''}" "judgeable r" "s_status r = ''pending'' \<longrightarrow> s_attempts r < int_max"
    and k: "k \<noteq> nil_uuid" "players_of (sy_db s) k = [a, b]" "a \<noteq> nil_uuid" "b \<noteq> nil_uuid"
    and ts: "stored_tests (sy_db s) k = Some ts" "int (length ts) \<le> int_max"
  shows "\<exists>s' r'. (sys_step P)\<^sup>*\<^sup>* s s' \<and> same_matches (sy_db s) (sy_db s') \<and> s_status r' = ''completed''
    \<and> (\<forall>i. submission_of (sy_db s') i = (if i = j then Some r' else submission_of (sy_db s) i))"
proof (cases "s_status r = ''running''")
  case True
  obtain c t res d' r' where run: "store_complete True (\<lambda>_. IoOk) (sy_now s) c t (sy_db s) = (res, d')"
    and d': "same_matches (sy_db s) d'" "s_status r' = ''completed''"
      "\<forall>i. submission_of d' i = (if i = j then Some r' else submission_of (sy_db s) i)"
    using judge_running [OF inv r(1,2) True r(4) k ts, of "sy_now s"] by blast
  have "sys_step P s (s\<lparr>sy_db := d'\<rparr>)" using run by (rule sys_step.judge_completes)
  with d' show ?thesis by (intro exI [of _ "s\<lparr>sy_db := d'\<rparr>"] exI [of _ r']) auto
next
  case False
  then have p: "s_status r = ''pending''" using r(3) by simp
  obtain res1 d1 r1 where take: "store_claim True (\<lambda>_. IoOk) (sy_now s) (sy_now s) j 1 1 (sy_db s) = (res1, d1)"
    and d1: "same_matches (sy_db s) d1" "\<forall>i. submission_of d1 i = (if i = j then Some r1 else submission_of (sy_db s) i)"
    and r1: "s_status r1 = ''running''" "s_match_id r1 = k" "judgeable r1"
    using judge_takes [OF inv r(1,2) p r(4) r(5) [rule_format, OF p] k(2) ts(1), of "sy_now s"] by blast
  have inv1: "db_inv d1" using inv take by (rule store_claim_inv)
  have k1: "submission_of d1 j = Some r1" "players_of d1 k = [a, b]" "stored_tests d1 k = Some ts"
    using d1 k(2) ts(1) same_matches_tests [OF d1(1)] by (simp_all add: same_matches_def)
  obtain c t res d' r' where run: "store_complete True (\<lambda>_. IoOk) (sy_now s) c t d1 = (res, d')"
    and d': "same_matches d1 d'" "s_status r' = ''completed''"
      "\<forall>i. submission_of d' i = (if i = j then Some r' else submission_of d1 i)"
    using judge_running [OF inv1 k1(1) r1(2,1,3) k(1) k1(2) k(3,4) k1(3) ts(2), of "sy_now s"] by blast
  have one: "sys_step P s (s\<lparr>sy_db := d1\<rparr>)" using take by (rule sys_step.judge_claims)
  have "store_complete True (\<lambda>_. IoOk) (sy_now s) c t (sy_db (s\<lparr>sy_db := d1\<rparr>)) = (res, d')" using run by simp
  then have "sys_step P (s\<lparr>sy_db := d1\<rparr>) (s\<lparr>sy_db := d1\<rparr>\<lparr>sy_db := d'\<rparr>)" by (rule sys_step.judge_completes)
  with one have "(sys_step P)\<^sup>*\<^sup>* s (s\<lparr>sy_db := d'\<rparr>)" by (simp add: converse_rtranclp_into_rtranclp)
  with same_matches_trans [OF d1(1) d'(1)] d'(2,3) d1(2) show ?thesis
    by (intro exI [of _ "s\<lparr>sy_db := d'\<rparr>"] exI [of _ r']) auto
qed

section \<open>Judging them all\<close>

definition all_judgeable :: "db \<Rightarrow> uuid \<Rightarrow> bool" where
  "all_judgeable d k \<longleftrightarrow> (\<forall>j\<in>open_rows d k. case submission_of d j of
     None \<Rightarrow> False | Some r \<Rightarrow> judgeable r \<and> (s_status r = ''pending'' \<longrightarrow> s_attempts r < int_max))"

lemma judge_all:
  assumes "db_inv (sy_db s)" "all_judgeable (sy_db s) k"
    and "k \<noteq> nil_uuid" "players_of (sy_db s) k = [a, b]" "a \<noteq> nil_uuid" "b \<noteq> nil_uuid"
    and "stored_tests (sy_db s) k = Some ts" "int (length ts) \<le> int_max"
  shows "\<exists>s'. (sys_step P)\<^sup>*\<^sup>* s s' \<and> same_matches (sy_db s) (sy_db s') \<and> open_rows (sy_db s') k = {}"
  using assms
proof (induction "card (open_rows (sy_db s) k)" arbitrary: s)
  case 0
  then have "open_rows (sy_db s) k = {}" using finite_open_rows by simp
  then show ?case by (intro exI [of _ s]) (simp add: same_matches_def)
next
  case (Suc n)
  then obtain j where j: "j \<in> open_rows (sy_db s) k" by (metis card.empty equals0I nat.distinct(1))
  then obtain r where r: "submission_of (sy_db s) j = Some r" "s_match_id r = k" "s_status r \<in> {''pending'', ''running''}"
    by (auto simp: open_rows_def)
  have ok: "judgeable r" "s_status r = ''pending'' \<longrightarrow> s_attempts r < int_max" using Suc.prems(2) j r(1) by (auto simp: all_judgeable_def)
  obtain s1 r1 where run: "(sys_step P)\<^sup>*\<^sup>* s s1" and same: "same_matches (sy_db s) (sy_db s1)"
    and r1: "s_status r1 = ''completed''" "\<forall>i. submission_of (sy_db s1) i = (if i = j then Some r1 else submission_of (sy_db s) i)"
    using judge_one [OF Suc.prems(1) r ok Suc.prems(3-8), of P] by blast
  have rows: "open_rows (sy_db s1) k = open_rows (sy_db s) k - {j}" using r1 by (auto simp: open_rows_def)
  have inv: "db_inv (sy_db s1)" using sys_steps_steps [OF run Suc.prems(1)] by simp
  have "n = card (open_rows (sy_db s1) k)" using Suc.hyps(2) j finite_open_rows by (simp add: rows)
  moreover have "all_judgeable (sy_db s1) k" using Suc.prems(2) r1(2) by (auto simp: all_judgeable_def rows)
  moreover have "players_of (sy_db s1) k = [a, b]" "stored_tests (sy_db s1) k = Some ts"
    using same Suc.prems(4,7) same_matches_tests [OF same] by (simp_all add: same_matches_def)
  ultimately obtain s' where "(sys_step P)\<^sup>*\<^sup>* s1 s'" "same_matches (sy_db s1) (sy_db s')" "open_rows (sy_db s') k = {}"
    using Suc.hyps(1) [of s1] inv Suc.prems(3,5,6,8) by blast
  with rtranclp_trans [OF run] same_matches_trans [OF same] show ?case by blast
qed

section \<open>Deciding the match\<close>

lemma best_score_nonneg: "db_inv d \<Longrightarrow> 0 \<le> best_score d k u"
  using best_score_cases [of d k u] db_invD(2) [of d] by (fastforce simp: submission_ok_def submission_checks_def)

lemma filter_by_id:
  "distinct (map m_id l) \<Longrightarrow> m \<in> set l \<Longrightarrow> Q m \<Longrightarrow> filter (\<lambda>x. Q x \<and> m_id x = m_id m) l = [m]"
proof (induction l)
  case (Cons x l)
  have new: "m_id x \<noteq> m_id y" if "y \<in> set l" for y using Cons.prems(1) that by auto
  show ?case
  proof (cases "m = x")
    case True
    then have "filter (\<lambda>y. Q y \<and> m_id y = m_id m) l = []" using new by (fastforce simp: filter_empty_conv)
    with True Cons.prems(3) show ?thesis by simp
  next
    case False
    then have "m \<in> set l" using Cons.prems(2) by simp
    with new [of m] Cons show ?thesis by simp
  qed
qed simp

lemma reaper_decides:
  assumes inv: "db_inv d" and m: "match_of d k = Some m" "m_status m = ''active''" "m_deadline m \<le> t"
    and k: "k \<noteq> nil_uuid" "players_of d k = [a, b]" "a \<noteq> nil_uuid" "b \<noteq> nil_uuid"
    and ts: "stored_tests d k = Some ts" and none: "open_submissions d k = 0" and batch: "0 < rc_batch_size cfg"
  shows "\<exists>err d' p'. finalize_matches U cfg (redis_publish (\<lambda>_. IoOk)) (\<lambda>_. IoOk) (\<lambda>x. m_id x \<noteq> k) t (d, p) = (err, d', p')
    \<and> match_of d' k = Some (m\<lparr>m_status := ''finished'', m_winner_id := tiebreak_of d k\<rparr>) \<and> db_submissions d' = db_submissions d"
proof -
  have ab: "a \<noteq> b" using distinct_players_of [OF inv, of k] k(2) by simp
  have mk: "m_id m = k" "m \<in> set (db_matches d)" using m(1) by (simp_all add: match_ofD)
  have win: "m_winner_id m = None"
    using match_ok_of [OF inv m(1)] m(2) by (auto simp: match_ok_def split: option.splits)
  obtain m0 p0 where p0: "match_of d k = Some m0" "problem_of d (m_problem_id m0) = Some p0"
    and tests: "decode_stored_tests (p_test_cases p0) = Inr ts" using ts by (elim stored_testsD)
  note len = decode_stored_tests_InrD(3) [OF tests]
  let ?w = "decide_tiebreak_winner (a, b) (best_score d k a, best_score d k b)"
  have w: "?w = tiebreak_of d k" by (simp add: tiebreak_of_def k(2))
  have pl: "is_player d k a" "is_player d k b" using set_players_of [of d k] k(2) by auto
  then have "case ?w of None \<Rightarrow> True | Some u \<Rightarrow> is_player d k u" by (simp add: decide_tiebreak_winner_def)
  then obtain d' where fin: "finish_match k ?w d = Some (d', True)"
    using finish_match_total [OF m(1,2) win] by blast
  have "\<exists>evs. build_match_end_events U k (a, b) (best_score d k a, best_score d k b) (int (length ts)) ?w = Inr evs"
    using k(1,3,4) ab best_score_nonneg [OF inv, of k]
    by (auto simp: build_match_end_events_def encode_events_Inr decide_tiebreak_winner_def not_less simp del: encode_events.simps)
  then obtain evs where evs: "build_match_end_events U k (a, b) (best_score d k a, best_score d k b) (int (length ts)) ?w = Inr evs" ..
  have f: "finalize_match U (\<lambda>_. IoOk) k d = (Inr evs, d')"
    using none k(2-4) ab p0 len fin evs m(1) by (simp add: finalize_match_def Let_def)
  have "expired_matches (\<lambda>x. m_id x \<noteq> k) t (rc_batch_size cfg) d = [m]"
    using filter_by_id [OF db_keys(3) [OF inv] mk(2), of "\<lambda>x. m_status x = ''active'' \<and> m_deadline x \<le> t"] m(2,3) mk(1) batch
    by (simp add: expired_matches_def sql_select_def)
  then have "\<exists>err p'. finalize_matches U cfg (redis_publish (\<lambda>_. IoOk)) (\<lambda>_. IoOk) (\<lambda>x. m_id x \<noteq> k) t (d, p) = (err, d', p')"
    using f mk(1) by (simp add: finalize_matches_def split: prod.split)
  with finish_match_match_of [OF fin m(1), of k] finish_match_frame(4) [OF fin] w show ?thesis by auto
qed

section \<open>The end of a match\<close>

lemma reachable_attempts:
  assumes "reachable P s" "0 < rc_max_attempts (sp_reaper P)" "submission_of (sy_db s) j = Some r" "s_status r = ''pending''"
  shows "s_attempts r < rc_max_attempts (sp_reaper P)"
  using contest_okD(1) [OF reachable_ok(2) [OF assms(1,2)], of j "entry_of r"] assms(3,4)
  by (simp add: contest_of_simps phase_of_def)

lemma reachable_players:
  assumes "reachable P s" "0 < rc_max_attempts (sp_reaper P)" "match_of (sy_db s) k = Some m"
  obtains a b where "a \<noteq> b" "players_of (sy_db s) k = [a, b]"
  using contest_okD(5) [OF reachable_ok(2) [OF assms(1,2)], of k "standing_of m"] assms(3) by (auto simp: contest_of_simps)

end
