(* ===== verification/Output.thy ===== *)
theory Output
  imports Text
begin

text \<open>
  Comparing and limiting sandbox output: \<open>internal/judge/output.go\<close>. \<open>outputMatches\<close> is
  compared with a reference on lines, and the writers that share one \<open>outputBudget\<close> with a
  reference on the whole output.
\<close>

section \<open>Comparing outputs\<close>

definition cr :: char where "cr = CHR 0x0D"
definition lf :: char where "lf = CHR 0x0A"

definition normalize_output :: "string \<Rightarrow> string" where
  "normalize_output output = trim_suffix (replace_all output [cr, lf] [lf]) [lf]"

definition output_matches :: "string \<Rightarrow> string \<Rightarrow> bool" where
  "output_matches actual expected \<longleftrightarrow> normalize_output actual = normalize_output expected"

text \<open>
  The reference: split the output at its line feeds, drop one carriage return before each of
  them, and forget one empty last line.
\<close>

fun lf_lines :: "string \<Rightarrow> string list" where
  "lf_lines [] = [[]]"
| "lf_lines (c # s) = (if c = lf then [] # lf_lines s
     else case lf_lines s of [] \<Rightarrow> [[c]] | l # ls \<Rightarrow> (c # l) # ls)"

fun chomp_lines :: "string list \<Rightarrow> string list" where
  "chomp_lines (l # l' # ls) = trim_suffix l [cr] # chomp_lines (l' # ls)"
| "chomp_lines ls = ls"

definition output_lines :: "string \<Rightarrow> string list" where
  "output_lines s =
     (let ls = chomp_lines (lf_lines s) in if 1 < length ls \<and> last ls = [] then butlast ls else ls)"

lemma lf_lines_ne [simp]: "lf_lines s \<noteq> []"
  by (induction s) (auto split: list.split)

lemma chomp_lines_Nil_iff [simp]: "chomp_lines ls = [] \<longleftrightarrow> ls = []"
  by (cases ls rule: chomp_lines.cases) auto

lemma length_chomp_lines [simp]: "length (chomp_lines ls) = length ls"
  by (induction ls rule: chomp_lines.induct) auto

text \<open>Joining lines with line feeds inverts the split.\<close>

fun unlines_lf :: "string list \<Rightarrow> string" where
  "unlines_lf [] = []"
| "unlines_lf [l] = l"
| "unlines_lf (l # l' # ls) = l @ lf # unlines_lf (l' # ls)"

lemma unlines_lf_Cons: "ls \<noteq> [] \<Longrightarrow> unlines_lf (l # ls) = l @ lf # unlines_lf ls"
  by (cases ls) auto

lemma unlines_lf_lines: "unlines_lf (lf_lines s) = s"
proof (induction s)
  case Nil
  then show ?case by simp
next
  case (Cons c s)
  obtain l ls where s: "lf_lines s = l # ls"
    using lf_lines_ne [of s] by (cases "lf_lines s") auto
  have "unlines_lf ((c # l) # ls) = c # unlines_lf (l # ls)"
    by (cases ls) auto
  with Cons s show ?case by simp
qed

lemma lf_lines_append_lf: "lf \<notin> set l \<Longrightarrow> lf_lines (l @ lf # s) = l # lf_lines s"
  by (induction l) auto

lemma lf_lines_no_lf: "lf \<notin> set l \<Longrightarrow> lf_lines l = [l]"
  by (induction l) auto

lemma lf_lines_unlines:
  "ls \<noteq> [] \<Longrightarrow> (\<And>l. l \<in> set ls \<Longrightarrow> lf \<notin> set l) \<Longrightarrow> lf_lines (unlines_lf ls) = ls"
  by (induction ls rule: unlines_lf.induct) (auto simp: lf_lines_no_lf lf_lines_append_lf)

lemma lf_notin_lines: "l \<in> set (lf_lines s) \<Longrightarrow> lf \<notin> set l"
  by (induction s arbitrary: l) (auto split: if_splits list.splits)

lemma set_trim_suffix: "set (trim_suffix l s) \<subseteq> set l"
  by (auto simp: trim_suffix_def trim_prefix_def dest: in_set_dropD)

lemma lf_notin_chomp:
  "(\<And>l. l \<in> set ls \<Longrightarrow> lf \<notin> set l) \<Longrightarrow> l \<in> set (chomp_lines ls) \<Longrightarrow> lf \<notin> set l"
  by (induction ls rule: chomp_lines.induct) (use set_trim_suffix in fastforce)+

text \<open>\<open>ReplaceAll\<close> works line by line.\<close>

lemma cr_neq_lf [simp]: "cr \<noteq> lf" "lf \<noteq> cr"
  by (simp_all add: cr_def lf_def)

lemma replace_lf: "replace_all (lf # s) [cr, lf] [lf] = lf # replace_all s [cr, lf] [lf]"
  by (simp add: has_prefix_def)

lemma replace_line:
  "lf \<notin> set l \<Longrightarrow> replace_all (l @ lf # s) [cr, lf] [lf] =
     trim_suffix l [cr] @ lf # replace_all s [cr, lf] [lf]"
proof (induction l)
  case Nil
  then show ?case by (simp add: has_prefix_def trim_suffix_singleton)
next
  case (Cons c l)
  show ?case
  proof (cases "l = []")
    case True
    with Cons.prems show ?thesis
      by (auto simp: has_prefix_def trim_suffix_singleton)
  next
    case False
    then obtain d l' where l: "l = d # l'" by (cases l) auto
    with Cons show ?thesis
      by (auto simp: has_prefix_def trim_suffix_singleton simp del: replace_all.simps
          simp: replace_all.simps(2) [of c])
  qed
qed

lemma replace_no_lf: "lf \<notin> set l \<Longrightarrow> replace_all l [cr, lf] [lf] = l"
proof (induction l)
  case (Cons c l)
  then show ?case by (cases l) (auto simp: has_prefix_def)
qed simp

lemma replace_unlines:
  "(\<And>l. l \<in> set ls \<Longrightarrow> lf \<notin> set l) \<Longrightarrow>
     replace_all (unlines_lf ls) [cr, lf] [lf] = unlines_lf (chomp_lines ls)"
proof (induction ls rule: chomp_lines.induct)
  case (1 l l' ls)
  then show ?case by (simp add: replace_line unlines_lf_Cons)
qed (simp_all add: replace_no_lf)

lemma unlines_snoc: "ls \<noteq> [] \<Longrightarrow> unlines_lf (ls @ [l]) = unlines_lf ls @ lf # l"
  by (induction ls rule: unlines_lf.induct) auto

lemma trim_unlines:
  assumes "ls \<noteq> []" "\<And>l. l \<in> set ls \<Longrightarrow> lf \<notin> set l"
  shows "trim_suffix (unlines_lf ls) [lf] =
    unlines_lf (if 1 < length ls \<and> last ls = [] then butlast ls else ls)"
proof (cases ls rule: rev_exhaust)
  case (snoc ks k)
  show ?thesis
  proof (cases "ks = []")
    case True
    have "k = [] \<or> last k \<noteq> lf" using snoc assms(2) by (metis in_set_conv_decomp last_in_set)
    with True snoc show ?thesis by (auto simp: trim_suffix_singleton)
  next
    case False
    have k: "lf \<notin> set k" using assms(2) snoc by simp
    show ?thesis
    proof (cases "k = []")
      case True
      then show ?thesis
        using False by (simp add: snoc unlines_snoc trim_suffix_singleton butlast_append)
    next
      case ne: False
      then have "last k \<noteq> lf" using k by (metis last_in_set)
      then show ?thesis
        using False ne by (simp add: snoc unlines_snoc trim_suffix_singleton)
    qed
  qed
qed (use assms in simp)

lemma normalize_lines:
  "normalize_output s = unlines_lf (output_lines s)"
proof -
  let ?ls = "chomp_lines (lf_lines s)"
  have no: "\<And>l. l \<in> set ?ls \<Longrightarrow> lf \<notin> set l"
    using lf_notin_chomp lf_notin_lines by blast
  have "replace_all s [cr, lf] [lf] = unlines_lf ?ls"
    using replace_unlines [of "lf_lines s"] lf_notin_lines [of _ s] by (simp add: unlines_lf_lines)
  then show ?thesis
    using trim_unlines [of ?ls, OF _ no] by (simp add: normalize_output_def output_lines_def Let_def)
qed

lemma lf_lines_normalize: "lf_lines (normalize_output s) = output_lines s"
proof -
  let ?ls = "chomp_lines (lf_lines s)"
  have "l \<in> set (output_lines s) \<Longrightarrow> l \<in> set ?ls" for l
    by (auto simp: output_lines_def Let_def dest: in_set_butlastD split: if_splits)
  moreover have "output_lines s \<noteq> []"
    by (cases "chomp_lines (lf_lines s)" rule: rev_exhaust) (auto simp: output_lines_def Let_def)
  ultimately show ?thesis
    unfolding normalize_lines using lf_notin_chomp [of "lf_lines s"] lf_notin_lines [of _ s]
    by (intro lf_lines_unlines) blast+
qed

text \<open>
  \<open>outputMatches\<close> compares outputs as lists of lines: it holds exactly when both
  outputs have the same lines, where a line ends at a line feed, one carriage return before
  the line feed is ignored, and one line feed at the very end is optional.
\<close>

theorem output_matches_lines: "output_matches actual expected \<longleftrightarrow> output_lines actual = output_lines expected"
  unfolding output_matches_def by (metis lf_lines_normalize normalize_lines)

section \<open>The output budget\<close>

text \<open>
  Writers that share an \<open>outputBudget\<close>; \<open>remaining\<close> is the shared counter, a writer appends to
  its own buffer. The mutex makes a write one step. The result is the number of bytes
  written and whether the write failed with \<open>errOutputLimit\<close>.
\<close>

definition budget_write :: "int \<Rightarrow> string \<Rightarrow> string \<Rightarrow> int \<times> bool \<times> int \<times> string" where
  "budget_write remaining buffer p =
     (if int (length p) \<le> remaining
      then (int (length p), False, remaining - int (length p), buffer @ p)
      else let allowed = max remaining 0; q = take (nat allowed) p in
        (int (length q), True, 0, buffer @ q))"

text \<open>A sequence of writes to writers \<open>i\<close> with buffers \<open>bufs i\<close>, and whether one of them failed.\<close>

fun budget_writes :: "(nat \<times> string) list \<Rightarrow> int \<Rightarrow> (nat \<Rightarrow> string) \<Rightarrow> bool \<times> int \<times> (nat \<Rightarrow> string)" where
  "budget_writes [] remaining bufs = (False, remaining, bufs)"
| "budget_writes ((i, p) # ws) remaining bufs =
     (case budget_write remaining (bufs i) p of (n, failed, remaining', buf) \<Rightarrow>
        (case budget_writes ws remaining' (bufs(i := buf)) of (f, r, b) \<Rightarrow> (failed \<or> f, r, b)))"

text \<open>The reference: the concatenated output cut at the limit, and what of it each writer gets.\<close>

fun cut_writes :: "nat \<Rightarrow> (nat \<times> string) list \<Rightarrow> (nat \<times> string) list" where
  "cut_writes n [] = []"
| "cut_writes n ((i, p) # ws) = (i, take n p) # cut_writes (n - length p) ws"

definition written :: "nat \<Rightarrow> (nat \<times> string) list \<Rightarrow> string" where
  "written i ws = concat (map snd (filter (\<lambda>w. fst w = i) ws))"

lemma cut_writes_concat: "concat (map snd (cut_writes n ws)) = take n (concat (map snd ws))"
  by (induction n ws rule: cut_writes.induct) auto

lemma cut_writes_0: "written i (cut_writes 0 ws) = []"
  by (induction ws) (auto simp: written_def)

lemma budget_writes_ref:
  assumes "0 \<le> remaining"
  shows "budget_writes ws remaining bufs =
    (remaining < int (length (concat (map snd ws))),
     max 0 (remaining - int (length (concat (map snd ws)))),
     \<lambda>i. bufs i @ written i (cut_writes (nat remaining) ws))"
  using assms
proof (induction ws remaining bufs rule: budget_writes.induct)
  case (1 r b)
  then show ?case by (simp add: written_def fun_eq_iff)
next
  case (2 i p ws r b)
  show ?case
  proof (cases "int (length p) \<le> r")
    case True
    then have w: "budget_write r (b i) p = (int (length p), False, r - int (length p), b i @ p)"
      by (simp add: budget_write_def)
    have "nat (r - int (length p)) = nat r - length p" by simp
    moreover have "budget_writes ws (r - int (length p)) (b(i := b i @ p)) =
        (r - int (length p) < int (length (concat (map snd ws))),
         max 0 (r - int (length p) - int (length (concat (map snd ws)))),
         \<lambda>j. (b(i := b i @ p)) j @ written j (cut_writes (nat (r - int (length p))) ws))"
      using True by (intro "2.IH" [OF w [symmetric] refl refl]) simp
    ultimately show ?thesis
      using True by (simp add: w) (auto simp: written_def)
  next
    case False
    then have w: "budget_write r (b i) p =
        (int (length (take (nat r) p)), True, 0, b i @ take (nat r) p)"
      using "2.prems" by (simp add: budget_write_def Let_def)
    have "nat r - length p = 0" using False by simp
    moreover have "budget_writes ws 0 (b(i := b i @ take (nat r) p)) =
        (0 < int (length (concat (map snd ws))),
         max 0 (0 - int (length (concat (map snd ws)))),
         \<lambda>j. (b(i := b i @ take (nat r) p)) j @ written j (cut_writes (nat 0) ws))"
      by (intro "2.IH" [OF w [symmetric] refl refl]) simp
    ultimately show ?thesis
      using False by (simp add: w) (auto simp: written_def cut_writes_0 [unfolded written_def])
  qed
qed

text \<open>
  Standard output and standard error share one budget exactly: however the
  writes of the writers interleave, what the buffers hold together is the output cut at the
  limit, each write's part in its own writer's buffer, and some write fails with
  \<open>errOutputLimit\<close> exactly when the output is longer than the limit.
\<close>

theorem output_budget_exact:
  assumes "0 \<le> limit"
  shows "budget_writes ws limit (\<lambda>_. []) =
    (limit < int (length (concat (map snd ws))),
     max 0 (limit - int (length (concat (map snd ws)))),
     \<lambda>i. written i (cut_writes (nat limit) ws))
   \<and> concat (map snd (cut_writes (nat limit) ws)) = take (nat limit) (concat (map snd ws))"
  using budget_writes_ref [OF assms, of ws "\<lambda>_. []"] by (simp add: cut_writes_concat)

theorem output_budget_exact_witness:
  "snd (snd (budget_writes [(0, ''ab''), (1, ''cd''), (0, ''e'')] 3 (\<lambda>_. []))) 1 = ''c''"
  using output_budget_exact [of 3 "[(0, ''ab''), (1, ''cd''), (0, ''e'')]"]
  by (simp add: written_def eval_nat_numeral)

end
