(* ===== verification/Docker.thy ===== *)
theory Docker
  imports Config Output
begin

text \<open>
  The sandbox of \<open>internal/judge/docker_executor.go\<close>. The container engine is a parameter: a
  record of its answers, each a function of the number of calls made before and of the call's
  arguments, so that it may answer as it likes. The calls are logged. An attempt
  is run in named containers that share a workspace volume; the names are chosen
  before the engine is asked, so that what an unanswered call created can be removed.
  The clock only matters through the contexts: an engine call may fail because its context is
  done, and the select statements of \<open>runContainer\<close> see the events in the order the engine gives.
\<close>

section \<open>The container engine\<close>

text \<open>The source archive, as the one entry of the tar file.\<close>

record source_file =
  sf_name :: string
  sf_mode :: int
  sf_uid :: int
  sf_gid :: int
  sf_content :: string

record volume_options =
  vo_name :: string
  vo_driver :: string
  vo_driver_opts :: "string \<rightharpoonup> string"
  vo_labels :: "string \<rightharpoonup> string"

record container_mount =
  cm_source :: string
  cm_target :: string
  cm_read_only :: bool

record ulimit =
  ul_name :: string
  ul_soft :: int
  ul_hard :: int

record container_options =
  op_name :: string
  op_image :: string
  op_user :: string
  op_attach_stdin :: bool
  op_attach_stdout :: bool
  op_attach_stderr :: bool
  op_open_stdin :: bool
  op_stdin_once :: bool
  op_env :: "string list"
  op_cmd :: "string list"
  op_working_dir :: string
  op_network_disabled :: bool
  op_labels :: "string \<rightharpoonup> string"
  op_log_type :: string
  op_network_mode :: string
  op_runtime :: string
  op_cap_drop :: "string list"
  op_privileged :: bool
  op_readonly_rootfs :: bool
  op_security_opt :: "string list"
  op_shm_size :: int
  op_tmpfs :: "string \<rightharpoonup> string"
  op_memory :: int
  op_memory_swap :: int
  op_nano_cpus :: int
  op_pids_limit :: int
  op_ulimits :: "ulimit list"
  op_mounts :: "container_mount list"

text \<open>
  What happens to an attached container: the frames of its output (0 for standard output, 1
  for standard error), the error of the stream after them, how many of them are copied when
  the buffers are read before the copy is done, the order in which the channels of the select
  statements become ready, and whether the context is done when a wait fails.
\<close>

record wait_response =
  wr_status :: int
  wr_error :: "string option"

datatype run_event = CtxDone | OutputDone | WaitFailed "string option" | WaitResult wait_response

record container_run =
  cr_frames :: "(nat \<times> string) list"
  cr_read_error :: "string option"
  cr_copied :: nat
  cr_events :: "run_event list"
  cr_ctx_expired :: bool

datatype docker_call =
    DcVolumeCreate volume_options
  | DcContainerCreate container_options
  | DcCopy string string source_file
  | DcAttach string
  | DcStart string
  | DcWait string
  | DcKill string
  | DcInspect string
  | DcRemove string
  | DcVolumeRemove string

record docker_engine =
  en_volume_create :: "nat \<Rightarrow> volume_options \<Rightarrow> string + string"
  en_container_create :: "nat \<Rightarrow> container_options \<Rightarrow> string + string \<times> string list"
  en_copy :: "nat \<Rightarrow> string \<Rightarrow> string \<Rightarrow> source_file \<Rightarrow> string option"
  en_attach :: "nat \<Rightarrow> string \<Rightarrow> string option"
  en_start :: "nat \<Rightarrow> string \<Rightarrow> string option"
  en_run :: "nat \<Rightarrow> string \<Rightarrow> string \<Rightarrow> container_run"
  en_inspect :: "nat \<Rightarrow> string \<Rightarrow> string + bool option"
  en_remove :: "nat \<Rightarrow> string \<Rightarrow> string option"
  en_volume_remove :: "nat \<Rightarrow> string \<Rightarrow> string option"

section \<open>The executor\<close>

record language_spec =
  ls_source_name :: string
  ls_compile :: "string list"
  ls_run :: "string list"

definition language_specs :: "string \<rightharpoonup> language_spec" where
  "language_specs =
     [''python'' \<mapsto> \<lparr>ls_source_name = ''main.py'',
        ls_compile = [''python3'', ''-I'', ''-B'', ''-m'', ''py_compile'', ''/workspace/main.py''],
        ls_run = [''python3'', ''-I'', ''-B'', ''/workspace/main.py'']\<rparr>,
      ''cpp'' \<mapsto> \<lparr>ls_source_name = ''main.cpp'',
        ls_compile = [''g++'', ''-std=c++20'', ''-O2'', ''-pipe'', ''-o'', ''/workspace/main'', ''/workspace/main.cpp''],
        ls_run = [''/workspace/main'']\<rparr>,
      ''java'' \<mapsto> \<lparr>ls_source_name = ''Main.java'',
        ls_compile = [''javac'', ''-encoding'', ''UTF-8'', ''-d'', ''/workspace'', ''/workspace/Main.java''],
        ls_run = [''java'', ''-XX:+ExitOnOutOfMemoryError'', ''-cp'', ''/workspace'', ''Main'']\<rparr>]"

record docker_executor =
  de_images :: "string \<rightharpoonup> string"
  de_instance_id :: string
  de_stale_resource_age :: int
  de_runtime :: string

text \<open>
  The state of one \<open>Execute\<close>: the log of engine calls, and \<open>attemptResources\<close> (the containers
  and the volume that are to be removed).
\<close>

record docker_state =
  ds_log :: "docker_call list"
  ds_containers :: "string list"
  ds_volume :: string

definition log_call :: "docker_call \<Rightarrow> docker_state \<Rightarrow> docker_state" where
  "log_call c s = s\<lparr>ds_log := ds_log s @ [c]\<rparr>"

abbreviation calls :: "docker_state \<Rightarrow> nat" where
  "calls s \<equiv> length (ds_log s)"

section \<open>Labels, options and the source archive\<close>

definition resource_labels :: "docker_executor \<Rightarrow> string \<Rightarrow> (string \<rightharpoonup> string)" where
  "resource_labels E attempt =
     [''com.codeduel.sandbox'' \<mapsto> ''true'', ''com.codeduel.attempt'' \<mapsto> attempt, ''com.codeduel.instance'' \<mapsto> de_instance_id E]"

definition labels_with_type :: "(string \<rightharpoonup> string) \<Rightarrow> string \<Rightarrow> (string \<rightharpoonup> string)" where
  "labels_with_type labels t = labels(''com.codeduel.resource'' \<mapsto> t)"

definition source_archive :: "string \<Rightarrow> string \<Rightarrow> source_file" where
  "source_archive name source =
     \<lparr>sf_name = name, sf_mode = 256, sf_uid = 10001, sf_gid = 10001, sf_content = source\<rparr>"

text \<open>\<open>%d\<close> of an \<open>int64\<close>.\<close>

definition decimal_int :: "int \<Rightarrow> string" where
  "decimal_int x = (if x < 0 then CHR ''-'' # decimal (nat (- x)) else decimal (nat x))"

definition sandbox_container_options ::
  "string \<Rightarrow> string \<Rightarrow> (string \<rightharpoonup> string) \<Rightarrow> string list \<Rightarrow> string \<Rightarrow> bool \<Rightarrow> limits \<Rightarrow> string \<Rightarrow> container_options" where
  "sandbox_container_options img name labels command volume read_only l runtime =
     \<lparr>op_name = ''codeduel-sandbox-'' @ name, op_image = img, op_user = ''10001:10001'',
      op_attach_stdin = True, op_attach_stdout = True, op_attach_stderr = True, op_open_stdin = True, op_stdin_once = True,
      op_env = [''HOME=/tmp'', ''LANG=C.UTF-8'', ''LC_ALL=C.UTF-8''], op_cmd = command,
      op_working_dir = ''/workspace'', op_network_disabled = True, op_labels = labels,
      op_log_type = ''none'', op_network_mode = ''none'', op_runtime = runtime, op_cap_drop = [''ALL''],
      op_privileged = False, op_readonly_rootfs = True, op_security_opt = [''no-new-privileges=true''],
      op_shm_size = tmpfs_bytes l,
      op_tmpfs = [''/tmp'' \<mapsto> ''rw,nosuid,nodev,noexec,size='' @ decimal_int (tmpfs_bytes l) @ '',mode=1777''],
      op_memory = memory_bytes l, op_memory_swap = memory_swap l, op_nano_cpus = nano_cpus l, op_pids_limit = pid_limit l,
      op_ulimits = [\<lparr>ul_name = ''core'', ul_soft = 0, ul_hard = 0\<rparr>,
        \<lparr>ul_name = ''fsize'', ul_soft = workspace_bytes l, ul_hard = workspace_bytes l\<rparr>,
        \<lparr>ul_name = ''nofile'', ul_soft = 128, ul_hard = 128\<rparr>,
        \<lparr>ul_name = ''nproc'', ul_soft = pid_limit l, ul_hard = pid_limit l\<rparr>],
      op_mounts = [\<lparr>cm_source = volume, cm_target = ''/workspace'', cm_read_only = read_only\<rparr>]\<rparr>"

section \<open>Resources\<close>

definition create_workspace ::
  "docker_engine \<Rightarrow> string \<Rightarrow> (string \<rightharpoonup> string) \<Rightarrow> int \<Rightarrow> docker_state \<Rightarrow> (string \<times> string option) \<times> docker_state" where
  "create_workspace N attempt labels bytes s =
     (let name = ''codeduel-sandbox-'' @ attempt;
          options = \<lparr>vo_name = name, vo_driver = ''local'',
            vo_driver_opts = [''type'' \<mapsto> ''tmpfs'', ''device'' \<mapsto> ''tmpfs'',
              ''o'' \<mapsto> ''size='' @ decimal_int bytes @ '',uid=10001,gid=10001,mode=0700,nosuid,nodev''],
            vo_labels = labels_with_type labels ''workspace''\<rparr>;
          s' = log_call (DcVolumeCreate options) s
      in (case en_volume_create N (calls s) options of
            Inl e \<Rightarrow> ((name, Some (''create sandbox workspace: '' @ e)), s')
          | Inr created \<Rightarrow>
              if created = '''' then ((name, Some ''create sandbox workspace: empty volume name''), s')
              else ((name, None), s')))"

definition create_container ::
  "docker_engine \<Rightarrow> docker_executor \<Rightarrow> string \<Rightarrow> string \<Rightarrow> (string \<rightharpoonup> string) \<Rightarrow> string list \<Rightarrow> string \<Rightarrow> bool \<Rightarrow> limits
    \<Rightarrow> docker_state \<Rightarrow> (string \<times> string option) \<times> docker_state" where
  "create_container N E img name labels command volume read_only l s =
     (let options = sandbox_container_options img name labels command volume read_only l (de_runtime E);
          s' = log_call (DcContainerCreate options) s
      in (case en_container_create N (calls s) options of
            Inl e \<Rightarrow> ((op_name options, Some (''create sandbox container: '' @ e)), s')
          | Inr (cid, warnings) \<Rightarrow>
              if cid = '''' then ((op_name options, Some ''create sandbox container: empty container ID''), s')
              else if warnings \<noteq> [] then ((op_name options, Some ''create sandbox container: daemon warnings''), s')
              else ((op_name options, None), s')))"

definition add_container :: "string \<Rightarrow> docker_state \<Rightarrow> docker_state" where
  "add_container name s = (if name = '''' then s else s\<lparr>ds_containers := ds_containers s @ [name]\<rparr>)"

definition remove_container :: "docker_engine \<Rightarrow> string \<Rightarrow> docker_state \<Rightarrow> string option \<times> docker_state" where
  "remove_container N name s =
     (let s' = log_call (DcRemove name) s in
      case en_remove N (calls s) name of
        Some e \<Rightarrow> (Some e, s')
      | None \<Rightarrow> (None, s'\<lparr>ds_containers := remove1 name (ds_containers s')\<rparr>))"

definition missing_error :: "string \<Rightarrow> string \<Rightarrow> bool" where
  "missing_error e what \<longleftrightarrow> contains (map ascii_lower e) what"

text \<open>\<open>cleanup\<close>: every container, the last one first, and the volume; a resource that is gone is no error.\<close>

fun cleanup_containers :: "docker_engine \<Rightarrow> string list \<Rightarrow> docker_state \<Rightarrow> string list \<times> docker_state" where
  "cleanup_containers N [] s = ([], s)"
| "cleanup_containers N (name # names) s =
     (case cleanup_containers N names (log_call (DcRemove name) s) of (errs, s') \<Rightarrow>
        (case en_remove N (calls s) name of
           None \<Rightarrow> (errs, s')
         | Some e \<Rightarrow> (if missing_error e ''no such container'' then errs else (''remove container: '' @ e) # errs, s')))"

definition cleanup_resources :: "docker_engine \<Rightarrow> docker_state \<Rightarrow> string option \<times> docker_state" where
  "cleanup_resources N s =
     (case cleanup_containers N (rev (ds_containers s)) s of (errs, s1) \<Rightarrow>
        (case (if ds_volume s1 = '''' then ([], s1)
               else (case en_volume_remove N (calls s1) (ds_volume s1) of
                       None \<Rightarrow> [] | Some e \<Rightarrow> if missing_error e ''no such volume'' then [] else [''remove volume: '' @ e],
                     log_call (DcVolumeRemove (ds_volume s1)) s1)) of (errs', s2) \<Rightarrow>
           (if errs @ errs' \<noteq> [] then Some (''clean sandbox resources: '' @ concat (errs @ errs')) else None, s2)))"

section \<open>Running a container\<close>

datatype process_error = OutputLimitError | ProcessTimeout | ProcessFailed string

record process_result =
  pr_exit_code :: int
  pr_stdout :: string
  pr_stderr :: string

text \<open>A select statement takes the first ready event of those it listens to; the context is done at last.\<close>

definition select_event :: "(run_event \<Rightarrow> bool) \<Rightarrow> run_event list \<Rightarrow> run_event" where
  "select_event listens evs = (case List.find listens evs of None \<Rightarrow> CtxDone | Some ev \<Rightarrow> ev)"

text \<open>\<open>stdcopy.StdCopy\<close> into two \<open>budgetWriter\<close>s: the buffers and the error it returns.\<close>

definition copy_output :: "int \<Rightarrow> container_run \<Rightarrow> process_error option" where
  "copy_output limit r =
     (if fst (budget_writes (cr_frames r) limit (\<lambda>_. [])) then Some OutputLimitError
      else map_option (\<lambda>e. ProcessFailed (''read sandbox output: '' @ e)) (cr_read_error r))"

definition output_buffers :: "int \<Rightarrow> (nat \<times> string) list \<Rightarrow> nat \<Rightarrow> string" where
  "output_buffers limit frames = snd (snd (budget_writes frames limit (\<lambda>_. [])))"

definition process_result_of ::
  "(nat \<Rightarrow> string) \<Rightarrow> wait_response \<Rightarrow> process_error + process_result" where
  "process_result_of bufs response =
     (case wr_error response of
        Some e \<Rightarrow> Inl (ProcessFailed (''sandbox container wait: '' @ e))
      | None \<Rightarrow> Inr \<lparr>pr_exit_code = wr_status response, pr_stdout = bufs 0, pr_stderr = bufs 1\<rparr>)"

definition no_response :: wait_response where
  "no_response = \<lparr>wr_status = 0, wr_error = None\<rparr>"

text \<open>The select statements; the boolean says whether the container is killed.\<close>

definition await_container :: "int \<Rightarrow> container_run \<Rightarrow> (process_error + process_result) \<times> bool" where
  "await_container limit r =
     (let full = output_buffers limit (cr_frames r); early = output_buffers limit (take (cr_copied r) (cr_frames r)) in
      case select_event (\<lambda>_. True) (cr_events r) of
        CtxDone \<Rightarrow> (Inl ProcessTimeout, True)
      | OutputDone \<Rightarrow>
          (case copy_output limit r of
             Some e \<Rightarrow> (Inl e, True)
           | None \<Rightarrow>
               (case select_event (\<lambda>ev. ev \<noteq> OutputDone) (cr_events r) of
                  WaitFailed (Some e) \<Rightarrow> (Inl (ProcessFailed (''wait for sandbox container: '' @ e)), False)
                | WaitFailed None \<Rightarrow> (process_result_of full no_response, False)
                | WaitResult response \<Rightarrow> (process_result_of full response, False)
                | _ \<Rightarrow> (Inl ProcessTimeout, True)))
      | WaitFailed (Some e) \<Rightarrow>
          if cr_ctx_expired r then (Inl ProcessTimeout, True)
          else (Inl (ProcessFailed (''wait for sandbox container: '' @ e)), False)
      | WaitFailed None \<Rightarrow> (process_result_of early no_response, False)
      | WaitResult response \<Rightarrow>
          (case select_event (\<lambda>ev. ev = OutputDone \<or> ev = CtxDone) (cr_events r) of
             OutputDone \<Rightarrow>
               (case copy_output limit r of
                  Some e \<Rightarrow> (Inl e, False)
                | None \<Rightarrow> (process_result_of full response, False))
           | _ \<Rightarrow> (Inl ProcessTimeout, True)))"

definition run_container ::
  "docker_engine \<Rightarrow> string \<Rightarrow> string \<Rightarrow> int \<Rightarrow> docker_state \<Rightarrow> (process_error + process_result) \<times> docker_state" where
  "run_container N name input limit s =
     (let s1 = log_call (DcAttach name) s in
      case en_attach N (calls s) name of
        Some e \<Rightarrow> (Inl (ProcessFailed (''attach sandbox container: '' @ e)), s1)
      | None \<Rightarrow>
          let s2 = log_call (DcStart name) s1 in
          (case en_start N (calls s1) name of
             Some e \<Rightarrow> (Inl (ProcessFailed (''start sandbox container: '' @ e)), s2)
           | None \<Rightarrow>
               let s3 = log_call (DcWait name) s2 in
               (case await_container limit (en_run N (calls s2) name input) of
                  (res, killed) \<Rightarrow> (res, if killed then log_call (DcKill name) s3 else s3))))"

section \<open>Execute\<close>

datatype ctx_error = Canceled | DeadlineExceeded

definition classify_process_error :: "ctx_error option \<Rightarrow> process_error \<Rightarrow> int \<Rightarrow> string + execution_outcome" where
  "classify_process_error parent e passed =
     (case e of
        OutputLimitError \<Rightarrow> Inr \<lparr>eo_kind = ''output_limit'', eo_tests_passed = passed\<rparr>
      | ProcessTimeout \<Rightarrow>
          if parent = Some Canceled then Inl ''context canceled''
          else Inr \<lparr>eo_kind = ''timeout'', eo_tests_passed = passed\<rparr>
      | ProcessFailed e \<Rightarrow> Inl e)"

text \<open>The loop over the tests, from number \<open>i\<close> (counted from 0) on.\<close>

fun run_tests ::
  "docker_engine \<Rightarrow> docker_executor \<Rightarrow> ctx_error option \<Rightarrow> string \<Rightarrow> string \<Rightarrow> (string \<rightharpoonup> string) \<Rightarrow> string list \<Rightarrow> string
    \<Rightarrow> limits \<Rightarrow> nat \<Rightarrow> test_case list \<Rightarrow> docker_state \<Rightarrow> (string + execution_outcome) \<times> docker_state" where
  "run_tests N E parent img attempt labels command volume l i [] s =
     (Inr \<lparr>eo_kind = ''pass'', eo_tests_passed = int i\<rparr>, s)"
| "run_tests N E parent img attempt labels command volume l i (t # ts) s =
     (case create_container N E img (attempt @ ''-test-'' @ decimal (i + 1)) (labels_with_type labels ''runtime'')
             command volume True l s of ((name, err), s1) \<Rightarrow>
      let s2 = add_container name s1 in
      case err of
        Some e \<Rightarrow> (Inl e, s2)
      | None \<Rightarrow>
      (case run_container N name (tc_input t) (max_output_bytes l) s2 of
         (Inl e, s3) \<Rightarrow> (classify_process_error parent e (int i), s3)
       | (Inr result, s3) \<Rightarrow>
      (case en_inspect N (calls s3) name of
         Inl e \<Rightarrow> (Inl (''inspect runtime container: '' @ e), log_call (DcInspect name) s3)
       | Inr inspection \<Rightarrow>
      (case remove_container N name (log_call (DcInspect name) s3) of
         (Some e, s4) \<Rightarrow> (Inl (''remove runtime container: '' @ e), s4)
       | (None, s4) \<Rightarrow>
      (case inspection of
         None \<Rightarrow> (Inl ''inspect runtime container: missing state'', s4)
       | Some oom_killed \<Rightarrow>
           if pr_exit_code result \<noteq> 0 \<or> oom_killed
           then (Inr \<lparr>eo_kind = ''runtime_error'', eo_tests_passed = int i\<rparr>, s4)
           else if \<not> output_matches (pr_stdout result) (tc_expected t)
           then (Inr \<lparr>eo_kind = ''wrong_answer'', eo_tests_passed = int i\<rparr>, s4)
           else run_tests N E parent img attempt labels command volume l (i + 1) ts s4)))))"

text \<open>\<open>Execute\<close> between the deferred clean-up and its return.\<close>

definition execute_attempt ::
  "docker_engine \<Rightarrow> docker_executor \<Rightarrow> ctx_error option \<Rightarrow> string \<Rightarrow> string \<Rightarrow> language_spec \<Rightarrow> execution_request
    \<Rightarrow> docker_state \<Rightarrow> (string + execution_outcome) \<times> docker_state" where
  "execute_attempt N E parent attempt img spec r s =
     (let labels = resource_labels E attempt; l = er_limits r in
      case create_workspace N attempt labels (workspace_bytes l) s of ((volume, err), s1) \<Rightarrow>
      let s2 = s1\<lparr>ds_volume := volume\<rparr> in
      case err of
        Some e \<Rightarrow> (Inl e, s2)
      | None \<Rightarrow>
      (case create_container N E img (attempt @ ''-staging'') (labels_with_type labels ''staging'')
              [''sleep'', ''infinity''] volume False l s2 of ((staging, err), s3) \<Rightarrow>
      let s4 = add_container staging s3 in
      case err of
        Some e \<Rightarrow> (Inl e, s4)
      | None \<Rightarrow>
      let s5 = log_call (DcStart staging) s4 in
      (case en_start N (calls s4) staging of
         Some e \<Rightarrow> (Inl (''start source staging container: '' @ e), s5)
       | None \<Rightarrow>
      let archive = source_archive (ls_source_name spec) (er_source r);
          s6 = log_call (DcCopy staging ''/workspace'' archive) s5 in
      (case en_copy N (calls s5) staging ''/workspace'' archive of
         Some e \<Rightarrow> (Inl (''copy source to compile container: '' @ e), s6)
       | None \<Rightarrow>
      (case create_container N E img (attempt @ ''-compile'') (labels_with_type labels ''compile'')
              (ls_compile spec) volume False l s6 of ((cid, err), s7) \<Rightarrow>
      let s8 = add_container cid s7 in
      case err of
        Some e \<Rightarrow> (Inl e, s8)
      | None \<Rightarrow>
      (case run_container N cid [] (max_output_bytes l) s8 of
         (Inl e, s9) \<Rightarrow> (classify_process_error parent e 0, s9)
       | (Inr result, s9) \<Rightarrow>
           if pr_exit_code result \<noteq> 0 then (Inr \<lparr>eo_kind = ''compile_error'', eo_tests_passed = 0\<rparr>, s9)
           else (case remove_container N cid s9 of
              (Some e, s10) \<Rightarrow> (Inl (''remove compile container: '' @ e), s10)
            | (None, s10) \<Rightarrow>
                run_tests N E parent img attempt labels (ls_run spec) volume l 0 (er_tests r) s10)))))))"

text \<open>\<open>parent\<close> is the error of the caller's context when a process ends in a timeout, \<open>attempt\<close> the fresh identifier.\<close>

definition docker_execute ::
  "docker_engine \<Rightarrow> docker_executor \<Rightarrow> ctx_error option \<Rightarrow> string \<Rightarrow> execution_request
    \<Rightarrow> (string + execution_outcome) \<times> docker_call list" where
  "docker_execute N E parent attempt r =
     (case request_validate r of
        Some e \<Rightarrow> (Inl (''validate execution request: '' @ e), [])
      | None \<Rightarrow>
          (case language_specs (er_language r) of
             None \<Rightarrow> (Inl ''no image configured for language'', [])
           | Some spec \<Rightarrow>
          (case de_images E (er_language r) of
             None \<Rightarrow> (Inl ''no image configured for language'', [])
           | Some img \<Rightarrow>
               if img = '''' then (Inl ''no image configured for language'', [])
               else (case execute_attempt N E parent attempt img spec r \<lparr>ds_log = [], ds_containers = [], ds_volume = ''''\<rparr> of
                 (res, s) \<Rightarrow>
                   (case cleanup_resources N s of
                      (None, s') \<Rightarrow> (res, ds_log s')
                    | (Some e, s') \<Rightarrow> (Inl (case res of Inl e' \<Rightarrow> e' @ e | Inr _ \<Rightarrow> e), ds_log s'))))))"

section \<open>The outcome contract\<close>

text \<open>
  The interface \<open>Executor\<close>: what a client relies on is that an outcome is admissible for the
  request's number of tests; the judge then always finds a verdict for it.
\<close>

locale sandbox =
  fixes execute :: "execution_request \<Rightarrow> string + execution_outcome"
  assumes outcome_admissible: "execute r = Inr out \<Longrightarrow> outcome_ok (length (er_tests r)) out"
begin

lemma outcome_classified:
  "execute r = Inr out \<Longrightarrow> \<exists>t. terminal_result_from_outcome out (length (er_tests r)) = Inr t
     \<and> validate_terminal_result t (length (er_tests r)) = None \<and> tr_tests_passed t = eo_tests_passed out"
  using outcome_admissible terminal_result_Inr by blast

end

lemma classify_process_error_Inr:
  "classify_process_error parent e passed = Inr out \<Longrightarrow>
     eo_tests_passed out = passed \<and> eo_kind out \<in> {''output_limit'', ''timeout''}"
  by (auto simp: classify_process_error_def split: process_error.splits if_splits)

text \<open>The ways a round of the test loop can go.\<close>

lemma run_tests_Cons:
  fixes N E parent img attempt labels cmd vol l i t ts s
  defines "created \<equiv> create_container N E img (attempt @ ''-test-'' @ decimal (i + 1)) (labels_with_type labels ''runtime'') cmd vol True l s"
  assumes "run_tests N E parent img attempt labels cmd vol l i (t # ts) s = (res, s')"
  obtains (create) name e s1 where "created = ((name, Some e), s1)" "res = Inl e" "s' = add_container name s1"
  | (run) name s1 e where "created = ((name, None), s1)"
      "run_container N name (tc_input t) (max_output_bytes l) (add_container name s1) = (Inl e, s')"
      "res = classify_process_error parent e (int i)"
  | (inspect) name s1 result s3 e where "created = ((name, None), s1)"
      "run_container N name (tc_input t) (max_output_bytes l) (add_container name s1) = (Inr result, s3)"
      "s' = log_call (DcInspect name) s3" "res = Inl e"
  | (remove) name s1 result s3 err e where "created = ((name, None), s1)"
      "run_container N name (tc_input t) (max_output_bytes l) (add_container name s1) = (Inr result, s3)"
      "remove_container N name (log_call (DcInspect name) s3) = (err, s')" "res = Inl e"
  | (verdict) name s1 result s3 oom k where "created = ((name, None), s1)"
      "run_container N name (tc_input t) (max_output_bytes l) (add_container name s1) = (Inr result, s3)"
      "en_inspect N (calls s3) name = Inr (Some oom)"
      "remove_container N name (log_call (DcInspect name) s3) = (None, s')"
      "pr_exit_code result \<noteq> 0 \<or> oom \<or> \<not> output_matches (pr_stdout result) (tc_expected t)"
      "k = (if pr_exit_code result \<noteq> 0 \<or> oom then ''runtime_error'' else ''wrong_answer'')"
      "res = Inr \<lparr>eo_kind = k, eo_tests_passed = int i\<rparr>"
  | (next_test) name s1 result s3 s4 where "created = ((name, None), s1)"
      "run_container N name (tc_input t) (max_output_bytes l) (add_container name s1) = (Inr result, s3)"
      "en_inspect N (calls s3) name = Inr (Some False)"
      "remove_container N name (log_call (DcInspect name) s3) = (None, s4)"
      "pr_exit_code result = 0" "output_matches (pr_stdout result) (tc_expected t)"
      "run_tests N E parent img attempt labels cmd vol l (i + 1) ts s4 = (res, s')"
proof -
  obtain name err s1 where c: "created = ((name, err), s1)" by (metis prod.collapse)
  note rt = assms(2) [unfolded run_tests.simps Let_def created_def [symmetric] c prod.case]
  show thesis
  proof (cases err)
    case (Some e)
    then show thesis using rt c by (intro create) auto
  next
    case None
    note rt = rt [unfolded None option.case] and c = c [unfolded None]
    obtain out s3 where r: "run_container N name (tc_input t) (max_output_bytes l) (add_container name s1) = (out, s3)"
      by fastforce
    note rt = rt [unfolded r prod.case]
    show thesis
    proof (cases out)
      case (Inl e)
      then show thesis using rt r by (intro run [OF c]) auto
    next
      case (Inr result)
      note rt = rt [unfolded Inr sum.case] and r = r [unfolded Inr]
      show thesis
      proof (cases "en_inspect N (calls s3) name")
        case (Inl e)
        then show thesis using rt by (intro inspect [OF c r]) auto
      next
        case (Inr state)
        obtain err4 s4 where rm: "remove_container N name (log_call (DcInspect name) s3) = (err4, s4)" by fastforce
        note rt = rt [unfolded Inr sum.case rm prod.case]
        show thesis
        proof (cases "err4 = None \<and> state \<noteq> None")
          case False
          then obtain e where "res = Inl e" "s' = s4" using rt by (cases err4; cases state) auto
          then show thesis using rm by (intro remove [OF c r]) auto
        next
          case True
          then obtain oom where oom: "err4 = None" "state = Some oom" by blast
          then show thesis
            using rt rm Inr verdict [OF c r] next_test [OF c r] by (auto split: if_splits)
        qed
      qed
    qed
  qed
qed

lemma run_tests_outcome:
  "run_tests N E parent img attempt labels cmd vol l i ts s = (Inr out, s') \<Longrightarrow>
     eo_kind out \<in> {''pass'', ''wrong_answer'', ''runtime_error'', ''output_limit'', ''timeout''}
     \<and> int i \<le> eo_tests_passed out \<and> eo_tests_passed out \<le> int (i + length ts)
     \<and> (eo_kind out = ''pass'' \<longrightarrow> eo_tests_passed out = int (i + length ts))"
proof (induction ts arbitrary: i s)
  case Nil
  then show ?case by auto
next
  case (Cons t ts)
  from Cons.prems show ?case
  proof (cases rule: run_tests_Cons)
    case (run name s1 e)
    then show ?thesis using classify_process_error_Inr [OF run(3) [symmetric]] by auto
  next
    case (verdict name s1 result s3 oom k)
    then show ?thesis by (auto split: if_splits)
  next
    case (next_test name s1 result s3 s4)
    from Cons.IH [OF next_test(7)] show ?thesis by auto
  qed simp_all
qed

lemma execute_attempt_outcome:
  assumes "execute_attempt N E parent attempt img spec r s = (Inr out, s')"
  shows "outcome_ok (length (er_tests r)) out"
  using assms unfolding execute_attempt_def Let_def
  by (auto simp: outcome_ok_def split: prod.splits option.splits sum.splits if_splits
      dest!: classify_process_error_Inr run_tests_outcome)

lemma docker_execute_Inr:
  assumes "docker_execute N E parent attempt r = (Inr out, log)"
  obtains spec img s s' where "request_validate r = None" "language_specs (er_language r) = Some spec"
    "de_images E (er_language r) = Some img" "img \<noteq> ''''"
    "execute_attempt N E parent attempt img spec r \<lparr>ds_log = [], ds_containers = [], ds_volume = ''''\<rparr> = (Inr out, s)"
    "cleanup_resources N s = (None, s')" "log = ds_log s'"
  using assms by (auto simp: docker_execute_def split: option.splits if_splits prod.splits)

interpretation docker: sandbox "\<lambda>r. fst (docker_execute N E parent attempt r)" for N E parent attempt
proof
  fix r out
  assume "fst (docker_execute N E parent attempt r) = Inr out"
  then obtain log where "docker_execute N E parent attempt r = (Inr out, log)" by (metis prod.collapse)
  then show "outcome_ok (length (er_tests r)) out" by (rule docker_execute_Inr) (blast dest: execute_attempt_outcome)
qed

section \<open>No sandbox is left behind\<close>

text \<open>
  Every container and volume the log shows a creation of is still registered for removal, or
  was removed successfully later.
\<close>

definition removed :: "docker_engine \<Rightarrow> docker_call list \<Rightarrow> nat \<Rightarrow> string \<Rightarrow> bool" where
  "removed N log p name \<longleftrightarrow> (\<exists>q. p < q \<and> q < length log \<and> log ! q = DcRemove name \<and> en_remove N q name = None)"

definition tracked :: "docker_engine \<Rightarrow> docker_state \<Rightarrow> bool" where
  "tracked N s \<longleftrightarrow>
     (\<forall>p opt. p < calls s \<and> ds_log s ! p = DcContainerCreate opt \<longrightarrow>
        op_name opt \<in> set (ds_containers s) \<or> removed N (ds_log s) p (op_name opt))
   \<and> (\<forall>p v. p < calls s \<and> ds_log s ! p = DcVolumeCreate v \<longrightarrow> ds_volume s = vo_name v \<and> vo_name v \<noteq> '''')"

lemma log_call_simps [simp]:
  "ds_log (log_call c s) = ds_log s @ [c]" "ds_containers (log_call c s) = ds_containers s" "ds_volume (log_call c s) = ds_volume s"
  by (simp_all add: log_call_def)

lemma removed_snoc: "removed N log p name \<Longrightarrow> removed N (log @ [c]) p name"
  unfolding removed_def by (metis less_Suc_eq length_append_singleton nth_append)

lemma trackedI:
  assumes "\<And>p opt. p < calls s \<Longrightarrow> ds_log s ! p = DcContainerCreate opt \<Longrightarrow>
      op_name opt \<in> set (ds_containers s) \<or> removed N (ds_log s) p (op_name opt)"
    and "\<And>p v. p < calls s \<Longrightarrow> ds_log s ! p = DcVolumeCreate v \<Longrightarrow> ds_volume s = vo_name v \<and> vo_name v \<noteq> ''''"
  shows "tracked N s"
  using assms by (auto simp: tracked_def)

lemma trackedD:
  assumes "tracked N s" and "p < calls s"
  shows "ds_log s ! p = DcContainerCreate opt \<Longrightarrow> op_name opt \<in> set (ds_containers s) \<or> removed N (ds_log s) p (op_name opt)"
    and "ds_log s ! p = DcVolumeCreate v \<Longrightarrow> ds_volume s = vo_name v \<and> vo_name v \<noteq> ''''"
  using assms by (auto simp: tracked_def)

text \<open>What a call adds to the log.\<close>

lemma nth_snocE:
  assumes "p < length (xs @ [c])" and "(xs @ [c]) ! p = x" and "c \<noteq> x"
  shows "p < length xs" "xs ! p = x"
  using assms by (auto simp: nth_append less_Suc_eq split: if_splits)

lemma tracked_log:
  assumes "tracked N s" and "\<And>opt. c \<noteq> DcContainerCreate opt" and "\<And>v. c \<noteq> DcVolumeCreate v"
  shows "tracked N (log_call c s)"
proof (rule trackedI)
  fix p opt assume p: "p < calls (log_call c s)" "ds_log (log_call c s) ! p = DcContainerCreate opt"
  note p = nth_snocE [OF p [unfolded log_call_simps] assms(2)]
  from trackedD(1) [OF assms(1) p]
  show "op_name opt \<in> set (ds_containers (log_call c s)) \<or> removed N (ds_log (log_call c s)) p (op_name opt)"
    by (auto intro: removed_snoc)
next
  fix p v assume p: "p < calls (log_call c s)" "ds_log (log_call c s) ! p = DcVolumeCreate v"
  note p = nth_snocE [OF p [unfolded log_call_simps] assms(3)]
  from trackedD(2) [OF assms(1) p] show "ds_volume (log_call c s) = vo_name v \<and> vo_name v \<noteq> ''''" by simp
qed

lemma create_container_log:
  assumes "create_container N E img nm labels cmd vol ro l s = ((name, err), s1)"
  shows "s1 = log_call (DcContainerCreate (sandbox_container_options img nm labels cmd vol ro l (de_runtime E))) s"
    and "name = ''codeduel-sandbox-'' @ nm"
  using assms by (auto simp: create_container_def Let_def split: sum.splits if_splits) (auto simp: sandbox_container_options_def)

lemma tracked_create:
  assumes "tracked N s" and "create_container N E img nm labels cmd vol ro l s = ((name, err), s1)"
  shows "tracked N (add_container name s1)"
proof (rule trackedI)
  define opt0 where "opt0 = sandbox_container_options img nm labels cmd vol ro l (de_runtime E)"
  have s1: "s1 = log_call (DcContainerCreate opt0) s" and name: "name = op_name opt0" "name \<noteq> ''''"
    using create_container_log [OF assms(2)] by (simp_all add: opt0_def sandbox_container_options_def)
  have log: "ds_log (add_container name s1) = ds_log s @ [DcContainerCreate opt0]"
    and con: "ds_containers (add_container name s1) = ds_containers s @ [name]"
    and vol: "ds_volume (add_container name s1) = ds_volume s"
    using name(2) by (simp_all add: s1 add_container_def)
  {
    fix p opt assume p: "p < calls (add_container name s1)" "ds_log (add_container name s1) ! p = DcContainerCreate opt"
    have "p < calls s \<and> ds_log s ! p = DcContainerCreate opt \<or> opt = opt0"
      using nth_snocE [OF p [unfolded log]] by blast
    then show "op_name opt \<in> set (ds_containers (add_container name s1)) \<or> removed N (ds_log (add_container name s1)) p (op_name opt)"
      unfolding con log using trackedD(1) [OF assms(1)] name(1) by (auto intro: removed_snoc)
  next
    fix p v assume p: "p < calls (add_container name s1)" "ds_log (add_container name s1) ! p = DcVolumeCreate v"
    note p = nth_snocE [OF p [unfolded log] docker_call.distinct(2)]
    from trackedD(2) [OF assms(1) p] show "ds_volume (add_container name s1) = vo_name v \<and> vo_name v \<noteq> ''''" by (simp add: vol)
  }
qed

lemma tracked_run:
  assumes "tracked N s" and "run_container N name input limit s = (res, s')"
  shows "tracked N s'"
  using assms by (auto simp: run_container_def Let_def tracked_log split: option.splits prod.splits if_splits)

lemma tracked_remove:
  assumes "tracked N s" and "remove_container N name s = (err, s')"
  shows "tracked N s'"
proof (cases "en_remove N (calls s) name")
  case (Some e)
  then show ?thesis using assms by (auto simp: remove_container_def Let_def tracked_log)
next
  case None
  then have s': "s' = (log_call (DcRemove name) s)\<lparr>ds_containers := remove1 name (ds_containers s)\<rparr>"
    using assms(2) by (simp add: remove_container_def Let_def)
  have log: "ds_log s' = ds_log s @ [DcRemove name]" and con: "ds_containers s' = remove1 name (ds_containers s)"
    and vol: "ds_volume s' = ds_volume s"
    by (simp_all add: s')
  show ?thesis
  proof (rule trackedI)
    fix p opt assume p: "p < calls s'" "ds_log s' ! p = DcContainerCreate opt"
    note p = nth_snocE [OF p [unfolded log], simplified]
    show "op_name opt \<in> set (ds_containers s') \<or> removed N (ds_log s') p (op_name opt)"
    proof (cases "op_name opt = name")
      case True
      then have "removed N (ds_log s') p (op_name opt)"
        unfolding removed_def log using p(1) None by (intro exI [of _ "calls s"]) simp
      then show ?thesis ..
    next
      case False
      with trackedD(1) [OF assms(1) p] show ?thesis unfolding con log by (auto intro: removed_snoc simp: in_set_remove1)
    qed
  next
    fix p v assume p: "p < calls s'" "ds_log s' ! p = DcVolumeCreate v"
    note p = nth_snocE [OF p [unfolded log], simplified]
    from trackedD(2) [OF assms(1) p] show "ds_volume s' = vo_name v \<and> vo_name v \<noteq> ''''" by (simp add: vol)
  qed
qed

lemma tracked_run_tests:
  "run_tests N E parent img attempt labels cmd vol l i ts s = (res, s') \<Longrightarrow> tracked N s \<Longrightarrow> tracked N s'"
proof (induction ts arbitrary: i s)
  case Nil
  then show ?case by simp
next
  case (Cons t ts)
  from Cons.prems(1) show ?case
  proof (cases rule: run_tests_Cons)
    case (next_test name s1 result s3 s4)
    have "tracked N s4" by (rule tracked_remove [OF tracked_log [OF tracked_run [OF tracked_create [OF Cons.prems(2) next_test(1)] next_test(2)]] next_test(4)]) simp_all
    with Cons.IH [OF next_test(7)] show ?thesis .
  next
    case (create name s1 e)
    then show ?thesis using tracked_create [OF Cons.prems(2)] by simp
  next
    case (run name s1 e)
    show ?thesis by (rule tracked_run [OF tracked_create [OF Cons.prems(2) run(1)] run(2)])
  next
    case (inspect name s1 result s3 e)
    show ?thesis
      unfolding inspect(3) by (rule tracked_log [OF tracked_run [OF tracked_create [OF Cons.prems(2) inspect(1)] inspect(2)]]) simp_all
  next
    case (remove name s1 result s3 err e)
    show ?thesis
      by (rule tracked_remove [OF tracked_log [OF tracked_run [OF tracked_create [OF Cons.prems(2) remove(1)] remove(2)]] remove(3)]) simp_all
  next
    case (verdict name s1 result s3 oom k)
    show ?thesis
      by (rule tracked_remove [OF tracked_log [OF tracked_run [OF tracked_create [OF Cons.prems(2) verdict(1)] verdict(2)]] verdict(4)]) simp_all
  qed
qed

lemma tracked_workspace:
  assumes "create_workspace N attempt labels bytes s = ((name, err), s1)" and "ds_log s = []"
  shows "tracked N (s1\<lparr>ds_volume := name\<rparr>)"
proof -
  obtain opts where "s1 = log_call (DcVolumeCreate (\<lparr>vo_name = name, vo_driver = ''local'', vo_driver_opts = opts,
      vo_labels = labels_with_type labels ''workspace''\<rparr>)) s" "name \<noteq> ''''"
    using assms(1) by (auto simp: create_workspace_def Let_def split: sum.splits if_splits)
  then show ?thesis using assms(2) by (intro trackedI) auto
qed

lemma execute_attempt_tracked:
  assumes "execute_attempt N E parent attempt img spec r s = (res, s')" and "ds_log s = []"
  shows "tracked N s'"
proof -
  let ?labels = "resource_labels E attempt" and ?l = "er_limits r"
  obtain volume err1 s1 where w: "create_workspace N attempt ?labels (workspace_bytes ?l) s = ((volume, err1), s1)"
    by (metis prod.collapse)
  define s2 where "s2 = s1\<lparr>ds_volume := volume\<rparr>"
  have t2: "tracked N s2" using tracked_workspace [OF w assms(2)] by (simp add: s2_def)
  obtain staging err2 s3 where c2: "create_container N E img (attempt @ ''-staging'') (labels_with_type ?labels ''staging'')
      [''sleep'', ''infinity''] volume False ?l s2 = ((staging, err2), s3)"
    by (metis prod.collapse)
  define s4 where "s4 = add_container staging s3"
  define s5 where "s5 = log_call (DcStart staging) s4"
  define archive where "archive = source_archive (ls_source_name spec) (er_source r)"
  define s6 where "s6 = log_call (DcCopy staging ''/workspace'' archive) s5"
  have t4: "tracked N s4" using tracked_create [OF t2 c2] by (simp add: s4_def)
  have t5: "tracked N s5" unfolding s5_def by (rule tracked_log [OF t4]) simp_all
  have t6: "tracked N s6" unfolding s6_def by (rule tracked_log [OF t5]) simp_all
  obtain cid err3 s7 where c3: "create_container N E img (attempt @ ''-compile'') (labels_with_type ?labels ''compile'')
      (ls_compile spec) volume False ?l s6 = ((cid, err3), s7)"
    by (metis prod.collapse)
  define s8 where "s8 = add_container cid s7"
  have t8: "tracked N s8" using tracked_create [OF t6 c3] by (simp add: s8_def)
  obtain out s9 where run: "run_container N cid [] (max_output_bytes ?l) s8 = (out, s9)" by fastforce
  have t9: "tracked N s9" using tracked_run [OF t8 run] .
  obtain err4 s10 where rm: "remove_container N cid s9 = (err4, s10)" by fastforce
  have t10: "tracked N s10" using tracked_remove [OF t9 rm] .
  note eval = assms(1) [unfolded execute_attempt_def Let_def w prod.case s2_def [symmetric] c2 s4_def [symmetric]
      s5_def [symmetric] archive_def [symmetric] s6_def [symmetric] c3 s8_def [symmetric] run rm]
  show ?thesis
    using eval t2 t4 t5 t6 t8 t9 t10 tracked_run_tests [OF _ t10]
    by (auto split: option.splits sum.splits if_splits)
qed

text \<open>The clean-up asks for the removal of every registered resource.\<close>

definition gone :: "string option \<Rightarrow> string \<Rightarrow> bool" where
  "gone answer what \<longleftrightarrow> (case answer of None \<Rightarrow> True | Some e \<Rightarrow> missing_error e what)"

lemma cleanup_containers_log:
  assumes "cleanup_containers N names s = (errs, s')"
  shows "ds_log s' = ds_log s @ map DcRemove names \<and> ds_volume s' = ds_volume s
    \<and> (errs = [] \<longrightarrow> (\<forall>i<length names. gone (en_remove N (calls s + i) (names ! i)) ''no such container''))"
  using assms
proof (induction names arbitrary: s errs)
  case Nil
  then show ?case by simp
next
  case (Cons name names)
  obtain errs1 where rest: "cleanup_containers N names (log_call (DcRemove name) s) = (errs1, s')"
    using Cons.prems by (auto split: prod.splits option.splits if_splits)
  note IH = Cons.IH [OF rest]
  have "gone (en_remove N (calls s) name) ''no such container'' \<and> errs1 = []" if "errs = []"
    using Cons.prems that by (auto simp: rest gone_def split: option.splits if_splits)
  then show ?case
    using IH by (auto simp: nth_Cons split: nat.splits)
qed

lemma cleanup_resources_log:
  assumes "cleanup_resources N s = (err, s')"
  shows "ds_log s' = ds_log s @ map DcRemove (rev (ds_containers s))
      @ (if ds_volume s = '''' then [] else [DcVolumeRemove (ds_volume s)])
    \<and> (err = None \<longrightarrow>
        (\<forall>i<length (ds_containers s). gone (en_remove N (calls s + i) (rev (ds_containers s) ! i)) ''no such container'')
      \<and> (ds_volume s \<noteq> '''' \<longrightarrow> gone (en_volume_remove N (calls s + length (ds_containers s)) (ds_volume s)) ''no such volume''))"
proof -
  obtain errs s1 where c: "cleanup_containers N (rev (ds_containers s)) s = (errs, s1)" by fastforce
  note log = cleanup_containers_log [OF c]
  then show ?thesis
    using assms by (cases "ds_volume s = ''''")
      (auto simp: cleanup_resources_def c Let_def gone_def split: option.splits if_splits)
qed

lemma docker_execute_log:
  assumes "docker_execute N E parent attempt r = (res, log)" and "log \<noteq> []"
  obtains img spec res0 s err s' where
    "execute_attempt N E parent attempt img spec r \<lparr>ds_log = [], ds_containers = [], ds_volume = ''''\<rparr> = (res0, s)"
    "cleanup_resources N s = (err, s')" "log = ds_log s'" "err = None \<or> (\<exists>e. res = Inl e)"
  using assms by (auto simp: docker_execute_def split: option.splits if_splits prod.splits)

text \<open>
  Property C22. No sandbox is left behind: for every container and volume that \<open>Execute\<close> asked the
  engine to create, whatever the engine answered, it asks for the removal later, also when it
  fails; and when it returns an outcome, a removal of each succeeded or found nothing left.
\<close>

theorem docker_leaves_nothing:
  assumes "docker_execute N E parent attempt r = (res, log)" and "p < length log"
  shows "(\<forall>opt. log ! p = DcContainerCreate opt \<longrightarrow>
        (\<exists>q. p < q \<and> q < length log \<and> log ! q = DcRemove (op_name opt)
           \<and> ((\<exists>e. res = Inl e) \<or> gone (en_remove N q (op_name opt)) ''no such container'')))
    \<and> (\<forall>v. log ! p = DcVolumeCreate v \<longrightarrow>
        (\<exists>q. p < q \<and> q < length log \<and> log ! q = DcVolumeRemove (vo_name v)
           \<and> ((\<exists>e. res = Inl e) \<or> gone (en_volume_remove N q (vo_name v)) ''no such volume'')))"
proof -
  have "log \<noteq> []" using assms(2) by auto
  with assms(1) obtain img spec res0 s err s' where run:
    "execute_attempt N E parent attempt img spec r \<lparr>ds_log = [], ds_containers = [], ds_volume = ''''\<rparr> = (res0, s)"
    "cleanup_resources N s = (err, s')" "log = ds_log s'" "err = None \<or> (\<exists>e. res = Inl e)"
    by (rule docker_execute_log)
  have tr: "tracked N s" using execute_attempt_tracked [OF run(1)] by simp
  let ?rest = "map DcRemove (rev (ds_containers s)) @ (if ds_volume s = '''' then [] else [DcVolumeRemove (ds_volume s)])"
  have log: "log = ds_log s @ ?rest"
    and ok: "err = None \<Longrightarrow> i < length (ds_containers s) \<Longrightarrow>
        gone (en_remove N (calls s + i) (rev (ds_containers s) ! i)) ''no such container''"
      "err = None \<Longrightarrow> ds_volume s \<noteq> '''' \<Longrightarrow>
        gone (en_volume_remove N (calls s + length (ds_containers s)) (ds_volume s)) ''no such volume''" for i
    using cleanup_resources_log [OF run(2)] run(3) by auto
  have before: "p < calls s \<and> ds_log s ! p = log ! p" if "log ! p \<notin> set ?rest"
  proof (cases "p < calls s")
    case True
    then show ?thesis unfolding log by (simp add: nth_append)
  next
    case False
    then have "log ! p = ?rest ! (p - calls s)" unfolding log by (rule nth_append_right [OF leI])
    moreover have "p - calls s < length ?rest" using False assms(2) unfolding log length_append [of "ds_log s" ?rest] by arith
    ultimately have "log ! p \<in> set ?rest" by (metis nth_mem)
    with that show ?thesis by contradiction
  qed
  show ?thesis
  proof (intro conjI allI impI)
    fix opt assume create: "log ! p = DcContainerCreate opt"
    have "log ! p \<notin> set ?rest" unfolding create by auto
    from before [OF this] create have p: "p < calls s" "ds_log s ! p = DcContainerCreate opt" by simp_all
    from trackedD(1) [OF tr p]
    show "\<exists>q. p < q \<and> q < length log \<and> log ! q = DcRemove (op_name opt)
           \<and> ((\<exists>e. res = Inl e) \<or> gone (en_remove N q (op_name opt)) ''no such container'')"
    proof
      assume "removed N (ds_log s) p (op_name opt)"
      then obtain q where q: "p < q" "q < calls s" "ds_log s ! q = DcRemove (op_name opt)" "en_remove N q (op_name opt) = None"
        unfolding removed_def by blast
      have "log ! q = ds_log s ! q" "q < length log" using q(2) unfolding log by (simp_all add: nth_append)
      then show ?thesis using q by (intro exI [of _ q]) (simp add: gone_def)
    next
      assume "op_name opt \<in> set (ds_containers s)"
      then obtain i where i: "i < length (ds_containers s)" "rev (ds_containers s) ! i = op_name opt"
        by (metis in_set_conv_nth length_rev set_rev)
      then have "log ! (calls s + i) = DcRemove (op_name opt)" "calls s + i < length log"
        unfolding log by (auto simp: nth_append)
      moreover have "(\<exists>e. res = Inl e) \<or> gone (en_remove N (calls s + i) (op_name opt)) ''no such container''"
        using run(4) ok(1) [OF _ i(1)] i(2) by auto
      ultimately show ?thesis using p(1) by (intro exI [of _ "calls s + i"]) simp
    qed
  next
    fix v assume create: "log ! p = DcVolumeCreate v"
    have "log ! p \<notin> set ?rest" unfolding create by auto
    from before [OF this] create have p: "p < calls s" "ds_log s ! p = DcVolumeCreate v" by simp_all
    let ?q = "calls s + length (ds_containers s)"
    have v: "ds_volume s = vo_name v" "ds_volume s \<noteq> ''''" using trackedD(2) [OF tr p] by auto
    then have "log ! ?q = DcVolumeRemove (vo_name v)" "?q < length log" unfolding log by (auto simp: nth_append)
    then show "\<exists>q. p < q \<and> q < length log \<and> log ! q = DcVolumeRemove (vo_name v)
           \<and> ((\<exists>e. res = Inl e) \<or> gone (en_volume_remove N q (vo_name v)) ''no such volume'')"
      using p(1) v ok(2) run(4) by (intro exI [of _ ?q]) auto
  qed
qed

section \<open>The verdict\<close>

text \<open>
  The specification. A sandboxed process hangs until its time is over, or exits after some
  output. The verdict on a test depends on the process alone, and the outcome of an attempt is
  the first verdict that is not a pass, with the number of tests before it.
\<close>

datatype behaviour = Hangs | Exits "(nat \<times> string) list" int

definition behaves :: "behaviour \<Rightarrow> container_run \<Rightarrow> bool" where
  "behaves b r \<longleftrightarrow> (case b of
       Hangs \<Rightarrow> select_event (\<lambda>_. True) (cr_events r) = CtxDone
     | Exits frames status \<Rightarrow> cr_frames r = frames \<and> cr_read_error r = None
         \<and> cr_events r \<in> {[OutputDone, WaitResult \<lparr>wr_status = status, wr_error = None\<rparr>],
                          [WaitResult \<lparr>wr_status = status, wr_error = None\<rparr>, OutputDone]})"

definition compile_verdict :: "int \<Rightarrow> behaviour \<Rightarrow> string" where
  "compile_verdict limit b = (case b of
       Hangs \<Rightarrow> ''timeout''
     | Exits frames status \<Rightarrow>
         if limit < int (length (concat (map snd frames))) then ''output_limit''
         else if status \<noteq> 0 then ''compile_error'' else ''pass'')"

definition test_verdict :: "int \<Rightarrow> string \<Rightarrow> behaviour \<times> bool \<Rightarrow> string" where
  "test_verdict limit expected bo = (case bo of
       (Hangs, oom) \<Rightarrow> ''timeout''
     | (Exits frames status, oom) \<Rightarrow>
         if limit < int (length (concat (map snd frames))) then ''output_limit''
         else if status \<noteq> 0 \<or> oom then ''runtime_error''
         else if output_lines (written 0 frames) = output_lines expected then ''pass'' else ''wrong_answer'')"

definition first_failure :: "string list \<Rightarrow> execution_outcome" where
  "first_failure vs =
     (let k = length (takeWhile (\<lambda>v. v = ''pass'') vs) in
      \<lparr>eo_kind = (if k = length vs then ''pass'' else vs ! k), eo_tests_passed = int k\<rparr>)"

lemma cut_writes_all:
  "length (concat (map snd ws)) \<le> n \<Longrightarrow> cut_writes n ws = ws"
  by (induction n ws rule: cut_writes.induct) auto

lemma output_lines_matches: "output_matches a b \<longleftrightarrow> output_lines a = output_lines b"
  unfolding output_matches_def by (metis lf_lines_normalize normalize_lines)

text \<open>In whichever order the output and the exit are noticed, the result is the same.\<close>

lemma await_behaves:
  assumes "behaves b r" and "0 \<le> limit"
  shows "fst (await_container limit r) = (case b of
       Hangs \<Rightarrow> Inl ProcessTimeout
     | Exits frames status \<Rightarrow>
         if limit < int (length (concat (map snd frames))) then Inl OutputLimitError
         else Inr \<lparr>pr_exit_code = status, pr_stdout = written 0 frames, pr_stderr = written 1 frames\<rparr>)"
proof (cases b)
  case Hangs
  then show ?thesis using assms(1) by (simp add: behaves_def await_container_def)
next
  case (Exits frames status)
  have copy: "copy_output limit r = (if limit < int (length (concat (map snd frames))) then Some OutputLimitError else None)"
    using assms Exits by (simp add: copy_output_def behaves_def budget_writes_ref)
  have "output_buffers limit frames i = written i frames" if "int (length (concat (map snd frames))) \<le> limit" for i
    using that assms(2) cut_writes_all [of frames "nat limit"] by (simp add: output_buffers_def budget_writes_ref)
  then show ?thesis
    using assms Exits copy
    by (auto simp: behaves_def await_container_def Let_def select_event_def process_result_of_def)
qed

text \<open>An engine that does what it is asked, whenever it is asked.\<close>

definition engine_works :: "docker_engine \<Rightarrow> bool" where
  "engine_works N \<longleftrightarrow>
     (\<forall>n v. \<exists>name. en_volume_create N n v = Inr name \<and> name \<noteq> '''')
   \<and> (\<forall>n opt. \<exists>cid. en_container_create N n opt = Inr (cid, []) \<and> cid \<noteq> '''')
   \<and> (\<forall>n c p f. en_copy N n c p f = None) \<and> (\<forall>n c. en_attach N n c = None) \<and> (\<forall>n c. en_start N n c = None)
   \<and> (\<forall>n c. en_remove N n c = None) \<and> (\<forall>n v. en_volume_remove N n v = None)"

lemma create_container_works:
  assumes "engine_works N"
  shows "create_container N E img nm labels cmd vol ro l s = ((''codeduel-sandbox-'' @ nm, None),
    log_call (DcContainerCreate (sandbox_container_options img nm labels cmd vol ro l (de_runtime E))) s)"
proof -
  obtain cid where "en_container_create N (calls s) (sandbox_container_options img nm labels cmd vol ro l (de_runtime E)) = Inr (cid, [])"
      "cid \<noteq> ''''"
    using assms unfolding engine_works_def by blast
  then show ?thesis by (simp add: create_container_def Let_def) (simp add: sandbox_container_options_def)
qed

lemma run_container_works:
  assumes "engine_works N" and "\<And>n. behaves b (en_run N n name input)" and "0 \<le> limit"
  shows "\<exists>s'. run_container N name input limit s = (case b of
       Hangs \<Rightarrow> Inl ProcessTimeout
     | Exits frames status \<Rightarrow>
         if limit < int (length (concat (map snd frames))) then Inl OutputLimitError
         else Inr \<lparr>pr_exit_code = status, pr_stdout = written 0 frames, pr_stderr = written 1 frames\<rparr>, s')"
proof -
  let ?s2 = "log_call (DcStart name) (log_call (DcAttach name) s)"
  have ok: "en_attach N n name = None" "en_start N n name = None" for n
    using assms(1) by (simp_all add: engine_works_def)
  obtain res killed where a: "await_container limit (en_run N (calls ?s2) name input) = (res, killed)" by fastforce
  have "fst (res, killed) = (case b of
       Hangs \<Rightarrow> Inl ProcessTimeout
     | Exits frames status \<Rightarrow>
         if limit < int (length (concat (map snd frames))) then Inl OutputLimitError
         else Inr \<lparr>pr_exit_code = status, pr_stdout = written 0 frames, pr_stderr = written 1 frames\<rparr>)"
    unfolding a [symmetric] by (rule await_behaves [OF assms(2,3)])
  then show ?thesis unfolding run_container_def Let_def ok option.case a prod.case fst_conv by blast
qed

lemma remove_container_works:
  "engine_works N \<Longrightarrow> \<exists>s'. remove_container N name s = (None, s')"
  by (simp add: remove_container_def Let_def engine_works_def)

lemma cleanup_works:
  assumes "engine_works N"
  shows "\<exists>s'. cleanup_resources N s = (None, s')"
proof -
  have ok: "en_remove N n c = None" "en_volume_remove N n c = None" for n c
    using assms by (simp_all add: engine_works_def)
  have "\<exists>s'. cleanup_containers N names s = ([], s')" for names s
  proof (induction names arbitrary: s)
    case Nil
    then show ?case by simp
  next
    case (Cons name names)
    obtain s' where "cleanup_containers N names (log_call (DcRemove name) s) = ([], s')" using Cons.IH by blast
    then show ?case by (simp add: ok)
  qed
  then obtain s1 where "cleanup_containers N (rev (ds_containers s)) s = ([], s1)" by blast
  then show ?thesis by (simp add: cleanup_resources_def ok)
qed

lemma run_tests_works:
  assumes "engine_works N" and "parent \<noteq> Some Canceled" and "0 \<le> max_output_bytes l" and "length bs = length ts"
    and "\<And>j n. j < length ts \<Longrightarrow> behaves (fst (bs ! j))
          (en_run N n (''codeduel-sandbox-'' @ attempt @ ''-test-'' @ decimal (i + j + 1)) (tc_input (ts ! j)))
        \<and> en_inspect N n (''codeduel-sandbox-'' @ attempt @ ''-test-'' @ decimal (i + j + 1)) = Inr (Some (snd (bs ! j)))"
  shows "\<exists>s'. run_tests N E parent img attempt labels cmd vol l i ts s =
    (Inr (let f = first_failure (map2 (\<lambda>t. test_verdict (max_output_bytes l) (tc_expected t)) ts bs)
          in \<lparr>eo_kind = eo_kind f, eo_tests_passed = int i + eo_tests_passed f\<rparr>), s')"
  using assms(4,5)
proof (induction ts arbitrary: i bs s)
  case Nil
  then show ?case by (simp add: first_failure_def)
next
  case (Cons t ts)
  obtain b oom bs' where bs: "bs = (b, oom) # bs'" "length bs' = length ts"
    using Cons.prems(1) by (cases bs) auto
  let ?name = "''codeduel-sandbox-'' @ attempt @ ''-test-'' @ decimal (i + 1)"
  let ?limit = "max_output_bytes l"
  have b: "behaves b (en_run N n ?name (tc_input t))" and oom: "en_inspect N n ?name = Inr (Some oom)" for n
    using Cons.prems(2) [of 0 n] by (simp_all add: bs)
  let ?v = "test_verdict ?limit (tc_expected t) (b, oom)"
  let ?vs = "map2 (\<lambda>t. test_verdict ?limit (tc_expected t)) ts bs'"
  have ff: "first_failure (?v # ?vs) = (if ?v = ''pass'' then
      (let f = first_failure ?vs in \<lparr>eo_kind = eo_kind f, eo_tests_passed = 1 + eo_tests_passed f\<rparr>)
      else \<lparr>eo_kind = ?v, eo_tests_passed = 0\<rparr>)"
    by (simp add: first_failure_def Let_def)
  have IH: "\<exists>s'. run_tests N E parent img attempt labels cmd vol l (i + 1) ts s = (Inr (let f = first_failure ?vs
      in \<lparr>eo_kind = eo_kind f, eo_tests_passed = int (i + 1) + eo_tests_passed f\<rparr>), s')" for s
    using Cons.prems(2) [of "Suc _"] bs by (intro Cons.IH) auto
  let ?s1 = "add_container ?name (log_call (DcContainerCreate (sandbox_container_options img
      (attempt @ ''-test-'' @ decimal (i + 1)) (labels_with_type labels ''runtime'') cmd vol True l (de_runtime E))) s)"
  obtain out s3 where run: "run_container N ?name (tc_input t) ?limit ?s1 = (out, s3)" and out: "out = (case b of
       Hangs \<Rightarrow> Inl ProcessTimeout
     | Exits frames status \<Rightarrow>
         if ?limit < int (length (concat (map snd frames))) then Inl OutputLimitError
         else Inr \<lparr>pr_exit_code = status, pr_stdout = written 0 frames, pr_stderr = written 1 frames\<rparr>)"
    using run_container_works [OF assms(1) b assms(3), of ?s1] by blast
  obtain s4 where rm: "remove_container N ?name (log_call (DcInspect ?name) s3) = (None, s4)"
    using remove_container_works [OF assms(1)] by blast
  obtain s5 where rest: "run_tests N E parent img attempt labels cmd vol l (i + 1) ts s4 = (Inr (let f = first_failure ?vs
      in \<lparr>eo_kind = eo_kind f, eo_tests_passed = int (i + 1) + eo_tests_passed f\<rparr>), s5)"
    using IH by blast
  have eval: "run_tests N E parent img attempt labels cmd vol l i (t # ts) s =
      (case out of Inl e \<Rightarrow> (classify_process_error parent e (int i), s3)
       | Inr result \<Rightarrow>
           if pr_exit_code result \<noteq> 0 \<or> oom then (Inr \<lparr>eo_kind = ''runtime_error'', eo_tests_passed = int i\<rparr>, s4)
           else if \<not> output_matches (pr_stdout result) (tc_expected t)
           then (Inr \<lparr>eo_kind = ''wrong_answer'', eo_tests_passed = int i\<rparr>, s4)
           else run_tests N E parent img attempt labels cmd vol l (i + 1) ts s4)"
    by (simp only: run_tests.simps create_container_works [OF assms(1)] prod.case Let_def option.case run oom sum.case rm)
  have vs: "map2 (\<lambda>t. test_verdict ?limit (tc_expected t)) (t # ts) bs = ?v # ?vs" by (simp add: bs)
  show ?case
  proof (cases "?v = ''pass''")
    case True
    then obtain result where "out = Inr result" "pr_exit_code result = 0" "\<not> oom" "output_matches (pr_stdout result) (tc_expected t)"
      by (auto simp: out test_verdict_def output_lines_matches split: behaviour.splits if_splits)
    then have "run_tests N E parent img attempt labels cmd vol l i (t # ts) s = run_tests N E parent img attempt labels cmd vol l (i + 1) ts s4"
      unfolding eval by simp
    then show ?thesis unfolding vs ff rest using True by (simp add: Let_def)
  next
    case False
    have "fst (run_tests N E parent img attempt labels cmd vol l i (t # ts) s) = Inr \<lparr>eo_kind = ?v, eo_tests_passed = int i\<rparr>"
      using False assms(2) unfolding eval
      by (cases b) (auto simp: out test_verdict_def output_lines_matches classify_process_error_def)
    then show ?thesis unfolding vs ff using False by (cases "run_tests N E parent img attempt labels cmd vol l i (t # ts) s") (simp add: Let_def)
  qed
qed

lemma docker_verdict_run:
  assumes "engine_works N" and "request_validate r = None" and "parent \<noteq> Some Canceled"
    and "de_images E (er_language r) = Some img" and "img \<noteq> ''''"
    and "\<And>n. behaves bc (en_run N n (''codeduel-sandbox-'' @ attempt @ ''-compile'') [])"
    and "length bs = length (er_tests r)"
    and "\<And>j n. j < length bs \<Longrightarrow> behaves (fst (bs ! j))
          (en_run N n (''codeduel-sandbox-'' @ attempt @ ''-test-'' @ decimal (j + 1)) (tc_input (er_tests r ! j)))
        \<and> en_inspect N n (''codeduel-sandbox-'' @ attempt @ ''-test-'' @ decimal (j + 1)) = Inr (Some (snd (bs ! j)))"
  shows "fst (docker_execute N E parent attempt r) = Inr
    (let limit = max_output_bytes (er_limits r); v = compile_verdict limit bc in
     if v \<noteq> ''pass'' then \<lparr>eo_kind = v, eo_tests_passed = 0\<rparr>
     else first_failure (map2 (\<lambda>t. test_verdict limit (tc_expected t)) (er_tests r) bs))"
proof -
  let ?limit = "max_output_bytes (er_limits r)" and ?labels = "resource_labels E attempt"
  have ok: "en_start N n c = None" "en_copy N n c p f = None" for n c p f
    using assms(1) by (simp_all add: engine_works_def)
  have valid: "er_language r \<in> set [''python'', ''cpp'', ''java'']" "0 \<le> ?limit"
    using assms(2) by (auto simp: request_validate_def limits_validate_def split: option.splits if_splits)
  then obtain spec where spec: "language_specs (er_language r) = Some spec" by (auto simp: language_specs_def)
  have "\<exists>s1. create_workspace N attempt ?labels (workspace_bytes (er_limits r)) s = ((''codeduel-sandbox-'' @ attempt, None), s1)" for s
  proof -
    have vols: "\<forall>n v. \<exists>name. en_volume_create N n v = Inr name \<and> name \<noteq> ''''"
      using assms(1) unfolding engine_works_def by (rule conjunct1)
    define opts where "opts = \<lparr>vo_name = ''codeduel-sandbox-'' @ attempt, vo_driver = ''local'',
            vo_driver_opts = [''type'' \<mapsto> ''tmpfs'', ''device'' \<mapsto> ''tmpfs'',
              ''o'' \<mapsto> ''size='' @ decimal_int (workspace_bytes (er_limits r)) @ '',uid=10001,gid=10001,mode=0700,nosuid,nodev''],
            vo_labels = labels_with_type ?labels ''workspace''\<rparr>"
    obtain name where name: "en_volume_create N (calls s) opts = Inr name" "name \<noteq> ''''" using vols by blast
    show ?thesis
      unfolding create_workspace_def Let_def opts_def [symmetric] name(1) sum.case using name(2) by simp
  qed
  then obtain s1 where w: "create_workspace N attempt ?labels (workspace_bytes (er_limits r))
      \<lparr>ds_log = [], ds_containers = [], ds_volume = ''''\<rparr> = ((''codeduel-sandbox-'' @ attempt, None), s1)" by blast
  have "\<exists>s'. execute_attempt N E parent attempt img spec r \<lparr>ds_log = [], ds_containers = [], ds_volume = ''''\<rparr> = (Inr
    (let v = compile_verdict ?limit bc in
     if v \<noteq> ''pass'' then \<lparr>eo_kind = v, eo_tests_passed = 0\<rparr>
     else first_failure (map2 (\<lambda>t. test_verdict ?limit (tc_expected t)) (er_tests r) bs)), s')"
  proof -
    define opt where "opt nm kind cmd = DcContainerCreate (sandbox_container_options img (attempt @ nm) (labels_with_type ?labels kind)
        cmd (''codeduel-sandbox-'' @ attempt) False (er_limits r) (de_runtime E))" for nm kind cmd
    define archive where "archive = source_archive (ls_source_name spec) (er_source r)"
    define s8 where "s8 = add_container (''codeduel-sandbox-'' @ attempt @ ''-compile'')
        (log_call (opt ''-compile'' ''compile'' (ls_compile spec))
        (log_call (DcCopy (''codeduel-sandbox-'' @ attempt @ ''-staging'') ''/workspace'' archive)
        (log_call (DcStart (''codeduel-sandbox-'' @ attempt @ ''-staging''))
        (add_container (''codeduel-sandbox-'' @ attempt @ ''-staging'')
        (log_call (opt ''-staging'' ''staging'' [''sleep'', ''infinity'']) (s1\<lparr>ds_volume := ''codeduel-sandbox-'' @ attempt\<rparr>))))))"
    have eval: "execute_attempt N E parent attempt img spec r \<lparr>ds_log = [], ds_containers = [], ds_volume = ''''\<rparr> =
        (case run_container N (''codeduel-sandbox-'' @ attempt @ ''-compile'') [] ?limit s8 of
           (Inl e, s9) \<Rightarrow> (classify_process_error parent e 0, s9)
         | (Inr result, s9) \<Rightarrow>
             if pr_exit_code result \<noteq> 0 then (Inr \<lparr>eo_kind = ''compile_error'', eo_tests_passed = 0\<rparr>, s9)
             else (case remove_container N (''codeduel-sandbox-'' @ attempt @ ''-compile'') s9 of
                (Some e, s10) \<Rightarrow> (Inl (''remove compile container: '' @ e), s10)
              | (None, s10) \<Rightarrow> run_tests N E parent img attempt ?labels (ls_run spec) (''codeduel-sandbox-'' @ attempt)
                    (er_limits r) 0 (er_tests r) s10))"
      by (simp only: execute_attempt_def Let_def w prod.case option.case create_container_works [OF assms(1)] ok
          opt_def [symmetric] archive_def [symmetric] s8_def [symmetric])
    obtain out s9 where run: "run_container N (''codeduel-sandbox-'' @ attempt @ ''-compile'') [] ?limit s8 = (out, s9)"
      and out: "out = (case bc of
         Hangs \<Rightarrow> Inl ProcessTimeout
       | Exits frames status \<Rightarrow>
           if ?limit < int (length (concat (map snd frames))) then Inl OutputLimitError
           else Inr \<lparr>pr_exit_code = status, pr_stdout = written 0 frames, pr_stderr = written 1 frames\<rparr>)"
      using run_container_works [OF assms(1,6) valid(2)] by blast
    obtain s10 where rm: "remove_container N (''codeduel-sandbox-'' @ attempt @ ''-compile'') s9 = (None, s10)"
      using remove_container_works [OF assms(1)] by blast
    have "\<exists>s11. run_tests N E parent img attempt ?labels (ls_run spec) (''codeduel-sandbox-'' @ attempt)
        (er_limits r) 0 (er_tests r) s10 = (Inr (let f = first_failure (map2 (\<lambda>t. test_verdict ?limit (tc_expected t)) (er_tests r) bs)
          in \<lparr>eo_kind = eo_kind f, eo_tests_passed = int 0 + eo_tests_passed f\<rparr>), s11)"
      by (rule run_tests_works [OF assms(1,3) valid(2) assms(7)]) (use assms(8) in \<open>simp only: assms(7) add_0\<close>)
    then obtain s11 where tests: "run_tests N E parent img attempt ?labels (ls_run spec) (''codeduel-sandbox-'' @ attempt)
        (er_limits r) 0 (er_tests r) s10 = (Inr (let f = first_failure (map2 (\<lambda>t. test_verdict ?limit (tc_expected t)) (er_tests r) bs)
          in \<lparr>eo_kind = eo_kind f, eo_tests_passed = int 0 + eo_tests_passed f\<rparr>), s11)" by blast
    show ?thesis
      unfolding eval run rm prod.case option.case tests using assms(3)
      by (cases bc) (auto simp: out compile_verdict_def Let_def classify_process_error_def)
  qed
  then obtain s' where run: "execute_attempt N E parent attempt img spec r \<lparr>ds_log = [], ds_containers = [], ds_volume = ''''\<rparr> = (Inr
    (let v = compile_verdict ?limit bc in
     if v \<noteq> ''pass'' then \<lparr>eo_kind = v, eo_tests_passed = 0\<rparr>
     else first_failure (map2 (\<lambda>t. test_verdict ?limit (tc_expected t)) (er_tests r) bs)), s')" by blast
  obtain s'' where "cleanup_resources N s' = (None, s'')" using cleanup_works [OF assms(1)] by blast
  then show ?thesis by (simp add: docker_execute_def assms(2,4,5) spec run Let_def)
qed

text \<open>
  Property C21. The verdict is that of the program alone: when the engine works and the caller does
  not cancel, the outcome is that of the compilation if that fails, and otherwise the first
  verdict on a test that is not a pass, with the number of tests before it; a test passes
  exactly when its process exits with status 0 within its time, memory and output limits and
  its standard output has the expected lines. In which order the engine reports the output and the exit does not matter.
\<close>

theorem docker_verdict:
  assumes "engine_works N" and "request_validate r = None" and "parent \<noteq> Some Canceled"
    and "de_images E (er_language r) = Some img" and "img \<noteq> ''''"
    and "\<And>n. behaves bc (en_run N n (''codeduel-sandbox-'' @ attempt @ ''-compile'') [])"
    and "length bs = length (er_tests r)"
    and "\<And>j n. j < length bs \<Longrightarrow> behaves (fst (bs ! j))
          (en_run N n (''codeduel-sandbox-'' @ attempt @ ''-test-'' @ decimal (j + 1)) (tc_input (er_tests r ! j)))
        \<and> en_inspect N n (''codeduel-sandbox-'' @ attempt @ ''-test-'' @ decimal (j + 1)) = Inr (Some (snd (bs ! j)))"
  shows "fst (docker_execute N E parent attempt r) = Inr
    (let limit = max_output_bytes (er_limits r); v = compile_verdict limit bc in
     if v \<noteq> ''pass'' then \<lparr>eo_kind = v, eo_tests_passed = 0\<rparr>
     else first_failure (map2 (\<lambda>t. test_verdict limit (tc_expected t)) (er_tests r) bs))"
  using assms by (rule docker_verdict_run)

text \<open>
  The executor keeps its contract: an outcome of \<open>Execute\<close> is of one of the six kinds,
  counts at most the tests of the request and all of them for a pass, so that the judge
  finds a verdict for it with the same number of passed tests.
\<close>

theorem docker_outcome_admissible:
  assumes "docker_execute N E parent attempt r = (Inr out, log)"
  shows "outcome_ok (length (er_tests r)) out
    \<and> (\<exists>t. terminal_result_from_outcome out (length (er_tests r)) = Inr t \<and> tr_tests_passed t = eo_tests_passed out)"
  using docker.outcome_admissible [of N E parent attempt r out] docker.outcome_classified [of N E parent attempt r out] assms
  by (simp, blast)

section \<open>Start-up\<close>

record docker_info =
  hi_os_type :: string
  hi_memory_limit :: bool
  hi_swap_limit :: bool
  hi_cpu_cfs_quota :: bool
  hi_pids_limit :: bool
  hi_security_options :: "string list"
  hi_runtimes :: "string list"

definition validate_docker_host :: "docker_info \<Rightarrow> string \<Rightarrow> string option" where
  "validate_docker_host info runtime =
     (if hi_os_type info \<noteq> ''linux'' then Some ''docker sandbox requires a Linux daemon''
      else if \<not> hi_memory_limit info \<or> \<not> hi_swap_limit info \<or> \<not> hi_cpu_cfs_quota info \<or> \<not> hi_pids_limit info
      then Some ''docker daemon does not enforce all required memory, swap, CPU, and PID limits''
      else if \<not> (\<exists>opt\<in>set (hi_security_options info). has_prefix opt ''name=seccomp'')
      then Some ''docker daemon does not report an enabled seccomp profile''
      else if runtime \<noteq> '''' \<and> runtime \<notin> set (hi_runtimes info)
      then Some ''docker daemon does not register sandbox runtime''
      else None)"

text \<open>
  What the daemon lists with the sandbox label: containers with their creation time in seconds,
  volumes with the creation time \<open>time.Parse\<close> reads, in nanoseconds, if it can.
\<close>

record listed_container =
  li_id :: string
  li_created :: int

record listed_volume =
  lv_name :: string
  lv_created :: "int option"

fun remove_stale_containers :: "docker_engine \<Rightarrow> int \<Rightarrow> listed_container list \<Rightarrow> docker_call list \<Rightarrow> string option \<times> docker_call list" where
  "remove_stale_containers N cutoff [] log = (None, log)"
| "remove_stale_containers N cutoff (c # cs) log =
     (if cutoff < li_created c * 1000000000 then remove_stale_containers N cutoff cs log
      else case en_remove N (length log) (li_id c) of
          Some e \<Rightarrow> (Some (''remove stale container: '' @ e), log @ [DcRemove (li_id c)])
        | None \<Rightarrow> remove_stale_containers N cutoff cs (log @ [DcRemove (li_id c)]))"

fun remove_stale_volumes :: "docker_engine \<Rightarrow> int \<Rightarrow> listed_volume list \<Rightarrow> docker_call list \<Rightarrow> string option \<times> docker_call list" where
  "remove_stale_volumes N cutoff [] log = (None, log)"
| "remove_stale_volumes N cutoff (v # vs) log =
     (if (case lv_created v of None \<Rightarrow> True | Some created \<Rightarrow> cutoff < created) then remove_stale_volumes N cutoff vs log
      else case en_volume_remove N (length log) (lv_name v) of
          Some e \<Rightarrow> (Some (''remove stale volume: '' @ e), log @ [DcVolumeRemove (lv_name v)])
        | None \<Rightarrow> remove_stale_volumes N cutoff vs (log @ [DcVolumeRemove (lv_name v)]))"

definition cleanup_stale_resources ::
  "docker_engine \<Rightarrow> docker_executor \<Rightarrow> int \<Rightarrow> string + listed_container list \<Rightarrow> string + listed_volume list
    \<Rightarrow> string option \<times> docker_call list" where
  "cleanup_stale_resources N E now containers volumes =
     (case containers of
        Inl e \<Rightarrow> (Some (''list containers: '' @ e), [])
      | Inr cs \<Rightarrow>
          let cutoff = now - de_stale_resource_age E in
          (case remove_stale_containers N cutoff cs [] of
             (Some e, log) \<Rightarrow> (Some e, log)
           | (None, log) \<Rightarrow>
               (case volumes of
                  Inl e \<Rightarrow> (Some (''list volumes: '' @ e), log)
                | Inr vs \<Rightarrow> remove_stale_volumes N cutoff vs log)))"

text \<open>The images, in the order \<open>languages\<close> in which the map is visited.\<close>

fun load_images ::
  "(string \<Rightarrow> string + string) \<Rightarrow> (string \<rightharpoonup> string) \<Rightarrow> string list \<Rightarrow> (string \<rightharpoonup> string) \<Rightarrow> string + (string \<rightharpoonup> string)" where
  "load_images inspect configured [] images = Inr images"
| "load_images inspect configured (lang # langs) images =
     (case configured lang of
        None \<Rightarrow> load_images inspect configured langs images
      | Some reference \<Rightarrow>
          (case inspect reference of
             Inl e \<Rightarrow> Inl (''inspect sandbox image: '' @ e)
           | Inr cid \<Rightarrow>
               if cid = '''' then Inl ''inspect sandbox image: empty image ID''
               else load_images inspect configured langs (images(lang \<mapsto> cid))))"

definition new_docker_executor ::
  "bool \<Rightarrow> docker_engine \<Rightarrow> string option \<Rightarrow> string + docker_info \<Rightarrow> (string \<Rightarrow> string + string) \<Rightarrow> string list \<Rightarrow> string
    \<Rightarrow> int \<Rightarrow> string + listed_container list \<Rightarrow> string + listed_volume list \<Rightarrow> judge_config
    \<Rightarrow> (string + docker_executor) \<times> docker_call list" where
  "new_docker_executor has_engine N ping info inspect languages instance_id now containers volumes cfg =
     (if \<not> has_engine then (Inl ''docker engine is required'', [])
      else case judge_config_validate cfg of
        Some e \<Rightarrow> (Inl (''validate Judge config: '' @ e), [])
      | None \<Rightarrow>
     (case ping of
        Some e \<Rightarrow> (Inl (''ping Docker daemon: '' @ e), [])
      | None \<Rightarrow>
     (case info of
        Inl e \<Rightarrow> (Inl (''inspect Docker daemon: '' @ e), [])
      | Inr host \<Rightarrow>
     (case validate_docker_host host (jc_sandbox_runtime cfg) of
        Some e \<Rightarrow> (Inl e, [])
      | None \<Rightarrow>
     (case load_images inspect [''python'' \<mapsto> jc_python_image cfg, ''cpp'' \<mapsto> jc_cpp_image cfg, ''java'' \<mapsto> jc_java_image cfg]
             languages Map.empty of
        Inl e \<Rightarrow> (Inl e, [])
      | Inr images \<Rightarrow>
          let E = \<lparr>de_images = images, de_instance_id = instance_id, de_stale_resource_age = jc_attempt_lease cfg,
                   de_runtime = jc_sandbox_runtime cfg\<rparr>
          in (case cleanup_stale_resources N E now containers volumes of
                (Some e, log) \<Rightarrow> (Inl (''clean stale sandbox resources: '' @ e), log)
              | (None, log) \<Rightarrow> (Inr E, log)))))))"

text \<open>Only resources that are older than an attempt's lease are removed at start-up.\<close>

lemma remove_stale_containers_log:
  "remove_stale_containers N cutoff cs log = (err, log') \<Longrightarrow> DcRemove c \<in> set log' \<Longrightarrow>
     DcRemove c \<in> set log \<or> (\<exists>i\<in>set cs. li_id i = c \<and> li_created i * 1000000000 \<le> cutoff)"
  by (induction N cutoff cs log rule: remove_stale_containers.induct) (auto split: if_splits option.splits)

lemma remove_stale_containers_volumes:
  "remove_stale_containers N cutoff cs log = (err, log') \<Longrightarrow> DcVolumeRemove v \<in> set log' \<Longrightarrow> DcVolumeRemove v \<in> set log"
  by (induction N cutoff cs log rule: remove_stale_containers.induct) (auto split: if_splits option.splits)

lemma remove_stale_volumes_log:
  "remove_stale_volumes N cutoff vs log = (err, log') \<Longrightarrow> x \<in> set log' \<Longrightarrow>
     x \<in> set log \<or> (\<exists>v created. v \<in> set vs \<and> x = DcVolumeRemove (lv_name v) \<and> lv_created v = Some created \<and> created \<le> cutoff)"
  by (induction N cutoff vs log rule: remove_stale_volumes.induct) (fastforce split: if_splits option.splits)+

lemma load_images_Inr:
  "load_images inspect configured langs images = Inr images' \<Longrightarrow> lang \<in> set langs \<Longrightarrow> configured lang \<noteq> None \<Longrightarrow>
     \<exists>cid. images' lang = Some cid \<and> cid \<noteq> ''''"
proof (induction langs arbitrary: images)
  case (Cons l langs)
  have keep: "\<exists>cid. images' l' = Some cid \<and> cid \<noteq> ''''"
    if "load_images inspect configured ls im = Inr images'" "\<exists>cid. im l' = Some cid \<and> cid \<noteq> ''''" for ls im l'
    using that by (induction ls arbitrary: im) (fastforce split: option.splits sum.splits if_splits)+
  show ?case
  proof (cases "lang \<in> set langs")
    case True
    obtain im where "load_images inspect configured langs im = Inr images'"
      using Cons.prems(1) by (auto split: option.splits sum.splits if_splits)
    then show ?thesis using Cons.IH True Cons.prems(3) by blast
  next
    case False
    with Cons.prems obtain im where "load_images inspect configured langs im = Inr images'" "\<exists>cid. im lang = Some cid \<and> cid \<noteq> ''''"
      by (auto split: option.splits sum.splits if_splits)
    then show ?thesis by (rule keep)
  qed
qed simp

lemma new_docker_executor_Inr:
  assumes "new_docker_executor has_engine N ping info inspect languages instance_id now containers volumes cfg = (Inr E, log)"
    and "set languages = {''python'', ''cpp'', ''java''}" and "lang \<in> {''python'', ''cpp'', ''java''}"
  shows "(\<exists>cid. de_images E lang = Some cid \<and> cid \<noteq> '''') \<and> de_stale_resource_age E = jc_attempt_lease cfg"
proof -
  obtain images where "load_images inspect [''python'' \<mapsto> jc_python_image cfg, ''cpp'' \<mapsto> jc_cpp_image cfg, ''java'' \<mapsto> jc_java_image cfg]
      languages Map.empty = Inr images"
    and "E = \<lparr>de_images = images, de_instance_id = instance_id, de_stale_resource_age = jc_attempt_lease cfg, de_runtime = jc_sandbox_runtime cfg\<rparr>"
    using assms(1) by (auto simp: new_docker_executor_def Let_def split: if_splits option.splits sum.splits prod.splits)
  with load_images_Inr [OF this(1), of lang] assms(2,3) show ?thesis by auto
qed

section \<open>An example engine\<close>

text \<open>
  The compiler succeeds silently; the program answers 2 to 1 and 5 to 3. Every other call succeeds.
\<close>

definition ex_sandbox_run :: "string \<Rightarrow> container_run" where
  "ex_sandbox_run input =
     \<lparr>cr_frames = (if input = ''1'' then [(0, ''2'')] else if input = ''3'' then [(0, ''5'')] else []), cr_read_error = None,
      cr_copied = 0, cr_events = [WaitResult \<lparr>wr_status = 0, wr_error = None\<rparr>, OutputDone], cr_ctx_expired = False\<rparr>"

definition ex_engine :: docker_engine where
  "ex_engine = \<lparr>en_volume_create = (\<lambda>n v. Inr ''v''), en_container_create = (\<lambda>n opt. Inr (''c'', [])),
     en_copy = (\<lambda>n c p f. None), en_attach = (\<lambda>n c. None), en_start = (\<lambda>n c. None), en_run = (\<lambda>n c. ex_sandbox_run),
     en_inspect = (\<lambda>n c. Inr (Some False)), en_remove = (\<lambda>n c. None), en_volume_remove = (\<lambda>n v. None)\<rparr>"

definition ex_executor :: docker_executor where
  "ex_executor = \<lparr>de_images = [''python'' \<mapsto> ''sha256:1''], de_instance_id = ''i'', de_stale_resource_age = 60000000000, de_runtime = ''''\<rparr>"

definition ex_execution :: execution_request where
  "ex_execution = \<lparr>er_language = ''python'', er_source = ''x'', er_tests = cs_tests ex_claimed,
     er_limits = \<lparr>max_code_bytes = 65536, max_output_bytes = 100, compile_timeout = 1, test_timeout = 1, total_timeout = 1,
       cleanup_timeout = 1, nano_cpus = 1, memory_bytes = 1, memory_swap = 1, pid_limit = 1, workspace_bytes = 1, tmpfs_bytes = 1\<rparr>\<rparr>"

lemma ex_engine_works: "engine_works ex_engine"
  by (simp add: engine_works_def ex_engine_def)

lemma ex_behaviours:
  "request_validate ex_execution = None" "de_images ex_executor (er_language ex_execution) = Some ''sha256:1''"
  "behaves (Exits [] 0) (en_run ex_engine n (''codeduel-sandbox-'' @ ''a'' @ ''-compile'') [])"
  "length [(Exits [(0, ''2'')] 0, False), (Exits [(0, ''5'')] 0, False)] = length (er_tests ex_execution)"
  "j < length [(Exits [(0, ''2'')] 0, False), (Exits [(0, ''5'')] 0, False)] \<Longrightarrow>
    behaves (fst ([(Exits [(0, ''2'')] 0, False), (Exits [(0, ''5'')] 0, False)] ! j))
          (en_run ex_engine n (''codeduel-sandbox-'' @ ''a'' @ ''-test-'' @ decimal (j + 1)) (tc_input (er_tests ex_execution ! j)))
        \<and> en_inspect ex_engine n (''codeduel-sandbox-'' @ ''a'' @ ''-test-'' @ decimal (j + 1))
          = Inr (Some (snd ([(Exits [(0, ''2'')] 0, False), (Exits [(0, ''5'')] 0, False)] ! j)))"
  "map2 (\<lambda>t. test_verdict (max_output_bytes (er_limits ex_execution)) (tc_expected t)) (er_tests ex_execution)
      [(Exits [(0, ''2'')] 0, False), (Exits [(0, ''5'')] 0, False)] = [''pass'', ''wrong_answer'']"
  "compile_verdict (max_output_bytes (er_limits ex_execution)) (Exits [] 0) = ''pass''"
  by (code_simp, simp add: ex_executor_def ex_execution_def, simp add: behaves_def ex_engine_def ex_sandbox_run_def,
      simp add: ex_execution_def ex_claimed_def,
      auto simp: less_Suc_eq behaves_def ex_engine_def ex_sandbox_run_def ex_execution_def ex_claimed_def) code_simp+

theorem docker_verdict_witness:
  "fst (docker_execute ex_engine ex_executor None ''a'' ex_execution) = Inr \<lparr>eo_kind = ''wrong_answer'', eo_tests_passed = 1\<rparr>"
  using docker_verdict [OF ex_engine_works ex_behaviours(1) _ ex_behaviours(2) _ ex_behaviours(3-5), of None] ex_behaviours(6,7)
  by (simp add: Let_def first_failure_def)

lemma ex_docker_execute:
  "fst (docker_execute ex_engine ex_executor None ''a'' ex_execution) = Inr \<lparr>eo_kind = ''wrong_answer'', eo_tests_passed = 1\<rparr>"
  using docker_verdict_run [OF ex_engine_works ex_behaviours(1) _ ex_behaviours(2) _ ex_behaviours(3-5), of None] ex_behaviours(6,7)
  by (simp add: Let_def first_failure_def)

theorem docker_outcome_admissible_witness:
  "outcome_ok 2 \<lparr>eo_kind = ''wrong_answer'', eo_tests_passed = 1\<rparr>"
proof -
  obtain log where "docker_execute ex_engine ex_executor None ''a'' ex_execution = (Inr \<lparr>eo_kind = ''wrong_answer'', eo_tests_passed = 1\<rparr>, log)"
    using ex_docker_execute by (metis prod.collapse)
  moreover have "length (er_tests ex_execution) = 2" by (simp add: ex_execution_def ex_claimed_def)
  ultimately show ?thesis using docker_outcome_admissible by fastforce
qed

text \<open>An engine whose answer to the creation of the first container is lost.\<close>

definition ex_failing_engine :: docker_engine where
  "ex_failing_engine = ex_engine\<lparr>en_container_create := (\<lambda>n opt. Inl ''lost'')\<rparr>"

lemma ex_failing_run:
  "\<exists>res v opt log'. docker_execute ex_failing_engine ex_executor None ''a'' ex_execution
     = (res, DcVolumeCreate v # DcContainerCreate opt # log') \<and> op_name opt = ''codeduel-sandbox-'' @ ''a'' @ ''-staging''"
proof -
  let ?s0 = "\<lparr>ds_log = [], ds_containers = [], ds_volume = ''''\<rparr>"
  define labels where "labels = resource_labels ex_executor ''a''"
  define opt where "opt = sandbox_container_options ''sha256:1'' (''a'' @ ''-staging'') (labels_with_type labels ''staging'')
      [''sleep'', ''infinity''] (''codeduel-sandbox-'' @ ''a'') False (er_limits ex_execution) (de_runtime ex_executor)"
  obtain v where w: "create_workspace ex_failing_engine ''a'' labels (workspace_bytes (er_limits ex_execution)) ?s0
      = ((''codeduel-sandbox-'' @ ''a'', None), log_call (DcVolumeCreate v) ?s0)"
    by (auto simp only: create_workspace_def Let_def ex_failing_engine_def ex_engine_def docker_engine.simps sum.case split: if_splits) simp
  have name: "op_name opt = ''codeduel-sandbox-'' @ ''a'' @ ''-staging''"
    unfolding opt_def sandbox_container_options_def by (simp only: container_options.simps)
  have c: "create_container ex_failing_engine ex_executor ''sha256:1'' (''a'' @ ''-staging'') (labels_with_type labels ''staging'')
      [''sleep'', ''infinity''] (''codeduel-sandbox-'' @ ''a'') False (er_limits ex_execution) s
    = ((''codeduel-sandbox-'' @ ''a'' @ ''-staging'', Some (''create sandbox container: '' @ ''lost'')), log_call (DcContainerCreate opt) s)" for s
    unfolding create_container_def Let_def opt_def [symmetric] name
    by (simp only: ex_failing_engine_def ex_engine_def docker_engine.simps sum.case)
  obtain spec where spec: "language_specs (er_language ex_execution) = Some spec"
    by (simp add: language_specs_def ex_execution_def)
  define s where "s = add_container (''codeduel-sandbox-'' @ ''a'' @ ''-staging'') (log_call (DcContainerCreate opt)
      ((log_call (DcVolumeCreate v) ?s0)\<lparr>ds_volume := ''codeduel-sandbox-'' @ ''a''\<rparr>))"
  have a: "execute_attempt ex_failing_engine ex_executor None ''a'' ''sha256:1'' spec ex_execution ?s0
      = (Inl (''create sandbox container: '' @ ''lost''), s)" "ds_log s = [DcVolumeCreate v, DcContainerCreate opt]"
    unfolding execute_attempt_def Let_def labels_def [symmetric] w prod.case option.case c s_def
    by (rule refl) (simp add: add_container_def)
  obtain err s' where cl: "cleanup_resources ex_failing_engine s = (err, s')" by fastforce
  have "docker_execute ex_failing_engine ex_executor None ''a'' ex_execution
      = (case err of None \<Rightarrow> (Inl (''create sandbox container: '' @ ''lost''), ds_log s')
         | Some e \<Rightarrow> (Inl ((''create sandbox container: '' @ ''lost'') @ e), ds_log s'))"
    by (simp add: docker_execute_def ex_behaviours(1,2) spec a(1) cl split: option.splits)
  moreover obtain l where "ds_log s' = DcVolumeCreate v # DcContainerCreate opt # l"
    using cleanup_resources_log [OF cl] a(2) by auto
  ultimately show ?thesis using name by (cases err) auto
qed

theorem docker_leaves_nothing_witness:
  "\<exists>res v opt log. docker_execute ex_failing_engine ex_executor None ''a'' ex_execution = (res, DcVolumeCreate v # DcContainerCreate opt # log)
     \<and> DcRemove (op_name opt) \<in> set log \<and> DcVolumeRemove (vo_name v) \<in> set log"
proof -
  obtain res v opt log where r: "docker_execute ex_failing_engine ex_executor None ''a'' ex_execution
      = (res, DcVolumeCreate v # DcContainerCreate opt # log)" using ex_failing_run by blast
  let ?log = "DcVolumeCreate v # DcContainerCreate opt # log"
  have p: "1 < length ?log" "?log ! 1 = DcContainerCreate opt" "0 < length ?log" "?log ! 0 = DcVolumeCreate v" by simp_all
  obtain q where "q < length ?log" "?log ! q = DcRemove (op_name opt)"
    using docker_leaves_nothing [OF r p(1), THEN conjunct1, rule_format, OF p(2)] by blast
  moreover obtain q' where "q' < length ?log" "?log ! q' = DcVolumeRemove (vo_name v)"
    using docker_leaves_nothing [OF r p(3), THEN conjunct2, rule_format, OF p(4)] by blast
  ultimately have "DcRemove (op_name opt) \<in> set ?log" "DcVolumeRemove (vo_name v) \<in> set ?log" by (metis nth_mem)+
  with r show ?thesis by auto
qed

end
