(* ===== verification/Json.thy ===== *)
theory Json
  imports GoStd
begin

text \<open>
  What the gateway and the wire messages use of Go's \<open>encoding/json\<close>: the scanner of
  \<open>Decoder.Decode\<close> and \<open>Unmarshal\<close> as the state machine it is, one byte a step, with its
  stack of open arrays and objects; the two string codings (\<open>escape\<close>, \<open>unquote\<close>); the match
  of a member name with a struct field; and the text of a value. A scanned \<^typ>\<open>json\<close> keeps
  strings as they stand in the text, between the quotes and not yet unquoted, as a
  \<open>json.RawMessage\<close> does. \<open>json_document_text\<close>: scanning the text of a value gives the value
  back, and \<open>unquote_escape\<close>: unquoting an escaped string gives the string back.
\<close>

section \<open>Lexical parts\<close>

definition json_space :: "char \<Rightarrow> bool" where
  "json_space c \<longleftrightarrow> c = CHR '' '' \<or> c = CHR 0x09 \<or> c = CHR 0x0A \<or> c = CHR 0x0D"

definition hex_value :: "char \<Rightarrow> nat option" where
  "hex_value c =
     (if 48 \<le> byte c \<and> byte c \<le> 57 then Some (byte c - 48)
      else if 97 \<le> byte c \<and> byte c \<le> 102 then Some (byte c - 87)
      else if 65 \<le> byte c \<and> byte c \<le> 70 then Some (byte c - 55) else None)"

text \<open>Inside a string: \<open>stateInString\<close>, \<open>stateInStringEsc\<close> and \<open>stateInStringEscU...\<close> with the digits left.\<close>

datatype str_state = StrBody | StrEsc | StrHex nat

fun str_step :: "str_state \<Rightarrow> char \<Rightarrow> str_state option" where
  "str_step StrBody c =
     (if c = CHR 0x22 \<or> byte c < 32 then None else if c = CHR 0x5C then Some StrEsc else Some StrBody)"
| "str_step StrEsc c =
     (if c \<in> set [CHR ''b'', CHR ''f'', CHR ''n'', CHR ''r'', CHR ''t'', CHR 0x5C, CHR ''/'', CHR 0x22] then Some StrBody
      else if c = CHR ''u'' then Some (StrHex 3) else None)"
| "str_step (StrHex n) c =
     (if hex_value c = None then None else case n of 0 \<Rightarrow> Some StrBody | Suc k \<Rightarrow> Some (StrHex k))"

text \<open>Inside a number: \<open>stateNeg\<close>, \<open>state0\<close>, \<open>state1\<close>, \<open>stateDot\<close>, \<open>stateDot0\<close>, \<open>stateE\<close>, \<open>stateESign\<close>, \<open>stateE0\<close>.\<close>

datatype num_state = NumNeg | NumZero | NumInt | NumDot | NumFrac | NumE | NumESign | NumExp

definition num_after_int :: "char \<Rightarrow> num_state option" where
  "num_after_int c = (if c = CHR ''.'' then Some NumDot else if c = CHR ''e'' \<or> c = CHR ''E'' then Some NumE else None)"

fun num_step :: "num_state \<Rightarrow> char \<Rightarrow> num_state option" where
  "num_step NumNeg c = (if c = CHR ''0'' then Some NumZero else if is_digit c then Some NumInt else None)"
| "num_step NumZero c = num_after_int c"
| "num_step NumInt c = (if is_digit c then Some NumInt else num_after_int c)"
| "num_step NumDot c = (if is_digit c then Some NumFrac else None)"
| "num_step NumFrac c =
     (if is_digit c then Some NumFrac else if c = CHR ''e'' \<or> c = CHR ''E'' then Some NumE else None)"
| "num_step NumE c =
     (if c = CHR ''+'' \<or> c = CHR ''-'' then Some NumESign else if is_digit c then Some NumExp else None)"
| "num_step NumESign c = (if is_digit c then Some NumExp else None)"
| "num_step NumExp c = (if is_digit c then Some NumExp else None)"

definition num_final :: "num_state \<Rightarrow> bool" where
  "num_final n \<longleftrightarrow> n \<in> set [NumZero, NumInt, NumFrac, NumExp]"

definition num_start :: "char \<Rightarrow> num_state option" where
  "num_start c =
     (if c = CHR ''-'' then Some NumNeg else if c = CHR ''0'' then Some NumZero
      else if is_digit c then Some NumInt else None)"

section \<open>The scanner\<close>

text \<open>
  The open containers, with what has been read of them in reverse: an array, an object
  between members, an object whose last key awaits its value.
\<close>

datatype frame = ArrayF "json list" | ObjF "(string \<times> json) list" | FieldF "(string \<times> json) list" string

datatype lex = BeginValue bool | BeginString bool | InString str_state string | InNumber num_state string
  | InLiteral string json | AfterKey | AfterValue

datatype scan_step = Go "frame list" lex | Fin json | FinBefore json | Stuck

definition max_nesting_depth :: nat where
  "max_nesting_depth = 10000"

definition complete_value :: "json \<Rightarrow> frame list \<Rightarrow> scan_step" where
  "complete_value v st =
     (case st of
        [] \<Rightarrow> Fin v
      | ArrayF vs # st' \<Rightarrow> Go (ArrayF (v # vs) # st') AfterValue
      | FieldF ms k # st' \<Rightarrow> Go (ObjF ((k, v) # ms) # st') AfterValue
      | ObjF ms # st' \<Rightarrow> Stuck)"

definition push_frame :: "frame \<Rightarrow> frame list \<Rightarrow> lex \<Rightarrow> scan_step" where
  "push_frame f st lx = (if length st < max_nesting_depth then Go (f # st) lx else Stuck)"

definition after_value :: "frame list \<Rightarrow> char \<Rightarrow> scan_step" where
  "after_value st c =
     (if json_space c then Go st AfterValue
      else case st of
          ArrayF vs # st' \<Rightarrow>
            if c = CHR '','' then Go st (BeginValue False)
            else if c = CHR '']'' then complete_value (JArray (rev vs)) st' else Stuck
        | ObjF ms # st' \<Rightarrow>
            if c = CHR '','' then Go st (BeginString False)
            else if c = CHR ''}'' then complete_value (JObject (rev ms)) st' else Stuck
        | _ \<Rightarrow> Stuck)"

definition begin_value :: "bool \<Rightarrow> frame list \<Rightarrow> char \<Rightarrow> scan_step" where
  "begin_value first st c =
     (if json_space c then Go st (BeginValue first)
      else if c = CHR '']'' \<and> first then
        (case st of ArrayF [] # st' \<Rightarrow> complete_value (JArray []) st' | _ \<Rightarrow> Stuck)
      else if c = CHR ''{'' then push_frame (ObjF []) st (BeginString True)
      else if c = CHR ''['' then push_frame (ArrayF []) st (BeginValue True)
      else if c = CHR 0x22 then Go st (InString StrBody [])
      else if c = CHR ''t'' then Go st (InLiteral ''rue'' (JBool True))
      else if c = CHR ''f'' then Go st (InLiteral ''alse'' (JBool False))
      else if c = CHR ''n'' then Go st (InLiteral ''ull'' JNull)
      else case num_start c of Some n \<Rightarrow> Go st (InNumber n [c]) | None \<Rightarrow> Stuck)"

definition begin_string :: "bool \<Rightarrow> frame list \<Rightarrow> char \<Rightarrow> scan_step" where
  "begin_string first st c =
     (if json_space c then Go st (BeginString first)
      else if c = CHR ''}'' \<and> first then
        (case st of ObjF [] # st' \<Rightarrow> complete_value (JObject []) st' | _ \<Rightarrow> Stuck)
      else if c = CHR 0x22 then Go st (InString StrBody []) else Stuck)"

text \<open>The end of a string: the key of an open object, otherwise a value.\<close>

definition end_string :: "string \<Rightarrow> frame list \<Rightarrow> scan_step" where
  "end_string raw st =
     (case st of ObjF ms # st' \<Rightarrow> Go (FieldF ms raw # st') AfterKey | _ \<Rightarrow> complete_value (JString raw) st)"

fun json_step :: "frame list \<Rightarrow> lex \<Rightarrow> char \<Rightarrow> scan_step" where
  "json_step st (BeginValue first) c = begin_value first st c"
| "json_step st (BeginString first) c = begin_string first st c"
| "json_step st (InString s acc) c =
     (if s = StrBody \<and> c = CHR 0x22 then end_string (rev acc) st
      else case str_step s c of None \<Rightarrow> Stuck | Some s' \<Rightarrow> Go st (InString s' (c # acc)))"
| "json_step st (InNumber n acc) c =
     (case num_step n c of
        Some n' \<Rightarrow> Go st (InNumber n' (c # acc))
      | None \<Rightarrow>
          if \<not> num_final n then Stuck
          else case complete_value (JNumber (rev acc)) st of
              Fin v \<Rightarrow> FinBefore v
            | Go st' lx \<Rightarrow> after_value st' c
            | r \<Rightarrow> r)"
| "json_step st (InLiteral [] v) c = Stuck"
| "json_step st (InLiteral (x # xs) v) c =
     (if c \<noteq> x then Stuck else if xs = [] then complete_value v st else Go st (InLiteral xs v))"
| "json_step st AfterKey c =
     (if json_space c then Go st AfterKey else if c = CHR '':'' then Go st (BeginValue False) else Stuck)"
| "json_step st AfterValue c = after_value st c"

text \<open>
  A scan ends with a value and the input after it, with an error, or at the end of the
  input: with the number read so far when it can end there, or inside a value.
\<close>

datatype scan_result = Scanned json string | AtEnd "json option" | ScanError

fun scan :: "frame list \<Rightarrow> lex \<Rightarrow> string \<Rightarrow> scan_result" where
  "scan st lx [] =
     (case lx of
        InNumber n acc \<Rightarrow> AtEnd (if st = [] \<and> num_final n then Some (JNumber (rev acc)) else None)
      | _ \<Rightarrow> AtEnd None)"
| "scan st lx (c # s) =
     (case json_step st lx c of
        Go st' lx' \<Rightarrow> scan st' lx' s
      | Fin v \<Rightarrow> Scanned v s
      | FinBefore v \<Rightarrow> Scanned v (c # s)
      | Stuck \<Rightarrow> ScanError)"

text \<open>
  One value and nothing but white space after it: what \<open>Unmarshal\<close> accepts, and what the
  repository accepts when it demands \<open>io.EOF\<close> of a second \<open>Decode\<close>.
\<close>

definition json_document :: "string \<Rightarrow> json option" where
  "json_document s =
     (case scan [] (BeginValue False) s of
        Scanned v rest \<Rightarrow> if list_all json_space rest then Some v else None
      | AtEnd v \<Rightarrow> v
      | ScanError \<Rightarrow> None)"

section \<open>Strings\<close>

text \<open>\<open>utf8.EncodeRune\<close>.\<close>

definition utf8_encode :: "nat \<Rightarrow> string" where
  "utf8_encode r =
     (if r < 128 then [char_of r]
      else if r < 2048 then [char_of (192 + r div 64), char_of (128 + r mod 64)]
      else if r < 65536 then [char_of (224 + r div 4096), char_of (128 + r div 64 mod 64), char_of (128 + r mod 64)]
      else [char_of (240 + r div 262144), char_of (128 + r div 4096 mod 64), char_of (128 + r div 64 mod 64),
            char_of (128 + r mod 64)])"

text \<open>\<open>getu4\<close>: the value of a \<open>\\uXXXX\<close> escape at the start of the text.\<close>

fun getu4 :: "string \<Rightarrow> nat option" where
  "getu4 (b # u # w # x # y # z # s) =
     (if b \<noteq> CHR 0x5C \<or> u \<noteq> CHR ''u'' then None
      else case (hex_value w, hex_value x, hex_value y, hex_value z) of
          (Some i, Some j, Some k, Some l) \<Rightarrow> Some (((i * 16 + j) * 16 + k) * 16 + l)
        | _ \<Rightarrow> None)"
| "getu4 _ = None"

definition unescape_char :: "char \<Rightarrow> char" where
  "unescape_char c =
     (if c = CHR ''b'' then CHR 0x08 else if c = CHR ''f'' then CHR 0x0C else if c = CHR ''n'' then CHR 0x0A
      else if c = CHR ''r'' then CHR 0x0D else if c = CHR ''t'' then CHR 0x09 else c)"

text \<open>
  \<open>unquoteBytes\<close> between the quotes: escapes are decoded, a pair of surrogate escapes is one
  character, a lone surrogate and a byte that is not UTF-8 become U+FFFD.
\<close>

function unquote :: "string \<Rightarrow> string" where
  "unquote [] = []"
| "unquote (c # s) =
     (if c = CHR 0x5C then
        (case s of
           [] \<Rightarrow> []
         | e # t \<Rightarrow>
             if e = CHR ''u'' then
               (case getu4 (c # s) of
                  None \<Rightarrow> []
                | Some r \<Rightarrow>
                    if 55296 \<le> r \<and> r < 57344 then
                      (case getu4 (drop 6 (c # s)) of
                         Some r2 \<Rightarrow>
                           if r < 56320 \<and> 56320 \<le> r2 \<and> r2 < 57344
                           then utf8_encode (65536 + (r - 55296) * 1024 + (r2 - 56320)) @ unquote (drop 12 (c # s))
                           else utf8_encode 65533 @ unquote (drop 6 (c # s))
                       | None \<Rightarrow> utf8_encode 65533 @ unquote (drop 6 (c # s)))
                    else utf8_encode r @ unquote (drop 6 (c # s)))
             else unescape_char e # unquote t)
      else if byte c < 128 then c # unquote s
      else if utf8_width c s = 0 then utf8_encode 65533 @ unquote s
      else take (utf8_width c s) (c # s) @ unquote (drop (utf8_width c s - 1) s))"
  by pat_completeness auto
termination
  by (relation "measure length") auto

definition hex_digit :: "nat \<Rightarrow> char" where
  "hex_digit n = ''0123456789abcdef'' ! n"

text \<open>\<open>appendString\<close> with HTML escaping, as \<open>json.Marshal\<close> uses it.\<close>

definition escape_ascii :: "char \<Rightarrow> string" where
  "escape_ascii c =
     (if c = CHR 0x5C \<or> c = CHR 0x22 then [CHR 0x5C, c]
      else if c = CHR 0x08 then [CHR 0x5C, CHR ''b''] else if c = CHR 0x0C then [CHR 0x5C, CHR ''f'']
      else if c = CHR 0x0A then [CHR 0x5C, CHR ''n''] else if c = CHR 0x0D then [CHR 0x5C, CHR ''r'']
      else if c = CHR 0x09 then [CHR 0x5C, CHR ''t'']
      else if byte c < 32 \<or> c = CHR ''<'' \<or> c = CHR ''>'' \<or> c = CHR ''&''
      then [CHR 0x5C, CHR ''u'', CHR ''0'', CHR ''0'', hex_digit (byte c div 16), hex_digit (byte c mod 16)]
      else [c])"

function escape :: "string \<Rightarrow> string" where
  "escape [] = []"
| "escape (c # s) =
     (if byte c < 128 then escape_ascii c @ escape s
      else if utf8_width c s = 0 then CHR 0x5C # ''ufffd'' @ escape s
      else (if take 3 (c # s) = [CHR 0xE2, CHR 0x80, CHR 0xA8] then CHR 0x5C # ''u2028''
            else if take 3 (c # s) = [CHR 0xE2, CHR 0x80, CHR 0xA9] then CHR 0x5C # ''u2029''
            else take (utf8_width c s) (c # s))
           @ escape (drop (utf8_width c s - 1) s))"
  by pat_completeness auto
termination
  by (relation "measure length") auto

declare unquote.simps(2) [simp del] escape.simps(2) [simp del]

section \<open>The text of a value\<close>

definition json_quote :: "string \<Rightarrow> string" where
  "json_quote s = CHR 0x22 # s @ [CHR 0x22]"

fun json_join :: "string list \<Rightarrow> string" where
  "json_join [] = []"
| "json_join [x] = x"
| "json_join (x # y # xs) = x @ CHR '','' # json_join (y # xs)"

text \<open>\<open>json.Marshal\<close> of a value whose strings are already escaped.\<close>

fun json_text :: "json \<Rightarrow> string" where
  "json_text JNull = ''null''"
| "json_text (JBool b) = (if b then ''true'' else ''false'')"
| "json_text (JNumber n) = n"
| "json_text (JString r) = json_quote r"
| "json_text (JArray vs) = CHR ''['' # json_join (map json_text vs) @ '']''"
| "json_text (JObject ms) = CHR ''{'' # json_join (map (\<lambda>m. json_quote (fst m) @ CHR '':'' # json_text (snd m)) ms) @ ''}''"

text \<open>Strings and numbers the scanner takes in one piece, and the nesting of a value.\<close>

fun str_lex :: "str_state \<Rightarrow> string \<Rightarrow> str_state option" where
  "str_lex s [] = Some s"
| "str_lex s (c # cs) = (case str_step s c of None \<Rightarrow> None | Some s' \<Rightarrow> str_lex s' cs)"

fun num_lex :: "num_state \<Rightarrow> string \<Rightarrow> num_state option" where
  "num_lex n [] = Some n"
| "num_lex n (c # cs) = (case num_step n c of None \<Rightarrow> None | Some n' \<Rightarrow> num_lex n' cs)"

definition raw_string :: "string \<Rightarrow> bool" where
  "raw_string r \<longleftrightarrow> str_lex StrBody r = Some StrBody"

definition raw_number :: "string \<Rightarrow> bool" where
  "raw_number r \<longleftrightarrow>
     (case r of [] \<Rightarrow> False
      | c # cs \<Rightarrow> (case num_start c of None \<Rightarrow> False
          | Some n \<Rightarrow> (case num_lex n cs of None \<Rightarrow> False | Some n' \<Rightarrow> num_final n')))"

fun json_wf :: "json \<Rightarrow> bool" where
  "json_wf (JNumber n) = raw_number n"
| "json_wf (JString r) = raw_string r"
| "json_wf (JArray vs) = list_all json_wf vs"
| "json_wf (JObject ms) = list_all (\<lambda>m. raw_string (fst m) \<and> json_wf (snd m)) ms"
| "json_wf _ = True"

fun json_depth :: "json \<Rightarrow> nat" where
  "json_depth (JArray vs) = Suc (foldr max (map json_depth vs) 0)"
| "json_depth (JObject ms) = Suc (foldr max (map (\<lambda>m. json_depth (snd m)) ms) 0)"
| "json_depth _ = 0"

lemma foldr_max_ge: "x \<in> set xs \<Longrightarrow> f x \<le> foldr max (map f xs) (0::nat)"
  by (induction xs) auto

section \<open>Scanning the text of a value\<close>

fun resume :: "scan_step \<Rightarrow> string \<Rightarrow> scan_result" where
  "resume (Go st lx) s = scan st lx s"
| "resume (Fin v) s = Scanned v s"
| "resume (FinBefore v) s = Scanned v s"
| "resume Stuck s = ScanError"

lemma scan_Cons:
  "(\<And>v. json_step st lx c \<noteq> FinBefore v) \<Longrightarrow> scan st lx (c # s) = resume (json_step st lx c) s"
  by (cases "json_step st lx c") auto

lemma complete_value_not_before: "complete_value v st \<noteq> FinBefore w"
  by (auto simp: complete_value_def split: list.splits frame.splits)

lemma scan_string:
  assumes "str_lex s r = Some s'"
  shows "scan st (InString s acc) (r @ rest) = scan st (InString s' (rev r @ acc)) rest"
  using assms
proof (induction r arbitrary: s acc)
  case (Cons c cs)
  obtain t where t: "str_step s c = Some t" "str_lex t cs = Some s'"
    using Cons.prems by (auto split: option.splits)
  have "\<not> (s = StrBody \<and> c = CHR 0x22)" using t(1) by auto
  with t(1) Cons.IH [OF t(2)] show ?case by (auto simp: append_assoc)
qed simp

lemma scan_raw_string:
  assumes "raw_string r"
  shows "scan st (InString StrBody []) (r @ CHR 0x22 # rest) = resume (end_string r st) rest"
proof -
  have "end_string r st \<noteq> FinBefore w" for w
    by (auto simp: end_string_def complete_value_not_before split: list.splits frame.splits)
  moreover have "scan st (InString StrBody []) (r @ CHR 0x22 # rest)
      = scan st (InString StrBody (rev r)) (CHR 0x22 # rest)"
    using scan_string [of StrBody r StrBody st "[]" "CHR 0x22 # rest"] assms by (simp add: raw_string_def)
  ultimately show ?thesis
    by (simp add: scan_Cons del: scan.simps)
qed

text \<open>The frames that accept a value: none, an array, or a field.\<close>

definition takes_value :: "frame list \<Rightarrow> bool" where
  "takes_value st \<longleftrightarrow> (case st of ObjF ms # _ \<Rightarrow> False | _ \<Rightarrow> True)"

definition delimited :: "json \<Rightarrow> frame list \<Rightarrow> string \<Rightarrow> bool" where
  "delimited v st rest \<longleftrightarrow>
     (\<forall>n. v = JNumber n \<longrightarrow> st \<noteq> [] \<and> rest \<noteq> [] \<and> hd rest \<in> set [CHR '','', CHR '']'', CHR ''}''])"

lemma num_step_delimiter:
  "num_final n \<Longrightarrow> c \<in> set [CHR '','', CHR '']'', CHR ''}''] \<Longrightarrow> num_step n c = None"
  by (cases n) (auto simp: num_final_def num_after_int_def is_digit_def)

lemma scan_number_tail:
  assumes "num_lex n cs = Some n'" "num_final n'" "takes_value st" "st \<noteq> []" "c \<in> set [CHR '','', CHR '']'', CHR ''}'']"
  shows "scan st (InNumber n acc) (cs @ c # rest) = resume (complete_value (JNumber (rev acc @ cs)) st) (c # rest)"
  using assms(1)
proof (induction cs arbitrary: n acc)
  case Nil
  then have n: "num_step n c = None" "num_final n"
    using assms(2,5) num_step_delimiter by auto
  obtain st' where cv: "complete_value (JNumber (rev acc)) st = Go st' AfterValue"
    using assms(3,4) by (auto simp: complete_value_def takes_value_def split: list.splits frame.splits)
  show ?case
    using n by (simp add: cv)
next
  case (Cons x xs)
  then obtain m where "num_step n x = Some m" "num_lex m xs = Some n'"
    by (auto split: option.splits)
  with Cons.IH [of m "x # acc"] show ?case by simp
qed

lemma begin_value_number:
  assumes "num_start c = Some n"
  shows "begin_value first st c = Go st (InNumber n [c])"
proof -
  have "c \<noteq> x" if "num_start x = None" for x
    using assms that by auto
  then have "c \<noteq> CHR '' ''" "c \<noteq> CHR 0x09" "c \<noteq> CHR 0x0A" "c \<noteq> CHR 0x0D" "c \<noteq> CHR '']''" "c \<noteq> CHR ''{''"
    "c \<noteq> CHR ''[''" "c \<noteq> CHR 0x22" "c \<noteq> CHR ''t''" "c \<noteq> CHR ''f''" "c \<noteq> CHR ''n''"
    by (simp_all add: num_start_def is_digit_def)
  with assms show ?thesis by (simp add: begin_value_def json_space_def)
qed

lemma scan_literal:
  "xs \<noteq> [] \<Longrightarrow> scan st (InLiteral xs v) (xs @ rest) = resume (complete_value v st) rest"
proof (induction xs)
  case (Cons x xs)
  show ?case
  proof (cases "xs = []")
    case True
    then show ?thesis
      using complete_value_not_before by (simp add: scan_Cons del: scan.simps)
  next
    case False
    with Cons show ?thesis by simp
  qed
qed simp

text \<open>What scanning the text of a value does, for the induction over values.\<close>

definition scans :: "json \<Rightarrow> bool" where
  "scans v \<longleftrightarrow> (\<forall>st rest first. json_wf v \<longrightarrow> length st + json_depth v \<le> max_nesting_depth \<longrightarrow> takes_value st
     \<longrightarrow> delimited v st rest \<longrightarrow> scan st (BeginValue first) (json_text v @ rest) = resume (complete_value v st) rest)"

lemma scansD:
  assumes "scans v" "json_wf v" "length st + json_depth v \<le> max_nesting_depth" "takes_value st" "delimited v st rest"
  shows "scan st (BeginValue first) (json_text v @ rest) = resume (complete_value v st) rest"
  using assms by (simp add: scans_def)

lemma scan_end_array:
  "scan (ArrayF acc # st) AfterValue (CHR '']'' # rest) = resume (complete_value (JArray (rev acc)) st) rest"
  using complete_value_not_before
  by (simp add: scan_Cons after_value_def json_space_def del: scan.simps)

lemma scan_end_object:
  "scan (ObjF acc # st) AfterValue (CHR ''}'' # rest) = resume (complete_value (JObject (rev acc)) st) rest"
  using complete_value_not_before
  by (simp add: scan_Cons after_value_def json_space_def del: scan.simps)

lemma scan_array_members:
  assumes "vs \<noteq> []" "\<And>v. v \<in> set vs \<Longrightarrow> scans v \<and> json_wf v \<and> Suc (length st) + json_depth v \<le> max_nesting_depth"
  shows "scan (ArrayF acc # st) (BeginValue first) (json_join (map json_text vs) @ CHR '']'' # rest)
    = resume (complete_value (JArray (rev acc @ vs)) st) rest"
  using assms
proof (induction vs arbitrary: acc first)
  case (Cons v vs)
  have v: "scans v" "json_wf v" "length (ArrayF acc # st) + json_depth v \<le> max_nesting_depth"
    using Cons.prems(2) [of v] by auto
  have t: "takes_value (ArrayF acc # st)" by (simp add: takes_value_def)
  note head = scansD [OF v t]
  show ?case
  proof (cases vs)
    case Nil
    have "delimited v (ArrayF acc # st) (CHR '']'' # rest)" by (simp add: delimited_def)
    from head [OF this] show ?thesis
      using scan_end_array [of "v # acc" st rest] by (simp add: Nil complete_value_def del: scan.simps)
  next
    case (Cons w ws)
    let ?rest = "CHR '','' # json_join (map json_text (w # ws)) @ CHR '']'' # rest"
    have "delimited v (ArrayF acc # st) ?rest" by (simp add: delimited_def)
    from head [OF this]
    have "scan (ArrayF acc # st) (BeginValue first) (json_text v @ ?rest)
        = scan (ArrayF (v # acc) # st) (BeginValue False) (json_join (map json_text vs) @ CHR '']'' # rest)"
      by (simp add: Cons complete_value_def after_value_def json_space_def)
    also have "\<dots> = resume (complete_value (JArray (rev (v # acc) @ vs)) st) rest"
      by (rule Cons.IH) (use Cons Cons.prems(2) in auto)
    finally show ?thesis by (simp add: Cons)
  qed
qed simp

lemma scan_field:
  assumes "raw_string k" "scans v" "json_wf v" "Suc (length st) + json_depth v \<le> max_nesting_depth"
    and "rest \<noteq> []" "hd rest \<in> set [CHR '','', CHR '']'', CHR ''}'']"
  shows "scan (ObjF acc # st) (BeginString first) (json_quote k @ CHR '':'' # json_text v @ rest)
    = scan (ObjF ((k, v) # acc) # st) AfterValue rest"
proof -
  have "scan (ObjF acc # st) (BeginString first) (json_quote k @ CHR '':'' # json_text v @ rest)
      = scan (ObjF acc # st) (InString StrBody []) (k @ CHR 0x22 # CHR '':'' # json_text v @ rest)"
    by (simp add: json_quote_def begin_string_def json_space_def)
  also have "\<dots> = scan (FieldF acc k # st) AfterKey (CHR '':'' # json_text v @ rest)"
    by (simp only: scan_raw_string [OF assms(1)]) (simp add: end_string_def del: scan.simps)
  also have "\<dots> = scan (FieldF acc k # st) (BeginValue False) (json_text v @ rest)"
    by (simp add: json_space_def)
  also have "\<dots> = resume (complete_value v (FieldF acc k # st)) rest"
    using assms by (intro scansD) (simp_all add: takes_value_def delimited_def)
  finally show ?thesis by (simp add: complete_value_def)
qed

lemma scan_object_members:
  assumes "ms \<noteq> []"
    and "\<And>m. m \<in> set ms \<Longrightarrow> raw_string (fst m) \<and> scans (snd m) \<and> json_wf (snd m)
      \<and> Suc (length st) + json_depth (snd m) \<le> max_nesting_depth"
  shows "scan (ObjF acc # st) (BeginString first)
      (json_join (map (\<lambda>m. json_quote (fst m) @ CHR '':'' # json_text (snd m)) ms) @ CHR ''}'' # rest)
    = resume (complete_value (JObject (rev acc @ ms)) st) rest"
  using assms
proof (induction ms arbitrary: acc first)
  case (Cons m ms)
  have m: "raw_string (fst m)" "scans (snd m)" "json_wf (snd m)" "Suc (length st) + json_depth (snd m) \<le> max_nesting_depth"
    using Cons.prems(2) [of m] by auto
  note head = scan_field [OF m]
  show ?case
  proof (cases ms)
    case Nil
    show ?thesis
      using head [of "CHR ''}'' # rest"] scan_end_object [of "m # acc" st rest] by (simp add: Nil del: scan.simps)
  next
    case (Cons n ns)
    let ?tail = "json_join (map (\<lambda>m. json_quote (fst m) @ CHR '':'' # json_text (snd m)) ms) @ CHR ''}'' # rest"
    have "scan (ObjF acc # st) (BeginString first)
          (json_quote (fst m) @ CHR '':'' # json_text (snd m) @ CHR '','' # ?tail)
        = scan (ObjF (m # acc) # st) AfterValue (CHR '','' # ?tail)"
      using head [of "CHR '','' # ?tail"] by (simp del: scan.simps)
    also have "\<dots> = scan (ObjF (m # acc) # st) (BeginString False) ?tail"
      by (simp add: after_value_def json_space_def)
    also have "\<dots> = resume (complete_value (JObject (rev (m # acc) @ ms)) st) rest"
      by (rule Cons.IH) (use Cons Cons.prems(2) in auto)
    finally show ?thesis by (simp add: Cons)
  qed
qed simp

lemma scan_value: "scans v"
proof (induction v rule: json_text.induct)
  case 1
  show ?case
    using scan_literal [of "''ull''" _ JNull] by (auto simp: scans_def begin_value_def json_space_def)
next
  case (2 b)
  show ?case
    using scan_literal [of "''rue''" _ "JBool True"] scan_literal [of "''alse''" _ "JBool False"]
    by (auto simp: scans_def begin_value_def json_space_def)
next
  case (3 n)
  show ?case
    unfolding scans_def
  proof (intro allI impI)
    fix st :: "frame list" and rest :: string and first :: bool
    assume wf: "json_wf (JNumber n)" and t: "takes_value st" and d: "delimited (JNumber n) st rest"
    obtain c cs m m' where n: "n = c # cs" "num_start c = Some m" "num_lex m cs = Some m'" "num_final m'"
      using wf by (auto simp: raw_number_def split: list.splits option.splits)
    obtain x xs where rest: "rest = x # xs" "x \<in> set [CHR '','', CHR '']'', CHR ''}'']" "st \<noteq> []"
      using d by (cases rest) (auto simp: delimited_def)
    have "scan st (BeginValue first) (json_text (JNumber n) @ rest) = scan st (InNumber m [c]) (cs @ x # xs)"
      by (simp add: n rest begin_value_number [OF n(2)])
    also have "\<dots> = resume (complete_value (JNumber (rev [c] @ cs)) st) (x # xs)"
      by (rule scan_number_tail [OF n(3,4) t rest(3,2)])
    finally show "scan st (BeginValue first) (json_text (JNumber n) @ rest) = resume (complete_value (JNumber n) st) rest"
      by (simp add: n rest)
  qed
next
  case (4 r)
  show ?case
    unfolding scans_def
  proof (intro allI impI)
    fix st :: "frame list" and rest :: string and first :: bool
    assume wf: "json_wf (JString r)" and t: "takes_value st"
    have "scan st (BeginValue first) (json_text (JString r) @ rest) = scan st (InString StrBody []) (r @ CHR 0x22 # rest)"
      by (simp add: json_quote_def begin_value_def json_space_def)
    also have "\<dots> = resume (end_string r st) rest"
      using wf by (intro scan_raw_string) simp
    also have "end_string r st = complete_value (JString r) st"
      using t by (auto simp: end_string_def takes_value_def split: list.splits frame.splits)
    finally show "scan st (BeginValue first) (json_text (JString r) @ rest) = resume (complete_value (JString r) st) rest" .
  qed
next
  case (5 vs)
  show ?case
    unfolding scans_def
  proof (intro allI impI)
    fix st :: "frame list" and rest :: string and first :: bool
    assume wf: "json_wf (JArray vs)" and dep: "length st + json_depth (JArray vs) \<le> max_nesting_depth"
    then have "length st < max_nesting_depth" by simp
    then have start: "scan st (BeginValue first) (json_text (JArray vs) @ rest)
        = scan (ArrayF [] # st) (BeginValue True) (json_join (map json_text vs) @ CHR '']'' # rest)"
      by (simp add: begin_value_def json_space_def push_frame_def)
    show "scan st (BeginValue first) (json_text (JArray vs) @ rest) = resume (complete_value (JArray vs) st) rest"
    proof (cases "vs = []")
      case True
      then show ?thesis
        unfolding start using complete_value_not_before
        by (simp add: scan_Cons begin_value_def json_space_def del: scan.simps)
    next
      case False
      have "scans v \<and> json_wf v \<and> Suc (length st) + json_depth v \<le> max_nesting_depth" if "v \<in> set vs" for v
        using that 5 wf dep foldr_max_ge [OF that, of json_depth] by (auto simp: list_all_iff)
      from scan_array_members [OF False this, where acc = "[]"] show ?thesis unfolding start by simp
    qed
  qed
next
  case (6 ms)
  show ?case
    unfolding scans_def
  proof (intro allI impI)
    fix st :: "frame list" and rest :: string and first :: bool
    assume wf: "json_wf (JObject ms)" and dep: "length st + json_depth (JObject ms) \<le> max_nesting_depth"
    then have "length st < max_nesting_depth" by simp
    then have start: "scan st (BeginValue first) (json_text (JObject ms) @ rest)
        = scan (ObjF [] # st) (BeginString True)
            (json_join (map (\<lambda>m. json_quote (fst m) @ CHR '':'' # json_text (snd m)) ms) @ CHR ''}'' # rest)"
      by (simp add: begin_value_def json_space_def push_frame_def)
    show "scan st (BeginValue first) (json_text (JObject ms) @ rest) = resume (complete_value (JObject ms) st) rest"
    proof (cases "ms = []")
      case True
      then show ?thesis
        unfolding start using complete_value_not_before
        by (simp add: scan_Cons begin_string_def json_space_def del: scan.simps)
    next
      case False
      have "raw_string (fst m) \<and> scans (snd m) \<and> json_wf (snd m) \<and> Suc (length st) + json_depth (snd m) \<le> max_nesting_depth"
        if "m \<in> set ms" for m
        using that 6 wf dep foldr_max_ge [OF that, of "\<lambda>m. json_depth (snd m)"] by (auto simp: list_all_iff)
      from scan_object_members [OF False this, where acc = "[]"] show ?thesis unfolding start by simp
    qed
  qed
qed

text \<open>The text of a value that is not a bare number is a document, and scanning it gives the value back.\<close>

lemma json_document_text:
  assumes "json_wf v" "json_depth v \<le> max_nesting_depth" "\<And>n. v \<noteq> JNumber n"
  shows "json_document (json_text v) = Some v"
  using scansD [OF scan_value assms(1), of "[]" "[]" False] assms(2,3)
  by (simp add: json_document_def takes_value_def delimited_def complete_value_def)

section \<open>Escaping and unquoting\<close>

lemma str_lex_append: "str_lex s (a @ b) = (case str_lex s a of None \<Rightarrow> None | Some s' \<Rightarrow> str_lex s' b)"
  by (induction a arbitrary: s) (auto split: option.splits)

lemma raw_string_Nil [simp]: "raw_string []"
  by (simp add: raw_string_def)

lemma raw_string_append: "raw_string a \<Longrightarrow> raw_string b \<Longrightarrow> raw_string (a @ b)"
  by (simp add: raw_string_def str_lex_append)

lemma raw_string_plain: "(\<And>c. c \<in> set s \<Longrightarrow> c \<noteq> CHR 0x22 \<and> c \<noteq> CHR 0x5C \<and> 32 \<le> byte c) \<Longrightarrow> raw_string s"
proof (induction s)
  case (Cons c s)
  then have "raw_string s" by simp
  moreover have "str_step StrBody c = Some StrBody" using Cons.prems [of c] by simp
  ultimately show ?case by (simp add: raw_string_def)
qed simp

lemma hex_digit_value: "n < 16 \<Longrightarrow> hex_value (hex_digit n) = Some n"
proof -
  have "\<forall>n\<in>set [0..<16]. hex_value (hex_digit n) = Some n" by code_simp
  then show "n < 16 \<Longrightarrow> hex_value (hex_digit n) = Some n" by simp
qed

lemma raw_string_escape_ascii:
  assumes "byte c < 128"
  shows "raw_string (escape_ascii c)"
proof -
  have h: "raw_string [CHR 0x5C, CHR ''u'', CHR ''0'', CHR ''0'', hex_digit (byte c div 16), hex_digit (byte c mod 16)]"
    using assms hex_digit_value [of "byte c div 16"] hex_digit_value [of "byte c mod 16"]
    by (simp add: raw_string_def) (simp add: hex_value_def)
  have e: "raw_string [CHR 0x5C, CHR 0x5C]" "raw_string [CHR 0x5C, CHR 0x22]" "raw_string [CHR 0x5C, CHR ''b'']"
      "raw_string [CHR 0x5C, CHR ''f'']" "raw_string [CHR 0x5C, CHR ''n'']" "raw_string [CHR 0x5C, CHR ''r'']"
      "raw_string [CHR 0x5C, CHR ''t'']"
    by code_simp+
  have "raw_string [c]" if "c \<noteq> CHR 0x5C" "c \<noteq> CHR 0x22" "\<not> byte c < 32"
    using that by (intro raw_string_plain) simp
  with h e show ?thesis
    by (simp add: escape_ascii_def)
qed

lemma utf8_conts_high: "utf8_conts lo hi cs \<Longrightarrow> 128 \<le> lo \<Longrightarrow> d \<in> set cs \<Longrightarrow> 128 \<le> byte d"
  by (cases cs) auto

lemma utf8_width_bytes:
  assumes "128 \<le> byte c" "d \<in> set (take (utf8_width c s - 1) s)"
  shows "128 \<le> byte d"
proof -
  obtain n lo hi where f: "utf8_first (byte c) = (n, lo, hi)" by (metis prod_cases3)
  have lo: "n \<noteq> 0 \<Longrightarrow> 128 \<le> lo"
    using f assms(1) by (auto simp: utf8_first_def split: if_splits)
  show ?thesis
  proof (cases "n \<le> Suc (length s) \<and> utf8_conts lo hi (take (n - 1) s)")
    case True
    then have w: "utf8_width c s = n" by (simp add: utf8_width_def f)
    have "n \<noteq> 0" using assms(2) by (cases n) (auto simp: w)
    with True lo show ?thesis
      using utf8_conts_high [of lo hi "take (n - 1) s" d] assms(2) w by simp
  next
    case False
    then have "utf8_width c s = 0" by (auto simp: utf8_width_def f)
    with assms(2) show ?thesis by simp
  qed
qed

lemma raw_string_escape: "raw_string (escape s)"
proof (induction s rule: escape.induct)
  case (2 c s)
  have u: "raw_string (CHR 0x5C # ''ufffd'')" "raw_string (CHR 0x5C # ''u2028'')" "raw_string (CHR 0x5C # ''u2029'')"
    by code_simp+
  show ?case
  proof (cases "byte c < 128")
    case True
    then show ?thesis
      using 2(1) by (auto simp: escape.simps(2) intro!: raw_string_append raw_string_escape_ascii)
  next
    case F: False
    show ?thesis
    proof (cases "utf8_width c s = 0")
      case True
      with F 2(2) show ?thesis
        using raw_string_append [OF u(1)] by (simp add: escape.simps(2))
    next
      case False
      have "raw_string (take (utf8_width c s) (c # s))"
      proof (rule raw_string_plain)
        fix d assume "d \<in> set (take (utf8_width c s) (c # s))"
        then have "d = c \<or> d \<in> set (take (utf8_width c s - 1) s)"
          using False by (cases "utf8_width c s") auto
        then have "128 \<le> byte d" using F utf8_width_bytes [of c d s] by auto
        then show "d \<noteq> CHR 0x22 \<and> d \<noteq> CHR 0x5C \<and> 32 \<le> byte d" by auto
      qed
      with F False 2(3) u show ?thesis
        unfolding escape.simps(2) by (auto intro!: raw_string_append simp del: take_Suc_Cons append.simps)
    qed
  qed
qed simp

lemma unquote_plain:
  "c \<noteq> CHR 0x5C \<Longrightarrow> byte c < 128 \<Longrightarrow> unquote (c # s) = c # unquote s"
  by (simp add: unquote.simps(2))

lemma unquote_escape_char:
  "e \<noteq> CHR ''u'' \<Longrightarrow> unquote (CHR 0x5C # e # t) = unescape_char e # unquote t"
  by (simp add: unquote.simps(2))

lemma unquote_unicode:
  "getu4 (CHR 0x5C # CHR ''u'' # s) = Some r \<Longrightarrow> \<not> (55296 \<le> r \<and> r < 57344) \<Longrightarrow>
     unquote (CHR 0x5C # CHR ''u'' # s) = utf8_encode r @ unquote (drop 4 s)"
  by (auto simp: unquote.simps(2))

lemma unquote_escape_ascii:
  assumes "byte c < 128"
  shows "unquote (escape_ascii c @ t) = c # unquote t"
proof -
  have hex: "unquote (CHR 0x5C # CHR ''u'' # CHR ''0'' # CHR ''0'' # hex_digit (byte c div 16) # hex_digit (byte c mod 16) # t)
      = c # unquote t"
  proof -
    have "getu4 (CHR 0x5C # CHR ''u'' # CHR ''0'' # CHR ''0'' # hex_digit (byte c div 16) # hex_digit (byte c mod 16) # t)
        = Some (byte c)"
      using assms by (simp add: hex_digit_value) (simp add: hex_value_def)
    from unquote_unicode [OF this] show ?thesis
      using assms by (simp add: utf8_encode_def)
  qed
  show ?thesis
    unfolding escape_ascii_def
    by (auto simp: unquote_escape_char unescape_char_def hex unquote_plain assms)
qed

lemma utf8_width_take:
  "utf8_width c s \<noteq> 0 \<Longrightarrow> utf8_width c (take (utf8_width c s - 1) s @ t) = utf8_width c s"
proof -
  assume w: "utf8_width c s \<noteq> 0"
  have "utf8_width c (take (utf8_width c s - 1) s) = utf8_width c s"
    using w by (auto simp: utf8_width_def min_def split: prod.splits if_splits)
  with w show ?thesis using utf8_width_append [of c "take (utf8_width c s - 1) s" t] by simp
qed

lemma unquote_multibyte:
  assumes "128 \<le> byte c" "utf8_width c s \<noteq> 0"
  shows "unquote (take (utf8_width c s) (c # s) @ t) = take (utf8_width c s) (c # s) @ unquote t"
proof -
  let ?w = "utf8_width c s"
  obtain k where k: "?w = Suc k" using assms(2) by (cases ?w) auto
  have l: "k \<le> length s" using utf8_width_le [of c s] k by simp
  have w: "utf8_width c (take k s @ t) = Suc k" using utf8_width_take [OF assms(2), of t] k by simp
  have n: "c \<noteq> CHR 0x5C" "\<not> byte c < 128" using assms(1) by auto
  have "unquote (c # take k s @ t) = take (Suc k) (c # take k s @ t) @ unquote (drop k (take k s @ t))"
    using n by (simp add: unquote.simps(2) w)
  then show ?thesis using l by (simp add: k min_absorb2)
qed

text \<open>Escaping and unquoting is the identity on valid UTF-8.\<close>

lemma separators: "char_of (226::nat) = CHR 0xE2" "char_of (128::nat) = CHR 0x80" "char_of (168::nat) = CHR 0xA8"
  "char_of (169::nat) = CHR 0xA9"
  by code_simp+

lemma unquote_escape: "utf8_valid s \<Longrightarrow> unquote (escape s) = s"
proof (induction s rule: escape.induct)
  case (2 c s)
  note v = "2.prems"
  show ?case
  proof (cases "byte c < 128")
    case True
    then have "utf8_width c s = 1" by (simp add: utf8_width_def utf8_first_def)
    then have "utf8_valid s" using v by (simp add: utf8_valid.simps(2))
    with True 2(1) show ?thesis by (simp add: escape.simps(2) unquote_escape_ascii)
  next
    case F: False
    let ?w = "utf8_width c s"
    have w: "?w \<noteq> 0" and rest: "utf8_valid (drop (?w - 1) s)"
      using v by (auto simp: utf8_valid.simps(2) split: if_splits)
    have IH: "unquote (escape (drop (?w - 1) s)) = drop (?w - 1) s"
      using 2(3) [OF F w rest] .
    have split: "take ?w (c # s) @ drop (?w - 1) s = c # s"
      using w by (cases ?w) auto
    have three: "?w = 3" if "take 3 (c # s) = [CHR 0xE2, CHR 0x80, x]" for x
      using that w by (auto simp: utf8_width_def utf8_first_def split: if_splits)
    have u: "unquote (CHR 0x5C # ''u2028'' @ t) = [CHR 0xE2, CHR 0x80, CHR 0xA8] @ unquote t"
        "unquote (CHR 0x5C # ''u2029'' @ t) = [CHR 0xE2, CHR 0x80, CHR 0xA9] @ unquote t" for t
      using unquote_unicode [of "''2028'' @ t" 8232] unquote_unicode [of "''2029'' @ t" 8233]
      by (simp_all add: hex_value_def utf8_encode_def separators)
    have plain: "unquote (take ?w (c # s) @ t) = take ?w (c # s) @ unquote t" for t
      using F w by (intro unquote_multibyte) auto
    consider (ls) "take 3 (c # s) = [CHR 0xE2, CHR 0x80, CHR 0xA8]"
      | (ps) "take 3 (c # s) = [CHR 0xE2, CHR 0x80, CHR 0xA9]"
      | (other) "take 3 (c # s) \<noteq> [CHR 0xE2, CHR 0x80, CHR 0xA8]" "take 3 (c # s) \<noteq> [CHR 0xE2, CHR 0x80, CHR 0xA9]"
      by blast
    then show ?thesis
    proof cases
      case ls
      then have "escape (c # s) = CHR 0x5C # ''u2028'' @ escape (drop (?w - 1) s)"
        using F w by (simp add: escape.simps(2))
      then show ?thesis
        using u(1) IH split three [OF ls] ls by (metis append_assoc)
    next
      case ps
      then have "escape (c # s) = CHR 0x5C # ''u2029'' @ escape (drop (?w - 1) s)"
        using F w by (simp add: escape.simps(2))
      then show ?thesis
        using u(2) IH split three [OF ps] ps by (metis append_assoc)
    next
      case other
      then have "escape (c # s) = take ?w (c # s) @ escape (drop (?w - 1) s)"
        using F w by (simp only: escape.simps(2) if_False)
      then show ?thesis
        using plain IH split by metis
    qed
  qed
qed simp

text \<open>What is written is valid UTF-8, whatever the string was.\<close>

lemma utf8_valid_escape: "utf8_valid (escape s)"
proof (induction s rule: escape.induct)
  case (2 c s)
  have u: "utf8_valid (CHR 0x5C # ''ufffd'')" "utf8_valid (CHR 0x5C # ''u2028'')" "utf8_valid (CHR 0x5C # ''u2029'')"
    by code_simp+
  have hex: "\<forall>n\<in>set [0..<16]. byte (hex_digit n) < 128" by code_simp
  show ?case
  proof (cases "byte c < 128")
    case True
    then have "byte (hex_digit (byte c div 16)) < 128" "byte (hex_digit (byte c mod 16)) < 128"
      using hex by simp_all
    then have "\<forall>d\<in>set (escape_ascii c). byte d < 128"
      using True by (simp add: escape_ascii_def)
    then have "utf8_valid (escape_ascii c)"
      by (intro utf8_valid_ascii) blast
    with True 2(1) show ?thesis by (simp add: escape.simps(2) utf8_valid_append)
  next
    case F: False
    show ?thesis
    proof (cases "utf8_width c s = 0")
      case True
      with F 2(2) show ?thesis
        using utf8_valid_append [OF u(1)] by (simp add: escape.simps(2))
    next
      case False
      then obtain k where k: "utf8_width c s = Suc k" by (cases "utf8_width c s") auto
      have "utf8_width c (take k s) = Suc k"
        using utf8_width_take [OF False, of "[]"] k by simp
      then have "utf8_valid (take (utf8_width c s) (c # s))"
        by (simp add: k utf8_valid.simps(2))
      with F False 2(3) u show ?thesis
        unfolding escape.simps(2) by (auto intro!: utf8_valid_append simp del: take_Suc_Cons append.simps)
    qed
  qed
qed simp

section \<open>Structs\<close>

text \<open>
  \<open>foldName\<close> as far as it decides a match with a field whose name is ASCII: letters in upper
  case, and the two characters beyond ASCII that fold to a letter of it.
\<close>

definition ascii_upper :: "char \<Rightarrow> char" where
  "ascii_upper c = (if 97 \<le> byte c \<and> byte c \<le> 122 then char_of (byte c - 32) else c)"

fun fold_name :: "string \<Rightarrow> string" where
  "fold_name [] = []"
| "fold_name (c # s) =
     (if c = CHR 0xC5 \<and> take 1 s = [CHR 0xBF] then CHR ''S'' # fold_name (drop 1 s)
      else if c = CHR 0xE2 \<and> take 2 s = [CHR 0x84, CHR 0xAA] then CHR ''K'' # fold_name (drop 2 s)
      else ascii_upper c # fold_name s)"

definition is_field :: "string \<Rightarrow> string \<Rightarrow> bool" where
  "is_field name k \<longleftrightarrow> fold_name (unquote k) = fold_name name"

text \<open>
  Decoding an object into a struct with \<open>DisallowUnknownFields\<close>: member by member, the later
  of two members for the same field wins, and any member that no field takes or whose value
  does not fit is an error. \<open>set_field k v x\<close> is the struct after the member, \<open>None\<close> for such
  an error; decoding \<open>null\<close> leaves the struct as it is.
\<close>

fun decode_members :: "(string \<Rightarrow> json \<Rightarrow> 'a \<Rightarrow> 'a option) \<Rightarrow> (string \<times> json) list \<Rightarrow> 'a \<Rightarrow> 'a option" where
  "decode_members set_field [] x = Some x"
| "decode_members set_field ((k, v) # ms) x =
     (case set_field k v x of None \<Rightarrow> None | Some y \<Rightarrow> decode_members set_field ms y)"

definition decode_struct :: "(string \<Rightarrow> json \<Rightarrow> 'a \<Rightarrow> 'a option) \<Rightarrow> 'a \<Rightarrow> json \<Rightarrow> 'a option" where
  "decode_struct set_field zero v =
     (case v of JNull \<Rightarrow> Some zero | JObject ms \<Rightarrow> decode_members set_field ms zero | _ \<Rightarrow> None)"

text \<open>A field of type \<open>string\<close>: \<open>null\<close> leaves it, any other type is an error.\<close>

definition decode_string :: "json \<Rightarrow> string \<Rightarrow> string option" where
  "decode_string v old = (case v of JNull \<Rightarrow> Some old | JString r \<Rightarrow> Some (unquote r) | _ \<Rightarrow> None)"

text \<open>The values \<open>json.Marshal\<close> writes for a Go string and a Go \<open>int\<close>.\<close>

definition jstring :: "string \<Rightarrow> json" where
  "jstring s = JString (escape s)"

definition jint :: "int \<Rightarrow> json" where
  "jint i = JNumber ((if i < 0 then ''-'' else '''') @ decimal (nat \<bar>i\<bar>))"

lemma decode_string_jstring [simp]: "utf8_valid s \<Longrightarrow> decode_string (jstring s) old = Some s"
  by (simp add: decode_string_def jstring_def unquote_escape)

lemma json_wf_jstring [simp]: "json_wf (jstring s)"
  by (simp add: jstring_def raw_string_escape)

lemma json_depth_jstring [simp]: "json_depth (jstring s) = 0"
  by (simp add: jstring_def)

lemma json_depth_jint [simp]: "json_depth (jint i) = 0"
  by (simp add: jint_def)

text \<open>Decimal numbers are JSON numbers: digits, with no leading zero unless there is one digit.\<close>

lemma is_digit_digit_char: "n < 10 \<Longrightarrow> is_digit (digit_char n)"
proof -
  have "\<forall>n\<in>set [0..<10]. is_digit (digit_char n)" by code_simp
  then show "n < 10 \<Longrightarrow> is_digit (digit_char n)" by simp
qed

lemma num_start_digit_char: "0 < n \<Longrightarrow> n < 10 \<Longrightarrow> num_start (digit_char n) = Some NumInt"
proof -
  have "\<forall>n\<in>set [1..<10]. num_start (digit_char n) = Some NumInt" by code_simp
  then show "0 < n \<Longrightarrow> n < 10 \<Longrightarrow> num_start (digit_char n) = Some NumInt" by simp
qed

lemma num_lex_digits: "(\<And>c. c \<in> set s \<Longrightarrow> is_digit c) \<Longrightarrow> num_lex NumInt s = Some NumInt"
  by (induction s) auto

lemma decimal_shape:
  assumes "0 < n"
  shows "\<exists>d ds. decimal n = d # ds \<and> num_start d = Some NumInt \<and> (\<forall>c\<in>set ds. is_digit c)"
  using assms
proof (induction n rule: decimal.induct)
  case (1 n)
  show ?case
  proof (cases "n < 10")
    case True
    then show ?thesis using 1(2) by (simp add: decimal.simps [of n] num_start_digit_char)
  next
    case False
    then have "0 < n div 10" by (simp add: div_greater_zero_iff)
    with 1(1) False obtain d ds where
      "decimal (n div 10) = d # ds" "num_start d = Some NumInt" "\<forall>c\<in>set ds. is_digit c"
      by auto
    then show ?thesis using False by (simp add: decimal.simps [of n] is_digit_digit_char)
  qed
qed

lemma json_wf_jint [simp]: "json_wf (jint i)"
proof (cases "i = 0")
  case True
  then have "jint i = JNumber ''0''" by (simp add: jint_def decimal.simps digit_char_def)
  then show ?thesis by (simp add: raw_number_def num_start_def num_final_def)
next
  case False
  then obtain d ds where d: "decimal (nat \<bar>i\<bar>) = d # ds" "num_start d = Some NumInt" "\<forall>c\<in>set ds. is_digit c"
    using decimal_shape [of "nat \<bar>i\<bar>"] by auto
  then have l: "num_lex NumInt ds = Some NumInt" by (intro num_lex_digits) blast
  have "d \<noteq> CHR ''0''" "is_digit d" using d(2) by (auto simp: num_start_def split: if_splits)
  then have "num_step NumNeg d = Some NumInt" by simp
  moreover have "num_final NumInt" "num_start (CHR ''-'') = Some NumNeg"
    by (simp_all add: num_final_def num_start_def)
  ultimately show ?thesis
    using d l by (simp add: jint_def raw_number_def)
qed

end
