(* ===== verification/Kubernetes.thy ===== *)
theory Kubernetes
  imports Docker Json
begin

text \<open>
  The sandbox of \<open>internal/judge/kubernetes_executor.go\<close>: a submission is one batch Job whose
  container runs a harness and reports the outcome in its termination message; the
  executor polls the pods of the Job. The API server is a parameter: the answers of the create
  call and of each round of polling, with the clock and the state of the caller's context.
\<close>

section \<open>Classifying a pod\<close>

record terminated_state =
  tm_reason :: string
  tm_message :: string
  tm_exit_code :: int

record container_status =
  ct_name :: string
  ct_terminated :: "terminated_state option"
  ct_waiting :: "string option"

record pod =
  pd_reason :: string
  pd_statuses :: "container_status list"

record harness_result =
  hr_kind :: string
  hr_tests_passed :: int

definition valid_outcome_kind :: "string \<Rightarrow> bool" where
  "valid_outcome_kind k \<longleftrightarrow>
     k \<in> set [''pass'', ''wrong_answer'', ''compile_error'', ''runtime_error'', ''output_limit'', ''timeout'']"

text \<open>
  \<open>json.Unmarshal\<close> into \<open>harnessResult\<close>: \<open>decode\<close> is the JSON grammar of \<open>encoding/json\<close>; field
  names match without regard to (ASCII) case, \<open>null\<close> leaves a field as it is, a number must be
  an integer in range, and any other type is an error.
\<close>

fun unmarshal_harness :: "(string \<times> json) list \<Rightarrow> harness_result \<Rightarrow> harness_result option" where
  "unmarshal_harness [] r = Some r"
| "unmarshal_harness ((k, v) # ms) r =
     (if equal_fold_ascii k ''kind'' then
        (case v of JNull \<Rightarrow> unmarshal_harness ms r
         | JString s \<Rightarrow> unmarshal_harness ms (r\<lparr>hr_kind := s\<rparr>)
         | _ \<Rightarrow> None)
      else if equal_fold_ascii k ''tests_passed'' then
        (case v of JNull \<Rightarrow> unmarshal_harness ms r
         | JNumber s \<Rightarrow> (case parse_int64 s of None \<Rightarrow> None | Some n \<Rightarrow> unmarshal_harness ms (r\<lparr>hr_tests_passed := n\<rparr>))
         | _ \<Rightarrow> None)
      else unmarshal_harness ms r)"

definition parse_harness_result :: "(string \<Rightarrow> json option) \<Rightarrow> string \<Rightarrow> harness_result option" where
  "parse_harness_result decode message =
     (if message = '''' then None
      else let zero = \<lparr>hr_kind = '''', hr_tests_passed = 0\<rparr> in
        (case (case decode message of
                 Some (JObject ms) \<Rightarrow> unmarshal_harness ms zero
               | Some JNull \<Rightarrow> Some zero
               | _ \<Rightarrow> None) of
           None \<Rightarrow> None
         | Some r \<Rightarrow> if valid_outcome_kind (hr_kind r) then Some r else None))"

definition classify_terminated :: "(string \<Rightarrow> json option) \<Rightarrow> terminated_state \<Rightarrow> execution_outcome" where
  "classify_terminated decode t =
     (if tm_reason t = ''DeadlineExceeded'' then \<lparr>eo_kind = ''timeout'', eo_tests_passed = 0\<rparr>
      else if tm_reason t = ''OOMKilled'' then \<lparr>eo_kind = ''runtime_error'', eo_tests_passed = 0\<rparr>
      else case parse_harness_result decode (tm_message t) of
          Some r \<Rightarrow> \<lparr>eo_kind = hr_kind r, eo_tests_passed = hr_tests_passed r\<rparr>
        | None \<Rightarrow>
            if tm_exit_code t = 0 then \<lparr>eo_kind = ''pass'', eo_tests_passed = 0\<rparr>
            else \<lparr>eo_kind = ''runtime_error'', eo_tests_passed = 0\<rparr>)"

definition container_status_of :: "pod \<Rightarrow> string \<Rightarrow> container_status option" where
  "container_status_of p name = List.find (\<lambda>c. ct_name c = name) (pd_statuses p)"

text \<open>\<open>podClassification\<close>: nothing yet, a terminal outcome, or an image that cannot be pulled.\<close>

datatype pod_classification = Pending | Terminal execution_outcome | PullError string

definition classify_pod :: "(string \<Rightarrow> json option) \<Rightarrow> pod \<Rightarrow> pod_classification" where
  "classify_pod decode p =
     (if pd_reason p = ''DeadlineExceeded'' then Terminal \<lparr>eo_kind = ''timeout'', eo_tests_passed = 0\<rparr>
      else case container_status_of p ''sandbox'' of
          None \<Rightarrow> Pending
        | Some c \<Rightarrow>
            (case ct_terminated c of
               Some t \<Rightarrow> Terminal (classify_terminated decode t)
             | None \<Rightarrow>
                 (case ct_waiting c of
                    None \<Rightarrow> Pending
                  | Some reason \<Rightarrow>
                      if reason \<in> set [''ImagePullBackOff'', ''ErrImagePull'', ''InvalidImageName'', ''ImageInspectError'',
                           ''RegistryUnavailable'']
                      then PullError reason else Pending)))"

section \<open>Polling\<close>

record job_condition =
  jn_type :: string
  jn_status :: string
  jn_reason :: string

definition job_deadline_exceeded :: "string + job_condition list \<Rightarrow> bool" where
  "job_deadline_exceeded job =
     (case job of
        Inl e \<Rightarrow> False
      | Inr cs \<Rightarrow> (\<exists>c\<in>set cs. jn_type c = ''Failed'' \<and> jn_status c = ''True'' \<and> jn_reason c = ''DeadlineExceeded''))"

text \<open>One round: the listed pods, the Job, then the context, the clock, and the context while the timer runs.\<close>

record k8s_poll =
  kp_pods :: "string + pod list"
  kp_job :: "string + job_condition list"
  kp_ctx :: "ctx_error option"
  kp_now :: int
  kp_timer_ctx :: "ctx_error option"

definition timeout_outcome :: execution_outcome where
  "timeout_outcome = \<lparr>eo_kind = ''timeout'', eo_tests_passed = 0\<rparr>"

definition context_result :: "ctx_error \<Rightarrow> string + execution_outcome" where
  "context_result e = (case e of DeadlineExceeded \<Rightarrow> Inr timeout_outcome | Canceled \<Rightarrow> Inl ''context canceled'')"

fun classify_pods :: "(string \<Rightarrow> json option) \<Rightarrow> pod list \<Rightarrow> (string + execution_outcome) option" where
  "classify_pods decode [] = None"
| "classify_pods decode (p # ps) =
     (case classify_pod decode p of
        Terminal out \<Rightarrow> Some (Inr out)
      | PullError reason \<Rightarrow> Some (Inl (''sandbox Job never reached a graded state: '' @ reason))
      | Pending \<Rightarrow> classify_pods decode ps)"

text \<open>\<open>awaitOutcome\<close>; \<open>None\<close> when the given rounds end before it returns.\<close>

fun await_outcome :: "(string \<Rightarrow> json option) \<Rightarrow> int \<Rightarrow> k8s_poll list \<Rightarrow> (string + execution_outcome) option" where
  "await_outcome decode deadline [] = None"
| "await_outcome decode deadline (p # ps) =
     (case kp_pods p of
        Inl e \<Rightarrow> Some (Inl (''list sandbox pods: '' @ e))
      | Inr pods \<Rightarrow>
     (case classify_pods decode pods of
        Some res \<Rightarrow> Some res
      | None \<Rightarrow>
          if job_deadline_exceeded (kp_job p) then Some (Inr timeout_outcome)
          else case kp_ctx p of
              Some e \<Rightarrow> Some (context_result e)
            | None \<Rightarrow>
                if \<not> kp_now p < deadline then Some (Inr timeout_outcome)
                else case kp_timer_ctx p of
                    Some e \<Rightarrow> Some (context_result e)
                  | None \<Rightarrow> await_outcome decode deadline ps))"

section \<open>The Job\<close>

text \<open>\<open>base64.StdEncoding\<close>, on bytes.\<close>

definition base64_alphabet :: string where
  "base64_alphabet = ''ABCDEFGHIJKLMNOPQRSTUVWXYZabcdefghijklmnopqrstuvwxyz0123456789+/''"

abbreviation b64 :: "nat \<Rightarrow> char" where
  "b64 i \<equiv> base64_alphabet ! i"

fun base64_encode :: "nat list \<Rightarrow> string" where
  "base64_encode [] = []"
| "base64_encode [a] = [b64 (a div 4), b64 ((a mod 4) * 16), CHR ''='', CHR ''='']"
| "base64_encode [a, b] = [b64 (a div 4), b64 ((a mod 4) * 16 + b div 16), b64 ((b mod 16) * 4), CHR ''='']"
| "base64_encode (a # b # c # xs) =
     [b64 (a div 4), b64 ((a mod 4) * 16 + b div 16), b64 ((b mod 16) * 4 + c div 64), b64 (c mod 64)] @ base64_encode xs"

definition base64 :: "string \<Rightarrow> string" where
  "base64 s = base64_encode (map byte s)"

text \<open>
  \<open>json.Marshal\<close> of the payload: byte strings are base64, and the language is one of the
  three names, so that no character needs an escape.
\<close>

definition json_object :: "(string \<times> string) list \<Rightarrow> string" where
  "json_object fs = ''{'' @ json_join (map (\<lambda>(k, v). json_quote k @ '':'' @ v) fs) @ ''}''"

definition json_array :: "string list \<Rightarrow> string" where
  "json_array vs = ''['' @ json_join vs @ '']''"

definition payload_json :: "execution_request \<Rightarrow> string" where
  "payload_json r = json_object
     [(''language'', json_quote (er_language r)),
      (''source'', json_quote (base64 (er_source r))),
      (''tests'', json_array (map (\<lambda>t. json_object
          [(''input'', json_quote (base64 (tc_input t))), (''expected'', json_quote (base64 (tc_expected t)))]) (er_tests r))),
      (''max_output_bytes'', decimal_int (max_output_bytes (er_limits r))),
      (''compile_timeout'', decimal_int (compile_timeout (er_limits r))),
      (''test_timeout'', decimal_int (test_timeout (er_limits r)))]"

definition encode_payload :: "execution_request \<Rightarrow> string" where
  "encode_payload r = base64 (payload_json r)"

record toleration =
  tl_key :: string
  tl_operator :: string
  tl_value :: string
  tl_effect :: string

record resource_list =
  rl_cpu_milli :: int
  rl_memory :: int
  rl_ephemeral_storage :: int

record k8s_job =
  kj_name :: string
  kj_namespace :: string
  kj_labels :: "string \<rightharpoonup> string"
  kj_backoff_limit :: int
  kj_active_deadline_seconds :: int
  kj_ttl_seconds :: int
  kj_restart_policy :: string
  kj_runtime_class :: string
  kj_node_selector :: "string \<rightharpoonup> string"
  kj_tolerations :: "toleration list"
  kj_automount_token :: bool
  kj_run_as_non_root :: bool
  kj_run_as_user :: int
  kj_run_as_group :: int
  kj_seccomp_profile :: string
  kj_container :: string
  kj_image :: string
  kj_command :: "string list"
  kj_env :: "(string \<times> string) list"
  kj_requests :: resource_list
  kj_limits :: resource_list
  kj_allow_privilege_escalation :: bool
  kj_readonly_rootfs :: bool
  kj_drop_capabilities :: "string list"
  kj_volume_mounts :: "(string \<times> string) list"
  kj_empty_dirs :: "(string \<times> int) list"

record k8s_executor =
  ke_namespace :: string
  ke_runtime_class :: string
  ke_images :: "string \<rightharpoonup> string"
  ke_node_selector :: "string \<rightharpoonup> string"
  ke_toleration_key :: string
  ke_toleration_value :: string
  ke_instance_id :: string
  ke_stale_age :: int
  ke_startup_grace :: int

definition job_name_for_attempt :: "string \<Rightarrow> string" where
  "job_name_for_attempt attempt = ''codeduel-sandbox-'' @ attempt"

text \<open>\<open>int32(x)\<close> of an \<open>int64\<close>.\<close>

definition wrap32 :: "int \<Rightarrow> int" where
  "wrap32 x = (x + 2 ^ 31) mod 2 ^ 32 - 2 ^ 31"

definition build_job :: "k8s_executor \<Rightarrow> execution_request \<Rightarrow> string \<Rightarrow> k8s_job" where
  "build_job K r attempt =
     (let l = er_limits r;
          resources = \<lparr>rl_cpu_milli = quot (nano_cpus l) 1000000, rl_memory = memory_bytes l, rl_ephemeral_storage = workspace_bytes l\<rparr>
      in \<lparr>kj_name = job_name_for_attempt attempt, kj_namespace = ke_namespace K,
          kj_labels = [''com.codeduel.sandbox'' \<mapsto> ''true'', ''com.codeduel.attempt'' \<mapsto> attempt, ''com.codeduel.instance'' \<mapsto> ke_instance_id K],
          kj_backoff_limit = 0,
          kj_active_deadline_seconds = wrap64 (quot (total_timeout l) 1000000000 + 1),
          kj_ttl_seconds = wrap32 (quot (cleanup_timeout l) 1000000000),
          kj_restart_policy = ''Never'', kj_runtime_class = ke_runtime_class K, kj_node_selector = ke_node_selector K,
          kj_tolerations = (if ke_toleration_key K = '''' then []
             else [\<lparr>tl_key = ke_toleration_key K, tl_operator = ''Equal'', tl_value = ke_toleration_value K, tl_effect = ''NoSchedule''\<rparr>]),
          kj_automount_token = False, kj_run_as_non_root = True, kj_run_as_user = 10001, kj_run_as_group = 10001,
          kj_seccomp_profile = ''RuntimeDefault'', kj_container = ''sandbox'',
          kj_image = (case ke_images K (er_language r) of None \<Rightarrow> '''' | Some img \<Rightarrow> img),
          kj_command = [''/opt/codeduel/harness''],
          kj_env = [(''CODEDUEL_PAYLOAD'', encode_payload r), (''HOME'', ''/tmp''), (''LANG'', ''C.UTF-8''), (''LC_ALL'', ''C.UTF-8'')],
          kj_requests = resources, kj_limits = resources,
          kj_allow_privilege_escalation = False, kj_readonly_rootfs = True, kj_drop_capabilities = [''ALL''],
          kj_volume_mounts = [(''workspace'', ''/workspace''), (''tmp'', ''/tmp'')],
          kj_empty_dirs = [(''workspace'', workspace_bytes l), (''tmp'', tmpfs_bytes l)]\<rparr>)"

section \<open>Execute\<close>

datatype k8s_call = KcCreateJob k8s_job | KcDeleteJob string

text \<open>
  \<open>create\<close> is the answer of the API server, the name of the created Job; \<open>start\<close> the time
  after it. The result is \<open>None\<close> when the rounds end before \<open>Execute\<close> returns.
\<close>

definition k8s_execute ::
  "(string \<Rightarrow> json option) \<Rightarrow> k8s_executor \<Rightarrow> (k8s_job \<Rightarrow> string + string) \<Rightarrow> int \<Rightarrow> k8s_poll list \<Rightarrow> string
    \<Rightarrow> execution_request \<Rightarrow> (string + execution_outcome) option \<times> k8s_call list" where
  "k8s_execute decode K create start polls attempt r =
     (case request_validate r of
        Some e \<Rightarrow> (Some (Inl (''validate execution request: '' @ e)), [])
      | None \<Rightarrow>
          if ke_images K (er_language r) = None then (Some (Inl ''no image configured for language''), [])
          else let job = build_job K r attempt in
            (case create job of
               Inl e \<Rightarrow> (Some (Inl (''create sandbox Job: '' @ e)), [KcCreateJob job])
             | Inr name \<Rightarrow>
                 (case await_outcome decode
                     (start + wrap64 (total_timeout (er_limits r) + cleanup_timeout (er_limits r) + ke_startup_grace K)) polls of
                    None \<Rightarrow> (None, [KcCreateJob job])
                  | Some res \<Rightarrow> (Some res, [KcCreateJob job, KcDeleteJob name]))))"

text \<open>Start-up: \<open>cleanupStaleJobs\<close> and \<open>newKubernetesJobExecutor\<close>; listed Jobs have a name and a creation time.\<close>

fun remove_stale_jobs :: "(string \<Rightarrow> string option) \<Rightarrow> int \<Rightarrow> (string \<times> int) list \<Rightarrow> string option \<times> k8s_call list" where
  "remove_stale_jobs delete cutoff [] = (None, [])"
| "remove_stale_jobs delete cutoff ((name, created) # js) =
     (if cutoff < created then remove_stale_jobs delete cutoff js
      else case delete name of
          Some e \<Rightarrow> (Some (''remove stale sandbox Job: '' @ e), [KcDeleteJob name])
        | None \<Rightarrow> (case remove_stale_jobs delete cutoff js of (err, log) \<Rightarrow> (err, KcDeleteJob name # log)))"

definition cleanup_stale_jobs ::
  "k8s_executor \<Rightarrow> string + (string \<times> int) list \<Rightarrow> (string \<Rightarrow> string option) \<Rightarrow> int \<Rightarrow> string option \<times> k8s_call list" where
  "cleanup_stale_jobs K jobs delete now =
     (case jobs of
        Inl e \<Rightarrow> (Some (''list sandbox Jobs: '' @ e), [])
      | Inr js \<Rightarrow> remove_stale_jobs delete (now - ke_stale_age K) js)"

definition new_kubernetes_executor ::
  "bool \<Rightarrow> string option \<Rightarrow> string + (string \<times> int) list \<Rightarrow> (string \<Rightarrow> string option) \<Rightarrow> int \<Rightarrow> string \<Rightarrow> judge_config
    \<Rightarrow> (string + k8s_executor) \<times> k8s_call list" where
  "new_kubernetes_executor has_client version jobs delete now instance_id cfg =
     (if \<not> has_client then (Inl ''kubernetes client is required'', [])
      else if jc_executor cfg \<noteq> ''kubernetes'' then (Inl ''kubernetes executor requires JUDGE_EXECUTOR'', [])
      else case judge_config_validate cfg of
        Some e \<Rightarrow> (Inl (''validate Judge config: '' @ e), [])
      | None \<Rightarrow>
     (case version of
        Some e \<Rightarrow> (Inl (''reach Kubernetes API server: '' @ e), [])
      | None \<Rightarrow>
          let K = \<lparr>ke_namespace = jc_k8s_namespace cfg, ke_runtime_class = jc_k8s_runtime_class cfg,
                ke_images = [''python'' \<mapsto> jc_python_image cfg, ''cpp'' \<mapsto> jc_cpp_image cfg, ''java'' \<mapsto> jc_java_image cfg],
                ke_node_selector = jc_k8s_node_selector cfg, ke_toleration_key = jc_k8s_toleration_key cfg,
                ke_toleration_value = jc_k8s_toleration_value cfg, ke_instance_id = instance_id,
                ke_stale_age = jc_attempt_lease cfg, ke_startup_grace = jc_total_timeout cfg\<rparr>
          in (case cleanup_stale_jobs K jobs delete now of
                (Some e, log) \<Rightarrow> (Inl (''clean stale sandbox Jobs: '' @ e), log)
              | (None, log) \<Rightarrow> (Inr K, log))))"

section \<open>The payload\<close>

text \<open>The reference: the decoder of \<open>base64.StdEncoding\<close> the harness applies.\<close>

definition base64_value :: "char \<Rightarrow> nat option" where
  "base64_value c = map_of (zip base64_alphabet [0..<64]) c"

fun base64_decode :: "string \<Rightarrow> nat list option" where
  "base64_decode [] = Some []"
| "base64_decode [a, b, c, d] =
     (case (base64_value a, base64_value b) of
        (Some x, Some y) \<Rightarrow>
          if c = CHR ''='' \<and> d = CHR ''='' then Some [x * 4 + y div 16]
          else (case base64_value c of
             None \<Rightarrow> None
           | Some z \<Rightarrow>
               if d = CHR ''='' then Some [x * 4 + y div 16, (y mod 16) * 16 + z div 4]
               else (case base64_value d of None \<Rightarrow> None
                     | Some w \<Rightarrow> Some [x * 4 + y div 16, (y mod 16) * 16 + z div 4, (z mod 4) * 64 + w]))
      | _ \<Rightarrow> None)"
| "base64_decode (a # b # c # d # xs) =
     (case (base64_value a, base64_value b, base64_value c, base64_value d, base64_decode xs) of
        (Some x, Some y, Some z, Some w, Some ys) \<Rightarrow>
          Some ([x * 4 + y div 16, (y mod 16) * 16 + z div 4, (z mod 4) * 64 + w] @ ys)
      | _ \<Rightarrow> None)"
| "base64_decode _ = None"

lemma base64_values: "\<forall>i\<in>set [0..<64]. base64_value (b64 i) = Some i \<and> b64 i \<noteq> CHR ''=''"
  by code_simp

lemma base64_value_b64 [simp]: "i < 64 \<Longrightarrow> base64_value (b64 i) = Some i" "i < 64 \<Longrightarrow> b64 i \<noteq> CHR ''=''"
  using base64_values by simp_all

lemma base64_decode_quad:
  assumes "i < 64" "j < 64" "k < 64" "l < 64" and "base64_decode xs = Some ys"
  shows "base64_decode (b64 i # b64 j # b64 k # b64 l # xs) = Some ([i * 4 + j div 16, (j mod 16) * 16 + k div 4, (k mod 4) * 64 + l] @ ys)"
  using assms by (cases xs) simp_all

lemma digit_pair: "y < n \<Longrightarrow> (x * n + y) mod n = y" "y < n \<Longrightarrow> (x * n + y) div n = (x :: nat)"
  by simp_all

lemma base64_bits:
  fixes a b c :: nat
  assumes "b < 256" and "c < 256"
  shows "a div 4 * 4 + (a mod 4 * 16 + b div 16) div 16 = a"
    "(a mod 4 * 16 + b div 16) mod 16 * 16 + (b mod 16 * 4 + c div 64) div 4 = b"
    "(b mod 16 * 4 + c div 64) mod 4 * 64 + c mod 64 = c"
    "(a mod 4 * 16 + b div 16) mod 16 * 16 + (b mod 16 * 4) div 4 = b"
proof -
  have "b div 16 < 16" "c div 64 < 4" using assms by simp_all
  note d = digit_pair [OF this(1)] digit_pair [OF this(2)]
  show "a div 4 * 4 + (a mod 4 * 16 + b div 16) div 16 = a"
    "(a mod 4 * 16 + b div 16) mod 16 * 16 + (b mod 16 * 4 + c div 64) div 4 = b"
    "(b mod 16 * 4 + c div 64) mod 4 * 64 + c mod 64 = c"
    "(a mod 4 * 16 + b div 16) mod 16 * 16 + (b mod 16 * 4) div 4 = b"
    unfolding d by (simp_all only: div_mult_mod_eq nonzero_mult_div_cancel_right zero_neq_numeral not_False_eq_True)
qed

text \<open>What the environment variable carries is exactly the payload.\<close>

lemma base64_round_trip: "\<forall>x\<in>set xs. x < 256 \<Longrightarrow> base64_decode (base64_encode xs) = Some xs"
proof (induction xs rule: base64_encode.induct)
  case (4 a b c xs)
  have bytes: "b < 256" "c < 256" using "4.prems" by simp_all
  have "a div 4 < 64" "(a mod 4) * 16 + b div 16 < 64" "(b mod 16) * 4 + c div 64 < 64" "c mod 64 < 64"
    using "4.prems" by (simp_all, linarith+)
  moreover have "base64_decode (base64_encode xs) = Some xs" using "4" by simp
  ultimately show ?case
    unfolding base64_encode.simps append.simps by (subst base64_decode_quad) (simp_all only: base64_bits(1-3) [OF bytes] append.simps)
next
  case (2 a)
  then have "a div 4 < 64" "(a mod 4) * 16 < 64" by simp_all
  then show ?case by simp
next
  case (3 a b)
  then have bytes: "a < 256" "b < 256" "(0 :: nat) < 256" by simp_all
  then have "a div 4 < 64" "(a mod 4) * 16 + b div 16 < 64" "(b mod 16) * 4 < 64" by simp_all
  then show ?case using bytes base64_bits(1,4) [of b 0 a] by (simp del: mod_mult_self3 mod_mult_self4 div_mult_self3 div_mult_self4 div_mult_self1 div_mult_self2 mod_mult_self1 mod_mult_self2)
qed simp

section \<open>Waiting for the outcome\<close>

lemma await_outcome_append:
  "await_outcome decode deadline ps = Some res \<Longrightarrow> await_outcome decode deadline (ps @ qs) = Some res"
  by (induction decode deadline ps rule: await_outcome.induct) (auto split: sum.splits option.splits if_splits)

lemma await_outcome_deadline:
  "p \<in> set ps \<Longrightarrow> deadline \<le> kp_now p \<Longrightarrow> \<exists>res. await_outcome decode deadline ps = Some res"
  by (induction decode deadline ps rule: await_outcome.induct) (auto split: sum.splits option.splits)

text \<open>
  Property C23. Waiting ends: once the Job is created, \<open>Execute\<close> returns no later than the round in
  which the clock reaches the deadline, whatever the API server answers, looks at no round
  after that, and its last call deletes the Job.
\<close>

theorem k8s_execute_settles:
  assumes "request_validate r = None" and "ke_images K (er_language r) \<noteq> None"
    and "create (build_job K r attempt) = Inr name"
    and "i < length polls"
    and "start + wrap64 (total_timeout (er_limits r) + cleanup_timeout (er_limits r) + ke_startup_grace K) \<le> kp_now (polls ! i)"
  shows "\<exists>res. \<forall>later. k8s_execute decode K create start (take (Suc i) polls @ later) attempt r
    = (Some res, [KcCreateJob (build_job K r attempt), KcDeleteJob name])"
proof -
  have "polls ! i \<in> set (take (Suc i) polls)" using assms(4) by (simp add: take_Suc_conv_app_nth)
  from await_outcome_deadline [OF this assms(5)]
  obtain res where "await_outcome decode (start + wrap64 (total_timeout (er_limits r) + cleanup_timeout (er_limits r)
      + ke_startup_grace K)) (take (Suc i) polls) = Some res" by blast
  from await_outcome_append [OF this] show ?thesis
    using assms(1-3) by (auto simp: k8s_execute_def Let_def)
qed

text \<open>An outcome the harness reported in one of the rounds.\<close>

definition harness_reported :: "(string \<Rightarrow> json option) \<Rightarrow> k8s_poll list \<Rightarrow> execution_outcome \<Rightarrow> bool" where
  "harness_reported decode polls out \<longleftrightarrow>
     (\<exists>p pods pd c t h. p \<in> set polls \<and> kp_pods p = Inr pods \<and> pd \<in> set pods \<and> c \<in> set (pd_statuses pd) \<and> ct_name c = ''sandbox''
        \<and> ct_terminated c = Some t \<and> parse_harness_result decode (tm_message t) = Some h
        \<and> out = \<lparr>eo_kind = hr_kind h, eo_tests_passed = hr_tests_passed h\<rparr>)"

lemma classify_pod_Terminal:
  assumes "classify_pod decode pd = Terminal out"
  shows "eo_tests_passed out = 0 \<and> eo_kind out \<in> {''pass'', ''runtime_error'', ''timeout''}
    \<or> (\<exists>c t h. c \<in> set (pd_statuses pd) \<and> ct_name c = ''sandbox'' \<and> ct_terminated c = Some t
        \<and> parse_harness_result decode (tm_message t) = Some h \<and> out = \<lparr>eo_kind = hr_kind h, eo_tests_passed = hr_tests_passed h\<rparr>)"
proof (cases "pd_reason pd = ''DeadlineExceeded''")
  case True
  then show ?thesis using assms by (auto simp: classify_pod_def)
next
  case False
  with assms obtain c t where c: "container_status_of pd ''sandbox'' = Some c" "ct_terminated c = Some t"
    and out: "out = classify_terminated decode t"
    by (auto simp: classify_pod_def split: option.splits if_splits)
  have "c \<in> set (pd_statuses pd) \<and> ct_name c = ''sandbox''"
    using c(1) by (auto simp: container_status_of_def find_Some_iff)
  then show ?thesis using c(2) unfolding out classify_terminated_def
    by (cases "parse_harness_result decode (tm_message t)") auto
qed

lemma classify_pods_Inr:
  "classify_pods decode pods = Some (Inr out) \<Longrightarrow> \<exists>pd\<in>set pods. classify_pod decode pd = Terminal out"
  by (induction decode pods rule: classify_pods.induct) (auto split: pod_classification.splits)

lemma context_result_Inr: "context_result e = Inr out \<Longrightarrow> out = timeout_outcome"
  by (cases e) (auto simp: context_result_def)

lemma await_outcome_Inr:
  "await_outcome decode deadline ps = Some (Inr out) \<Longrightarrow>
     out = timeout_outcome \<or> (\<exists>p\<in>set ps. \<exists>pods. kp_pods p = Inr pods \<and> (\<exists>pd\<in>set pods. classify_pod decode pd = Terminal out))"
proof (induction decode deadline ps rule: await_outcome.induct)
  case (2 decode deadline p ps)
  then show ?case
    by (auto split: sum.splits option.splits if_splits dest: classify_pods_Inr context_result_Inr)
qed simp

lemma parse_harness_result_kind: "parse_harness_result decode m = Some h \<Longrightarrow> valid_outcome_kind (hr_kind h)"
  by (auto simp: parse_harness_result_def Let_def split: if_splits option.splits json.splits)

text \<open>
  On Kubernetes nothing passes without a report: an outcome is of one of the six kinds;
  either the harness reported exactly it in its termination message, or it counts no passed
  test, and then a pass, the verdict given to a container that exits with status 0 and no report, is refused by the judge's classification.
\<close>

theorem k8s_outcome_reported:
  assumes "k8s_execute decode K create start polls attempt r = (Some (Inr out), log)"
  shows "valid_outcome_kind (eo_kind out)
    \<and> (harness_reported decode polls out
       \<or> eo_tests_passed out = 0 \<and> (eo_kind out = ''pass'' \<longrightarrow> (\<exists>e. terminal_result_from_outcome out (length (er_tests r)) = Inl e)))"
proof -
  have valid: "request_validate r = None"
    and run: "\<exists>deadline. await_outcome decode deadline polls = Some (Inr out)"
    using assms by (auto simp: k8s_execute_def Let_def split: option.splits if_splits sum.splits)
  have tests: "er_tests r \<noteq> []" using valid by (auto simp: request_validate_def split: option.splits if_splits)
  consider "out = timeout_outcome"
    | p pods pd where "p \<in> set polls" "kp_pods p = Inr pods" "pd \<in> set pods" "classify_pod decode pd = Terminal out"
    using run await_outcome_Inr by blast
  then show ?thesis
  proof cases
    case 1
    then show ?thesis by (simp add: timeout_outcome_def valid_outcome_kind_def)
  next
    case 2
    from classify_pod_Terminal [OF 2(4)] show ?thesis
    proof
      assume zero: "eo_tests_passed out = 0 \<and> eo_kind out \<in> {''pass'', ''runtime_error'', ''timeout''}"
      have "\<exists>e. terminal_result_from_outcome out (length (er_tests r)) = Inl e" if "eo_kind out = ''pass''"
      proof (cases "terminal_result_from_outcome out (length (er_tests r))")
        case (Inr t)
        then have "outcome_ok (length (er_tests r)) out" using terminal_result_iff_ok [where out = out and n = "length (er_tests r)"] by simp
        then show ?thesis using zero that tests by (simp add: outcome_ok_def)
      qed simp
      then show ?thesis using zero by (auto simp: valid_outcome_kind_def)
    next
      assume "\<exists>c t h. c \<in> set (pd_statuses pd) \<and> ct_name c = ''sandbox'' \<and> ct_terminated c = Some t
        \<and> parse_harness_result decode (tm_message t) = Some h \<and> out = \<lparr>eo_kind = hr_kind h, eo_tests_passed = hr_tests_passed h\<rparr>"
      then obtain c t h where h: "c \<in> set (pd_statuses pd)" "ct_name c = ''sandbox''" "ct_terminated c = Some t"
        "parse_harness_result decode (tm_message t) = Some h" "out = \<lparr>eo_kind = hr_kind h, eo_tests_passed = hr_tests_passed h\<rparr>" by blast
      then have "harness_reported decode polls out" unfolding harness_reported_def using 2(1-3) by blast
      then show ?thesis using h parse_harness_result_kind by simp
    qed
  qed
qed

section \<open>Examples\<close>

definition ex_k8s :: k8s_executor where
  "ex_k8s = \<lparr>ke_namespace = ''sandbox'', ke_runtime_class = ''gvisor'', ke_images = [''python'' \<mapsto> ''img''],
     ke_node_selector = Map.empty, ke_toleration_key = '''', ke_toleration_value = '''', ke_instance_id = ''i'',
     ke_stale_age = 60000000000, ke_startup_grace = 1\<rparr>"

definition ex_poll :: "pod list \<Rightarrow> int \<Rightarrow> k8s_poll" where
  "ex_poll pods now = \<lparr>kp_pods = Inr pods, kp_job = Inr [], kp_ctx = None, kp_now = now, kp_timer_ctx = None\<rparr>"

definition ex_pod :: "string \<Rightarrow> pod" where
  "ex_pod message = \<lparr>pd_reason = '''', pd_statuses = [\<lparr>ct_name = ''sandbox'',
     ct_terminated = Some \<lparr>tm_reason = ''Completed'', tm_message = message, tm_exit_code = 0\<rparr>, ct_waiting = None\<rparr>]\<rparr>"

definition ex_decode :: "string \<Rightarrow> json option" where
  "ex_decode s = (if s = ''r'' then Some (JObject [(''kind'', JString ''wrong_answer''), (''tests_passed'', JNumber ''1'')]) else None)"

lemma ex_k8s_create: "ke_images ex_k8s (er_language ex_execution) \<noteq> None"
  by (simp add: ex_k8s_def ex_execution_def)

theorem k8s_execute_settles_witness:
  "\<exists>res. k8s_execute ex_decode ex_k8s (\<lambda>job. Inr ''j'') 0 [ex_poll [] 1, ex_poll [] 3] ''a'' ex_execution
     = (Some res, [KcCreateJob (build_job ex_k8s ex_execution ''a''), KcDeleteJob ''j''])"
proof -
  have t: "0 + wrap64 (total_timeout (er_limits ex_execution) + cleanup_timeout (er_limits ex_execution) + ke_startup_grace ex_k8s)
      \<le> kp_now ([ex_poll [] 1, ex_poll [] 3] ! 1)" "1 < length [ex_poll [] 1, ex_poll [] 3]"
    by (simp_all add: ex_execution_def ex_k8s_def ex_poll_def wrap64_def)
  from k8s_execute_settles [where create = "\<lambda>job. Inr ''j''" and attempt = "''a''" and decode = ex_decode,
      OF ex_behaviours(1) ex_k8s_create refl t(2,1)]
  obtain res where "k8s_execute ex_decode ex_k8s (\<lambda>job. Inr ''j'') 0 (take (Suc 1) [ex_poll [] 1, ex_poll [] 3] @ []) ''a'' ex_execution
      = (Some res, [KcCreateJob (build_job ex_k8s ex_execution ''a''), KcDeleteJob ''j''])" by blast
  then show ?thesis by simp
qed

lemma ex_k8s_reports:
  "fst (k8s_execute ex_decode ex_k8s (\<lambda>job. Inr ''j'') 0 [ex_poll [] 1, ex_poll [ex_pod ''r''] 2] ''a'' ex_execution)
     = Some (Inr \<lparr>eo_kind = ''wrong_answer'', eo_tests_passed = 1\<rparr>)"
proof -
  have "await_outcome ex_decode 3 [ex_poll [] 1, ex_poll [ex_pod ''r''] 2] = Some (Inr \<lparr>eo_kind = ''wrong_answer'', eo_tests_passed = 1\<rparr>)"
    by code_simp
  moreover have "0 + wrap64 (total_timeout (er_limits ex_execution) + cleanup_timeout (er_limits ex_execution) + ke_startup_grace ex_k8s) = 3"
    by (simp add: ex_execution_def ex_k8s_def wrap64_def)
  ultimately show ?thesis
    using ex_behaviours(1) ex_k8s_create by (simp add: k8s_execute_def Let_def)
qed

theorem k8s_outcome_reported_witness:
  "harness_reported ex_decode [ex_poll [] 1, ex_poll [ex_pod ''r''] 2] \<lparr>eo_kind = ''wrong_answer'', eo_tests_passed = 1\<rparr>"
proof -
  obtain log where "k8s_execute ex_decode ex_k8s (\<lambda>job. Inr ''j'') 0 [ex_poll [] 1, ex_poll [ex_pod ''r''] 2] ''a'' ex_execution
      = (Some (Inr \<lparr>eo_kind = ''wrong_answer'', eo_tests_passed = 1\<rparr>), log)"
    using ex_k8s_reports by (metis prod.collapse)
  from k8s_outcome_reported [OF this] show ?thesis by simp
qed

end
