(* ===== verification/Wire.thy ===== *)
theory Wire
  imports Proto Json
begin

text \<open>
  The text of the wire messages of \<open>internal/proto/messages.go\<close>: what \<open>Encode\<close> writes and what
  \<open>Decode\<close>, \<open>DecodeData\<close> and \<open>DecodeSubmitCodeData\<close> read. The data of a decoded envelope is the
  raw value (\<open>json.RawMessage\<close>), absent when there was none. The text of a \<open>time.Time\<close> depends
  on the time zone of the process, so it is a parameter (\<open>time_lib\<close>).
\<close>

record time_lib =
  time_text :: "time \<Rightarrow> string"
  time_parse :: "string \<Rightarrow> time option"

definition time_lib_ok :: "time_lib \<Rightarrow> bool" where
  "time_lib_ok T \<longleftrightarrow> (\<forall>t. utf8_valid (time_text T t) \<and> time_parse T (time_text T t) = Some t)"

section \<open>Encoding\<close>

text \<open>A member with \<open>omitempty\<close>.\<close>

definition omit_empty :: "string \<Rightarrow> string \<Rightarrow> (string \<times> json) list" where
  "omit_empty k s = (if s = '''' then [] else [(k, jstring s)])"

fun message_json :: "time_lib \<Rightarrow> message_data \<Rightarrow> json" where
  "message_json T (ReadyData u) = JObject [(''user_id'', jstring u)]"
| "message_json T QueuedData = JObject []"
| "message_json T (QueueLeftData b) = JObject [(''removed'', JBool b)]"
| "message_json T (SubmitCodeData s) =
     JObject [(''match_id'', jstring (sc_match_id s)), (''request_id'', jstring (sc_request_id s)),
              (''language'', jstring (sc_language s)), (''code'', jstring (sc_code s))]"
| "message_json T (MatchStartData m) =
     JObject [(''match_id'', jstring (ms_match_id m)), (''problem_id'', jstring (ms_problem_id m)),
              (''deadline'', jstring (time_text T (ms_deadline m)))]"
| "message_json T (JudgingData j) =
     JObject [(''request_id'', jstring (jd_request_id j)), (''submission_id'', jstring (jd_submission_id j))]"
| "message_json T (ResultData r) =
     JObject ([(''event_id'', jstring (rd_event_id r)), (''request_id'', jstring (rd_request_id r)),
               (''submission_id'', jstring (rd_submission_id r)), (''match_id'', jstring (rd_match_id r)),
               (''player_id'', jstring (rd_player_id r)), (''verdict'', jstring (rd_verdict r)),
               (''tests_passed'', jint (rd_tests_passed r)), (''total_tests'', jint (rd_total_tests r))]
              @ omit_empty ''winner_id'' (rd_winner_id r) @ omit_empty ''outcome'' (rd_outcome r)
              @ [(''failure_kind'', case rd_failure_kind r of None \<Rightarrow> JNull | Some k \<Rightarrow> jstring k)])"
| "message_json T (MatchEndData m) =
     JObject ([(''event_id'', jstring (me_event_id m)), (''match_id'', jstring (me_match_id m))]
              @ omit_empty ''winner_id'' (me_winner_id m)
              @ [(''outcome'', jstring (me_outcome m)), (''tests_passed'', jint (me_tests_passed m)),
                 (''total_tests'', jint (me_total_tests m))])"
| "message_json T (ErrorData e) =
     JObject (omit_empty ''code'' (ed_code e) @ [(''message'', jstring (ed_message e))]
              @ omit_empty ''match_id'' (ed_match_id e) @ omit_empty ''request_id'' (ed_request_id e))"

definition envelope_json :: "time_lib \<Rightarrow> envelope \<Rightarrow> json" where
  "envelope_json T e =
     JObject ((''type'', jstring (env_type e)) #
       (case env_data e of None \<Rightarrow> [] | Some d \<Rightarrow> [(''data'', message_json T d)]))"

text \<open>The bytes of \<open>Encode\<close>.\<close>

definition encode_text :: "time_lib \<Rightarrow> string \<Rightarrow> message_data option \<Rightarrow> string + string" where
  "encode_text T typ payload =
     (case encode typ payload of Inl e \<Rightarrow> Inl e | Inr env \<Rightarrow> Inr (json_text (envelope_json T env)))"

section \<open>Decoding\<close>

record raw_envelope =
  rv_type :: string
  rv_data :: "json option"

definition envelope_field :: "string \<Rightarrow> json \<Rightarrow> raw_envelope \<Rightarrow> raw_envelope option" where
  "envelope_field k v e =
     (if is_field ''type'' k then map_option (\<lambda>t. e\<lparr>rv_type := t\<rparr>) (decode_string v (rv_type e))
      else if is_field ''data'' k then Some (e\<lparr>rv_data := Some v\<rparr>)
      else None)"

definition decode_envelope :: "string \<Rightarrow> string + raw_envelope" where
  "decode_envelope raw =
     (case json_document raw of
        None \<Rightarrow> Inl ''decode envelope''
      | Some v \<Rightarrow>
          (case decode_struct envelope_field \<lparr>rv_type = '''', rv_data = None\<rparr> v of
             None \<Rightarrow> Inl ''decode envelope''
           | Some e \<Rightarrow> if rv_type e = '''' then Inl ''decode envelope: missing type'' else Inr e))"

text \<open>
  \<open>DecodeData\<close> into a struct: \<open>Unmarshal\<close> of the raw data, which is a scanned value already;
  unknown members are ignored.
\<close>

definition decode_data :: "(string \<Rightarrow> json \<Rightarrow> 'a \<Rightarrow> 'a option) \<Rightarrow> raw_envelope \<Rightarrow> 'a \<Rightarrow> 'a option" where
  "decode_data set_field e x =
     (case rv_data e of None \<Rightarrow> Some x | Some JNull \<Rightarrow> Some x | Some v \<Rightarrow> decode_struct set_field x v)"

text \<open>
  \<open>utf8.Valid\<close> of the raw text of a value: every byte of it outside strings is ASCII, so it is
  valid exactly when the strings are.
\<close>

fun json_utf8 :: "json \<Rightarrow> bool" where
  "json_utf8 (JString r) = utf8_valid r"
| "json_utf8 (JArray vs) = list_all json_utf8 vs"
| "json_utf8 (JObject ms) = list_all (\<lambda>m. utf8_valid (fst m) \<and> json_utf8 (snd m)) ms"
| "json_utf8 _ = True"

definition submit_code_field :: "string \<Rightarrow> json \<Rightarrow> submit_code_data \<Rightarrow> submit_code_data option" where
  "submit_code_field k v s =
     (if is_field ''match_id'' k then map_option (\<lambda>x. s\<lparr>sc_match_id := x\<rparr>) (decode_string v (sc_match_id s))
      else if is_field ''request_id'' k then map_option (\<lambda>x. s\<lparr>sc_request_id := x\<rparr>) (decode_string v (sc_request_id s))
      else if is_field ''language'' k then map_option (\<lambda>x. s\<lparr>sc_language := x\<rparr>) (decode_string v (sc_language s))
      else if is_field ''code'' k then map_option (\<lambda>x. s\<lparr>sc_code := x\<rparr>) (decode_string v (sc_code s))
      else None)"

definition decode_submit_code_data :: "uuid_lib \<Rightarrow> json option \<Rightarrow> string + submit_code_data" where
  "decode_submit_code_data U data =
     (case data of
        None \<Rightarrow> Inl ''missing submit_code data''
      | Some JNull \<Rightarrow> Inl ''missing submit_code data''
      | Some v \<Rightarrow>
          if \<not> json_utf8 v then Inl ''submit_code data is not valid UTF-8''
          else (case decode_struct submit_code_field
                  \<lparr>sc_match_id = '''', sc_request_id = '''', sc_language = '''', sc_code = ''''\<rparr> v of
              None \<Rightarrow> Inl ''decode submit_code data''
            | Some s \<Rightarrow> (case submit_code_validate U s of Some e \<Rightarrow> Inl e | None \<Rightarrow> Inr s)))"

section \<open>Round trips\<close>

lemma is_field_plain [simp]:
  "is_field ''type'' ''type''" "is_field ''data'' ''data''" "\<not> is_field ''type'' ''data''"
  "is_field ''match_id'' ''match_id''" "is_field ''request_id'' ''request_id''" "is_field ''language'' ''language''"
  "is_field ''code'' ''code''" "\<not> is_field ''match_id'' ''request_id''" "\<not> is_field ''match_id'' ''language''"
  "\<not> is_field ''match_id'' ''code''" "\<not> is_field ''request_id'' ''language''" "\<not> is_field ''request_id'' ''code''"
  "\<not> is_field ''language'' ''code''"
  by code_simp+

lemma raw_string_keys [simp]:
  "raw_string ''type''" "raw_string ''data''" "raw_string ''user_id''" "raw_string ''removed''"
  "raw_string ''match_id''" "raw_string ''request_id''" "raw_string ''language''" "raw_string ''code''"
  "raw_string ''problem_id''" "raw_string ''deadline''" "raw_string ''submission_id''" "raw_string ''event_id''"
  "raw_string ''player_id''" "raw_string ''verdict''" "raw_string ''tests_passed''" "raw_string ''total_tests''"
  "raw_string ''winner_id''" "raw_string ''outcome''" "raw_string ''failure_kind''" "raw_string ''message''"
  by code_simp+

lemma message_json_wf [simp]: "json_wf (message_json T d)"
  by (cases d) (simp_all add: omit_empty_def split: option.splits)

lemma message_json_depth [simp]: "json_depth (message_json T d) = 1"
  by (cases d) (simp_all add: omit_empty_def split: option.splits)

lemma message_json_object: "\<exists>ms. message_json T d = JObject ms"
  by (cases d) simp_all

text \<open>Decoding what was encoded gives the type and the data of the message.\<close>

lemma decode_encode_text:
  assumes "encode_text T typ payload = Inr raw" "utf8_valid typ"
  shows "decode_envelope raw = Inr \<lparr>rv_type = typ, rv_data = map_option (message_json T) payload\<rparr>"
proof -
  have nonempty: "typ \<noteq> ''''" and raw: "raw = json_text (envelope_json T \<lparr>env_type = typ, env_data = payload\<rparr>)"
    using assms(1) by (auto simp: encode_text_def encode_def split: if_splits)
  let ?v = "envelope_json T \<lparr>env_type = typ, env_data = payload\<rparr>"
  have "json_document (json_text ?v) = Some ?v"
    by (rule json_document_text)
       (auto simp: envelope_json_def max_nesting_depth_def split: option.splits)
  then show ?thesis
    using nonempty assms(2)
    by (auto simp: decode_envelope_def raw envelope_json_def decode_struct_def envelope_field_def split: option.splits)
qed

text \<open>A client's submission arrives as it was sent.\<close>

lemma languages_utf8: "utf8_valid ''python''" "utf8_valid ''cpp''" "utf8_valid ''java''" "utf8_valid ''submit_code''"
  by code_simp+

lemma keys_utf8: "utf8_valid ''match_id''" "utf8_valid ''request_id''" "utf8_valid ''language''" "utf8_valid ''code''"
  by code_simp+

lemma submit_code_arrives:
  assumes valid: "submit_code_validate U s = None"
    and ids: "utf8_valid (sc_match_id s)" "utf8_valid (sc_request_id s)"
  shows "decode_submit_code_data U (Some (message_json T (SubmitCodeData s))) = Inr s"
proof -
  have "sc_language s \<in> set [''python'', ''cpp'', ''java'']" "utf8_valid (sc_code s)"
    using valid by (auto simp: submit_code_validate_def split: option.splits if_splits)
  then have "utf8_valid (sc_language s)" "utf8_valid (sc_code s)"
    using languages_utf8 by auto
  then have "decode_struct submit_code_field \<lparr>sc_match_id = '''', sc_request_id = '''', sc_language = '''', sc_code = ''''\<rparr>
      (message_json T (SubmitCodeData s)) = Some s"
    using ids by (simp add: decode_struct_def submit_code_field_def)
  moreover have "json_utf8 (message_json T (SubmitCodeData s))"
    by (simp add: jstring_def utf8_valid_escape keys_utf8)
  ultimately show ?thesis
    using valid by (simp add: decode_submit_code_data_def del: message_json.simps)
       (simp add: decode_submit_code_data_def)
qed

text \<open>Whatever the bytes, a submission that is decoded is valid.\<close>

lemma decode_submit_code_valid:
  "decode_submit_code_data U data = Inr s \<Longrightarrow> submit_code_validate U s = None"
  by (auto simp: decode_submit_code_data_def split: option.splits json.splits if_splits)

end
