(* ===== verification/Gateway.thy ===== *)
theory Gateway
  imports Wire Match Submission
begin

text \<open>
  What the gateway does with a message of a client: \<open>decodeInbound\<close>, \<open>handleInbound\<close> and the
  replies of \<open>internal/gateway/conn.go\<close>, joining the queue of \<open>matchmaking.go\<close>, and the
  operations \<open>handleWS\<close> of \<open>run.go\<close> gives a connection. A transaction of \<open>matchmaking.go\<close> holds
  the row of the user from its check to the end of the queue call, so the match maker, which
  locks the same row, sees the user either before both or after both.
\<close>

section \<open>Joining the queue\<close>

datatype join_error = JoinActive uuid | JoinFailed string

datatype join_call = JoBegin | JoLock | JoLoad

text \<open>\<open>enqueueForMatch\<close>; the queue is the Go interface \<open>matchmakingQueue\<close>, absent when nil.\<close>

definition enqueue_for_match ::
  "uuid_lib \<Rightarrow> bool \<Rightarrow> (queue_member \<Rightarrow> 'q \<Rightarrow> (string + 'r) \<times> 'q) option \<Rightarrow> (join_call \<Rightarrow> io) \<Rightarrow> queue_member
    \<Rightarrow> db \<Rightarrow> 'q \<Rightarrow> join_error option \<times> 'q" where
  "enqueue_for_match U has_db queue ext m d q =
     (case (if has_db then queue else None) of
        None \<Rightarrow> (Some (JoinFailed ''enqueue for match: missing dependency''), q)
      | Some enqueue \<Rightarrow>
     (case member_validate U m of
        Some e \<Rightarrow> (Some (JoinFailed (''enqueue for match: '' @ e)), q)
      | None \<Rightarrow>
          if ext JoBegin \<noteq> IoOk then (Some (JoinFailed ''enqueue for match: begin transaction''), q)
          else if ext JoLock \<noteq> IoOk then (Some (JoinFailed ''enqueue for match: lock user''), q)
          else if user_of d (qm_user_id m) = None then (Some (JoinFailed ''enqueue for match: user not found''), q)
          else if ext JoLoad \<noteq> IoOk then (Some (JoinFailed ''enqueue for match: load active match''), q)
          else case row_of am_user_id (qm_user_id m) (db_claims d) of
              Some c \<Rightarrow> (Some (JoinActive (am_match_id c)), q)
            | None \<Rightarrow>
                (case enqueue m q of
                   (Inl e, q') \<Rightarrow> (Some (JoinFailed (''enqueue for match: '' @ e)), q')
                 | (Inr _, q') \<Rightarrow> (None, q'))))"

section \<open>Inbound messages\<close>

datatype inbound = JoinQueue | LeaveQueue | SubmitCode submit_code_data

text \<open>\<open>decodeEmptyData\<close>: no data, \<open>null\<close>, or an object without members.\<close>

definition decode_empty_data :: "json option \<Rightarrow> bool" where
  "decode_empty_data data =
     (case data of None \<Rightarrow> True | Some v \<Rightarrow> decode_struct (\<lambda>k w x. None) () v \<noteq> None)"

definition decode_inbound :: "uuid_lib \<Rightarrow> string \<Rightarrow> string + inbound" where
  "decode_inbound U raw =
     (case decode_envelope raw of
        Inl _ \<Rightarrow> Inl ''invalid message''
      | Inr env \<Rightarrow>
          if rv_type env = ''join_queue'' then
            (if decode_empty_data (rv_data env) then Inr JoinQueue else Inl ''invalid join_queue'')
          else if rv_type env = ''leave_queue'' then
            (if decode_empty_data (rv_data env) then Inr LeaveQueue else Inl ''invalid leave_queue'')
          else if rv_type env = ''submit_code'' then
            (case decode_submit_code_data U (rv_data env) of
               Inl _ \<Rightarrow> Inl ''invalid submit_code'' | Inr s \<Rightarrow> Inr (SubmitCode s))
          else Inl ''unknown message type'')"

section \<open>Replies\<close>

definition error_reply :: "string \<Rightarrow> string \<Rightarrow> string \<Rightarrow> string \<Rightarrow> message_data" where
  "error_reply code message match_id request_id =
     ErrorData \<lparr>ed_code = code, ed_message = message, ed_match_id = match_id, ed_request_id = request_id\<rparr>"

definition encode_error :: "time_lib \<Rightarrow> string \<Rightarrow> string + string" where
  "encode_error T message = encode_text T ''error'' (Some (error_reply '''' message '''' ''''))"

definition encode_error_code :: "time_lib \<Rightarrow> string \<Rightarrow> string \<Rightarrow> string + string" where
  "encode_error_code T code message = encode_text T ''error'' (Some (error_reply code message '''' ''''))"

definition submission_error_code :: "submit_error \<Rightarrow> string \<times> string" where
  "submission_error_code e =
     (case e of
        ErrInvalidRequest \<Rightarrow> (''invalid_request'', ''invalid request'')
      | ErrNotMatchPlayer \<Rightarrow> (''not_match_player'', ''not a match player'')
      | ErrDeadlinePassed \<Rightarrow> (''deadline_passed'', ''deadline passed'')
      | ErrMatchNotFound \<Rightarrow> (''match_not_active'', ''match not active'')
      | ErrMatchNotActive \<Rightarrow> (''match_not_active'', ''match not active'')
      | ErrIdempotencyConflict \<Rightarrow> (''idempotency_conflict'', ''idempotency conflict'')
      | ErrAccept _ \<Rightarrow> (''submission_unavailable'', ''unable to accept submission''))"

definition encode_submission_error :: "time_lib \<Rightarrow> submit_error \<Rightarrow> string \<Rightarrow> string + string" where
  "encode_submission_error T e request_id =
     (case submission_error_code e of (code, message) \<Rightarrow>
        encode_text T ''error'' (Some (error_reply code message '''' request_id)))"

section \<open>Handling a message\<close>

record conn_id =
  ci_user_id :: uuid
  ci_presence_key :: string
  ci_route :: string

definition conn_queue_member :: "conn_id \<Rightarrow> queue_member" where
  "conn_queue_member c =
     \<lparr>qm_user_id = ci_user_id c, qm_presence_key = ci_presence_key c, qm_route = ci_route c, qm_rating = 0\<rparr>"

text \<open>The operations of a connection; each may be nil.\<close>

record 's conn_ops =
  co_enqueue :: "(queue_member \<Rightarrow> 's \<Rightarrow> join_error option \<times> 's) option"
  co_dequeue :: "(queue_member \<Rightarrow> 's \<Rightarrow> (string + bool) \<times> 's) option"
  co_accept :: "(request \<Rightarrow> 's \<Rightarrow> (submit_error + uuid) \<times> 's) option"

definition parse_or_nil :: "uuid_lib \<Rightarrow> string \<Rightarrow> uuid" where
  "parse_or_nil U s = (case uuid_parse U s of None \<Rightarrow> nil_uuid | Some u \<Rightarrow> u)"

definition submission_request :: "uuid_lib \<Rightarrow> conn_id \<Rightarrow> submit_code_data \<Rightarrow> request" where
  "submission_request U c s =
     \<lparr>rq_player_id = ci_user_id c, rq_match_id = parse_or_nil U (sc_match_id s),
      rq_request_id = parse_or_nil U (sc_request_id s), rq_language = sc_language s, rq_code = sc_code s\<rparr>"

text \<open>\<open>handleInbound\<close>: the reply, or the error that ends the connection.\<close>

definition handle_inbound ::
  "time_lib \<Rightarrow> uuid_lib \<Rightarrow> conn_id \<Rightarrow> 's conn_ops \<Rightarrow> string \<Rightarrow> 's \<Rightarrow> (string + string) \<times> 's" where
  "handle_inbound T U c ops raw w =
     (case decode_inbound U raw of
        Inl message \<Rightarrow> (encode_error T message, w)
      | Inr JoinQueue \<Rightarrow>
          (case co_enqueue ops of
             None \<Rightarrow> (encode_error_code T ''queue_unavailable'' ''unable to join queue'', w)
           | Some enqueue \<Rightarrow>
               (case enqueue (conn_queue_member c) w of
                  (None, w') \<Rightarrow> (encode_text T ''queued'' (Some QueuedData), w')
                | (Some (JoinActive k), w') \<Rightarrow>
                    (encode_text T ''error'' (Some (error_reply ''already_in_match'' ''player already has an active match''
                       (uuid_string U k) '''')), w')
                | (Some (JoinFailed e), w') \<Rightarrow>
                    (encode_error_code T ''queue_unavailable'' ''unable to join queue'', w')))
      | Inr LeaveQueue \<Rightarrow>
          (case co_dequeue ops of
             None \<Rightarrow> (encode_error_code T ''queue_unavailable'' ''unable to leave queue'', w)
           | Some dequeue \<Rightarrow>
               (case dequeue (conn_queue_member c) w of
                  (Inl e, w') \<Rightarrow> (encode_error_code T ''queue_unavailable'' ''unable to leave queue'', w')
                | (Inr removed, w') \<Rightarrow> (encode_text T ''queue_left'' (Some (QueueLeftData removed)), w')))
      | Inr (SubmitCode s) \<Rightarrow>
          (case co_accept ops of
             None \<Rightarrow> (encode_error T ''unable to accept submission'', w)
           | Some accept_submission \<Rightarrow>
               (case accept_submission (submission_request U c s) w of
                  (Inl e, w') \<Rightarrow> (encode_submission_error T e (sc_request_id s), w')
                | (Inr sid, w') \<Rightarrow>
                    (encode_text T ''judging'' (Some (JudgingData
                       \<lparr>jd_request_id = sc_request_id s, jd_submission_id = uuid_string U sid\<rparr>)), w'))))"

section \<open>The operations of a connection\<close>

text \<open>
  The state a message can change: the database, the matchmaking queue and the judge stream;
  and everything outside the process that decides what a call does.
\<close>

record gateway_state =
  gs_db :: db
  gs_queue :: mm
  gs_stream :: stream

record gateway_env =
  ge_db :: bool
  ge_redis :: bool
  ge_now :: time
  ge_join :: "join_call \<Rightarrow> io"
  ge_queue :: io
  ge_queue_now :: int
  ge_accept :: "accept_call \<Rightarrow> io"
  ge_created :: time
  ge_fresh :: uuid
  ge_dispatcher :: dispatcher
  ge_add :: "uuid \<Rightarrow> io"
  ge_entry_id :: "stream \<Rightarrow> string"
  ge_mark :: io
  ge_marked_at :: time

definition ws_enqueue :: "uuid_lib \<Rightarrow> codec \<Rightarrow> gateway_env \<Rightarrow> queue_member \<Rightarrow> gateway_state \<Rightarrow> join_error option \<times> gateway_state" where
  "ws_enqueue U C e m w =
     (case enqueue_for_match U (ge_db e) (Some (queue_join U C (ge_redis e) (ge_queue e) (ge_queue_now e))) (ge_join e) m
        (gs_db w) (gs_queue w) of (r, q) \<Rightarrow> (r, w\<lparr>gs_queue := q\<rparr>))"

definition ws_dequeue :: "uuid_lib \<Rightarrow> codec \<Rightarrow> gateway_env \<Rightarrow> queue_member \<Rightarrow> gateway_state \<Rightarrow> (string + bool) \<times> gateway_state" where
  "ws_dequeue U C e m w =
     (case queue_leave U C (ge_redis e) (ge_queue e) m (gs_queue w) of (r, q) \<Rightarrow> (r, w\<lparr>gs_queue := q\<rparr>))"

definition ws_accept :: "uuid_lib \<Rightarrow> gateway_env \<Rightarrow> request \<Rightarrow> gateway_state \<Rightarrow> (submit_error + uuid) \<times> gateway_state" where
  "ws_accept U e r w =
     (case gateway_accept U (ge_dispatcher e) (ge_add e) (ge_entry_id e) (ge_mark e) (ge_marked_at e) (ge_accept e)
        (ge_now e) (ge_created e) (ge_fresh e) r (gs_db w, gs_stream w) of
        (res, d, q) \<Rightarrow> (res, w\<lparr>gs_db := d, gs_stream := q\<rparr>))"

definition ws_ops :: "uuid_lib \<Rightarrow> codec \<Rightarrow> gateway_env \<Rightarrow> gateway_state conn_ops" where
  "ws_ops U C e =
     \<lparr>co_enqueue = Some (ws_enqueue U C e), co_dequeue = Some (ws_dequeue U C e), co_accept = Some (ws_accept U e)\<rparr>"

definition ws_handle ::
  "time_lib \<Rightarrow> uuid_lib \<Rightarrow> codec \<Rightarrow> gateway_env \<Rightarrow> conn_id \<Rightarrow> string \<Rightarrow> gateway_state \<Rightarrow> (string + string) \<times> gateway_state" where
  "ws_handle T U C e c raw w = handle_inbound T U c (ws_ops U C e) raw w"

section \<open>Lemmas on the queue\<close>

lemma queue_join_others:
  "queue_join U C cl x now m s = (r, s') \<Longrightarrow> u \<noteq> uuid_string U (qm_user_id m) \<Longrightarrow> mm_members s' u = mm_members s u"
  by (auto simp: queue_join_def enqueue_script_def Let_def split: if_splits sum.splits option.splits)

lemma queue_leave_others:
  "queue_leave U C cl x m s = (r, s') \<Longrightarrow> u \<noteq> uuid_string U (qm_user_id m) \<Longrightarrow> mm_members s' u = mm_members s u"
  by (auto simp: queue_leave_def dequeue_script_def Let_def split: if_splits sum.splits option.splits)

lemma enqueue_script_member: "mm_members (snd (enqueue_script now uid raw s)) uid = Some raw"
  by (auto simp: enqueue_script_def Let_def split: option.splits)

text \<open>A user with a claim is refused before the queue is called.\<close>

lemma enqueue_for_match_claimed:
  assumes "in_active_match d (qm_user_id m)" "enqueue_for_match U has_db queue ext m d q = (r, q')"
  shows "q' = q \<and> r \<noteq> None"
proof -
  have "row_of am_user_id (qm_user_id m) (db_claims d) \<noteq> None"
    using assms(1) by (auto simp: in_active_match_def row_of_None_iff)
  with assms(2) show ?thesis
    by (auto simp: enqueue_for_match_def split: option.splits if_splits)
qed

lemma enqueue_for_match_queue:
  assumes "enqueue_for_match U has_db (Some enqueue) ext m d q = (r, q')"
  obtains "q' = q" "r \<noteq> None" | x where "enqueue m q = (x, q')" "r = None \<longleftrightarrow> (\<exists>y. x = Inr y)"
  using assms by (auto simp: enqueue_for_match_def split: option.splits if_splits prod.splits sum.splits)

lemma enqueue_for_match_free:
  assumes "member_validate U m = None" "user_of d (qm_user_id m) \<noteq> None" "\<not> in_active_match d (qm_user_id m)"
    and "\<And>c. ext c = IoOk" "enqueue m q = (Inr y, q')"
  shows "enqueue_for_match U True (Some enqueue) ext m d q = (None, q')"
proof -
  have "row_of am_user_id (qm_user_id m) (db_claims d) = None"
    using assms(3) by (auto simp: in_active_match_def row_of_None_iff)
  with assms show ?thesis by (simp add: enqueue_for_match_def)
qed

section \<open>Lemmas on submissions\<close>

lemma same_but_enqueued_back:
  assumes "same_but_enqueued d d'" "r \<in> set (db_submissions d')"
  obtains r0 where "r0 \<in> set (db_submissions d)" "r0\<lparr>s_last_enqueued_at := None\<rparr> = r\<lparr>s_last_enqueued_at := None\<rparr>"
proof -
  have "map (\<lambda>r. r\<lparr>s_last_enqueued_at := None\<rparr>) (db_submissions d') =
      map (\<lambda>r. r\<lparr>s_last_enqueued_at := None\<rparr>) (db_submissions d)"
    using arg_cong [OF assms(1) [unfolded same_but_enqueued_def], of db_submissions] by simp
  then have "r\<lparr>s_last_enqueued_at := None\<rparr> \<in> (\<lambda>r. r\<lparr>s_last_enqueued_at := None\<rparr>) ` set (db_submissions d)"
    using assms(2) by (metis image_eqI list.set_map)
  then show thesis using that by auto
qed

text \<open>The rows a submission adds: at most one, the user's own, for a match it may submit to.\<close>

definition own_new_row :: "db \<Rightarrow> time \<Rightarrow> request \<Rightarrow> submission_row \<Rightarrow> bool" where
  "own_new_row d now q r \<longleftrightarrow>
     s_player_id r = rq_player_id q \<and> s_match_id r = rq_match_id q \<and> s_request_id r = rq_request_id q \<and>
     s_language r = rq_language q \<and> s_code r = rq_code q \<and> s_status r = ''pending'' \<and>
     is_player d (rq_match_id q) (rq_player_id q) \<and>
     (\<exists>m. match_of d (rq_match_id q) = Some m \<and> m_status m = ''active'' \<and> now < m_deadline m)"

lemma gateway_accept_new_rows:
  assumes "gateway_accept U D x gen mark marked_at ext now created fresh q w = (res, d', st')"
    and "r \<in> set (db_submissions d')" "\<forall>s\<in>set (db_submissions (fst w)). s_id s \<noteq> s_id r"
  shows "own_new_row (fst w) now q r"
proof (cases "request_valid q")
  case False
  then have "d' = fst w"
    using assms(1) by (auto simp: gateway_accept_def accept_def)
  with assms(2,3) show ?thesis by blast
next
  case True
  obtain res0 d0 where tx: "accept_tx ext now created fresh q (fst w) = (res0, d0)" and same: "same_but_enqueued d0 d'"
    using gateway_accept_tx [OF assms(1) True] by metis
  obtain r0 where r0: "r0 \<in> set (db_submissions d0)" "r0\<lparr>s_last_enqueued_at := None\<rparr> = r\<lparr>s_last_enqueued_at := None\<rparr>"
    using same_but_enqueued_back [OF same assms(2)] .
  note f = same_but_enqueued_fields [OF r0(2)]
  have status: "s_status r0 = s_status r" using r0(2) by (cases r; cases r0) simp
  have new: "r0 \<notin> set (db_submissions (fst w))" using assms(3) f(1) by auto
  show ?thesis
    using tx
  proof (cases rule: accept_tx_cases)
    case (inserted m)
    have "r0 = new_submission fresh created q"
      using r0(1) new insert_submission_SomeD(1) [OF inserted(7)] by auto
    with f status inserted(2-5) show ?thesis
      by (simp add: own_new_row_def new_submission_def)
  qed (use r0(1) new in auto)
qed

section \<open>Lemmas on replies\<close>

lemma encode_text_ok [simp]: "typ \<noteq> '''' \<Longrightarrow> \<exists>reply. encode_text T typ payload = Inr reply"
  by (simp add: encode_text_def encode_def)

lemma replies_ok [simp]:
  "\<exists>reply. encode_error T message = Inr reply" "\<exists>reply. encode_error_code T code message = Inr reply"
  "\<exists>reply. encode_submission_error T e rid = Inr reply"
  by (simp_all add: encode_error_def encode_error_code_def encode_submission_error_def split: prod.splits)

lemma handle_inbound_replies: "\<exists>reply w'. handle_inbound T U c ops raw w = (Inr reply, w')"
  by (auto simp: handle_inbound_def split: sum.splits inbound.splits option.splits prod.splits join_error.splits)

lemma decode_inbound_submission: "decode_inbound U raw = Inr (SubmitCode s) \<Longrightarrow> submit_code_validate U s = None"
  by (auto simp: decode_inbound_def dest: decode_submit_code_valid split: sum.splits if_splits)

text \<open>A valid submission that was encoded is decoded as it was.\<close>

lemma decode_inbound_encoded:
  assumes "encode_text T ''submit_code'' (Some (SubmitCodeData s)) = Inr raw" "submit_code_validate U s = None"
    and "utf8_valid (sc_match_id s)" "utf8_valid (sc_request_id s)"
  shows "decode_inbound U raw = Inr (SubmitCode s)"
  using decode_encode_text [OF assms(1) languages_utf8(4)] submit_code_arrives [OF assms(2-4), of T]
  by (simp add: decode_inbound_def)

lemma decode_inbound_join:
  assumes "encode_text T ''join_queue'' None = Inr raw"
  shows "decode_inbound U raw = Inr JoinQueue"
proof -
  have "utf8_valid ''join_queue''" by code_simp
  from decode_encode_text [OF assms this] show ?thesis
    by (simp add: decode_inbound_def decode_empty_data_def)
qed

section \<open>Properties\<close>


text \<open>
  A free user who asks to join is queued: when no call fails, \<open>join_queue\<close> of an
  existing user without an active match, with the member the gateway makes for the connection,
  is answered with \<open>queued\<close> and leaves the user's member in the queue; when the user has an
  active match the answer names it.
\<close>

theorem join_answered:
  assumes "decode_inbound U raw = Inr JoinQueue" "member_validate U (conn_queue_member c) = None"
    and "ge_db e" "ge_redis e" "\<forall>x. ge_join e x = IoOk" "ge_queue e = IoOk"
    and "user_of (gs_db w) (ci_user_id c) \<noteq> None"
  shows "if in_active_match (gs_db w) (ci_user_id c)
    then \<exists>cl\<in>set (db_claims (gs_db w)). am_user_id cl = ci_user_id c \<and>
      ws_handle T U C e c raw w = (encode_text T ''error'' (Some (error_reply ''already_in_match''
        ''player already has an active match'' (uuid_string U (am_match_id cl)) '''')), w)
    else \<exists>q. ws_handle T U C e c raw w = (encode_text T ''queued'' (Some QueuedData), w\<lparr>gs_queue := q\<rparr>)
      \<and> mm_members q (uuid_string U (ci_user_id c)) = Some (marshal C (conn_queue_member c))"
proof -
  let ?m = "conn_queue_member c"
  have m: "qm_user_id ?m = ci_user_id c" by (simp add: conn_queue_member_def)
  show ?thesis
  proof (cases "in_active_match (gs_db w) (ci_user_id c)")
    case True
    then have "row_of am_user_id (ci_user_id c) (db_claims (gs_db w)) \<noteq> None"
      by (auto simp: in_active_match_def row_of_None_iff)
    then obtain cl where cl: "row_of am_user_id (ci_user_id c) (db_claims (gs_db w)) = Some cl" by blast
    then have "cl \<in> set (db_claims (gs_db w)) \<and> am_user_id cl = ci_user_id c" by (rule row_of_SomeD)
    moreover have "ws_handle T U C e c raw w = (encode_text T ''error'' (Some (error_reply ''already_in_match''
        ''player already has an active match'' (uuid_string U (am_match_id cl)) '''')), w)"
      using assms by (auto simp: ws_handle_def handle_inbound_def ws_ops_def ws_enqueue_def enqueue_for_match_def m cl)
    ultimately show ?thesis using True by auto
  next
    case False
    let ?q = "snd (enqueue_script (ge_queue_now e) (uuid_string U (ci_user_id c)) (marshal C ?m) (gs_queue w))"
    have "queue_join U C (ge_redis e) (ge_queue e) (ge_queue_now e) ?m (gs_queue w)
        = (Inr (fst (enqueue_script (ge_queue_now e) (uuid_string U (ci_user_id c)) (marshal C ?m) (gs_queue w))), ?q)"
      using assms(2,4,6) by (simp add: queue_join_def encode_member_def m split: prod.splits)
    then have "enqueue_for_match U True (Some (queue_join U C (ge_redis e) (ge_queue e) (ge_queue_now e))) (ge_join e) ?m
        (gs_db w) (gs_queue w) = (None, ?q)"
      using assms(2,5,7) False m by (intro enqueue_for_match_free) auto
    then have "ws_handle T U C e c raw w = (encode_text T ''queued'' (Some QueuedData), w\<lparr>gs_queue := ?q\<rparr>)"
      using assms(1,3) by (simp add: ws_handle_def handle_inbound_def ws_ops_def ws_enqueue_def)
    with False show ?thesis using enqueue_script_member by auto
  qed
qed

section \<open>Witnesses\<close>

definition ex_time_lib :: time_lib where
  "ex_time_lib = \<lparr>time_text = (\<lambda>t. if t < 0 then ''-'' @ decimal (nat (- t)) else decimal (nat t)), time_parse = parse_int64\<rparr>"

definition ex_gateway :: gateway_env where
  "ex_gateway = \<lparr>ge_db = True, ge_redis = True, ge_now = 50, ge_join = (\<lambda>_. IoOk), ge_queue = IoOk, ge_queue_now = 5,
     ge_accept = (\<lambda>_. IoOk), ge_created = 50, ge_fresh = 9, ge_dispatcher = ex_dispatcher, ge_add = (\<lambda>_. IoOk),
     ge_entry_id = ex_gen, ge_mark = IoOk, ge_marked_at = 51\<rparr>"

definition ex_gateway_state :: gateway_state where
  "ex_gateway_state = \<lparr>gs_db = ex_db [], gs_queue = ex_mm '''', gs_stream = ex_stream\<rparr>"

definition ex_conn :: "uuid_lib \<Rightarrow> uuid \<Rightarrow> conn_id" where
  "ex_conn U u = \<lparr>ci_user_id = u, ci_presence_key = presence_key U u 3, ci_route = user_channel U u\<rparr>"

text \<open>Player 1 submits to match 100.\<close>

definition ex_submit_data :: submit_code_data where
  "ex_submit_data = \<lparr>sc_match_id = replicate 100 (CHR ''i''), sc_request_id = replicate 7 (CHR ''i''), sc_language = ''cpp'',
     sc_code = ''y''\<rparr>"

definition ex_submit_raw :: string where
  "ex_submit_raw = json_text (envelope_json ex_time_lib \<lparr>env_type = ''submit_code'', env_data = Some (SubmitCodeData ex_submit_data)\<rparr>)"

definition ex_submit_run :: "(string + string) \<times> gateway_state" where
  "ex_submit_run = ws_handle ex_time_lib ex_uuid_lib ex_codec ex_gateway (ex_conn ex_uuid_lib 1) ex_submit_raw ex_gateway_state"


definition ex_join_raw :: string where
  "ex_join_raw = json_text (envelope_json ex_time_lib \<lparr>env_type = ''join_queue'', env_data = None\<rparr>)"

theorem join_answered_witness:
  "fst (ws_handle ex_time_lib ex_ids ex_codec ex_gateway (ex_conn ex_ids 3) ex_join_raw ex_gateway_state)
     = encode_text ex_time_lib ''queued'' (Some QueuedData)
   \<and> snd (ws_handle ex_time_lib ex_ids ex_codec ex_gateway (ex_conn ex_ids 1) ex_join_raw ex_gateway_state) = ex_gateway_state"
proof -
  have "encode_text ex_time_lib ''join_queue'' None = Inr ex_join_raw"
    by (simp add: encode_text_def encode_def ex_join_raw_def)
  then have dec: "decode_inbound ex_ids ex_join_raw = Inr JoinQueue" by (rule decode_inbound_join)
  have valid: "member_validate ex_ids (conn_queue_member (ex_conn ex_ids 3)) = None"
    "member_validate ex_ids (conn_queue_member (ex_conn ex_ids 1)) = None" by code_simp+
  have env: "ge_db ex_gateway" "ge_redis ex_gateway" "\<forall>x. ge_join ex_gateway x = IoOk" "ge_queue ex_gateway = IoOk"
    by (simp_all add: ex_gateway_def)
  have known: "user_of (gs_db ex_gateway_state) (ci_user_id (ex_conn ex_ids 3)) \<noteq> None"
    "user_of (gs_db ex_gateway_state) (ci_user_id (ex_conn ex_ids 1)) \<noteq> None" by code_simp+
  have active: "\<not> in_active_match (gs_db ex_gateway_state) (ci_user_id (ex_conn ex_ids 3))"
    "in_active_match (gs_db ex_gateway_state) (ci_user_id (ex_conn ex_ids 1))" by code_simp+
  show ?thesis
    using join_answered [OF dec valid(1) env known(1), of ex_time_lib ex_codec]
      join_answered [OF dec valid(2) env known(2), of ex_time_lib ex_codec] active
    by auto
qed

end
