(* ===== verification/Token.thy ===== *)
theory Token
  imports Accounts Json
begin

text \<open>
  Access tokens: \<open>internal/gateway/auth.go\<close>. The JWT library is not part of the repository:
  signing, parsing and its precision of times are the parameters \<open>jwt_lib\<close>, with \<open>jwt_ok\<close> their
  documented behaviour. Instants and durations are in nanoseconds here, as in \<open>time.Time\<close>.
\<close>

section \<open>Tokens\<close>

text \<open>The registered claims; the subject is \<open>None\<close> when the claim is not a string.\<close>

record claims =
  jc_subject :: "string option"
  jc_issued_at :: "int option"
  jc_expires_at :: "int option"

text \<open>
  \<open>jwt_parse raw secret now\<close> is \<open>jwt.Parse\<close> with HS256 as the only method and the expiration
  required: the claims of a token signed with the secret and not expired.
\<close>

record jwt_lib =
  jwt_numeric_date :: "int \<Rightarrow> int"
  jwt_sign :: "claims \<Rightarrow> string \<Rightarrow> string option"
  jwt_parse :: "string \<Rightarrow> string \<Rightarrow> int \<Rightarrow> claims option"

definition bearer_safe :: "string \<Rightarrow> bool" where
  "bearer_safe s \<longleftrightarrow> s \<noteq> '''' \<and> (\<forall>c\<in>set s. c \<noteq> CHR '' '' \<and> c \<noteq> CHR 0x09)"

definition jwt_ok :: "jwt_lib \<Rightarrow> bool" where
  "jwt_ok J \<longleftrightarrow>
     (\<forall>t. jwt_numeric_date J t \<le> t \<and> t < jwt_numeric_date J t + 1000000000
        \<and> jwt_numeric_date J (jwt_numeric_date J t) = jwt_numeric_date J t) \<and>
     (\<forall>c secret. jwt_sign J c secret \<noteq> None) \<and>
     (\<forall>c secret raw. jwt_sign J c secret = Some raw \<longrightarrow> bearer_safe raw \<and> \<not> blank raw) \<and>
     (\<forall>c secret raw s e now. jwt_sign J c secret = Some raw \<longrightarrow> jc_subject c = Some s \<longrightarrow> utf8_valid s
        \<longrightarrow> jc_expires_at c = Some e \<longrightarrow> jwt_numeric_date J e = e \<longrightarrow>
        (if now < e then \<exists>c'. jwt_parse J raw secret now = Some c' \<and> jc_subject c' = Some s \<and> jc_expires_at c' = Some e
         else jwt_parse J raw secret now = None))"

record issued_token =
  it_value :: string
  it_expires_at :: int

definition mint_access_token ::
  "uuid_lib \<Rightarrow> jwt_lib \<Rightarrow> int \<Rightarrow> uuid \<Rightarrow> string \<Rightarrow> int \<Rightarrow> string + issued_token" where
  "mint_access_token U J now u secret ttl =
     (if secret = '''' then Inl ''mint token: empty secret''
      else if u = nil_uuid then Inl ''mint token: empty user ID''
      else if ttl \<le> 0 then Inl ''mint token: non-positive TTL''
      else let expires_at = now + ttl;
               claims = \<lparr>jc_subject = Some (uuid_string U u), jc_issued_at = Some (jwt_numeric_date J now),
                         jc_expires_at = Some (jwt_numeric_date J expires_at)\<rparr>
           in case jwt_sign J claims secret of
               None \<Rightarrow> Inl ''mint token''
             | Some raw \<Rightarrow> Inr \<lparr>it_value = raw, it_expires_at = expires_at\<rparr>)"

definition mint_token :: "uuid_lib \<Rightarrow> jwt_lib \<Rightarrow> int \<Rightarrow> uuid \<Rightarrow> string \<Rightarrow> int \<Rightarrow> string + string" where
  "mint_token U J now u secret ttl =
     (case mint_access_token U J now u secret ttl of Inl e \<Rightarrow> Inl e | Inr t \<Rightarrow> Inr (it_value t))"

definition parse_access_token :: "uuid_lib \<Rightarrow> jwt_lib \<Rightarrow> int \<Rightarrow> string \<Rightarrow> string \<Rightarrow> string + uuid \<times> int" where
  "parse_access_token U J now raw secret =
     (if secret = '''' then Inl ''empty secret''
      else case jwt_parse J raw secret now of
          None \<Rightarrow> Inl ''parse token''
        | Some c \<Rightarrow>
      (case jc_subject c of
          None \<Rightarrow> Inl ''subject''
        | Some s \<Rightarrow>
      (case uuid_parse U s of
          None \<Rightarrow> Inl ''subject: invalid user ID''
        | Some u \<Rightarrow>
            if u = nil_uuid then Inl ''subject: invalid user ID''
            else case jc_expires_at c of None \<Rightarrow> Inl ''expiration: missing'' | Some e \<Rightarrow> Inr (u, e))))"

section \<open>Requests\<close>

text \<open>
  What authentication reads of a request: the values of the \<open>Authorization\<close> header and of the
  query parameter \<open>token\<close>.
\<close>

record auth_request =
  ar_authorization :: "string list"
  ar_query_token :: "string list"

definition extract_bearer_token :: "auth_request \<Rightarrow> string + string" where
  "extract_bearer_token r =
     (case ar_authorization r of
        [v] \<Rightarrow>
          (case cut (CHR '' '') v of (scheme, token, found) \<Rightarrow>
             if \<not> found \<or> \<not> equal_fold_ascii scheme ''Bearer'' \<or> token = ''''
                \<or> CHR '' '' \<in> set token \<or> CHR 0x09 \<in> set token
             then Inl ''malformed Bearer token'' else Inr token)
      | _ \<Rightarrow> Inl ''missing or repeated Authorization header'')"

definition extract_web_socket_token :: "auth_request \<Rightarrow> string + string" where
  "extract_web_socket_token r =
     (if ar_authorization r \<noteq> [] then extract_bearer_token r
      else case ar_query_token r of
          [v] \<Rightarrow> if blank v then Inl ''missing or repeated token'' else Inr v
        | _ \<Rightarrow> Inl ''missing or repeated token'')"

section \<open>Authentication\<close>

record principal =
  pr_user :: account_user
  pr_expires_at :: int

text \<open>An error that \<open>errors.Is(err, errUnauthorized)\<close> recognizes, or another one.\<close>

datatype auth_failure = Unauthorized string | AuthUnavailable string

definition authenticate_token ::
  "uuid_lib \<Rightarrow> jwt_lib \<Rightarrow> int \<Rightarrow> string \<Rightarrow> string \<Rightarrow> (uuid \<Rightarrow> auth_error + account_user) option
    \<Rightarrow> auth_failure + principal" where
  "authenticate_token U J now raw secret users =
     (case parse_access_token U J now raw secret of
        Inl e \<Rightarrow> Inl (Unauthorized e)
      | Inr (u, expires_at) \<Rightarrow>
          (case users of
             None \<Rightarrow> Inl (AuthUnavailable ''authenticate token: missing user lookup'')
           | Some lookup \<Rightarrow>
               (case lookup u of
                  Inl e \<Rightarrow> Inl (if e = ErrUserNotFound then Unauthorized ''user not found''
                               else AuthUnavailable ''authenticate token: lookup user'')
                | Inr user \<Rightarrow> Inr \<lparr>pr_user = user, pr_expires_at = expires_at\<rparr>)))"

definition authenticate_rest ::
  "uuid_lib \<Rightarrow> jwt_lib \<Rightarrow> int \<Rightarrow> auth_request \<Rightarrow> string \<Rightarrow> (uuid \<Rightarrow> auth_error + account_user) option
    \<Rightarrow> auth_failure + principal" where
  "authenticate_rest U J now r secret users =
     (case extract_bearer_token r of
        Inl e \<Rightarrow> Inl (Unauthorized e)
      | Inr raw \<Rightarrow> authenticate_token U J now raw secret users)"

definition authenticate_web_socket ::
  "uuid_lib \<Rightarrow> jwt_lib \<Rightarrow> int \<Rightarrow> auth_request \<Rightarrow> string \<Rightarrow> (uuid \<Rightarrow> auth_error + account_user) option
    \<Rightarrow> auth_failure + principal" where
  "authenticate_web_socket U J now r secret users =
     (case extract_web_socket_token r of
        Inl e \<Rightarrow> Inl (Unauthorized e)
      | Inr raw \<Rightarrow> authenticate_token U J now raw secret users)"

text \<open>\<open>Authenticate\<close>: the WebSocket form over the account service.\<close>

definition authenticate ::
  "uuid_lib \<Rightarrow> jwt_lib \<Rightarrow> int \<Rightarrow> auth_request \<Rightarrow> string \<Rightarrow> bool \<Rightarrow> io \<Rightarrow> db \<Rightarrow> auth_failure + uuid" where
  "authenticate U J now r secret has_db ext d =
     (case authenticate_web_socket U J now r secret (Some (\<lambda>k. user_by_id has_db ext k d)) of
        Inl e \<Rightarrow> Inl e | Inr p \<Rightarrow> Inr (au_id (pr_user p)))"

section \<open>Lemmas\<close>

lemma cut_append:
  assumes "sep \<notin> set a"
  shows "cut sep (a @ sep # b) = (a, b, True)"
proof -
  have "dropWhile (\<lambda>c. c \<noteq> sep) (a @ sep # b) = sep # b" "takeWhile (\<lambda>c. c \<noteq> sep) (a @ sep # b) = a"
    using assms by (induction a) auto
  then show ?thesis by (simp add: cut_def)
qed

lemma extract_bearer:
  assumes "equal_fold_ascii scheme ''Bearer''" "bearer_safe token" "ar_authorization r = [scheme @ CHR '' '' # token]"
  shows "extract_bearer_token r = Inr token"
proof -
  have "CHR '' '' \<notin> set scheme"
  proof
    assume "CHR '' '' \<in> set scheme"
    then have "ascii_lower (CHR '' '') \<in> set (map ascii_lower scheme)" by (metis image_eqI set_map)
    moreover have "map ascii_lower ''Bearer'' = ''bearer''" by code_simp
    then have "map ascii_lower scheme = ''bearer''" using assms(1) by (simp only: equal_fold_ascii_def)
    ultimately show False by (simp add: ascii_lower_def)
  qed
  then show ?thesis
    using assms by (auto simp: extract_bearer_token_def cut_append bearer_safe_def)
qed

lemma mint_access_token_InrD:
  assumes "mint_access_token U J now u secret ttl = Inr t"
  shows "secret \<noteq> ''''" "u \<noteq> nil_uuid" "0 < ttl" "it_expires_at t = now + ttl"
    "jwt_sign J \<lparr>jc_subject = Some (uuid_string U u), jc_issued_at = Some (jwt_numeric_date J now),
        jc_expires_at = Some (jwt_numeric_date J (now + ttl))\<rparr> secret = Some (it_value t)"
  using assms by (auto simp: mint_access_token_def Let_def split: if_splits option.splits)

lemma minted_token_parses:
  assumes "jwt_ok J" "uuid_lib_ok U" "utf8_valid (uuid_string U u)" "mint_access_token U J now u secret ttl = Inr t"
  shows "parse_access_token U J later (it_value t) secret =
    (if later < jwt_numeric_date J (now + ttl) then Inr (u, jwt_numeric_date J (now + ttl)) else Inl ''parse token'')"
proof -
  note m = mint_access_token_InrD [OF assms(4)]
  have "jwt_numeric_date J (jwt_numeric_date J (now + ttl)) = jwt_numeric_date J (now + ttl)"
    using assms(1) unfolding jwt_ok_def by blast
  then have "if later < jwt_numeric_date J (now + ttl)
    then \<exists>c'. jwt_parse J (it_value t) secret later = Some c' \<and> jc_subject c' = Some (uuid_string U u)
           \<and> jc_expires_at c' = Some (jwt_numeric_date J (now + ttl))
    else jwt_parse J (it_value t) secret later = None"
    using assms(1,3) m(5) unfolding jwt_ok_def by (metis (no_types, lifting) claims.select_convs(1,3))
  moreover have "uuid_parse U (uuid_string U u) = Some u"
    using assms(2) by (simp add: uuid_lib_ok_def)
  ultimately show ?thesis
    using m(1,2) by (auto simp: parse_access_token_def split: if_splits)
qed

lemma minted_token_shape:
  assumes "jwt_ok J" "mint_access_token U J now u secret ttl = Inr t"
  shows "bearer_safe (it_value t)" "\<not> blank (it_value t)"
  using assms(1) mint_access_token_InrD(5) [OF assms(2)] by (auto simp: jwt_ok_def)

lemma authenticate_token_InrD:
  assumes "authenticate_token U J now raw secret users = Inr p"
  obtains lookup u where "users = Some lookup" "parse_access_token U J now raw secret = Inr (u, pr_expires_at p)"
    "lookup u = Inr (pr_user p)"
  using assms by (auto simp: authenticate_token_def split: sum.splits option.splits prod.splits if_splits)

lemma authenticate_rest_InrD:
  assumes "authenticate_rest U J now r secret users = Inr p"
  obtains raw lookup u where "extract_bearer_token r = Inr raw" "users = Some lookup"
    "parse_access_token U J now raw secret = Inr (u, pr_expires_at p)" "lookup u = Inr (pr_user p)"
  using assms unfolding authenticate_rest_def
  by (auto split: sum.splits elim: authenticate_token_InrD)

section \<open>Properties\<close>

text \<open>
  Property C37. A minted token is its user's, and only until it expires: sent in the
  \<open>Authorization\<close> header with any spelling of \<open>Bearer\<close>, or as the query parameter of the
  WebSocket, it authenticates the user it was minted for before the expiration it carries,
  and nobody afterwards. The expiration is the announced one rounded down to a second.
\<close>

theorem token_authenticates:
  assumes "jwt_ok J" "uuid_lib_ok U" "utf8_valid (uuid_string U u)"
    and "mint_access_token U J now u secret ttl = Inr t"
    and "lookup u = Inr user" "equal_fold_ascii scheme ''Bearer''"
  shows "jwt_numeric_date J (now + ttl) \<le> it_expires_at t \<and> it_expires_at t < jwt_numeric_date J (now + ttl) + 1000000000
    \<and> authenticate_rest U J later \<lparr>ar_authorization = [scheme @ '' '' @ it_value t], ar_query_token = q\<rparr> secret (Some lookup) =
       (if later < jwt_numeric_date J (now + ttl)
        then Inr \<lparr>pr_user = user, pr_expires_at = jwt_numeric_date J (now + ttl)\<rparr>
        else Inl (Unauthorized ''parse token''))
    \<and> authenticate_web_socket U J later \<lparr>ar_authorization = [], ar_query_token = [it_value t]\<rparr> secret (Some lookup) =
       (if later < jwt_numeric_date J (now + ttl)
        then Inr \<lparr>pr_user = user, pr_expires_at = jwt_numeric_date J (now + ttl)\<rparr>
        else Inl (Unauthorized ''parse token''))"
proof -
  note shape = minted_token_shape [OF assms(1,4)]
  have a: "authenticate_token U J later (it_value t) secret (Some lookup) =
       (if later < jwt_numeric_date J (now + ttl)
        then Inr \<lparr>pr_user = user, pr_expires_at = jwt_numeric_date J (now + ttl)\<rparr>
        else Inl (Unauthorized ''parse token''))"
    by (simp add: authenticate_token_def minted_token_parses [OF assms(1-4)] assms(5))
  have "extract_bearer_token \<lparr>ar_authorization = [scheme @ '' '' @ it_value t], ar_query_token = q\<rparr> = Inr (it_value t)"
    by (rule extract_bearer [OF assms(6) shape(1)]) simp
  moreover have "extract_web_socket_token \<lparr>ar_authorization = [], ar_query_token = [it_value t]\<rparr> = Inr (it_value t)"
    using shape(2) by (simp add: extract_web_socket_token_def)
  moreover have "jwt_numeric_date J (now + ttl) \<le> now + ttl \<and> now + ttl < jwt_numeric_date J (now + ttl) + 1000000000"
    using assms(1) unfolding jwt_ok_def by blast
  ultimately show ?thesis
    using a mint_access_token_InrD(4) [OF assms(4)]
    by (simp add: authenticate_rest_def authenticate_web_socket_def)
qed

section \<open>Witness\<close>

text \<open>A library that writes the subject in hexadecimal and the expiration in unary.\<close>

fun ex_hex :: "string \<Rightarrow> string" where
  "ex_hex [] = []"
| "ex_hex (c # s) = hex_digit (byte c div 16) # hex_digit (byte c mod 16) # ex_hex s"

fun ex_unhex :: "string \<Rightarrow> string" where
  "ex_unhex (a # b # s) =
     (case (hex_value a, hex_value b) of (Some i, Some j) \<Rightarrow> char_of (i * 16 + j) # ex_unhex s | _ \<Rightarrow> [])"
| "ex_unhex _ = []"

definition ex_unary :: "int \<Rightarrow> string" where
  "ex_unary e = replicate (nat e) (CHR ''1'') @ CHR ''-'' # replicate (nat (- e)) (CHR ''1'')"

definition ex_jwt :: jwt_lib where
  "ex_jwt = \<lparr>jwt_numeric_date = (\<lambda>t. t - t mod 1000000000),
     jwt_sign = (\<lambda>c secret. Some (CHR ''x'' # ex_hex (case jc_subject c of None \<Rightarrow> '''' | Some s \<Rightarrow> s) @ CHR ''.'' #
       ex_unary (case jc_expires_at c of None \<Rightarrow> 0 | Some e \<Rightarrow> e))),
     jwt_parse = (\<lambda>raw secret now. case cut (CHR ''.'') (tl raw) of (h, t, _) \<Rightarrow>
       (case cut (CHR ''-'') t of (a, b, _) \<Rightarrow>
          let e = int (length a) - int (length b) in
          if now < e then Some \<lparr>jc_subject = Some (ex_unhex h), jc_issued_at = None, jc_expires_at = Some e\<rparr> else None))\<rparr>"

lemma ex_unhex_hex: "ex_unhex (ex_hex s) = s"
proof (induction s)
  case (Cons c s)
  have b: "byte c < 256" by simp
  then have "byte c div 16 < 16" by (intro less_mult_imp_div_less) simp
  then show ?case using Cons by (simp add: hex_digit_value)
qed simp

lemma ex_hex_digits: "c \<in> set (ex_hex s) \<Longrightarrow> hex_value c \<noteq> None"
proof (induction s)
  case (Cons d s)
  have "byte d < 256" by simp
  then have "byte d div 16 < 16" by (intro less_mult_imp_div_less) simp
  then show ?case using Cons by (auto simp: hex_digit_value)
qed simp

lemma ex_hex_safe: "c \<in> set (ex_hex s) \<Longrightarrow> c \<noteq> CHR ''.'' \<and> c \<noteq> CHR '' '' \<and> c \<noteq> CHR 0x09"
  using ex_hex_digits [of c s] by (auto simp: hex_value_def)

lemma ex_unary_length: "int (nat e) - int (nat (- e)) = e"
  by simp

lemma ex_jwt_ok: "jwt_ok ex_jwt"
proof -
  have d: "t - t mod 1000000000 \<le> t \<and> t < t - t mod 1000000000 + 1000000000
      \<and> t - t mod 1000000000 - (t - t mod 1000000000) mod 1000000000 = t - t mod 1000000000" for t :: int
  proof -
    have "(t - t mod 1000000000) mod 1000000000 = 0" by (simp add: mod_eq_0_iff_dvd)
    then show ?thesis using pos_mod_bound [of 1000000000 t] pos_mod_sign [of 1000000000 t] by simp
  qed
  have nb: "space_width (CHR ''x'' # s) = 0" for s
    by (simp add: space_width_def space_encodings_def)
  have cut1: "cut (CHR ''.'') (ex_hex s @ CHR ''.'' # t) = (ex_hex s, t, True)" for s t
    using ex_hex_safe [of _ s] by (intro cut_append) auto
  have cut2: "cut (CHR ''-'') (ex_unary e) = (replicate (nat e) (CHR ''1''), replicate (nat (- e)) (CHR ''1''), True)" for e
    unfolding ex_unary_def by (intro cut_append) auto
  have safe: "bearer_safe (CHR ''x'' # ex_hex s @ CHR ''.'' # ex_unary e)" for s e
    using ex_hex_safe [of _ s] by (auto simp: bearer_safe_def ex_unary_def)
  show ?thesis
    unfolding jwt_ok_def
    using d by (auto simp: ex_jwt_def safe nb cut1 cut2 ex_unhex_hex ex_unary_length Let_def)
qed

lemma ex_uuid_text: "utf8_valid (uuid_string ex_uuid_lib u)"
  by (rule utf8_valid_ascii) (simp add: ex_uuid_lib_def)

definition ex_lookup :: "uuid \<Rightarrow> auth_error + account_user" where
  "ex_lookup u = (if u = 5 then Inr ex_alice else Inl ErrUserNotFound)"

theorem token_authenticates_witness:
  "\<exists>t. mint_access_token ex_uuid_lib ex_jwt 500 5 ''secret'' 3000000000 = Inr t
    \<and> authenticate_rest ex_uuid_lib ex_jwt 2999999999 \<lparr>ar_authorization = [''bEARER'' @ '' '' @ it_value t], ar_query_token = []\<rparr>
         ''secret'' (Some ex_lookup) = Inr \<lparr>pr_user = ex_alice, pr_expires_at = 3000000000\<rparr>
    \<and> authenticate_rest ex_uuid_lib ex_jwt 3000000000 \<lparr>ar_authorization = [''bEARER'' @ '' '' @ it_value t], ar_query_token = []\<rparr>
         ''secret'' (Some ex_lookup) = Inl (Unauthorized ''parse token'')"
proof -
  have "\<exists>t. mint_access_token ex_uuid_lib ex_jwt 500 5 ''secret'' 3000000000 = Inr t"
    by (simp add: mint_access_token_def nil_uuid_def ex_jwt_def Let_def)
  then obtain t where t: "mint_access_token ex_uuid_lib ex_jwt 500 5 ''secret'' 3000000000 = Inr t" by blast
  have n: "jwt_numeric_date ex_jwt (500 + 3000000000) = 3000000000"
    by (simp add: ex_jwt_def)
  have f: "equal_fold_ascii ''bEARER'' ''Bearer''" by code_simp
  have l: "ex_lookup 5 = Inr ex_alice" by (simp add: ex_lookup_def)
  note p = token_authenticates [where lookup = ex_lookup and u = 5, OF ex_jwt_ok ex_uuid_lib_ok ex_uuid_text t l f, unfolded n]
  show ?thesis
    by (rule exI [of _ t]) (use t p [of 2999999999 "[]"] p [of 3000000000 "[]"] in simp)
qed

end
