(* ===== verification/Cli.thy ===== *)
theory Cli
  imports Gateway Token
begin

text \<open>
  The command line client (\<open>tools/duelcli/main.go\<close>): the token it presents, what it remembers of
  the messages it receives, and the messages it makes of the lines it reads. Reading the flags,
  the socket and the terminal is outside; a file read for \<open>submit-file\<close> and the fresh request
  identifier are arguments.
\<close>

section \<open>Arguments\<close>

definition token_ttl :: int where
  "token_ttl = 24 * 3600 * 1000000000"

definition resolve_token :: "uuid_lib \<Rightarrow> jwt_lib \<Rightarrow> int \<Rightarrow> string \<Rightarrow> string \<Rightarrow> string \<Rightarrow> string + string" where
  "resolve_token U J now user secret token =
     (if token \<noteq> '''' then Inr token
      else if user = '''' then Inl ''missing -user (or pass -token)''
      else case uuid_parse U user of
          None \<Rightarrow> Inl ''parse -user''
        | Some u \<Rightarrow> mint_token U J now u (if secret = '''' then ''codeduel-dev-secret'' else secret) token_ttl)"

definition parse_match_id :: "uuid_lib \<Rightarrow> string \<Rightarrow> string + uuid" where
  "parse_match_id U raw =
     (if raw = '''' then Inr nil_uuid
      else case uuid_parse U raw of
          None \<Rightarrow> Inl ''parse -match-id: must be a non-nil UUID''
        | Some u \<Rightarrow> if u = nil_uuid then Inl ''parse -match-id: must be a non-nil UUID'' else Inr u)"

section \<open>Messages received\<close>

text \<open>
  \<open>json.Unmarshal\<close> ignores members that no field takes. A time is parsed from the text between
  the quotes as it stands; an integer from the text of the number.
\<close>

definition decode_time :: "time_lib \<Rightarrow> json \<Rightarrow> time \<Rightarrow> time option" where
  "decode_time T v old = (case v of JNull \<Rightarrow> Some old | JString r \<Rightarrow> time_parse T r | _ \<Rightarrow> None)"

definition decode_int :: "json \<Rightarrow> int \<Rightarrow> int option" where
  "decode_int v old = (case v of JNull \<Rightarrow> Some old | JNumber n \<Rightarrow> parse_int64 n | _ \<Rightarrow> None)"

definition ready_field :: "string \<Rightarrow> json \<Rightarrow> string \<Rightarrow> string option" where
  "ready_field k v u = (if is_field ''user_id'' k then decode_string v u else Some u)"

definition queued_field :: "string \<Rightarrow> json \<Rightarrow> unit \<Rightarrow> unit option" where
  "queued_field k v x = Some x"

definition match_start_field :: "time_lib \<Rightarrow> string \<Rightarrow> json \<Rightarrow> match_start_data \<Rightarrow> match_start_data option" where
  "match_start_field T k v m =
     (if is_field ''match_id'' k then map_option (\<lambda>x. m\<lparr>ms_match_id := x\<rparr>) (decode_string v (ms_match_id m))
      else if is_field ''problem_id'' k then map_option (\<lambda>x. m\<lparr>ms_problem_id := x\<rparr>) (decode_string v (ms_problem_id m))
      else if is_field ''deadline'' k then map_option (\<lambda>x. m\<lparr>ms_deadline := x\<rparr>) (decode_time T v (ms_deadline m))
      else Some m)"

definition match_end_field :: "string \<Rightarrow> json \<Rightarrow> match_end_data \<Rightarrow> match_end_data option" where
  "match_end_field k v m =
     (if is_field ''event_id'' k then map_option (\<lambda>x. m\<lparr>me_event_id := x\<rparr>) (decode_string v (me_event_id m))
      else if is_field ''match_id'' k then map_option (\<lambda>x. m\<lparr>me_match_id := x\<rparr>) (decode_string v (me_match_id m))
      else if is_field ''winner_id'' k then map_option (\<lambda>x. m\<lparr>me_winner_id := x\<rparr>) (decode_string v (me_winner_id m))
      else if is_field ''outcome'' k then map_option (\<lambda>x. m\<lparr>me_outcome := x\<rparr>) (decode_string v (me_outcome m))
      else if is_field ''tests_passed'' k then map_option (\<lambda>x. m\<lparr>me_tests_passed := x\<rparr>) (decode_int v (me_tests_passed m))
      else if is_field ''total_tests'' k then map_option (\<lambda>x. m\<lparr>me_total_tests := x\<rparr>) (decode_int v (me_total_tests m))
      else Some m)"

text \<open>\<open>Decode\<close> of a message of the given type and \<open>DecodeData\<close> of its data, \<open>None\<close> for any error.\<close>

definition received :: "string \<Rightarrow> (string \<Rightarrow> json \<Rightarrow> 'a \<Rightarrow> 'a option) \<Rightarrow> 'a \<Rightarrow> string \<Rightarrow> 'a option" where
  "received typ set_field zero raw =
     (case decode_envelope raw of
        Inl _ \<Rightarrow> None
      | Inr e \<Rightarrow> if rv_type e \<noteq> typ then None else decode_data set_field e zero)"

definition is_ready :: "uuid_lib \<Rightarrow> string \<Rightarrow> bool" where
  "is_ready U raw =
     (case received ''ready'' ready_field '''' raw of
        None \<Rightarrow> False
      | Some u \<Rightarrow> (case uuid_parse U u of None \<Rightarrow> False | Some v \<Rightarrow> v \<noteq> nil_uuid))"

definition is_queued :: "string \<Rightarrow> bool" where
  "is_queued raw \<longleftrightarrow> received ''queued'' queued_field () raw \<noteq> None"

text \<open>The zero \<open>time.Time\<close> a struct starts with is overwritten or left; the client never reads it.\<close>

definition remember_match_start :: "time_lib \<Rightarrow> uuid_lib \<Rightarrow> string \<Rightarrow> uuid \<Rightarrow> uuid" where
  "remember_match_start T U raw m =
     (case received ''match_start'' (match_start_field T) \<lparr>ms_match_id = '''', ms_problem_id = '''', ms_deadline = 0\<rparr> raw of
        None \<Rightarrow> m
      | Some d \<Rightarrow> (case uuid_parse U (ms_match_id d) of
          None \<Rightarrow> m
        | Some u \<Rightarrow> if u = nil_uuid then m else u))"

definition format_int :: "int \<Rightarrow> string" where
  "format_int i = (if i < 0 then ''-'' else '''') @ decimal (nat \<bar>i\<bar>)"

definition note_match_end :: "string \<Rightarrow> string option" where
  "note_match_end raw =
     (case received ''match_end'' match_end_field
         \<lparr>me_event_id = '''', me_match_id = '''', me_winner_id = '''', me_outcome = '''', me_tests_passed = 0, me_total_tests = 0\<rparr> raw of
        None \<Rightarrow> None
      | Some d \<Rightarrow> Some (''match ended '' @ me_match_id d @ '' outcome='' @ me_outcome d
          @ (if me_winner_id d \<noteq> '''' then '' winner='' @ me_winner_id d else '''')
          @ '' tests='' @ format_int (me_tests_passed d) @ ''/'' @ format_int (me_total_tests d)))"

section \<open>Lines read\<close>

definition trim_left_blanks :: "string \<Rightarrow> string" where
  "trim_left_blanks s = dropWhile (\<lambda>c. c = CHR '' '' \<or> c = CHR 0x09) s"

definition parse_language_and_value :: "string \<Rightarrow> (string \<times> string) option" where
  "parse_language_and_value raw =
     (case cut CHR '' '' (trim_left_blanks raw) of (language, rest, ok) \<Rightarrow>
        if \<not> ok \<or> language = '''' then None
        else let v = trim_left_blanks rest in if blank v then None else Some (language, v))"

definition encode_submission :: "time_lib \<Rightarrow> uuid_lib \<Rightarrow> uuid \<Rightarrow> uuid \<Rightarrow> string \<Rightarrow> string \<Rightarrow> string + string" where
  "encode_submission T U request_id m language code =
     (if m = nil_uuid then Inl ''no remembered match ID; wait for match_start or pass -match-id''
      else let data = \<lparr>sc_match_id = uuid_string U m, sc_request_id = uuid_string U request_id,
                       sc_language = language, sc_code = code\<rparr>
           in case submit_code_validate U data of
               Some e \<Rightarrow> Inl (''invalid submission: '' @ e)
             | None \<Rightarrow> encode_text T ''submit_code'' (Some (SubmitCodeData data)))"

text \<open>\<open>None\<close> for a line without a command.\<close>

definition parse_intent ::
  "time_lib \<Rightarrow> uuid_lib \<Rightarrow> (string \<Rightarrow> string) \<Rightarrow> (string \<Rightarrow> string option) \<Rightarrow> uuid \<Rightarrow> string \<Rightarrow> uuid \<Rightarrow> string + string option" where
  "parse_intent T U lower read_file request_id line m =
     (if blank line then Inr None
      else case cut CHR '' '' (trim_left_blanks line) of (cmd, rest, _) \<Rightarrow>
        let c = to_lower lower cmd in
        if c = ''join'' then map_sum id Some (encode_text T ''join_queue'' None)
        else if c = ''submit'' then
          (case parse_language_and_value rest of
             None \<Rightarrow> Inl ''usage: submit <language> <code>''
           | Some (language, code) \<Rightarrow> map_sum id Some (encode_submission T U request_id m language code))
        else if c = ''submit-file'' then
          (case parse_language_and_value rest of
             None \<Rightarrow> Inl ''usage: submit-file <language> <path>''
           | Some (language, path) \<Rightarrow>
               (case read_file path of
                  None \<Rightarrow> Inl ''read submission file''
                | Some code \<Rightarrow> map_sum id Some (encode_submission T U request_id m language code)))
        else Inl (''unknown command '' @ cmd))"

section \<open>The client\<close>

datatype cli_output = Stderr string | Stdout string | Sent string

record cli_state =
  cl_match :: uuid
  cl_ready :: bool
  cl_lines :: "string list"

text \<open>
  One message of the read loop, and one turn of the input loop: it reads nothing before the
  gateway said \<open>ready\<close>, and then takes the first of the lines typed.
\<close>

definition cli_message :: "time_lib \<Rightarrow> uuid_lib \<Rightarrow> string \<Rightarrow> cli_state \<Rightarrow> cli_output list \<times> cli_state" where
  "cli_message T U raw st =
     ((case note_match_end raw of None \<Rightarrow> [] | Some s \<Rightarrow> [Stderr s])
        @ (if is_ready U raw \<and> \<not> cl_ready st
           then [Stderr ''commands: join | submit <language> <code> | submit-file <language> <path>''] else [])
        @ (if is_queued raw then [Stderr ''joined matchmaking queue''] else []) @ [Stdout raw],
      st\<lparr>cl_match := remember_match_start T U raw (cl_match st), cl_ready := cl_ready st \<or> is_ready U raw\<rparr>)"

definition cli_line ::
  "time_lib \<Rightarrow> uuid_lib \<Rightarrow> (string \<Rightarrow> string) \<Rightarrow> (string \<Rightarrow> string option) \<Rightarrow> uuid \<Rightarrow> cli_state \<Rightarrow> cli_output list \<times> cli_state" where
  "cli_line T U lower read_file request_id st =
     (case cl_lines st of
        [] \<Rightarrow> ([], st)
      | line # lines \<Rightarrow>
          if \<not> cl_ready st then ([], st)
          else ((case parse_intent T U lower read_file request_id line (cl_match st) of
                   Inl e \<Rightarrow> [Stderr (''duelcli: '' @ e)]
                 | Inr None \<Rightarrow> []
                 | Inr (Some payload) \<Rightarrow> [Sent payload]),
                st\<lparr>cl_lines := lines\<rparr>))"

text \<open>
  How the client ends: \<open>None\<close> for an exit without an error. The dialer failed with the status of
  the response, if there was one; or the process was interrupted; or reading or writing failed,
  with a close frame or another error.
\<close>

datatype cli_end = DialFailed "int option" | Interrupted | ClosedWith int | FailedWith string

definition close_normal_closure :: int where
  "close_normal_closure = 1000"

definition close_going_away :: int where
  "close_going_away = 1001"

definition cli_exit :: "cli_end \<Rightarrow> string option" where
  "cli_exit e =
     (case e of
        DialFailed status \<Rightarrow> Some (if status = Some 401 then ''unauthorized'' else ''dial'')
      | Interrupted \<Rightarrow> None
      | ClosedWith code \<Rightarrow> if code = close_normal_closure \<or> code = close_going_away then None else Some ''websocket: close''
      | FailedWith err \<Rightarrow> if contains err ''use of closed network connection'' then None else Some err)"

section \<open>Lemmas\<close>

lemma encode_submission_decoded:
  assumes enc: "encode_submission T U rid m language code = Inr payload"
    and ascii: "\<forall>u. utf8_valid (uuid_string U u)"
  shows "m \<noteq> nil_uuid"
    "decode_inbound U payload = Inr (SubmitCode \<lparr>sc_match_id = uuid_string U m, sc_request_id = uuid_string U rid,
       sc_language = language, sc_code = code\<rparr>)"
proof -
  show "m \<noteq> nil_uuid" using enc by (auto simp: encode_submission_def)
  show "decode_inbound U payload = Inr (SubmitCode \<lparr>sc_match_id = uuid_string U m, sc_request_id = uuid_string U rid,
       sc_language = language, sc_code = code\<rparr>)"
    using enc ascii by (intro decode_inbound_encoded [of T]) (auto simp: encode_submission_def Let_def split: if_splits option.splits)
qed

lemma parse_intent_cases:
  assumes "parse_intent T U lower read_file rid line m = Inr (Some payload)"
  obtains (join) "encode_text T ''join_queue'' None = Inr payload"
  | (submit) language code where "encode_submission T U rid m language code = Inr payload"
proof -
  have sub: thesis if "map_sum id Some (encode_submission T U rid m language code) = Inr (Some payload)" for language code
    using that submit [of language code] by (cases "encode_submission T U rid m language code") auto
  have join': thesis if "map_sum id Some (encode_text T ''join_queue'' None) = Inr (Some payload)"
    using that join by (cases "encode_text T ''join_queue'' None") auto
  from assms sub join' show thesis
    by (auto simp: parse_intent_def Let_def split: if_splits prod.splits option.splits)
qed

text \<open>What the client sends, the gateway decodes.\<close>

lemma parse_intent_decoded:
  assumes "parse_intent T U lower read_file rid line m = Inr (Some payload)" "\<forall>u. utf8_valid (uuid_string U u)"
  shows "decode_inbound U payload = Inr JoinQueue \<or>
    m \<noteq> nil_uuid \<and> (\<exists>language code. decode_inbound U payload = Inr (SubmitCode
       \<lparr>sc_match_id = uuid_string U m, sc_request_id = uuid_string U rid, sc_language = language, sc_code = code\<rparr>))"
  using assms(1)
proof (cases rule: parse_intent_cases)
  case join
  then show ?thesis using decode_inbound_join by blast
next
  case (submit language code)
  from encode_submission_decoded [OF this assms(2)] show ?thesis by blast
qed

lemma is_field_match_start [simp]:
  "\<not> is_field ''match_id'' ''problem_id''" "\<not> is_field ''match_id'' ''deadline''" "is_field ''problem_id'' ''problem_id''"
  "\<not> is_field ''problem_id'' ''deadline''" "is_field ''deadline'' ''deadline''"
  by code_simp+

lemma match_start_utf8: "utf8_valid ''match_start''"
  by code_simp

lemma match_start_remembered:
  assumes enc: "encode_text T ''match_start'' (Some (MatchStartData d)) = Inr raw"
    and d: "ms_match_id d = uuid_string U m" "m \<noteq> nil_uuid" "utf8_valid (ms_match_id d)" "utf8_valid (ms_problem_id d)"
    and t: "time_parse T (escape (time_text T (ms_deadline d))) = Some t"
    and ok: "uuid_parse U (uuid_string U m) = Some m"
  shows "remember_match_start T U raw m0 = m"
proof -
  have "received ''match_start'' (match_start_field T) \<lparr>ms_match_id = '''', ms_problem_id = '''', ms_deadline = 0\<rparr> raw
    = Some \<lparr>ms_match_id = uuid_string U m, ms_problem_id = ms_problem_id d, ms_deadline = t\<rparr>"
    using decode_encode_text [OF enc match_start_utf8] d(1,3,4) t
    by (simp add: received_def decode_data_def decode_struct_def match_start_field_def decode_time_def)
       (simp add: jstring_def)
  then show ?thesis
    using d(2) ok by (simp add: remember_match_start_def)
qed

lemma language_words:
  assumes "language \<in> set [''python'', ''cpp'', ''java'']"
  shows "cut CHR '' '' (trim_left_blanks (language @ '' '' @ rest)) = (language, rest, True)" "language \<noteq> ''''"
  using assms by (auto simp: cut_def trim_left_blanks_def)

lemma submit_words:
  "cut CHR '' '' (trim_left_blanks (''submit '' @ rest)) = (''submit'', rest, True)"
  "\<not> blank (''submit '' @ rest)" "to_lower lower ''submit'' = ''submit''"
proof -
  show "cut CHR '' '' (trim_left_blanks (''submit '' @ rest)) = (''submit'', rest, True)"
    by (simp add: cut_def trim_left_blanks_def)
  have "space_width (''submit '' @ rest) = 0"
    by (simp add: space_width_def space_encodings_def)
  then show "\<not> blank (''submit '' @ rest)" by simp
  have "(\<forall>c\<in>set ''submit''. byte c < 128) \<and> map ascii_lower ''submit'' = ''submit''" by code_simp
  then show "to_lower lower ''submit'' = ''submit''" unfolding to_lower_def by simp
qed

lemma trim_left_blanks_id:
  assumes "s \<noteq> ''''" "hd s \<noteq> CHR '' ''" "hd s \<noteq> CHR 0x09"
  shows "trim_left_blanks s = s"
  using assms by (cases s) (simp_all add: trim_left_blanks_def)

lemma submit_line_encoded:
  assumes lang: "language \<in> set [''python'', ''cpp'', ''java'']"
    and code: "hd code \<noteq> CHR '' ''" "hd code \<noteq> CHR 0x09" "\<not> blank code"
      "utf8_valid code" "CHR 0x00 \<notin> set code" "length code \<le> max_submission_code_bytes"
    and ids: "m \<noteq> nil_uuid" "rid \<noteq> nil_uuid" "uuid_lib_ok U"
  shows "\<exists>payload. parse_intent T U lower read_file rid (''submit '' @ language @ '' '' @ code) m = Inr (Some payload) \<and>
    encode_submission T U rid m language code = Inr payload"
proof -
  have ne: "code \<noteq> ''''" using code(3) by auto
  have words: "parse_language_and_value (language @ '' '' @ code) = Some (language, code)"
    unfolding parse_language_and_value_def language_words(1) [OF lang]
    using language_words(2) [OF lang] code(3) trim_left_blanks_id [OF ne code(1,2)] by simp
  have "submit_code_validate U \<lparr>sc_match_id = uuid_string U m, sc_request_id = uuid_string U rid, sc_language = language, sc_code = code\<rparr> = None"
    using ids lang code(3-6) by (simp add: submit_code_validate_def validate_uuid_def uuid_lib_ok_def)
  then obtain payload where enc: "encode_submission T U rid m language code = Inr payload"
    using ids(1) by (auto simp: encode_submission_def encode_text_def encode_def)
  have "parse_intent T U lower read_file rid (''submit '' @ language @ '' '' @ code) m = Inr (Some payload)"
    unfolding parse_intent_def submit_words(1) using submit_words(2,3) words enc by simp
  with enc show ?thesis by blast
qed

section \<open>Properties\<close>

text \<open>
  Property C39. A duel can be played from the command line: once the gateway has announced a
  match with \<open>match_start\<close>, a typed line \<open>submit <language> <code>\<close> with a supported language and
  acceptable code is sent as a message that the gateway decodes as the submission of exactly
  that code, in that language, to the announced match, under the fresh request identifier.
\<close>

theorem typed_submission_arrives:
  assumes "encode_text T ''match_start'' (Some (MatchStartData d)) = Inr raw"
    and "ms_match_id d = uuid_string U m" "m \<noteq> nil_uuid" "utf8_valid (ms_problem_id d)"
    and "time_parse T (escape (time_text T (ms_deadline d))) = Some t"
    and "uuid_lib_ok U" "\<forall>u. utf8_valid (uuid_string U u)" "rid \<noteq> nil_uuid"
    and "language \<in> set [''python'', ''cpp'', ''java'']"
    and "hd code \<noteq> CHR '' ''" "hd code \<noteq> CHR 0x09" "\<not> blank code" "utf8_valid code" "CHR 0x00 \<notin> set code"
      "length code \<le> max_submission_code_bytes"
    and "cl_ready st" "cl_lines st = (''submit '' @ language @ '' '' @ code) # lines"
  shows "\<exists>payload. cli_line T U lower read_file rid (snd (cli_message T U raw st))
      = ([Sent payload], \<lparr>cl_match = m, cl_ready = True, cl_lines = lines\<rparr>) \<and>
    decode_inbound U payload = Inr (SubmitCode \<lparr>sc_match_id = uuid_string U m, sc_request_id = uuid_string U rid,
      sc_language = language, sc_code = code\<rparr>)"
proof -
  have "utf8_valid (ms_match_id d)" using assms(2,7) by simp
  have "uuid_parse U (uuid_string U m) = Some m" using assms(6) by (simp add: uuid_lib_ok_def)
  note m = match_start_remembered [OF assms(1-3) \<open>utf8_valid (ms_match_id d)\<close> assms(4,5) this]
  obtain payload where p: "parse_intent T U lower read_file rid (''submit '' @ language @ '' '' @ code) m = Inr (Some payload)"
    "encode_submission T U rid m language code = Inr payload"
    using submit_line_encoded [OF assms(9-15) assms(3,8,6)] by blast
  have "cli_line T U lower read_file rid (snd (cli_message T U raw st))
      = ([Sent payload], \<lparr>cl_match = m, cl_ready = True, cl_lines = lines\<rparr>)"
    using assms(16,17) p(1) m by (simp add: cli_line_def cli_message_def)
  with encode_submission_decoded(2) [OF p(2) assms(7)] show ?thesis by blast
qed

text \<open>
  Whatever line is typed and whatever file it names, the client sends nothing the
  gateway answers with a protocol error: a sent message is decoded as joining the queue, or as
  a valid submission to the match the client remembers, which is a match.
\<close>

theorem client_sends_valid:
  assumes "\<forall>u. utf8_valid (uuid_string U u)"
    and "Sent payload \<in> set (fst (cli_line T U lower read_file rid st))"
  shows "decode_inbound U payload = Inr JoinQueue \<or>
    cl_match st \<noteq> nil_uuid \<and>
    (\<exists>s. decode_inbound U payload = Inr (SubmitCode s) \<and> sc_match_id s = uuid_string U (cl_match st)
       \<and> sc_request_id s = uuid_string U rid \<and> submit_code_validate U s = None)"
proof -
  obtain line lines where "cl_lines st = line # lines"
    "parse_intent T U lower read_file rid line (cl_match st) = Inr (Some payload)"
    using assms(2) by (auto simp: cli_line_def split: list.splits if_splits sum.splits option.splits)
  from parse_intent_decoded [OF this(2) assms(1)] show ?thesis
    by (auto dest: decode_inbound_submission)
qed

definition ex_start :: match_start_data where
  "ex_start = \<lparr>ms_match_id = uuid_string ex_uuid_lib 5, ms_problem_id = ''p'', ms_deadline = 90\<rparr>"

definition ex_start_raw :: string where
  "ex_start_raw = json_text (envelope_json ex_time_lib \<lparr>env_type = ''match_start'', env_data = Some (MatchStartData ex_start)\<rparr>)"

definition ex_cli :: cli_state where
  "ex_cli = \<lparr>cl_match = nil_uuid, cl_ready = True, cl_lines = [''submit python print(1)'']\<rparr>"

lemma ex_uuid_ascii: "\<forall>u. utf8_valid (uuid_string ex_uuid_lib u)"
  by (auto simp: ex_uuid_lib_def intro!: utf8_valid_ascii)

theorem typed_submission_arrives_witness:
  "\<exists>payload. cli_line ex_time_lib ex_uuid_lib id (\<lambda>_. None) 7 (snd (cli_message ex_time_lib ex_uuid_lib ex_start_raw ex_cli))
      = ([Sent payload], \<lparr>cl_match = 5, cl_ready = True, cl_lines = []\<rparr>) \<and>
    decode_inbound ex_uuid_lib payload = Inr (SubmitCode \<lparr>sc_match_id = ''iiiii'', sc_request_id = ''iiiiiii'',
      sc_language = ''python'', sc_code = ''print(1)''\<rparr>)"
proof -
  have enc: "encode_text ex_time_lib ''match_start'' (Some (MatchStartData ex_start)) = Inr ex_start_raw"
    by (simp add: encode_text_def encode_def ex_start_raw_def)
  have ids: "ms_match_id ex_start = uuid_string ex_uuid_lib 5" "(5 :: uuid) \<noteq> nil_uuid" "(7 :: uuid) \<noteq> nil_uuid"
    "utf8_valid (ms_problem_id ex_start)" "time_parse ex_time_lib (escape (time_text ex_time_lib (ms_deadline ex_start))) = Some 90"
    "uuid_string ex_uuid_lib 5 = ''iiiii''" "uuid_string ex_uuid_lib 7 = ''iiiiiii''"
    by code_simp+
  have code: "''python'' \<in> set [''python'', ''cpp'', ''java'']" "hd ''print(1)'' \<noteq> CHR '' ''" "hd ''print(1)'' \<noteq> CHR 0x09"
    "\<not> blank ''print(1)''" "utf8_valid ''print(1)''" "CHR 0x00 \<notin> set ''print(1)''"
    "length ''print(1)'' \<le> max_submission_code_bytes"
    by code_simp+
  have st: "cl_ready ex_cli" "cl_lines ex_cli = (''submit '' @ ''python'' @ '' '' @ ''print(1)'') # []"
    by (simp_all add: ex_cli_def)
  from typed_submission_arrives [OF enc ids(1,2,4,5) ex_uuid_lib_ok ex_uuid_ascii ids(3) code st, of id "\<lambda>_. None"]
  show ?thesis unfolding ids(6,7) .
qed

definition ex_join_cli :: cli_state where
  "ex_join_cli = \<lparr>cl_match = nil_uuid, cl_ready = True, cl_lines = [''JOIN'']\<rparr>"

theorem client_sends_valid_witness:
  "\<exists>payload. fst (cli_line ex_time_lib ex_uuid_lib id (\<lambda>_. None) 7 ex_join_cli) = [Sent payload]
     \<and> decode_inbound ex_uuid_lib payload = Inr JoinQueue"
proof -
  obtain payload where p: "encode_text ex_time_lib ''join_queue'' None = Inr payload"
    by (auto simp: encode_text_def encode_def)
  have words: "\<not> blank ''JOIN''" "cut CHR '' '' (trim_left_blanks ''JOIN'') = (''JOIN'', [], False)" "to_lower id ''JOIN'' = ''join''"
    by code_simp+
  have "fst (cli_line ex_time_lib ex_uuid_lib id (\<lambda>_. None) 7 ex_join_cli) = [Sent payload]"
    by (simp add: cli_line_def ex_join_cli_def parse_intent_def words p del: blank.simps)
  with client_sends_valid [OF ex_uuid_ascii, of payload ex_time_lib id "\<lambda>_. None" 7 ex_join_cli] show ?thesis
    by (simp add: ex_join_cli_def)
qed

end
