(* ===== verification/Snapshot.thy ===== *)
theory Snapshot
  imports Reaper
begin

text \<open>
  What a player sees of a match: \<open>internal/gateway/match_snapshot.go\<close>. The three queries run
  in one repeatable-read transaction, so they read the same database; \<open>now\<close> is its
  \<open>clock_timestamp()\<close>. The call \<open>SnMatch\<close> stands for the first query and its scan, and so on.
\<close>

section \<open>Snapshots\<close>

record problem_snapshot =
  ps_id :: uuid
  ps_title :: string
  ps_statement :: string
  ps_constraints :: string
  ps_supported_languages :: "string list"
  ps_public_examples :: "(string \<times> string) list"
  ps_total_tests :: int

record player_snapshot =
  pl_id :: uuid
  pl_display_name :: string
  pl_slot :: int
  pl_best_tests_passed :: int

record submission_snapshot =
  ss_id :: uuid
  ss_request_id :: uuid
  ss_language :: string
  ss_status :: string
  ss_verdict :: "string option"
  ss_failure_kind :: "string option"
  ss_tests_passed :: int
  ss_created_at :: time
  ss_finished_at :: "time option"

record match_snapshot =
  sn_id :: uuid
  sn_status :: string
  sn_created_at :: time
  sn_deadline :: time
  sn_winner_id :: "uuid option"
  sn_outcome :: "string option"
  sn_server_time :: time
  sn_problem :: problem_snapshot
  sn_players :: "player_snapshot list"
  sn_submissions :: "submission_snapshot list"
  sn_truncated :: bool

definition max_snapshot_submissions :: nat where
  "max_snapshot_submissions = 100"

datatype snapshot_call = SnBegin | SnMatch | SnPlayers | SnSubmissions | SnCommit

section \<open>The match queries\<close>

text \<open>The inner joins of both queries: the matches of the user whose problem exists.\<close>

definition matches_of_user :: "db \<Rightarrow> uuid \<Rightarrow> match_row list" where
  "matches_of_user d u =
     filter (\<lambda>m. is_player d (m_id m) u \<and> problem_of d (m_problem_id m) \<noteq> None) (db_matches d)"

text \<open>
  \<open>current\<close>: \<open>ORDER BY (m.status = 'active') DESC, m.created_at DESC, m.id DESC LIMIT 1\<close>, the
  last in ascending order.
\<close>

definition current_match :: "db \<Rightarrow> uuid \<Rightarrow> match_row option" where
  "current_match d u =
     (case rev (sort_key (\<lambda>m. (m_status m = ''active'', m_created_at m, m_id m)) (matches_of_user d u)) of
        [] \<Rightarrow> None | m # _ \<Rightarrow> Some m)"

definition match_by_id :: "uuid \<Rightarrow> db \<Rightarrow> uuid \<Rightarrow> match_row option" where
  "match_by_id k d u = row_of m_id k (matches_of_user d u)"

section \<open>Loading a snapshot\<close>

definition set_snapshot_outcome :: "match_snapshot \<Rightarrow> uuid \<Rightarrow> string + match_snapshot" where
  "set_snapshot_outcome s u =
     (if sn_status s = ''active'' then Inr s
      else if sn_status s = ''finished'' then
        Inr (s\<lparr>sn_outcome := Some (case sn_winner_id s of None \<Rightarrow> ''draw''
                 | Some w \<Rightarrow> if w = u then ''win'' else ''loss'')\<rparr>)
      else Inl ''load match snapshot: unknown match status'')"

definition problem_columns :: "problem_row \<Rightarrow> int \<Rightarrow> problem_snapshot" where
  "problem_columns p n =
     \<lparr>ps_id = p_id p, ps_title = p_title p, ps_statement = p_statement p, ps_constraints = p_constraints p,
      ps_supported_languages = [''python'', ''cpp'', ''java''], ps_public_examples = p_public_examples p,
      ps_total_tests = n\<rparr>"

text \<open>The scanned row of the first query; \<open>None\<close> when \<open>jsonb_array_length\<close> is an error.\<close>

definition match_columns :: "time \<Rightarrow> db \<Rightarrow> match_row \<Rightarrow> match_snapshot option" where
  "match_columns now d m =
     (case problem_of d (m_problem_id m) of
        None \<Rightarrow> None
      | Some p \<Rightarrow> map_option (\<lambda>n.
            \<lparr>sn_id = m_id m, sn_status = m_status m, sn_created_at = m_created_at m, sn_deadline = m_deadline m,
             sn_winner_id = m_winner_id m, sn_outcome = None, sn_server_time = now,
             sn_problem = problem_columns p n, sn_players = [], sn_submissions = [], sn_truncated = False\<rparr>)
          (jsonb_array_length (p_test_cases p)))"

text \<open>The player query: the join with \<open>users\<close> drops a player without a user.\<close>

definition player_snapshots :: "db \<Rightarrow> uuid \<Rightarrow> player_snapshot list" where
  "player_snapshots d k =
     concat (map (\<lambda>p. case user_of d (mp_user_id p) of
          None \<Rightarrow> []
        | Some u \<Rightarrow> [\<lparr>pl_id = mp_user_id p, pl_display_name = u_display_name u, pl_slot = mp_slot p,
                      pl_best_tests_passed = best_score d k (mp_user_id p)\<rparr>])
       (sort_key (\<lambda>p. (mp_slot p, mp_user_id p)) (filter (\<lambda>p. mp_match_id p = k) (db_players d))))"

definition submission_columns :: "submission_row \<Rightarrow> submission_snapshot" where
  "submission_columns r =
     \<lparr>ss_id = s_id r, ss_request_id = s_request_id r, ss_language = s_language r, ss_status = s_status r,
      ss_verdict = s_result r, ss_failure_kind = s_failure_kind r, ss_tests_passed = s_tests_passed r,
      ss_created_at = s_created_at r, ss_finished_at = s_finished_at r\<rparr>"

definition own_submissions :: "db \<Rightarrow> uuid \<Rightarrow> uuid \<Rightarrow> submission_row list" where
  "own_submissions d k u = filter (\<lambda>r. s_match_id r = k \<and> s_player_id r = u) (db_submissions d)"

text \<open>The submission query: newest first, at most one row more than a snapshot holds.\<close>

definition newest_submissions :: "db \<Rightarrow> uuid \<Rightarrow> uuid \<Rightarrow> submission_snapshot list" where
  "newest_submissions d k u =
     map submission_columns (take (max_snapshot_submissions + 1)
       (rev (sort_key (\<lambda>r. (s_created_at r, s_id r)) (own_submissions d k u))))"

definition load_snapshot ::
  "bool \<Rightarrow> (snapshot_call \<Rightarrow> io) \<Rightarrow> time \<Rightarrow> (db \<Rightarrow> uuid \<Rightarrow> match_row option) \<Rightarrow> uuid \<Rightarrow> db
    \<Rightarrow> string + match_snapshot option" where
  "load_snapshot has_db ext now query u d =
     (if \<not> has_db \<or> u = nil_uuid then Inl ''load match snapshot: invalid arguments''
      else if ext SnBegin \<noteq> IoOk then Inl ''load match snapshot: begin transaction''
      else if ext SnMatch \<noteq> IoOk then Inl ''load match snapshot: query match''
      else case query d u of
          None \<Rightarrow> if ext SnCommit \<noteq> IoOk then Inl ''load match snapshot: commit empty result'' else Inr None
        | Some m \<Rightarrow>
      (case match_columns now d m of
          None \<Rightarrow> Inl ''load match snapshot: query match''
        | Some s0 \<Rightarrow>
      (case set_snapshot_outcome s0 u of
          Inl e \<Rightarrow> Inl e
        | Inr s1 \<Rightarrow>
          if ext SnPlayers \<noteq> IoOk then Inl ''load match snapshot: query players''
          else let players = player_snapshots d (sn_id s1) in
          if length players \<noteq> 2 then Inl ''load match snapshot: player count''
          else if ext SnSubmissions \<noteq> IoOk then Inl ''load match snapshot: query submissions''
          else let subs = newest_submissions d (sn_id s1) u;
                   cut_off = max_snapshot_submissions < length subs;
                   s2 = s1\<lparr>sn_players := players,
                           sn_submissions := rev (if cut_off then take max_snapshot_submissions subs else subs),
                           sn_truncated := cut_off\<rparr>
          in if ext SnCommit \<noteq> IoOk then Inl ''load match snapshot: commit transaction'' else Inr (Some s2))))"

definition snapshot_current ::
  "bool \<Rightarrow> (snapshot_call \<Rightarrow> io) \<Rightarrow> time \<Rightarrow> uuid \<Rightarrow> db \<Rightarrow> string + match_snapshot option" where
  "snapshot_current has_db ext now u d = load_snapshot has_db ext now current_match u d"

definition snapshot_by_id ::
  "bool \<Rightarrow> (snapshot_call \<Rightarrow> io) \<Rightarrow> time \<Rightarrow> uuid \<Rightarrow> uuid \<Rightarrow> db \<Rightarrow> string + match_snapshot option" where
  "snapshot_by_id has_db ext now u k d = load_snapshot has_db ext now (match_by_id k) u d"

section \<open>What a snapshot shows\<close>

lemma in_matches_of_user:
  assumes "db_inv d"
  shows "m \<in> set (matches_of_user d u) \<longleftrightarrow> m \<in> set (db_matches d) \<and> is_player d (m_id m) u"
  using db_invD(3) [OF assms, of m] by (auto simp: matches_of_user_def match_ok_def)

lemma player_in_matches_of_user:
  assumes "db_inv d" "is_player d k u"
  obtains m where "match_of d k = Some m" "m \<in> set (matches_of_user d u)"
proof -
  obtain m where m: "match_of d k = Some m" using is_player_match [OF assms] by blast
  then have "m \<in> set (db_matches d)" "m_id m = k" by (auto dest: match_ofD)
  with assms have "m \<in> set (matches_of_user d u)" by (simp add: in_matches_of_user)
  with m show thesis by (rule that)
qed

lemma matches_of_user_match_of:
  assumes "db_inv d" "m \<in> set (matches_of_user d u)"
  shows "match_of d (m_id m) = Some m" "is_player d (m_id m) u"
  using assms by (auto simp: match_of_iff in_matches_of_user)

lemma sort_key_last:
  assumes "rev (sort_key f xs) = x # ys" and "y \<in> set xs"
  shows "f y \<le> f x"
proof -
  have s: "sort_key f xs = rev ys @ [x]"
    using arg_cong [OF assms(1), of rev] by simp
  have "y \<in> set (sort_key f xs)" using assms(2) by simp
  moreover have "sorted (map f (sort_key f xs))" by simp
  ultimately show ?thesis unfolding s by (auto simp: sorted_append)
qed

lemma sort_key_head_in: "rev (sort_key f xs) = x # ys \<Longrightarrow> x \<in> set xs"
  by (metis list.set_intros(1) set_rev set_sort)

lemma current_match_SomeD:
  assumes "current_match d u = Some m"
  shows "m \<in> set (matches_of_user d u)"
    "m' \<in> set (matches_of_user d u) \<Longrightarrow>
       (m_status m' = ''active'', m_created_at m', m_id m') \<le> (m_status m = ''active'', m_created_at m, m_id m)"
proof -
  let ?f = "\<lambda>m. (m_status m = ''active'', m_created_at m, m_id m)"
  obtain ys where r: "rev (sort_key ?f (matches_of_user d u)) = m # ys"
    using assms by (auto simp: current_match_def split: list.splits)
  show "m \<in> set (matches_of_user d u)" using r by (rule sort_key_head_in)
  show "?f m' \<le> ?f m" if "m' \<in> set (matches_of_user d u)"
    using r that by (rule sort_key_last)
qed

lemma current_match_None_iff: "current_match d u = None \<longleftrightarrow> matches_of_user d u = []"
proof -
  have "sort_key f xs = [] \<longleftrightarrow> xs = []" for f :: "match_row \<Rightarrow> bool \<times> int \<times> uuid" and xs
    by (metis length_0_conv length_sort)
  then show ?thesis by (auto simp: current_match_def split: list.splits)
qed

text \<open>The newest hundred submissions of a player in a match, in chronological order.\<close>

lemma kept_submissions:
  assumes "subs = newest_submissions d k u"
  shows "max_snapshot_submissions < length subs \<longleftrightarrow> max_snapshot_submissions < length (own_submissions d k u)"
    "rev (if max_snapshot_submissions < length subs then take max_snapshot_submissions subs else subs) =
     map submission_columns (drop (length (own_submissions d k u) - max_snapshot_submissions)
       (sort_key (\<lambda>r. (s_created_at r, s_id r)) (own_submissions d k u)))"
proof -
  let ?S = "sort_key (\<lambda>r. (s_created_at r, s_id r)) (own_submissions d k u)"
  have l: "length subs = min (length ?S) (max_snapshot_submissions + 1)"
    by (simp add: assms newest_submissions_def)
  then show cut: "max_snapshot_submissions < length subs \<longleftrightarrow> max_snapshot_submissions < length (own_submissions d k u)"
    by auto
  have "(if max_snapshot_submissions < length subs then take max_snapshot_submissions subs else subs)
      = map submission_columns (take max_snapshot_submissions (rev ?S))"
    using l by (simp add: assms newest_submissions_def take_map)
  then show "rev (if max_snapshot_submissions < length subs then take max_snapshot_submissions subs else subs) =
     map submission_columns (drop (length (own_submissions d k u) - max_snapshot_submissions) ?S)"
    by (simp add: rev_map take_rev)
qed

text \<open>The player rows: both players in the order of their slots, each with its best score.\<close>

lemma player_snapshots_inv:
  assumes "db_inv d"
  shows "map pl_id (player_snapshots d k) = players_of d k"
    "p \<in> set (player_snapshots d k) \<Longrightarrow>
       pl_best_tests_passed p = best_score d k (pl_id p) \<and>
       (\<exists>r. user_of d (pl_id p) = Some r \<and> pl_display_name p = u_display_name r)"
proof -
  let ?rows = "sort_key (\<lambda>p. (mp_slot p, mp_user_id p)) (filter (\<lambda>p. mp_match_id p = k) (db_players d))"
  have known: "\<exists>r. user_of d (mp_user_id p) = Some r" if "p \<in> set ?rows" for p
    using db_invD(4) [OF assms, of p] that by (auto simp: player_ok_def)
  have "map pl_id (concat (map (\<lambda>p. case user_of d (mp_user_id p) of None \<Rightarrow> []
      | Some u \<Rightarrow> [\<lparr>pl_id = mp_user_id p, pl_display_name = u_display_name u, pl_slot = mp_slot p,
                    pl_best_tests_passed = best_score d k (mp_user_id p)\<rparr>]) rows)) = map mp_user_id rows"
    if "\<And>p. p \<in> set rows \<Longrightarrow> \<exists>r. user_of d (mp_user_id p) = Some r" for rows
    using that by (induction rows) (fastforce split: option.splits)+
  from this [OF known] show "map pl_id (player_snapshots d k) = players_of d k"
    by (simp only: player_snapshots_def players_of_def)
  assume p: "p \<in> set (player_snapshots d k)"
  obtain x where x: "x \<in> set ?rows" and px: "p \<in> set (case user_of d (mp_user_id x) of None \<Rightarrow> []
      | Some u \<Rightarrow> [\<lparr>pl_id = mp_user_id x, pl_display_name = u_display_name u, pl_slot = mp_slot x,
                    pl_best_tests_passed = best_score d k (mp_user_id x)\<rparr>])"
    using p unfolding player_snapshots_def set_concat set_map by blast
  obtain r where r: "user_of d (mp_user_id x) = Some r" using known [OF x] by blast
  show "pl_best_tests_passed p = best_score d k (pl_id p) \<and>
      (\<exists>r. user_of d (pl_id p) = Some r \<and> pl_display_name p = u_display_name r)"
    using px r by simp
qed

text \<open>
  The contract of a snapshot of the match \<open>k\<close> for the player \<open>u\<close>: the columns of the match,
  the outcome of a finished match from the player's side, both players with their best scores,
  and the newest hundred of the player's own submissions in chronological order.
\<close>

definition snapshot_shows :: "db \<Rightarrow> uuid \<Rightarrow> uuid \<Rightarrow> match_snapshot \<Rightarrow> bool" where
  "snapshot_shows d u k s \<longleftrightarrow>
     (case match_of d k of
        None \<Rightarrow> False
      | Some m \<Rightarrow>
          sn_id s = k \<and> sn_status s = m_status m \<and> sn_deadline s = m_deadline m \<and> sn_winner_id s = m_winner_id m \<and>
          sn_outcome s =
            (if m_status m = ''active'' then None
             else Some (case m_winner_id m of None \<Rightarrow> ''draw'' | Some w \<Rightarrow> if w = u then ''win'' else ''loss'')) \<and>
          (\<exists>p. problem_of d (m_problem_id m) = Some p \<and> ps_id (sn_problem s) = p_id p \<and>
             jsonb_array_length (p_test_cases p) = Some (ps_total_tests (sn_problem s))) \<and>
          map pl_id (sn_players s) = players_of d k \<and> length (sn_players s) = 2 \<and>
          (\<forall>p\<in>set (sn_players s). pl_best_tests_passed p = best_score d k (pl_id p)) \<and>
          sn_submissions s = map submission_columns
            (drop (length (own_submissions d k u) - max_snapshot_submissions)
              (sort_key (\<lambda>r. (s_created_at r, s_id r)) (own_submissions d k u))) \<and>
          sn_truncated s = (max_snapshot_submissions < length (own_submissions d k u)))"

lemma set_snapshot_outcome_Inr:
  assumes "set_snapshot_outcome s u = Inr s'"
  shows "s' = s \<and> sn_status s = ''active'' \<or>
    sn_status s = ''finished'' \<and>
    s' = s\<lparr>sn_outcome := Some (case sn_winner_id s of None \<Rightarrow> ''draw'' | Some w \<Rightarrow> if w = u then ''win'' else ''loss'')\<rparr>"
  using assms by (auto simp: set_snapshot_outcome_def split: if_splits)

lemma match_columns_SomeD:
  assumes "match_columns now d m = Some s"
  obtains p n where "problem_of d (m_problem_id m) = Some p" "jsonb_array_length (p_test_cases p) = Some n"
    "s = \<lparr>sn_id = m_id m, sn_status = m_status m, sn_created_at = m_created_at m, sn_deadline = m_deadline m,
          sn_winner_id = m_winner_id m, sn_outcome = None, sn_server_time = now,
          sn_problem = problem_columns p n, sn_players = [], sn_submissions = [], sn_truncated = False\<rparr>"
  using assms by (auto simp: match_columns_def split: option.splits)

lemma load_snapshot_SomeD:
  assumes "load_snapshot has_db ext now query u d = Inr (Some s)"
  obtains m s0 s1 where "query d u = Some m" "match_columns now d m = Some s0" "set_snapshot_outcome s0 u = Inr s1"
    "length (player_snapshots d (sn_id s1)) = 2"
    "s = s1\<lparr>sn_players := player_snapshots d (sn_id s1),
            sn_submissions := rev (if max_snapshot_submissions < length (newest_submissions d (sn_id s1) u)
               then take max_snapshot_submissions (newest_submissions d (sn_id s1) u)
               else newest_submissions d (sn_id s1) u),
            sn_truncated := max_snapshot_submissions < length (newest_submissions d (sn_id s1) u)\<rparr>"
  using assms unfolding load_snapshot_def Let_def
  by (auto split: if_splits option.splits sum.splits)

lemma load_snapshot_NoneD:
  "load_snapshot has_db ext now query u d = Inr None \<Longrightarrow> query d u = None"
  unfolding load_snapshot_def Let_def by (auto split: if_splits option.splits sum.splits)

lemma load_snapshot_shows:
  assumes "db_inv d" "load_snapshot has_db ext now query u d = Inr (Some s)"
    and "\<And>m. query d u = Some m \<Longrightarrow> m \<in> set (matches_of_user d u)"
  obtains m where "query d u = Some m" "snapshot_shows d u (m_id m) s"
proof -
  obtain m s0 s1 where q: "query d u = Some m" and c: "match_columns now d m = Some s0"
    and o: "set_snapshot_outcome s0 u = Inr s1" and l: "length (player_snapshots d (sn_id s1)) = 2"
    and s: "s = s1\<lparr>sn_players := player_snapshots d (sn_id s1),
            sn_submissions := rev (if max_snapshot_submissions < length (newest_submissions d (sn_id s1) u)
               then take max_snapshot_submissions (newest_submissions d (sn_id s1) u)
               else newest_submissions d (sn_id s1) u),
            sn_truncated := max_snapshot_submissions < length (newest_submissions d (sn_id s1) u)\<rparr>"
    using load_snapshot_SomeD [OF assms(2)] .
  obtain p n where p: "problem_of d (m_problem_id m) = Some p" "jsonb_array_length (p_test_cases p) = Some n"
    and s0: "s0 = \<lparr>sn_id = m_id m, sn_status = m_status m, sn_created_at = m_created_at m,
          sn_deadline = m_deadline m, sn_winner_id = m_winner_id m, sn_outcome = None, sn_server_time = now,
          sn_problem = problem_columns p n, sn_players = [], sn_submissions = [], sn_truncated = False\<rparr>"
    using match_columns_SomeD [OF c] .
  have s1: "s1 = s0\<lparr>sn_outcome := (if m_status m = ''active'' then None
       else Some (case m_winner_id m of None \<Rightarrow> ''draw'' | Some w \<Rightarrow> if w = u then ''win'' else ''loss''))\<rparr>"
    using set_snapshot_outcome_Inr [OF o] by (auto simp: s0)
  have i: "sn_id s1 = m_id m" by (simp add: s1 s0)
  have m: "match_of d (m_id m) = Some m"
    using matches_of_user_match_of(1) [OF assms(1) assms(3) [OF q]] .
  note k = kept_submissions [OF refl, of d "m_id m" u]
  note pl = player_snapshots_inv [OF assms(1), where k = "m_id m"]
  have "snapshot_shows d u (m_id m) s"
    unfolding snapshot_shows_def m option.case s i k(2)
    using l pl p k(1) by (simp add: i s1 s0 problem_columns_def)
  with q show thesis by (rule that)
qed

lemma snapshot_current_run:
  assumes "db_inv d" "snapshot_current has_db ext now u d = Inr res"
  shows "case res of None \<Rightarrow> \<forall>k. \<not> is_player d k u
    | Some s \<Rightarrow> is_player d (sn_id s) u \<and> snapshot_shows d u (sn_id s) s \<and>
        (\<forall>k. is_player d k u \<and> active_match d k \<longrightarrow> k = sn_id s)"
proof (cases res)
  case None
  then have "matches_of_user d u = []"
    using assms(2) load_snapshot_NoneD [of has_db ext now current_match u d] current_match_None_iff [of d u]
    by (simp add: snapshot_current_def)
  then have "\<not> is_player d k u" for k
    using player_in_matches_of_user [OF assms(1), of k u] by auto
  then show ?thesis by (simp add: None)
next
  case (Some s)
  obtain m where q: "current_match d u = Some m" and s: "snapshot_shows d u (m_id m) s"
    using load_snapshot_shows [OF assms(1), of has_db ext now current_match u s]
      assms(2) current_match_SomeD(1) by (metis Some snapshot_current_def)
  note m = matches_of_user_match_of [OF assms(1) current_match_SomeD(1) [OF q]]
  have i: "sn_id s = m_id m" using s by (simp add: snapshot_shows_def m)
  have "k = m_id m" if k: "is_player d k u" "active_match d k" for k
  proof -
    obtain m' where m': "match_of d k = Some m'" "m' \<in> set (matches_of_user d u)"
      using player_in_matches_of_user [OF assms(1) k(1)] .
    have "m_status m' = ''active''" using k(2) m'(1) by (simp add: active_match_def)
    then have "m_status m = ''active''"
      using current_match_SomeD(2) [OF q m'(2)] by (simp add: less_eq_prod_def split: if_splits)
    then have "active_match d (m_id m)" by (simp add: active_match_def m(1))
    with k m(2) show ?thesis by (blast intro: one_active_match [OF assms(1)])
  qed
  with s m(2) show ?thesis by (simp add: Some i)
qed

lemma snapshot_by_id_run:
  assumes "db_inv d" "snapshot_by_id has_db ext now u k d = Inr res"
  shows "case res of None \<Rightarrow> \<not> is_player d k u | Some s \<Rightarrow> is_player d k u \<and> snapshot_shows d u k s"
proof (cases res)
  case None
  then have "match_by_id k d u = None"
    using assms(2) load_snapshot_NoneD by (auto simp: snapshot_by_id_def)
  then have "\<not> is_player d k u"
    using player_in_matches_of_user [OF assms(1), of k u]
    by (metis match_by_id_def match_ofD row_of_None_iff)
  then show ?thesis by (simp add: None)
next
  case (Some s)
  have own: "m \<in> set (matches_of_user d u) \<and> m_id m = k" if "match_by_id k d u = Some m" for m
    using that by (auto simp: match_by_id_def dest: row_of_SomeD)
  obtain m where q: "match_by_id k d u = Some m" and s: "snapshot_shows d u (m_id m) s"
    using load_snapshot_shows [OF assms(1), of has_db ext now "match_by_id k" u s] assms(2) own
    by (metis Some snapshot_by_id_def)
  then show ?thesis
    using own [OF q] matches_of_user_match_of(2) [OF assms(1)] by (auto simp: Some)
qed

section \<open>Properties\<close>

text \<open>
  When \<open>current\<close> succeeds it finds no match only for a user who never played,
  and otherwise a match of the user, the active one if there is one; the snapshot shows that
  match truthfully (\<open>snapshot_shows\<close>): its status, deadline and winner, the outcome from the
  user's side, both players with their best scores, and of the submissions only the user's own,
  the newest hundred in chronological order, marked as truncated exactly when there are more.
\<close>

theorem snapshot_faithful:
  assumes "db_inv d" "snapshot_current has_db ext now u d = Inr res"
  shows "case res of None \<Rightarrow> \<forall>k. \<not> is_player d k u
    | Some s \<Rightarrow> is_player d (sn_id s) u \<and> snapshot_shows d u (sn_id s) s \<and>
        (\<forall>k. is_player d k u \<and> active_match d k \<longrightarrow> k = sn_id s)"
  using assms by (rule snapshot_current_run)

theorem snapshot_faithful_witness:
  "\<exists>s. snapshot_current True (\<lambda>_. IoOk) 50 1 (ex_db [ex_pending 1000, ex_running 1001, ex_completed 1002 1]) = Inr (Some s)
     \<and> sn_id s = 100
     \<and> snapshot_shows (ex_db [ex_pending 1000, ex_running 1001, ex_completed 1002 1]) 1 100 s
     \<and> map ss_id (sn_submissions s) = [1000, 1001, 1002] \<and> map pl_best_tests_passed (sn_players s) = [1, 0]"
proof -
  let ?d = "ex_db [ex_pending 1000, ex_running 1001, ex_completed 1002 1]"
  obtain s where run: "snapshot_current True (\<lambda>_. IoOk) 50 1 ?d = Inr (Some s)"
    and parts: "map ss_id (sn_submissions s) = [1000, 1001, 1002]" "map pl_best_tests_passed (sn_players s) = [1, 0]"
  proof -
    have "case snapshot_current True (\<lambda>_. IoOk) 50 1 ?d of
        Inr (Some s) \<Rightarrow> map ss_id (sn_submissions s) = [1000, 1001, 1002] \<and>
          map pl_best_tests_passed (sn_players s) = [1, 0]
      | _ \<Rightarrow> False"
      by code_simp
    then show thesis by (auto split: sum.splits option.splits intro: that)
  qed
  have active: "active_match ?d 100" "is_player ?d 100 1"
    by code_simp+
  have "snapshot_shows ?d 1 (sn_id s) s" "100 = sn_id s"
    using snapshot_faithful [OF ex_db_inv run] active by auto
  with run parts show ?thesis by auto
qed

end
