(* ===== verification/Http.thy ===== *)
theory Http
  imports Token Snapshot
begin

text \<open>
  The HTTP interface of the gateway: request bodies and responses of \<open>internal/gateway/http.go\<close>,
  the session and account endpoints of \<open>auth_http.go\<close> and the match endpoints of \<open>match_http.go\<close>.
  A handler is a function from the request to its response (and the database it leaves).
  \<open>users\<close> and \<open>snapshot_loader\<close> are the Go interfaces \<open>UserLookup\<close> and \<open>matchSnapshotLoader\<close>,
  interpreted on the account service and on the snapshot service.
\<close>

section \<open>Responses\<close>

datatype http_body = ErrorBody string string | SessionBody string int account_user | MeBody account_user
  | MatchBody "match_snapshot option" | StatusBody string

record response =
  hp_status :: int
  hp_body :: http_body
  hp_no_store :: bool
  hp_challenge :: bool

definition write_json :: "bool \<Rightarrow> int \<Rightarrow> http_body \<Rightarrow> response" where
  "write_json no_store status body =
     \<lparr>hp_status = status, hp_body = body, hp_no_store = no_store, hp_challenge = False\<rparr>"

definition write_api_error :: "bool \<Rightarrow> int \<Rightarrow> string \<Rightarrow> string \<Rightarrow> response" where
  "write_api_error no_store status code message = write_json no_store status (ErrorBody code message)"

definition internal_error :: response where
  "internal_error = write_api_error True 500 ''internal_error'' ''an internal error occurred''"

section \<open>Media types\<close>

text \<open>\<open>mime.ParseMediaType\<close>: tokens, quoted values and parameters.\<close>

definition is_token_char :: "char \<Rightarrow> bool" where
  "is_token_char c \<longleftrightarrow> is_digit c \<or> 65 \<le> byte c \<and> byte c \<le> 90 \<or> 97 \<le> byte c \<and> byte c \<le> 122 \<or>
     c \<in> set ''!#$%&*+-.^_`|~'' \<or> c = CHR 0x27"

definition is_tspecial :: "char \<Rightarrow> bool" where
  "is_tspecial c \<longleftrightarrow> c \<in> set ''()<>@,;:/[]?='' \<or> c = CHR 0x5C \<or> c = CHR 0x22"

fun consume_quoted :: "string \<Rightarrow> string \<Rightarrow> (string \<times> string) option" where
  "consume_quoted [] acc = None"
| "consume_quoted [c] acc =
     (if c = CHR 0x22 then Some (rev acc, []) else None)"
| "consume_quoted (c # d # s) acc =
     (if c = CHR 0x22 then Some (rev acc, d # s)
      else if c = CHR 0x5C \<and> is_tspecial d then consume_quoted s (d # acc)
      else if c = CHR 0x0D \<or> c = CHR 0x0A then None
      else consume_quoted (d # s) (c # acc))"

definition consume_value :: "string \<Rightarrow> (string \<times> string) option" where
  "consume_value s =
     (case s of
        [] \<Rightarrow> None
      | c # t \<Rightarrow>
          if c = CHR 0x22 then consume_quoted t []
          else if is_token_char c then Some (takeWhile is_token_char s, dropWhile is_token_char s) else None)"

text \<open>\<open>; name = value\<close>: the name in lower case, the value and the rest; \<open>None\<close> when there is no parameter.\<close>

definition consume_media_param :: "string \<Rightarrow> (string \<times> string \<times> string) option" where
  "consume_media_param s =
     (case trim_left s of
        [] \<Rightarrow> None
      | c # r1 \<Rightarrow>
          if c \<noteq> CHR '';'' then None
          else let r2 = trim_left r1;
                   name = map ascii_lower (takeWhile is_token_char r2)
               in if name = [] then None
                  else case trim_left (dropWhile is_token_char r2) of
                      [] \<Rightarrow> None
                    | e # r3 \<Rightarrow>
                        if e \<noteq> CHR ''='' then None
                        else (case consume_value (trim_left r3) of
                            None \<Rightarrow> None | Some (value, rest) \<Rightarrow> Some (name, value, rest)))"

lemma length_trim_left: "length (trim_left s) \<le> length s"
proof (induction s rule: trim_left.induct)
  case (2 c s)
  show ?case
  proof (cases "space_width (c # s) = 0")
    case False
    with 2 have "length (trim_left (drop (space_width (c # s)) (c # s))) \<le> length (c # s) - space_width (c # s)"
      by (simp del: drop_Cons')
    with False show ?thesis by simp
  qed simp
qed simp

lemma length_consume_quoted: "consume_quoted s acc = Some (v, rest) \<Longrightarrow> length rest < length s"
  by (induction s acc rule: consume_quoted.induct) (auto split: if_splits)

lemma length_consume_value: "consume_value s = Some (v, rest) \<Longrightarrow> length rest < length s"
  by (auto simp: consume_value_def length_dropWhile_le le_imp_less_Suc split: list.splits if_splits
      dest!: length_consume_quoted)

lemma length_consume_media_param:
  assumes "consume_media_param s = Some (name, value, rest)"
  shows "length rest < length s"
proof -
  obtain c r1 e r3 where s: "trim_left s = c # r1" and r: "trim_left (dropWhile is_token_char (trim_left r1)) = e # r3"
    and v: "consume_value (trim_left r3) = Some (value, rest)"
    using assms by (auto simp: consume_media_param_def Let_def split: list.splits if_splits option.splits)
  have "length rest < length r3" using length_consume_value [OF v] length_trim_left [of r3] by simp
  also have "length r3 < length (dropWhile is_token_char (trim_left r1))"
    using length_trim_left [of "dropWhile is_token_char (trim_left r1)"] r by simp
  also have "\<dots> \<le> length (trim_left r1)" by (rule length_dropWhile_le)
  also have "\<dots> \<le> length r1" by (rule length_trim_left)
  also have "length r1 < length s" using length_trim_left [of s] s by simp
  finally show ?thesis by simp
qed

text \<open>The parameters: none may be given twice with different values, and a lone semicolon may end them.\<close>

function media_params_ok :: "string \<Rightarrow> (string \<times> string) list \<Rightarrow> bool" where
  "media_params_ok s seen =
     (if trim_left s = [] then True
      else case consume_media_param (trim_left s) of
          None \<Rightarrow> trim_space (trim_left s) = '';''
        | Some (name, value, rest) \<Rightarrow>
            (case map_of seen name of
               Some value2 \<Rightarrow> if value2 \<noteq> value then False else media_params_ok rest seen
             | None \<Rightarrow> media_params_ok rest ((name, value) # seen)))"
  by pat_completeness auto
termination
  by (relation "measure (\<lambda>(s, seen). length s)")
     (auto dest!: length_consume_media_param intro: less_le_trans [OF _ length_trim_left])

declare media_params_ok.simps [simp del]

definition is_json_media :: "account_lib \<Rightarrow> string \<Rightarrow> bool" where
  "is_json_media A v =
     (let base = fst (cut (CHR '';'') v)
      in trim_space (to_lower (al_lower A) base) = ''application/json'' \<and> media_params_ok (drop (length base) v) [])"

section \<open>Request bodies\<close>

record credentials =
  cr_email :: string
  cr_password :: string

definition credentials_field :: "string \<Rightarrow> json \<Rightarrow> credentials \<Rightarrow> credentials option" where
  "credentials_field k v c =
     (if is_field ''email'' k then map_option (\<lambda>x. c\<lparr>cr_email := x\<rparr>) (decode_string v (cr_email c))
      else if is_field ''password'' k then map_option (\<lambda>x. c\<lparr>cr_password := x\<rparr>) (decode_string v (cr_password c))
      else None)"

definition auth_body_limit :: nat where
  "auth_body_limit = 4096"

definition unsupported_media :: response where
  "unsupported_media = write_api_error True 415 ''unsupported_media_type'' ''Content-Type must be application/json''"

definition body_too_large :: response where
  "body_too_large = write_api_error True 413 ''payload_too_large'' ''request body is too large''"

definition body_invalid :: response where
  "body_invalid = write_api_error True 400 ''invalid_request'' ''request body is invalid''"

definition body_trailing :: response where
  "body_trailing = write_api_error True 400 ''invalid_request'' ''request body contains trailing data''"

text \<open>
  \<open>decodeAuthJSON\<close> into the credentials. The decoder sees at most the bytes the limit admits
  and reports the limit only when it needs more of them: inside a value, at the end of one that
  is not an array or an object, or in the white space after it. Errors are the response sent.
\<close>

definition decode_auth_json :: "account_lib \<Rightarrow> string \<Rightarrow> string \<Rightarrow> response + credentials" where
  "decode_auth_json A content_type body =
     (if \<not> is_json_media A content_type then Inl unsupported_media
      else let limited = take auth_body_limit body;
               too_long = auth_body_limit < length body;
               ended = (if too_long then body_too_large else body_invalid)
           in case scan [] (BeginValue False) limited of
               ScanError \<Rightarrow> Inl body_invalid
             | AtEnd _ \<Rightarrow> Inl ended
             | Scanned v rest \<Rightarrow>
                 if too_long \<and> rest = [] \<and> (case v of JArray _ \<Rightarrow> False | JObject _ \<Rightarrow> False | _ \<Rightarrow> True) then Inl ended
                 else (case decode_struct credentials_field \<lparr>cr_email = '''', cr_password = ''''\<rparr> v of
                     None \<Rightarrow> Inl body_invalid
                   | Some c \<Rightarrow>
                       (case scan [] (BeginValue False) rest of
                          AtEnd _ \<Rightarrow>
                            if too_long then Inl body_too_large
                            else if list_all json_space rest then Inr c else Inl body_trailing
                        | _ \<Rightarrow> Inl body_trailing)))"

section \<open>Sessions\<close>

record auth_http =
  ah_secret :: string
  ah_token_ttl :: int
  ah_db :: bool

definition service_error :: "auth_error \<Rightarrow> response" where
  "service_error e =
     (case e of
        ErrEmailTaken \<Rightarrow> write_api_error True 409 ''email_taken'' ''email is already registered''
      | ErrInvalidEmail \<Rightarrow> write_api_error True 400 ''invalid_request'' ''email or password is invalid''
      | ErrInvalidPassword \<Rightarrow> write_api_error True 400 ''invalid_request'' ''email or password is invalid''
      | ErrInvalidCredentials \<Rightarrow> write_api_error True 401 ''invalid_credentials'' ''email or password is incorrect''
      | _ \<Rightarrow> internal_error)"

text \<open>What happens around a request: the clock, the statement's outcome, the defaults of a new row.\<close>

record session_env =
  se_now :: int
  se_ext :: io
  se_fresh :: uuid
  se_created :: time
  se_salt :: string

definition session ::
  "account_lib \<Rightarrow> uuid_lib \<Rightarrow> jwt_lib \<Rightarrow> auth_http \<Rightarrow> session_env \<Rightarrow> bool \<Rightarrow> string \<Rightarrow> string \<Rightarrow> db \<Rightarrow> response \<times> db" where
  "session A U J h env registering content_type body d =
     (case decode_auth_json A content_type body of
        Inl r \<Rightarrow> (r, d)
      | Inr c \<Rightarrow>
     (case normalize_email A (cr_email c) of
        Inl _ \<Rightarrow> (write_api_error True 400 ''invalid_request'' ''email or password is invalid'', d)
      | Inr email \<Rightarrow>
          if validate_password (cr_password c) \<noteq> None
          then (write_api_error True 400 ''invalid_request'' ''email or password is invalid'', d)
          else case (if registering
                 then register A (ah_db h) (se_ext env) (se_fresh env) (se_created env) (se_salt env) email (cr_password c) d
                 else (login A (ah_db h) (se_ext env) email (cr_password c) d, d)) of
              (Inl e, d') \<Rightarrow> (service_error e, d')
            | (Inr user, d') \<Rightarrow>
                (case mint_access_token U J (se_now env) (au_id user) (ah_secret h) (ah_token_ttl h) of
                   Inl _ \<Rightarrow> (internal_error, d')
                 | Inr t \<Rightarrow>
                     (write_json True (if registering then 201 else 200) (SessionBody (it_value t) (it_expires_at t) user), d'))))"

definition auth_failure_response :: "auth_failure \<Rightarrow> response" where
  "auth_failure_response e =
     (case e of
        Unauthorized _ \<Rightarrow>
          (write_api_error True 401 ''unauthorized'' ''authentication is required'')\<lparr>hp_challenge := True\<rparr>
      | AuthUnavailable _ \<Rightarrow> internal_error)"

definition me :: "auth_failure + principal \<Rightarrow> response" where
  "me authentication =
     (case authentication of
        Inl e \<Rightarrow> auth_failure_response e
      | Inr p \<Rightarrow> write_json True 200 (MeBody (pr_user p)))"

section \<open>Matches\<close>

definition match_not_found :: response where
  "match_not_found = write_api_error True 404 ''match_not_found'' ''match was not found''"

text \<open>
  \<open>matchHTTP.serve\<close>: the empty identifier asks for the current match. The loader is the
  interface \<open>matchSnapshotLoader\<close>.
\<close>

definition serve_match ::
  "uuid_lib \<Rightarrow> (uuid \<Rightarrow> string + match_snapshot option) \<Rightarrow> (uuid \<Rightarrow> uuid \<Rightarrow> string + match_snapshot option)
    \<Rightarrow> auth_failure + principal \<Rightarrow> string \<Rightarrow> response" where
  "serve_match U current by_id authentication raw_match_id =
     (case authentication of
        Inl e \<Rightarrow> auth_failure_response e
      | Inr p \<Rightarrow>
          if raw_match_id = '''' then
            (case current (au_id (pr_user p)) of
               Inl _ \<Rightarrow> internal_error
             | Inr snapshot \<Rightarrow> write_json True 200 (MatchBody snapshot))
          else case uuid_parse U raw_match_id of
              None \<Rightarrow> match_not_found
            | Some k \<Rightarrow>
                if k = nil_uuid then match_not_found
                else (case by_id (au_id (pr_user p)) k of
                    Inl _ \<Rightarrow> internal_error
                  | Inr None \<Rightarrow> match_not_found
                  | Inr (Some s) \<Rightarrow> write_json True 200 (MatchBody (Some s))))"

section \<open>Readiness\<close>

text \<open>\<open>handleReadyz\<close>: each dependency is absent or answers its ping.\<close>

definition handle_readyz :: "io option \<Rightarrow> io option \<Rightarrow> response" where
  "handle_readyz postgres redis =
     (if postgres \<noteq> Some IoOk \<or> redis \<noteq> Some IoOk
      then write_api_error False 503 ''not_ready'' ''service is not ready''
      else write_json False 200 (StatusBody ''ready''))"

section \<open>Interfaces\<close>

text \<open>\<open>UserLookup\<close>: a user found by an identifier has that identifier.\<close>

locale user_lookup =
  fixes users :: "uuid \<Rightarrow> auth_error + account_user"
  assumes lookup_names: "users u = Inr v \<Longrightarrow> au_id v = u"
begin

lemma authenticated_subject:
  assumes "authenticate_rest U J now r secret (Some users) = Inr p"
  obtains raw where "extract_bearer_token r = Inr raw"
    "parse_access_token U J now raw secret = Inr (au_id (pr_user p), pr_expires_at p)"
    "users (au_id (pr_user p)) = Inr (pr_user p)"
  using authenticate_rest_InrD [OF assms] lookup_names by (metis option.inject)

end

lemma user_by_id_names: "user_by_id has_db ext k d = Inr v \<Longrightarrow> au_id v = k"
  by (auto simp: user_by_id_def user_of_def account_columns_def dest: row_of_key split: if_splits option.splits)

interpretation accounts: user_lookup "\<lambda>k. user_by_id has_db ext k d" for has_db ext d
  by unfold_locales (rule user_by_id_names)

text \<open>
  \<open>matchSnapshotLoader\<close>: over a state that is well-formed, it loads matches of the user only
  and shows them truthfully; it finds nothing only when there is no such match.
\<close>

locale snapshot_loader =
  fixes good :: "'s \<Rightarrow> bool" and plays :: "'s \<Rightarrow> uuid \<Rightarrow> uuid \<Rightarrow> bool"
    and truthful :: "'s \<Rightarrow> uuid \<Rightarrow> uuid \<Rightarrow> match_snapshot \<Rightarrow> bool"
    and current :: "'s \<Rightarrow> uuid \<Rightarrow> string + match_snapshot option"
    and by_id :: "'s \<Rightarrow> uuid \<Rightarrow> uuid \<Rightarrow> string + match_snapshot option"
  assumes by_id_own: "good d \<Longrightarrow> by_id d u k = Inr (Some s) \<Longrightarrow> plays d k u \<and> sn_id s = k \<and> truthful d u k s"
    and by_id_none: "good d \<Longrightarrow> by_id d u k = Inr None \<Longrightarrow> \<not> plays d k u"
    and current_own: "good d \<Longrightarrow> current d u = Inr (Some s) \<Longrightarrow> plays d (sn_id s) u \<and> truthful d u (sn_id s) s"
    and current_none: "good d \<Longrightarrow> current d u = Inr None \<Longrightarrow> \<not> plays d k u"
begin

lemma served:
  assumes "good d" "hp_status (serve_match U (current d) (by_id d) authentication raw_id) = 200"
  obtains p where "authentication = Inr p" "raw_id = ''''" "\<And>k. \<not> plays d k (au_id (pr_user p))"
      "hp_body (serve_match U (current d) (by_id d) authentication raw_id) = MatchBody None"
  | p s where "authentication = Inr p" "raw_id = '''' \<or> uuid_parse U raw_id = Some (sn_id s)"
      "plays d (sn_id s) (au_id (pr_user p))" "truthful d (au_id (pr_user p)) (sn_id s) s"
      "hp_body (serve_match U (current d) (by_id d) authentication raw_id) = MatchBody (Some s)"
proof -
  note defs = serve_match_def auth_failure_response_def internal_error_def write_api_error_def write_json_def
    match_not_found_def
  obtain p where p: "authentication = Inr p"
    using assms(2) by (auto simp: defs split: sum.splits auth_failure.splits)
  show thesis
  proof (cases "raw_id = ''''")
    case True
    then obtain res where res: "current d (au_id (pr_user p)) = Inr res"
        and body: "hp_body (serve_match U (current d) (by_id d) authentication raw_id) = MatchBody res"
      using assms(2) by (auto simp: defs p split: sum.splits)
    show thesis
    proof (cases res)
      case None
      with that(1) p True res body current_none [OF assms(1)] show thesis by blast
    next
      case (Some s)
      with that(2) p True res body current_own [OF assms(1)] show thesis by blast
    qed
  next
    case False
    then obtain k s where k: "uuid_parse U raw_id = Some k" and s: "by_id d (au_id (pr_user p)) k = Inr (Some s)"
        and body: "hp_body (serve_match U (current d) (by_id d) authentication raw_id) = MatchBody (Some s)"
      using assms(2) by (auto simp: defs p split: sum.splits option.splits if_splits)
    with that(2) p by_id_own [OF assms(1) s] show thesis by blast
  qed
qed

lemma stranger_not_found:
  assumes "good d" "authentication = Inr p" "raw_id \<noteq> ''''" "uuid_parse U raw_id = Some k"
    and "\<not> plays d k (au_id (pr_user p))" "by_id d (au_id (pr_user p)) k = Inr res"
  shows "serve_match U (current d) (by_id d) authentication raw_id = match_not_found"
proof (cases res)
  case None
  with assms show ?thesis by (simp add: serve_match_def)
next
  case (Some s)
  with by_id_own [OF assms(1)] assms(5,6) show ?thesis by blast
qed

end

lemma snapshot_loader_snapshots:
  "snapshot_loader db_inv is_player snapshot_shows (\<lambda>d u. snapshot_current has_db ext now u d)
     (\<lambda>d u k. snapshot_by_id has_db ext now u k d)"
proof
  fix d u k s
  assume inv: "db_inv d"
  show "is_player d k u \<and> sn_id s = k \<and> snapshot_shows d u k s"
    if "snapshot_by_id has_db ext now u k d = Inr (Some s)"
    using snapshot_by_id_run [OF inv that] by (auto simp: snapshot_shows_def split: option.splits)
  show "\<not> is_player d k u" if "snapshot_by_id has_db ext now u k d = Inr None"
    using snapshot_by_id_run [OF inv that] by simp
  show "is_player d (sn_id s) u \<and> snapshot_shows d u (sn_id s) s"
    if "snapshot_current has_db ext now u d = Inr (Some s)"
    using snapshot_current_run [OF inv that] by simp
  show "\<not> is_player d k u" if "snapshot_current has_db ext now u d = Inr None"
    using snapshot_current_run [OF inv that] by simp
qed

interpretation snapshots: snapshot_loader db_inv is_player snapshot_shows
    "\<lambda>d u. snapshot_current has_db ext now u d" "\<lambda>d u k. snapshot_by_id has_db ext now u k d" for has_db ext now
  by (rule snapshot_loader_snapshots)

section \<open>Sessions end to end\<close>

definition credentials_json :: "string \<Rightarrow> string \<Rightarrow> json" where
  "credentials_json email password = JObject [(''email'', jstring email), (''password'', jstring password)]"

lemma is_json_media_plain: "is_json_media A ''application/json''"
proof -
  have "cut (CHR '';'') ''application/json'' = (''application/json'', '''', False)" by code_simp
  moreover have "trim_space (map ascii_lower ''application/json'') = ''application/json''" by code_simp
  moreover have "ascii ''application/json''" by code_simp
  moreover have "media_params_ok '''' []" by code_simp
  ultimately show ?thesis by (simp add: is_json_media_def to_lower_ascii)
qed

lemma credentials_fields: "is_field ''email'' ''email''" "is_field ''password'' ''password''"
  "\<not> is_field ''email'' ''password''" "raw_string ''email''" "raw_string ''password''"
  by code_simp+

lemma decode_credentials:
  assumes "is_json_media A ct" "utf8_valid email" "utf8_valid password"
    and "length (json_text (credentials_json email password)) \<le> auth_body_limit"
  shows "decode_auth_json A ct (json_text (credentials_json email password)) = Inr \<lparr>cr_email = email, cr_password = password\<rparr>"
proof -
  have "scan [] (BeginValue False) (json_text (credentials_json email password) @ []) =
      resume (complete_value (credentials_json email password) []) []"
    by (rule scansD [OF scan_value])
       (simp_all add: credentials_json_def credentials_fields max_nesting_depth_def takes_value_def delimited_def)
  then have "scan [] (BeginValue False) (json_text (credentials_json email password)) = Scanned (credentials_json email password) []"
    by (simp add: complete_value_def)
  moreover have "decode_struct credentials_field \<lparr>cr_email = '''', cr_password = ''''\<rparr> (credentials_json email password)
      = Some \<lparr>cr_email = email, cr_password = password\<rparr>"
    using assms(2,3) by (simp add: credentials_json_def decode_struct_def credentials_field_def credentials_fields)
  ultimately show ?thesis
    using assms(1,4) by (simp add: decode_auth_json_def)
qed

lemma session_registers:
  assumes "decode_auth_json A ct body = Inr c" "normalize_email A (cr_email c) = Inr email"
    and "validate_password (cr_password c) = None"
    and "register A (ah_db h) (se_ext env) (se_fresh env) (se_created env) (se_salt env) email (cr_password c) d = (Inr user, d')"
    and "mint_access_token U J (se_now env) (au_id user) (ah_secret h) (ah_token_ttl h) = Inr t"
  shows "session A U J h env True ct body d =
    (write_json True 201 (SessionBody (it_value t) (it_expires_at t) user), d')"
  using assms by (simp add: session_def)

lemma session_logs_in:
  assumes "decode_auth_json A ct body = Inr c" "normalize_email A (cr_email c) = Inr email"
    and "validate_password (cr_password c) = None"
    and "login A (ah_db h) (se_ext env) email (cr_password c) d = Inr user"
    and "mint_access_token U J (se_now env) (au_id user) (ah_secret h) (ah_token_ttl h) = Inr t"
  shows "session A U J h env False ct body d =
    (write_json True 200 (SessionBody (it_value t) (it_expires_at t) user), d)"
  using assms by (simp add: session_def)

text \<open>A session response, and what it says.\<close>

lemma session_created:
  assumes "session A U J h env registering ct body d = (r, d')" "hp_body r = SessionBody token expires user"
  obtains c email t where "decode_auth_json A ct body = Inr c" "normalize_email A (cr_email c) = Inr email"
    "validate_password (cr_password c) = None" "token = it_value t" "expires = it_expires_at t"
    "mint_access_token U J (se_now env) (au_id user) (ah_secret h) (ah_token_ttl h) = Inr t"
    "if registering
     then register A (ah_db h) (se_ext env) (se_fresh env) (se_created env) (se_salt env) email (cr_password c) d = (Inr user, d')
     else login A (ah_db h) (se_ext env) email (cr_password c) d = Inr user \<and> d' = d"
proof -
  note er = service_error_def internal_error_def write_api_error_def write_json_def unsupported_media_def
    body_too_large_def body_invalid_def body_trailing_def
  have decode_error: "hp_body x \<noteq> SessionBody token expires user" if "decode_auth_json A ct body = Inl x" for x
    using that by (auto simp: decode_auth_json_def Let_def er split: if_splits scan_result.splits option.splits)
  show thesis
    using assms that decode_error
    by (auto simp: session_def er split: sum.splits prod.splits if_splits auth_error.splits)
qed

lemma normalized_is_ascii:
  assumes "ascii raw" "normalize_email A raw = Inr email"
  shows "ascii email"
  using normalize_email_InrD [OF assms(2)] to_lower_ascii [OF ascii_trim_space [OF assms(1)]]
    ascii_trim_space [OF assms(1)] ascii_lower_ascii
  by (metis (no_types, opaque_lifting) ascii_def imageE set_map)

lemma ascii_utf8: "ascii s \<Longrightarrow> utf8_valid s"
  by (auto simp: ascii_def intro: utf8_valid_ascii)

lemma mint_works:
  assumes "jwt_ok J" "secret \<noteq> ''''" "u \<noteq> nil_uuid" "0 < ttl"
  obtains t where "mint_access_token U J now u secret ttl = Inr t"
proof -
  obtain raw where "jwt_sign J \<lparr>jc_subject = Some (uuid_string U u), jc_issued_at = Some (jwt_numeric_date J now),
                         jc_expires_at = Some (jwt_numeric_date J (now + ttl))\<rparr> secret = Some raw"
    using assms(1) unfolding jwt_ok_def by blast
  with that assms(2-4) show thesis by (simp add: mint_access_token_def Let_def)
qed

lemma me_with_token:
  assumes "jwt_ok J" "uuid_lib_ok U" "utf8_valid (uuid_string U u)"
    and "mint_access_token U J now u secret ttl = Inr t" "lookup u = Inr user"
    and "later < jwt_numeric_date J (now + ttl)"
  shows "me (authenticate_rest U J later \<lparr>ar_authorization = [''Bearer '' @ it_value t], ar_query_token = q\<rparr> secret (Some lookup))
    = write_json True 200 (MeBody user)"
proof -
  have "equal_fold_ascii ''Bearer'' ''Bearer''" by (simp add: equal_fold_ascii_def)
  then have "extract_bearer_token \<lparr>ar_authorization = [''Bearer '' @ it_value t], ar_query_token = q\<rparr> = Inr (it_value t)"
    by (rule extract_bearer [OF _ minted_token_shape(1) [OF assms(1,4)]]) simp
  then show ?thesis
    using assms(6) minted_token_parses [OF assms(1-4), of later]
    by (simp add: me_def authenticate_rest_def authenticate_token_def assms(5))
qed

section \<open>Properties\<close>

text \<open>
  Property C36. Registering over HTTP establishes a session: a valid JSON body with an ASCII
  email that is free and a valid password is answered with 201, a token and the new account;
  until it expires the token makes \<open>GET /api/me\<close> answer with that account; and logging in
  with the same body is answered with 200 for the same account.
\<close>

theorem session_established:
  assumes lib: "bcrypt_ok A" "jwt_ok J" "uuid_lib_ok U" "utf8_valid (uuid_string U (se_fresh env))"
    and req: "is_json_media A ct" "ascii raw" "normalize_email A raw = Inr email" "validate_password pw = None"
      "length (json_text (credentials_json raw pw)) \<le> auth_body_limit"
    and srv: "ah_db h" "ah_secret h \<noteq> ''''" "0 < ah_token_ttl h" "se_ext env = IoOk"
    and free: "se_fresh env \<noteq> nil_uuid" "\<forall>u\<in>set (db_users d). u_id u \<noteq> se_fresh env \<and> u_email u \<noteq> email"
  shows "\<exists>t user d'.
      session A U J h env True ct (json_text (credentials_json raw pw)) d
        = (write_json True 201 (SessionBody t (se_now env + ah_token_ttl h) user), d')
    \<and> au_id user = se_fresh env \<and> au_email user = email
    \<and> (\<forall>later q. later < jwt_numeric_date J (se_now env + ah_token_ttl h) \<longrightarrow>
        me (authenticate_rest U J later \<lparr>ar_authorization = [''Bearer '' @ t], ar_query_token = q\<rparr> (ah_secret h)
             (Some (\<lambda>k. user_by_id True IoOk k d'))) = write_json True 200 (MeBody user))
    \<and> (\<forall>env2. se_ext env2 = IoOk \<longrightarrow> (\<exists>t2.
        session A U J h env2 False ct (json_text (credentials_json raw pw)) d'
          = (write_json True 200 (SessionBody t2 (se_now env2 + ah_token_ttl h) user), d')))"
proof -
  have pw: "utf8_valid pw" using req(4) by (auto simp: validate_password_def split: if_splits)
  have dec: "decode_auth_json A ct (json_text (credentials_json raw pw)) = Inr \<lparr>cr_email = raw, cr_password = pw\<rparr>"
    using decode_credentials [OF req(1) ascii_utf8 [OF req(2)] pw req(5)] .
  have idem: "normalize_email A email = Inr email" using normalize_email_idem [OF req(2,3)] .
  define user where "user = \<lparr>au_id = se_fresh env, au_email = email,
     au_display_name = fst (cut (CHR ''@'') email), au_created_at = se_created env\<rparr>"
  have "fst (register A True IoOk (se_fresh env) (se_created env) (se_salt env) email pw d) = Inr user"
    using register_result [OF lib(1) normalized_is_ascii [OF req(2,3)]] free(2) idem req(4) by (auto simp: user_def)
  then obtain d' where reg: "register A True IoOk (se_fresh env) (se_created env) (se_salt env) email pw d = (Inr user, d')"
    by (metis prod.collapse)
  have uid: "au_id user = se_fresh env" by (simp add: user_def)
  obtain t where t: "mint_access_token U J (se_now env) (se_fresh env) (ah_secret h) (ah_token_ttl h) = Inr t"
    using mint_works [OF lib(2) srv(2) free(1) srv(3)] .
  have made: "session A U J h env True ct (json_text (credentials_json raw pw)) d
      = (write_json True 201 (SessionBody (it_value t) (it_expires_at t) user), d')"
    by (rule session_registers [OF dec, where email = email])
       (simp_all add: req srv reg uid t)
  note found = registered_logs_in [OF lib(1) reg refl, where gs = "[]"]
  then have lg: "login A True IoOk email pw d' = Inr user" by simp
  have known: "user_by_id True IoOk (se_fresh env) d' = Inr user"
    using found by (simp add: user_def)
  have "\<exists>t2. session A U J h env2 False ct (json_text (credentials_json raw pw)) d'
      = (write_json True 200 (SessionBody t2 (se_now env2 + ah_token_ttl h) user), d')" if "se_ext env2 = IoOk" for env2
  proof -
    obtain t2 where t2: "mint_access_token U J (se_now env2) (se_fresh env) (ah_secret h) (ah_token_ttl h) = Inr t2"
      using mint_works [OF lib(2) srv(2) free(1) srv(3)] .
    have "session A U J h env2 False ct (json_text (credentials_json raw pw)) d'
      = (write_json True 200 (SessionBody (it_value t2) (it_expires_at t2) user), d')"
      by (rule session_logs_in [OF dec, where email = email])
         (simp_all add: req srv that uid t2 lg)
    then show ?thesis using mint_access_token_InrD(4) [OF t2] by auto
  qed
  moreover have "me (authenticate_rest U J later \<lparr>ar_authorization = [''Bearer '' @ it_value t], ar_query_token = q\<rparr> (ah_secret h)
             (Some (\<lambda>k. user_by_id True IoOk k d'))) = write_json True 200 (MeBody user)"
    if "later < jwt_numeric_date J (se_now env + ah_token_ttl h)" for later q
    using me_with_token [OF lib(2,3,4) t, of "\<lambda>k. user_by_id True IoOk k d'" user later q] known that by simp
  ultimately show ?thesis
    using made mint_access_token_InrD(4) [OF t]
    by (intro exI [of _ "it_value t"] exI [of _ user] exI [of _ d']) (simp add: user_def)
qed

text \<open>
  Property C35. A match is shown to its players only, and as it is: a match endpoint answers
  200 only to a request whose token names an existing user, with no match only when the user
  never played and asked for the current one, and otherwise with a match of the user, the one
  asked for, shown truthfully. A user who asks for a match of others gets the same 404 as for a
  match that does not exist.
\<close>

theorem match_shown_to_players:
  assumes "db_inv d"
    and "a = authenticate_rest U J now r secret (Some (\<lambda>k. user_by_id has_db ext k d))"
    and "resp = serve_match U (\<lambda>u. snapshot_current has_db2 ext2 now2 u d) (\<lambda>u k. snapshot_by_id has_db2 ext2 now2 u k d) a raw_id"
  shows "(hp_status resp = 200 \<longrightarrow>
      (\<exists>p token. a = Inr p \<and> extract_bearer_token r = Inr token
        \<and> parse_access_token U J now token secret = Inr (au_id (pr_user p), pr_expires_at p)
        \<and> user_of d (au_id (pr_user p)) \<noteq> None
        \<and> (hp_body resp = MatchBody None \<and> raw_id = '''' \<and> (\<forall>k. \<not> is_player d k (au_id (pr_user p)))
          \<or> (\<exists>s. hp_body resp = MatchBody (Some s) \<and> (raw_id = '''' \<or> uuid_parse U raw_id = Some (sn_id s))
              \<and> is_player d (sn_id s) (au_id (pr_user p)) \<and> snapshot_shows d (au_id (pr_user p)) (sn_id s) s))))
    \<and> (\<forall>p k res. a = Inr p \<and> raw_id \<noteq> '''' \<and> uuid_parse U raw_id = Some k \<and> \<not> is_player d k (au_id (pr_user p))
        \<and> snapshot_by_id has_db2 ext2 now2 (au_id (pr_user p)) k d = Inr res \<longrightarrow> resp = match_not_found)"
proof (intro conjI impI allI)
  assume ok: "hp_status resp = 200"
  have token: "\<exists>token. extract_bearer_token r = Inr token
        \<and> parse_access_token U J now token secret = Inr (au_id (pr_user p), pr_expires_at p)"
    and known: "user_of d (au_id (pr_user p)) \<noteq> None" if p: "a = Inr p" for p
  proof -
    obtain token where t: "extract_bearer_token r = Inr token"
      "parse_access_token U J now token secret = Inr (au_id (pr_user p), pr_expires_at p)"
      "user_by_id has_db ext (au_id (pr_user p)) d = Inr (pr_user p)"
      using accounts.authenticated_subject [OF p [unfolded assms(2)]] .
    then show "\<exists>token. extract_bearer_token r = Inr token
        \<and> parse_access_token U J now token secret = Inr (au_id (pr_user p), pr_expires_at p)" by blast
    show "user_of d (au_id (pr_user p)) \<noteq> None"
      using t(3) by (auto simp: user_by_id_def split: if_splits option.splits)
  qed
  show "\<exists>p token. a = Inr p \<and> extract_bearer_token r = Inr token
        \<and> parse_access_token U J now token secret = Inr (au_id (pr_user p), pr_expires_at p)
        \<and> user_of d (au_id (pr_user p)) \<noteq> None
        \<and> (hp_body resp = MatchBody None \<and> raw_id = '''' \<and> (\<forall>k. \<not> is_player d k (au_id (pr_user p)))
          \<or> (\<exists>s. hp_body resp = MatchBody (Some s) \<and> (raw_id = '''' \<or> uuid_parse U raw_id = Some (sn_id s))
              \<and> is_player d (sn_id s) (au_id (pr_user p)) \<and> snapshot_shows d (au_id (pr_user p)) (sn_id s) s))"
    using ok unfolding assms(3)
    by (rule snapshots.served [OF assms(1)]) (use token known in blast)+
next
  fix p k res
  assume "a = Inr p \<and> raw_id \<noteq> '''' \<and> uuid_parse U raw_id = Some k \<and> \<not> is_player d k (au_id (pr_user p))
        \<and> snapshot_by_id has_db2 ext2 now2 (au_id (pr_user p)) k d = Inr res"
  then show "resp = match_not_found"
    unfolding assms(3) by (blast intro: snapshots.stranger_not_found [OF assms(1)])
qed

section \<open>Witnesses\<close>

definition ex_session_env :: session_env where
  "ex_session_env = \<lparr>se_now = 500, se_ext = IoOk, se_fresh = 5, se_created = 100, se_salt = ''s''\<rparr>"

definition ex_http :: auth_http where
  "ex_http = \<lparr>ah_secret = ''secret'', ah_token_ttl = 3000000000, ah_db = True\<rparr>"

theorem session_established_witness:
  "\<exists>t user d'. session ex_accounts ex_uuid_lib ex_jwt ex_http ex_session_env True ''application/json''
        (json_text (credentials_json ''Alice@Example.com'' ''correct horse'')) ex_users
      = (write_json True 201 (SessionBody t 3000000500 user), d')
    \<and> au_email user = ''alice@example.com''
    \<and> me (authenticate_rest ex_uuid_lib ex_jwt 2000000000 \<lparr>ar_authorization = [''Bearer '' @ t], ar_query_token = []\<rparr> ''secret''
           (Some (\<lambda>k. user_by_id True IoOk k d'))) = write_json True 200 (MeBody user)"
proof -
  have n: "normalize_email ex_accounts ''Alice@Example.com'' = Inr ''alice@example.com''" by code_simp
  have pw: "validate_password ''correct horse'' = None" by code_simp
  have len: "length (json_text (credentials_json ''Alice@Example.com'' ''correct horse'')) \<le> auth_body_limit"
    by code_simp
  have a: "ascii ''Alice@Example.com''" by code_simp
  have free: "\<forall>u\<in>set (db_users ex_users). u_id u \<noteq> se_fresh ex_session_env \<and> u_email u \<noteq> ''alice@example.com''" by code_simp
  have srv: "ah_db ex_http" "ah_secret ex_http \<noteq> ''''" "0 < ah_token_ttl ex_http" "se_ext ex_session_env = IoOk" "se_fresh ex_session_env \<noteq> nil_uuid"
    by (simp_all add: ex_http_def ex_session_env_def nil_uuid_def)
  have m: "is_json_media ex_accounts ''application/json''" by (rule is_json_media_plain)
  have nd: "jwt_numeric_date ex_jwt 3000000500 = 3000000000"
    by (simp add: ex_jwt_def)
  have s: "se_now ex_session_env + ah_token_ttl ex_http = 3000000500" "ah_secret ex_http = ''secret''"
    by (simp_all add: ex_session_env_def ex_http_def)
  obtain t user d' where made: "session ex_accounts ex_uuid_lib ex_jwt ex_http ex_session_env True ''application/json''
        (json_text (credentials_json ''Alice@Example.com'' ''correct horse'')) ex_users
      = (write_json True 201 (SessionBody t 3000000500 user), d')"
    and email: "au_email user = ''alice@example.com''"
    and me: "\<forall>later q. later < 3000000000 \<longrightarrow>
        me (authenticate_rest ex_uuid_lib ex_jwt later \<lparr>ar_authorization = [''Bearer '' @ t], ar_query_token = q\<rparr> ''secret''
           (Some (\<lambda>k. user_by_id True IoOk k d'))) = write_json True 200 (MeBody user)"
    using session_established [where env = ex_session_env, OF ex_bcrypt_ok ex_jwt_ok ex_uuid_lib_ok ex_uuid_text m a n pw len srv free,
        unfolded s nd] by blast
  have "me (authenticate_rest ex_uuid_lib ex_jwt 2000000000 \<lparr>ar_authorization = [''Bearer '' @ t], ar_query_token = []\<rparr> ''secret''
           (Some (\<lambda>k. user_by_id True IoOk k d'))) = write_json True 200 (MeBody user)"
    using me by simp
  with made email show ?thesis by blast
qed

text \<open>Player 1 of match 100 sees it; player 3 does not.\<close>

definition ex_token :: "uuid \<Rightarrow> string" where
  "ex_token u = CHR ''x'' # ex_hex (uuid_string ex_uuid_lib u) @ CHR ''.'' # ex_unary 10"

definition ex_get :: "uuid \<Rightarrow> auth_request" where
  "ex_get u = \<lparr>ar_authorization = [''Bearer '' @ ex_token u], ar_query_token = []\<rparr>"

definition ex_shown :: "uuid \<Rightarrow> response" where
  "ex_shown u = serve_match ex_uuid_lib (\<lambda>v. snapshot_current True (\<lambda>_. IoOk) 50 v (ex_db []))
     (\<lambda>v k. snapshot_by_id True (\<lambda>_. IoOk) 50 v k (ex_db []))
     (authenticate_rest ex_uuid_lib ex_jwt 3 (ex_get u) ''secret'' (Some (\<lambda>k. user_by_id True IoOk k (ex_db []))))
     (replicate 100 (CHR ''i''))"

theorem match_shown_to_players_witness:
  "hp_status (ex_shown 1) = 200 \<and> (\<exists>s. hp_body (ex_shown 1) = MatchBody (Some s) \<and> snapshot_shows (ex_db []) 1 100 s)
   \<and> ex_shown 3 = match_not_found"
proof -
  have status: "hp_status (ex_shown 1) = 200" by code_simp
  have raw: "replicate 100 (CHR ''i'') \<noteq> ''''" "uuid_parse ex_uuid_lib (replicate 100 (CHR ''i'')) = Some 100" by code_simp+
  have a: "authenticate_rest ex_uuid_lib ex_jwt 3 (ex_get u) ''secret'' (Some (\<lambda>k. user_by_id True IoOk k (ex_db [])))
      = Inr \<lparr>pr_user = account_columns (ex_user u), pr_expires_at = 10\<rparr>" if "u = 1 \<or> u = 3" for u
    using that by (elim disjE) (simp_all only:, code_simp+)
  have stranger: "\<not> is_player (ex_db []) 100 (au_id (account_columns (ex_user 3)))" by code_simp
  obtain res where res: "snapshot_by_id True (\<lambda>_. IoOk) 50 (au_id (account_columns (ex_user 3))) 100 (ex_db []) = Inr res"
  proof -
    have "snapshot_by_id True (\<lambda>_. IoOk) 50 (au_id (account_columns (ex_user 3))) 100 (ex_db []) = Inr None" by code_simp
    then show thesis by (rule that)
  qed
  note shown = match_shown_to_players [OF ex_db_inv_empty refl ex_shown_def]
  have one: "au_id (account_columns (ex_user 1)) = 1" by (simp add: account_columns_def ex_user_def)
  have "\<exists>s. hp_body (ex_shown 1) = MatchBody (Some s) \<and> snapshot_shows (ex_db []) 1 100 s"
    using shown [of 1] status raw a [of 1] one by auto
  moreover have "ex_shown 3 = match_not_found"
    using shown [of 3] raw a [of 3] stranger res by auto
  ultimately show ?thesis using status by blast
qed

end
