(* ===== verification/Registry.thy ===== *)
theory Registry
  imports Prelude "HOL-Library.AList"
begin

text \<open>
  The connections of one gateway process: \<open>internal/gateway/registry.go\<close>, the life of a
  connection in \<open>conn.go\<close> (\<open>Send\<close>, \<open>close\<close>, \<open>cleanup\<close>, \<open>closeSetupFailure\<close>), \<open>fanout\<close> of
  \<open>pubsub.go\<close>, and the goroutines of \<open>handleWS\<close> in \<open>run.go\<close>. A connection is an address in a store;
  the registry maps users to addresses and counts, in its \<open>WaitGroup\<close>, the connections being
  served. Each critical section is one step; what a goroutine does after it has left the lock
  is a later step, so steps of other goroutines may come between.
\<close>

section \<open>Connections\<close>

record conn =
  cn_user :: uuid
  cn_send :: "string list"
  cn_closed :: bool
  cn_registered :: bool
  cn_presence :: bool
  cn_subscribed :: bool

text \<open>
  Where the goroutine of \<open>handleWS\<close> stands: before \<open>Add\<close>, refused by it, in \<open>Serve\<close>, in
  \<open>cleanup\<close> before \<open>Remove\<close>, before \<open>onClose\<close> and \<open>close\<close>, before \<open>Done\<close>, and finished.
\<close>

datatype conn_phase = Unused | SettingUp | Refused | Serving | Leaving | Removed | Closed | Finished

text \<open>
  \<open>nt_conns\<close>, \<open>nt_serve\<close> and \<open>nt_stopped\<close> are the fields of \<open>Registry\<close>; \<open>nt_conn\<close> is the store and
  \<open>nt_pending\<close> the connections that a goroutine has taken out of the registry to close them.
\<close>

record net =
  nt_conns :: "(uuid \<times> nat) list"
  nt_serve :: int
  nt_stopped :: bool
  nt_conn :: "nat \<Rightarrow> conn"
  nt_phase :: "nat \<Rightarrow> conn_phase"
  nt_pending :: "nat list"

definition send_buf_size :: nat where
  "send_buf_size = 16"

definition upd_conn :: "nat \<Rightarrow> (conn \<Rightarrow> conn) \<Rightarrow> net \<Rightarrow> net" where
  "upd_conn i f w = w\<lparr>nt_conn := (nt_conn w)(i := f (nt_conn w i))\<rparr>"

definition new_conn :: "uuid \<Rightarrow> conn" where
  "new_conn u = \<lparr>cn_user = u, cn_send = [], cn_closed = False, cn_registered = False, cn_presence = False, cn_subscribed = False\<rparr>"

text \<open>\<open>conn.close\<close> closes the channel and the socket, once.\<close>

definition conn_close :: "nat \<Rightarrow> net \<Rightarrow> net" where
  "conn_close i w = upd_conn i (\<lambda>c. c\<lparr>cn_closed := True\<rparr>) w"

text \<open>
  \<open>conn.Send\<close>: with room in the buffer and the channel closed the \<open>select\<close> takes either case
  (\<open>prefer\<close>); without room in the buffer of an open connection it closes it.
\<close>

definition conn_send :: "bool \<Rightarrow> string \<Rightarrow> nat \<Rightarrow> net \<Rightarrow> net" where
  "conn_send prefer msg i w =
     (let c = nt_conn w i in
      if length (cn_send c) < send_buf_size \<and> (\<not> cn_closed c \<or> prefer)
      then upd_conn i (\<lambda>c. c\<lparr>cn_send := cn_send c @ [msg]\<rparr>) w
      else if cn_closed c then w else conn_close i w)"

text \<open>One message taken by \<open>writePump\<close>.\<close>

definition conn_take :: "nat \<Rightarrow> net \<Rightarrow> net" where
  "conn_take i w = upd_conn i (\<lambda>c. c\<lparr>cn_send := tl (cn_send c)\<rparr>) w"

text \<open>\<open>onClose\<close>: the subscription ends and the presence key is deleted, unless Redis fails.\<close>

definition on_close :: "io \<Rightarrow> nat \<Rightarrow> net \<Rightarrow> net" where
  "on_close x i w = upd_conn i (\<lambda>c. c\<lparr>cn_subscribed := False, cn_presence := cn_presence c \<and> \<not> io_applied x\<rparr>) w"

section \<open>The registry\<close>

text \<open>The critical section of \<open>Add\<close>: whether it succeeded and the connection to close after it.\<close>

definition registry_add :: "nat \<Rightarrow> net \<Rightarrow> bool \<times> nat option \<times> net" where
  "registry_add i w =
     (if nt_stopped w then (False, None, w)
      else let u = cn_user (nt_conn w i);
               w1 = (if cn_registered (nt_conn w i) then w
                     else (upd_conn i (\<lambda>c. c\<lparr>cn_registered := True\<rparr>) w)\<lparr>nt_serve := nt_serve w + 1\<rparr>);
               prev = map_of (nt_conns w) u
           in (True, if prev = Some i then None else prev, w1\<lparr>nt_conns := AList.update u i (nt_conns w)\<rparr>))"

definition registry_remove :: "nat \<Rightarrow> net \<Rightarrow> net" where
  "registry_remove i w =
     (let u = cn_user (nt_conn w i) in
      if map_of (nt_conns w) u = Some i then w\<lparr>nt_conns := AList.delete u (nt_conns w)\<rparr> else w)"

definition registry_get :: "uuid \<Rightarrow> net \<Rightarrow> nat option" where
  "registry_get u w = map_of (nt_conns w) u"

definition registry_close_all :: "net \<Rightarrow> net" where
  "registry_close_all w = w\<lparr>nt_stopped := True, nt_pending := nt_pending w @ map snd (nt_conns w)\<rparr>"

definition registry_done :: "nat \<Rightarrow> net \<Rightarrow> net" where
  "registry_done i w =
     (if cn_registered (nt_conn w i)
      then (upd_conn i (\<lambda>c. c\<lparr>cn_registered := False\<rparr>) w)\<lparr>nt_serve := nt_serve w - 1\<rparr> else w)"

text \<open>
  \<open>WaitWithTimeout\<close>, given when the last served connection ends: \<open>None\<close> when it never returns.
\<close>

definition wait_with_timeout :: "int \<Rightarrow> int option \<Rightarrow> bool option" where
  "wait_with_timeout timeout drained =
     (if timeout \<le> 0 then (case drained of None \<Rightarrow> None | Some _ \<Rightarrow> Some True)
      else Some (case drained of None \<Rightarrow> False | Some t \<Rightarrow> t < timeout))"

section \<open>The goroutines\<close>

definition move_to :: "nat \<Rightarrow> conn_phase \<Rightarrow> net \<Rightarrow> net" where
  "move_to i p w = w\<lparr>nt_phase := (nt_phase w)(i := p)\<rparr>"

text \<open>
  The steps of \<open>handleWS\<close> for a new connection (\<open>connect\<close> up to \<open>finish\<close>), of the goroutines
  that send to it, write its socket or see it die, and of the shutdown. Before \<open>Add\<close>, setting
  the presence key or subscribing may fail (\<open>setup_fails\<close>), and then the key is left when
  deleting it fails as well or the failed call had set it.
\<close>

inductive net_step :: "net \<Rightarrow> net \<Rightarrow> bool" where
  connect: "nt_phase w i = Unused \<Longrightarrow>
     net_step w (move_to i SettingUp (w\<lparr>nt_conn := (nt_conn w)(i := (new_conn u)\<lparr>cn_presence := True, cn_subscribed := True\<rparr>)\<rparr>))"
| setup_fails: "nt_phase w i = Unused \<Longrightarrow>
     net_step w (move_to i Finished (w\<lparr>nt_conn := (nt_conn w)(i := (new_conn u)\<lparr>cn_closed := True, cn_presence := left\<rparr>)\<rparr>))"
| add: "nt_phase w i = SettingUp \<Longrightarrow> registry_add i w = (True, prev, w') \<Longrightarrow>
     net_step w (move_to i Serving (w'\<lparr>nt_pending := (case prev of None \<Rightarrow> [] | Some p \<Rightarrow> [p]) @ nt_pending w'\<rparr>))"
| refused: "nt_phase w i = SettingUp \<Longrightarrow> registry_add i w = (False, prev, w') \<Longrightarrow> net_step w (move_to i Refused w')"
| refused_close: "nt_phase w i = Refused \<Longrightarrow> net_step w (move_to i Leaving (conn_close i w))"
| pending_close: "nt_pending w = xs @ i # ys \<Longrightarrow> net_step w (conn_close i (w\<lparr>nt_pending := xs @ ys\<rparr>))"
| send: "nt_phase w i \<notin> {Unused, SettingUp, Refused} \<Longrightarrow> net_step w (conn_send prefer msg i w)"
| take: "nt_phase w i \<notin> {Unused, SettingUp, Refused} \<Longrightarrow> net_step w (conn_take i w)"
| dies: "nt_phase w i \<notin> {Unused, SettingUp, Refused} \<Longrightarrow> net_step w (conn_close i w)"
| read_ends: "nt_phase w i = Serving \<Longrightarrow> net_step w (move_to i Leaving w)"
| remove: "nt_phase w i = Leaving \<Longrightarrow> net_step w (move_to i Removed (registry_remove i w))"
| cleanup_close: "nt_phase w i = Removed \<Longrightarrow> net_step w (move_to i Closed (conn_close i (on_close x i w)))"
| finish: "nt_phase w i = Closed \<Longrightarrow> net_step w (move_to i Finished (registry_done i w))"
| close_all: "net_step w (registry_close_all w)"

definition net_init :: net where
  "net_init = \<lparr>nt_conns = [], nt_serve = 0, nt_stopped = False, nt_conn = (\<lambda>_. new_conn nil_uuid),
     nt_phase = (\<lambda>_. Unused), nt_pending = []\<rparr>"

inductive net_reachable :: "net \<Rightarrow> bool" where
  start: "net_reachable net_init"
| run: "net_reachable w \<Longrightarrow> net_step w w' \<Longrightarrow> net_reachable w'"

section \<open>The invariant\<close>

definition registered_conns :: "net \<Rightarrow> nat set" where
  "registered_conns w = {i. cn_registered (nt_conn w i)}"

text \<open>
  What holds of one connection: if the registry names it, it is its user's, counted and not
  cleaned up, and closed or about to be once the registry has stopped; it is counted while it
  is served and at most until \<open>Done\<close>; its buffer is bounded; while it is served and open, the
  registry names it or a goroutine is about to close it; after \<open>close\<close> it is closed for good.
\<close>

definition conn_ok :: "(uuid \<Rightarrow> nat option) \<Rightarrow> bool \<Rightarrow> nat set \<Rightarrow> conn \<Rightarrow> conn_phase \<Rightarrow> nat \<Rightarrow> bool" where
  "conn_ok named stopped pending c p i \<longleftrightarrow>
     (\<forall>u. named u = Some i \<longrightarrow> cn_user c = u \<and> (p = Serving \<or> p = Leaving) \<and> cn_registered c
        \<and> (stopped \<longrightarrow> cn_closed c \<or> i \<in> pending)) \<and>
     (p = Serving \<longrightarrow> cn_registered c) \<and>
     (cn_registered c \<longrightarrow> p = Serving \<or> p = Leaving \<or> p = Removed \<or> p = Closed) \<and>
     length (cn_send c) \<le> send_buf_size \<and>
     ((p = Serving \<or> p = Leaving) \<and> \<not> cn_closed c \<longrightarrow> named (cn_user c) = Some i \<or> i \<in> pending) \<and>
     (p = Closed \<or> p = Finished \<longrightarrow> cn_closed c \<and> \<not> cn_subscribed c) \<and>
     (i \<in> pending \<longrightarrow> p \<noteq> Unused \<and> p \<noteq> SettingUp \<and> p \<noteq> Refused)"

definition net_inv :: "net \<Rightarrow> bool" where
  "net_inv w \<longleftrightarrow>
     distinct (map fst (nt_conns w)) \<and> finite (registered_conns w) \<and> nt_serve w = int (card (registered_conns w)) \<and>
     (\<forall>i. conn_ok (map_of (nt_conns w)) (nt_stopped w) (set (nt_pending w)) (nt_conn w i) (nt_phase w i) i)"

lemma net_invD:
  assumes "net_inv w"
  shows "distinct (map fst (nt_conns w))" "finite (registered_conns w)" "nt_serve w = int (card (registered_conns w))"
    "conn_ok (map_of (nt_conns w)) (nt_stopped w) (set (nt_pending w)) (nt_conn w i) (nt_phase w i) i"
  using assms unfolding net_inv_def by blast+

lemma conn_okD:
  assumes "conn_ok named stopped pending c p i"
  shows "named u = Some i \<Longrightarrow> cn_user c = u \<and> (p = Serving \<or> p = Leaving) \<and> cn_registered c"
    "named u = Some i \<Longrightarrow> stopped \<Longrightarrow> cn_closed c \<or> i \<in> pending"
    "p = Serving \<Longrightarrow> cn_registered c"
    "cn_registered c \<Longrightarrow> p = Serving \<or> p = Leaving \<or> p = Removed \<or> p = Closed"
    "length (cn_send c) \<le> send_buf_size"
    "p = Serving \<or> p = Leaving \<Longrightarrow> \<not> cn_closed c \<Longrightarrow> named (cn_user c) = Some i \<or> i \<in> pending"
    "p = Closed \<or> p = Finished \<Longrightarrow> cn_closed c \<and> \<not> cn_subscribed c"
    "i \<in> pending \<Longrightarrow> p \<noteq> Unused \<and> p \<noteq> SettingUp \<and> p \<noteq> Refused"
  using assms unfolding conn_ok_def by blast+

lemma net_inv_init: "net_inv net_init"
  by (simp add: net_inv_def net_init_def registered_conns_def new_conn_def conn_ok_def)

lemma upd_conn_simps [simp]:
  "nt_conns (upd_conn i f w) = nt_conns w" "nt_serve (upd_conn i f w) = nt_serve w"
  "nt_stopped (upd_conn i f w) = nt_stopped w" "nt_phase (upd_conn i f w) = nt_phase w"
  "nt_pending (upd_conn i f w) = nt_pending w"
  "nt_conn (upd_conn i f w) j = (if j = i then f (nt_conn w i) else nt_conn w j)"
  by (simp_all add: upd_conn_def)

lemma move_to_simps [simp]:
  "nt_conns (move_to i p w) = nt_conns w" "nt_serve (move_to i p w) = nt_serve w"
  "nt_stopped (move_to i p w) = nt_stopped w" "nt_conn (move_to i p w) = nt_conn w"
  "nt_pending (move_to i p w) = nt_pending w"
  "nt_phase (move_to i p w) j = (if j = i then p else nt_phase w j)"
  by (simp_all add: move_to_def)

text \<open>A step that changes one connection only, and not its registration, is checked at that connection.\<close>

lemma net_inv_local:
  assumes "net_inv w"
    and "nt_conns w' = nt_conns w" "nt_serve w' = nt_serve w" "nt_stopped w' = nt_stopped w" "nt_pending w' = nt_pending w"
    and "\<And>j. j \<noteq> i \<Longrightarrow> nt_conn w' j = nt_conn w j \<and> nt_phase w' j = nt_phase w j"
    and "cn_registered (nt_conn w' i) = cn_registered (nt_conn w i)"
    and "conn_ok (map_of (nt_conns w)) (nt_stopped w) (set (nt_pending w)) (nt_conn w' i) (nt_phase w' i) i"
  shows "net_inv w'"
proof -
  have "cn_registered (nt_conn w' j) = cn_registered (nt_conn w j)" for j
    using assms(6) [of j] assms(7) by (cases "j = i") auto
  then have reg: "registered_conns w' = registered_conns w" by (simp add: registered_conns_def)
  have "conn_ok (map_of (nt_conns w)) (nt_stopped w) (set (nt_pending w)) (nt_conn w' j) (nt_phase w' j) j" for j
    using assms(6) [of j] assms(8) net_invD(4) [OF assms(1), of j] by (cases "j = i") auto
  then show ?thesis
    using net_invD(1-3) [OF assms(1)] assms(2-5) reg by (simp add: net_inv_def)
qed

lemma conn_close_inv:
  assumes "net_inv w"
  shows "net_inv (conn_close i w)"
  using assms
  by (rule net_inv_local [where i = i])
     (use net_invD(4) [OF assms, of i] in \<open>auto simp: conn_close_def conn_ok_def\<close>)

lemma conn_send_inv:
  assumes "net_inv w"
  shows "net_inv (conn_send prefer msg i w)"
proof (cases "length (cn_send (nt_conn w i)) < send_buf_size \<and> (\<not> cn_closed (nt_conn w i) \<or> prefer)")
  case True
  show ?thesis
    using assms
    by (rule net_inv_local [where i = i])
       (use True net_invD(4) [OF assms, of i] in \<open>auto simp: conn_send_def Let_def conn_ok_def\<close>)
next
  case False
  then show ?thesis
    using assms conn_close_inv [OF assms, of i] by (auto simp: conn_send_def Let_def)
qed

lemma conn_take_inv:
  assumes "net_inv w"
  shows "net_inv (conn_take i w)"
  using assms
  by (rule net_inv_local [where i = i])
     (use net_invD(4) [OF assms, of i] in \<open>auto simp: conn_take_def conn_ok_def\<close>)

lemma conn_okI:
  assumes "\<And>u. named u = Some i \<Longrightarrow> cn_user c = u \<and> (p = Serving \<or> p = Leaving) \<and> cn_registered c"
    and "\<And>u. named u = Some i \<Longrightarrow> stopped \<Longrightarrow> cn_closed c \<or> i \<in> pending"
    and "p = Serving \<Longrightarrow> cn_registered c"
    and "cn_registered c \<Longrightarrow> p = Serving \<or> p = Leaving \<or> p = Removed \<or> p = Closed"
    and "length (cn_send c) \<le> send_buf_size"
    and "p = Serving \<or> p = Leaving \<Longrightarrow> \<not> cn_closed c \<Longrightarrow> named (cn_user c) = Some i \<or> i \<in> pending"
    and "p = Closed \<or> p = Finished \<Longrightarrow> cn_closed c \<and> \<not> cn_subscribed c"
    and "i \<in> pending \<Longrightarrow> p \<noteq> Unused \<and> p \<noteq> SettingUp \<and> p \<noteq> Refused"
  shows "conn_ok named stopped pending c p i"
  using assms unfolding conn_ok_def by blast

lemma conn_ok_all_pending:
  assumes ok: "conn_ok M s P c p i"
    and named: "\<And>u. M u = Some i \<Longrightarrow> i \<in> Q" and phase: "i \<in> Q \<Longrightarrow> p = Serving \<or> p = Leaving"
  shows "conn_ok M True (P \<union> Q) c p i"
proof (rule conn_okI)
  fix u assume "M u = Some i"
  then show "cn_user c = u \<and> (p = Serving \<or> p = Leaving) \<and> cn_registered c" "cn_closed c \<or> i \<in> P \<union> Q"
    using conn_okD(1) [OF ok] named by blast+
next
  assume "p = Serving \<or> p = Leaving" "\<not> cn_closed c"
  then show "M (cn_user c) = Some i \<or> i \<in> P \<union> Q" using conn_okD(6) [OF ok] by blast
next
  assume "i \<in> P \<union> Q"
  then show "p \<noteq> Unused \<and> p \<noteq> SettingUp \<and> p \<noteq> Refused" using conn_okD(8) [OF ok] phase by auto
qed (use conn_okD(3,4,5,7) [OF ok] in simp_all)

lemma conn_close_simps [simp]:
  "nt_conns (conn_close i w) = nt_conns w" "nt_serve (conn_close i w) = nt_serve w"
  "nt_stopped (conn_close i w) = nt_stopped w" "nt_phase (conn_close i w) = nt_phase w"
  "nt_pending (conn_close i w) = nt_pending w"
  "nt_conn (conn_close i w) j = (if j = i then (nt_conn w i)\<lparr>cn_closed := True\<rparr> else nt_conn w j)"
  by (simp_all add: conn_close_def)

lemma conn_ok_closed:
  assumes "conn_ok named stopped pending c p i"
  shows "conn_ok named stopped (pending - {i}) (c\<lparr>cn_closed := True\<rparr>) p i"
  using assms by (simp add: conn_ok_def)

lemma conn_ok_pending:
  assumes "conn_ok named stopped pending c p j" "j \<in> pending' \<longleftrightarrow> j \<in> pending"
  shows "conn_ok named stopped pending' c p j"
  using assms by (simp add: conn_ok_def)

text \<open>One occurrence of a connection leaves the pending list when it is closed; another may stay.\<close>

lemma pending_close_inv:
  assumes inv: "net_inv w" and pend: "nt_pending w = xs @ i # ys"
  shows "net_inv (conn_close i (w\<lparr>nt_pending := xs @ ys\<rparr>))"
proof -
  have reg: "registered_conns (conn_close i (w\<lparr>nt_pending := xs @ ys\<rparr>)) = registered_conns w"
    by (auto simp: registered_conns_def)
  have "conn_ok (map_of (nt_conns w)) (nt_stopped w) (set (xs @ ys)) (nt_conn (conn_close i (w\<lparr>nt_pending := xs @ ys\<rparr>)) j)
      (nt_phase w j) j" for j
  proof (cases "j = i")
    case True
    have p: "nt_phase w i \<noteq> Unused \<and> nt_phase w i \<noteq> SettingUp \<and> nt_phase w i \<noteq> Refused"
      using conn_okD(8) [OF net_invD(4) [OF inv, of i]] by (simp add: pend)
    show ?thesis
      using net_invD(4) [OF inv, of i] p by (simp add: True conn_ok_def)
  next
    case False
    then show ?thesis
      using conn_ok_pending [OF net_invD(4) [OF inv, of j], of "set (xs @ ys)"] by (simp add: pend)
  qed
  then show ?thesis
    using net_invD(1-3) [OF inv] reg by (simp add: net_inv_def)
qed

lemma close_all_inv:
  assumes inv: "net_inv w"
  shows "net_inv (registry_close_all w)"
proof -
  have reg: "registered_conns (registry_close_all w) = registered_conns w"
    by (simp add: registered_conns_def registry_close_all_def)
  have "conn_ok (map_of (nt_conns w)) True (set (nt_pending w @ map snd (nt_conns w))) (nt_conn w j) (nt_phase w j) j" for j
  proof -
    note ok = net_invD(4) [OF inv, of j]
    have named: "j \<in> set (map snd (nt_conns w))" if "map_of (nt_conns w) u = Some j" for u
      using map_of_SomeD [OF that] by force
    have phase: "nt_phase w j = Serving \<or> nt_phase w j = Leaving" if mem: "j \<in> set (map snd (nt_conns w))"
    proof -
      obtain e where e: "j = snd e" "e \<in> set (nt_conns w)" using mem unfolding set_map by (rule imageE)
      then have "(fst e, j) \<in> set (nt_conns w)" by simp
      then have "map_of (nt_conns w) (fst e) = Some j" using net_invD(1) [OF inv] by simp
      from conn_okD(1) [OF ok this] show ?thesis by simp
    qed
    show ?thesis
      unfolding set_append using named phase by (rule conn_ok_all_pending [OF ok])
  qed
  then show ?thesis
    using net_invD(1-3) [OF inv] reg by (simp add: net_inv_def) (simp add: registry_close_all_def)
qed

text \<open>
  A step that moves one connection on and may change what the registry names and which
  connections are to be closed.
\<close>

lemma net_invI:
  assumes "distinct (map fst (nt_conns w))" "finite (registered_conns w)" "nt_serve w = int (card (registered_conns w))"
    and "\<And>j. conn_ok (map_of (nt_conns w)) (nt_stopped w) (set (nt_pending w)) (nt_conn w j) (nt_phase w j) j"
  shows "net_inv w"
  using assms by (simp add: net_inv_def)

lemma conn_ok_added:
  assumes ok: "conn_ok M False P c p j" and ne: "j \<noteq> i"
  shows "conn_ok (M(u \<mapsto> i)) False (set_option (M u) \<union> P) c p j"
proof (rule conn_okI)
  fix v assume "(M(u \<mapsto> i)) v = Some j"
  then have "M v = Some j" using ne by (metis fun_upd_apply option.inject)
  then show "cn_user c = v \<and> (p = Serving \<or> p = Leaving) \<and> cn_registered c" by (rule conn_okD(1) [OF ok])
next
  assume "p = Serving \<or> p = Leaving" "\<not> cn_closed c"
  from conn_okD(6) [OF ok this] show "(M(u \<mapsto> i)) (cn_user c) = Some j \<or> j \<in> set_option (M u) \<union> P"
    by (metis UnI1 UnI2 elem_set fun_upd_apply)
next
  assume "j \<in> set_option (M u) \<union> P"
  then show "p \<noteq> Unused \<and> p \<noteq> SettingUp \<and> p \<noteq> Refused"
  proof
    assume "j \<in> set_option (M u)"
    then have "M u = Some j" by (simp add: elem_set)
    from conn_okD(1) [OF ok this] show ?thesis by auto
  next
    assume "j \<in> P"
    then show ?thesis by (rule conn_okD(8) [OF ok])
  qed
qed (use conn_okD(3,4,5,7) [OF ok] in simp_all)

lemma conn_ok_dropped:
  assumes ok: "conn_ok M s P c p j" and i: "M u = Some i" and ne: "j \<noteq> i"
  shows "conn_ok (M(u := None)) s P c p j"
proof (rule conn_okI)
  fix v assume "(M(u := None)) v = Some j"
  then have v: "M v = Some j" by (metis fun_upd_apply option.distinct(1))
  show "cn_user c = v \<and> (p = Serving \<or> p = Leaving) \<and> cn_registered c" by (rule conn_okD(1) [OF ok v])
  show "s \<Longrightarrow> cn_closed c \<or> j \<in> P" by (rule conn_okD(2) [OF ok v])
next
  assume "p = Serving \<or> p = Leaving" "\<not> cn_closed c"
  from conn_okD(6) [OF ok this] show "(M(u := None)) (cn_user c) = Some j \<or> j \<in> P"
    using i ne by (metis fun_upd_apply option.inject)
qed (use conn_okD(3,4,5,7,8) [OF ok] in simp_all)

lemma conn_ok_serving:
  assumes ok: "conn_ok M False P c SettingUp i" and u: "cn_user c = u"
  shows "conn_ok (M(u \<mapsto> i)) False (set_option (M u) \<union> P) (c\<lparr>cn_registered := True\<rparr>) Serving i"
proof (rule conn_okI)
  fix v assume "(M(u \<mapsto> i)) v = Some i"
  then show "cn_user (c\<lparr>cn_registered := True\<rparr>) = v \<and> (Serving = Serving \<or> Serving = Leaving) \<and> cn_registered (c\<lparr>cn_registered := True\<rparr>)"
    using conn_okD(1) [OF ok, of v] u by (cases "v = u") simp_all
qed (use conn_okD(5) [OF ok] u in simp_all)

lemma conn_ok_removed:
  assumes ok: "conn_ok M s P c Leaving i"
  shows "conn_ok (M(cn_user c := None)) s P c Removed i"
proof (rule conn_okI)
  fix v assume "(M(cn_user c := None)) v = Some i"
  then have "M v = Some i" "v \<noteq> cn_user c" by (metis fun_upd_apply option.distinct(1))+
  with conn_okD(1) [OF ok, of v]
  show "cn_user c = v \<and> (Removed = Serving \<or> Removed = Leaving) \<and> cn_registered c" "s \<Longrightarrow> cn_closed c \<or> i \<in> P" by simp_all
qed (use conn_okD(3-5,7,8) [OF ok] in simp_all)

lemma conn_ok_not_named:
  assumes ok: "conn_ok M s P c Leaving i" and ne: "M (cn_user c) \<noteq> Some i"
  shows "conn_ok M s P c Removed i"
proof (rule conn_okI)
  fix v assume "M v = Some i"
  with conn_okD(1) [OF ok, of v] ne
  show "cn_user c = v \<and> (Removed = Serving \<or> Removed = Leaving) \<and> cn_registered c" "s \<Longrightarrow> cn_closed c \<or> i \<in> P" by metis+
qed (use conn_okD(3-5,7,8) [OF ok] in simp_all)

lemma conn_ok_finished:
  assumes ok: "conn_ok M s P c Closed i"
  shows "conn_ok M s P (c\<lparr>cn_registered := False\<rparr>) Finished i"
proof (rule conn_okI)
  fix v assume "M v = Some i"
  with conn_okD(1) [OF ok, of v] have False by simp
  then show "cn_user (c\<lparr>cn_registered := False\<rparr>) = v \<and> (Finished = Serving \<or> Finished = Leaving) \<and> cn_registered (c\<lparr>cn_registered := False\<rparr>)"
    "s \<Longrightarrow> cn_closed (c\<lparr>cn_registered := False\<rparr>) \<or> i \<in> P" by simp_all
qed (use conn_okD(5,7,8) [OF ok] in simp_all)

lemma registry_add_eq:
  assumes "net_inv w" "nt_phase w i = SettingUp" "\<not> nt_stopped w" "u = cn_user (nt_conn w i)"
  shows "registry_add i w = (True, map_of (nt_conns w) u,
    (upd_conn i (\<lambda>c. c\<lparr>cn_registered := True\<rparr>) w)\<lparr>nt_serve := nt_serve w + 1, nt_conns := AList.update u i (nt_conns w)\<rparr>)"
proof -
  note ok = net_invD(4) [OF assms(1), of i]
  have "\<not> cn_registered (nt_conn w i)" using conn_okD(4) [OF ok] assms(2) by auto
  moreover have "map_of (nt_conns w) u \<noteq> Some i" using conn_okD(1) [OF ok] assms(2) by auto
  ultimately show ?thesis using assms(3,4) by (simp add: registry_add_def Let_def)
qed

lemma add_step_inv:
  assumes inv: "net_inv w" and ph: "nt_phase w i = SettingUp" and add: "registry_add i w = (True, prev, w')"
  shows "net_inv (move_to i Serving (w'\<lparr>nt_pending := (case prev of None \<Rightarrow> [] | Some p \<Rightarrow> [p]) @ nt_pending w'\<rparr>))"
    (is "net_inv ?w")
proof -
  define u where "u = cn_user (nt_conn w i)"
  have st: "\<not> nt_stopped w" using add by (auto simp: registry_add_def Let_def)
  note eq = registry_add_eq [OF inv ph st u_def]
  have prev: "prev = map_of (nt_conns w) u"
    and w': "w' = (upd_conn i (\<lambda>c. c\<lparr>cn_registered := True\<rparr>) w)\<lparr>nt_serve := nt_serve w + 1, nt_conns := AList.update u i (nt_conns w)\<rparr>"
    using add unfolding eq by simp_all
  have notreg: "i \<notin> registered_conns w"
    using conn_okD(4) [OF net_invD(4) [OF inv, of i]] ph by (auto simp: registered_conns_def)
  have reg: "registered_conns ?w = insert i (registered_conns w)"
    by (auto simp: w' registered_conns_def)
  have set_prev: "set (case prev of None \<Rightarrow> [] | Some p \<Rightarrow> [p]) = set_option (map_of (nt_conns w) u)"
    by (cases prev) (auto simp: prev)
  show ?thesis
  proof (rule net_invI)
    show "distinct (map fst (nt_conns ?w))"
      using distinct_update [OF net_invD(1) [OF inv], of u i] by (simp add: w')
    show "finite (registered_conns ?w)" using net_invD(2) [OF inv] by (simp add: reg)
    show "nt_serve ?w = int (card (registered_conns ?w))"
      using net_invD(2,3) [OF inv] notreg by (simp add: reg) (simp add: w')
  next
    fix j
    have P: "set (nt_pending ?w) = set_option (map_of (nt_conns w) u) \<union> set (nt_pending w)"
      using set_prev by (simp add: w')
    have M: "map_of (nt_conns ?w) = (map_of (nt_conns w))(u \<mapsto> i)"
      by (simp add: w' update_conv')
    have S: "nt_stopped ?w = False" using st by (simp add: w')
    show "conn_ok (map_of (nt_conns ?w)) (nt_stopped ?w) (set (nt_pending ?w)) (nt_conn ?w j) (nt_phase ?w j) j"
    proof (cases "j = i")
      case True
      have "conn_ok (map_of (nt_conns w)) False (set (nt_pending w)) (nt_conn w i) SettingUp i"
        using net_invD(4) [OF inv, of i] ph st by simp
      from conn_ok_serving [OF this u_def [symmetric]] show ?thesis
        unfolding P M S by (simp add: True w')
    next
      case False
      have "conn_ok (map_of (nt_conns w)) False (set (nt_pending w)) (nt_conn w j) (nt_phase w j) j"
        using net_invD(4) [OF inv, of j] st by simp
      from conn_ok_added [OF this False] show ?thesis
        unfolding P M S using False by (simp add: w')
    qed
  qed
qed

lemma remove_step_inv:
  assumes inv: "net_inv w" and ph: "nt_phase w i = Leaving"
  shows "net_inv (move_to i Removed (registry_remove i w))"
proof (cases "map_of (nt_conns w) (cn_user (nt_conn w i)) = Some i")
  case True
  let ?u = "cn_user (nt_conn w i)"
  let ?w = "move_to i Removed (registry_remove i w)"
  have w': "registry_remove i w = w\<lparr>nt_conns := AList.delete ?u (nt_conns w)\<rparr>"
    using True by (simp add: registry_remove_def)
  have reg: "registered_conns ?w = registered_conns w" by (simp add: w' registered_conns_def)
  have M: "map_of (nt_conns ?w) = (map_of (nt_conns w))(?u := None)" by (simp add: w' delete_conv')
  have ok_i: "conn_ok (map_of (nt_conns w)) (nt_stopped w) (set (nt_pending w)) (nt_conn w i) Leaving i"
    using net_invD(4) [OF inv, of i] ph by simp
  show ?thesis
  proof (rule net_invI)
    show "distinct (map fst (nt_conns ?w))" using distinct_delete [OF net_invD(1) [OF inv], of ?u] by (simp add: w')
    show "finite (registered_conns ?w)" using net_invD(2) [OF inv] by (simp add: reg)
    show "nt_serve ?w = int (card (registered_conns ?w))" using net_invD(3) [OF inv] by (simp add: reg) (simp add: w')
    show "conn_ok (map_of (nt_conns ?w)) (nt_stopped ?w) (set (nt_pending ?w)) (nt_conn ?w j) (nt_phase ?w j) j" for j
    proof (cases "j = i")
      case True
      with conn_ok_removed [OF ok_i] show ?thesis unfolding M by (simp add: w')
    next
      case False
      with conn_ok_dropped [OF net_invD(4) [OF inv, of j] \<open>map_of (nt_conns w) ?u = Some i\<close>] show ?thesis
        unfolding M by (simp add: w')
    qed
  qed
next
  case False
  have ok_i: "conn_ok (map_of (nt_conns w)) (nt_stopped w) (set (nt_pending w)) (nt_conn w i) Leaving i"
    using net_invD(4) [OF inv, of i] ph by simp
  show ?thesis
    using inv conn_ok_not_named [OF ok_i] False
    by (intro net_inv_local [OF inv, where i = i]) (simp_all add: registry_remove_def)
qed

lemma finish_step_inv:
  assumes inv: "net_inv w" and ph: "nt_phase w i = Closed"
  shows "net_inv (move_to i Finished (registry_done i w))" (is "net_inv ?w")
proof -
  have ok_i: "conn_ok (map_of (nt_conns w)) (nt_stopped w) (set (nt_pending w)) (nt_conn w i) Closed i"
    using net_invD(4) [OF inv, of i] ph by simp
  have conn: "nt_conn ?w j = (if j = i then (nt_conn w i)\<lparr>cn_registered := False\<rparr> else nt_conn w j)" for j
    by (simp add: registry_done_def)
  have reg: "registered_conns ?w = registered_conns w - {i}"
    unfolding registered_conns_def conn by auto
  show ?thesis
  proof (rule net_invI)
    show "distinct (map fst (nt_conns ?w))" using net_invD(1) [OF inv] by (simp add: registry_done_def)
    show "finite (registered_conns ?w)" using net_invD(2) [OF inv] by (simp add: reg)
    show "nt_serve ?w = int (card (registered_conns ?w))"
    proof (cases "i \<in> registered_conns w")
      case True
      then have "0 < card (registered_conns w)" using net_invD(2) [OF inv] by (auto simp: card_gt_0_iff)
      with True show ?thesis using net_invD(2,3) [OF inv] unfolding reg
        by (simp add: registered_conns_def [of w] registry_done_def of_nat_diff)
    next
      case False
      then show ?thesis using net_invD(3) [OF inv] unfolding reg
        by (simp add: registered_conns_def [of w] registry_done_def)
    qed
    show "conn_ok (map_of (nt_conns ?w)) (nt_stopped ?w) (set (nt_pending ?w)) (nt_conn ?w j) (nt_phase ?w j) j" for j
    proof (cases "j = i")
      case True
      with conn_ok_finished [OF ok_i] show ?thesis unfolding conn by (simp add: registry_done_def)
    next
      case False
      with net_invD(4) [OF inv, of j] show ?thesis unfolding conn by (simp add: registry_done_def)
    qed
  qed
qed

lemma conn_ok_unused:
  assumes ok: "conn_ok M s P c p i" and p: "p = Unused \<or> p = SettingUp \<or> p = Refused"
  shows "M u \<noteq> Some i" "i \<notin> P" "\<not> cn_registered c"
  using conn_okD(1) [OF ok, of u] conn_okD(4,8) [OF ok] p by auto

lemma conn_ok_fresh:
  assumes "\<And>u. M u \<noteq> Some i" "i \<notin> P" "\<not> cn_registered c" "length (cn_send c) \<le> send_buf_size"
    and "p = Unused \<or> p = SettingUp \<or> p = Refused \<or> p = Leaving \<and> cn_closed c
      \<or> p = Finished \<and> cn_closed c \<and> \<not> cn_subscribed c"
  shows "conn_ok M s P c p i"
  using assms by (auto simp: conn_ok_def)

lemma fresh_step_inv:
  assumes inv: "net_inv w" and ph: "nt_phase w i = Unused \<or> nt_phase w i = SettingUp \<or> nt_phase w i = Refused"
    and c: "\<not> cn_registered c" "length (cn_send c) \<le> send_buf_size"
    and p: "p = Unused \<or> p = SettingUp \<or> p = Refused \<or> p = Leaving \<and> cn_closed c
      \<or> p = Finished \<and> cn_closed c \<and> \<not> cn_subscribed c"
  shows "net_inv (move_to i p (w\<lparr>nt_conn := (nt_conn w)(i := c)\<rparr>))"
  using conn_ok_unused [OF net_invD(4) [OF inv, of i] ph] c p
  by (intro net_inv_local [OF inv, where i = i] conn_ok_fresh) simp_all

lemma upd_conn_same: "w\<lparr>nt_conn := (nt_conn w)(i := nt_conn w i)\<rparr> = w"
  by simp

lemma leaving_step_inv:
  assumes inv: "net_inv w" and ph: "nt_phase w i = Serving"
  shows "net_inv (move_to i Leaving w)"
proof (rule net_inv_local [OF inv, where i = i])
  have "conn_ok (map_of (nt_conns w)) (nt_stopped w) (set (nt_pending w)) (nt_conn w i) Serving i"
    using net_invD(4) [OF inv, of i] ph by simp
  then show "conn_ok (map_of (nt_conns w)) (nt_stopped w) (set (nt_pending w)) (nt_conn (move_to i Leaving w) i)
      (nt_phase (move_to i Leaving w) i) i"
    by (simp add: conn_ok_def)
qed simp_all

lemma cleanup_close_inv:
  assumes inv: "net_inv w" and ph: "nt_phase w i = Removed"
  shows "net_inv (move_to i Closed (conn_close i (on_close x i w)))"
proof (rule net_inv_local [OF inv, where i = i])
  have "conn_ok (map_of (nt_conns w)) (nt_stopped w) (set (nt_pending w)) (nt_conn w i) Removed i"
    using net_invD(4) [OF inv, of i] ph by simp
  then show "conn_ok (map_of (nt_conns w)) (nt_stopped w) (set (nt_pending w)) (nt_conn (move_to i Closed (conn_close i (on_close x i w))) i)
      (nt_phase (move_to i Closed (conn_close i (on_close x i w))) i) i"
    by (simp add: conn_ok_def on_close_def)
qed (simp_all add: on_close_def)

lemma refused_eq:
  "registry_add i w = (False, prev, w') \<longleftrightarrow> nt_stopped w \<and> prev = None \<and> w' = w"
  by (auto simp: registry_add_def Let_def)

lemma net_step_inv:
  assumes "net_step w w'" "net_inv w"
  shows "net_inv w'"
  using assms
proof (induction rule: net_step.induct)
  case (connect w i u)
  then show ?case by (intro fresh_step_inv) (simp_all add: new_conn_def)
next
  case (setup_fails w i u left)
  then show ?case by (intro fresh_step_inv) (simp_all add: new_conn_def)
next
  case (add w i prev w')
  then show ?case by (intro add_step_inv)
next
  case (refused w i prev w')
  note ok = net_invD(4) [OF refused(3), of i]
  have "net_inv (move_to i Refused (w\<lparr>nt_conn := (nt_conn w)(i := nt_conn w i)\<rparr>))"
    using refused(1,3) conn_ok_unused(3) [OF ok] conn_okD(5) [OF ok] by (intro fresh_step_inv) simp_all
  then show ?case using refused(2) by (simp add: refused_eq)
next
  case (refused_close w i)
  note ok = net_invD(4) [OF refused_close(2), of i]
  have "net_inv (move_to i Leaving (w\<lparr>nt_conn := (nt_conn w)(i := (nt_conn w i)\<lparr>cn_closed := True\<rparr>)\<rparr>))"
    using refused_close conn_ok_unused(3) [OF ok] conn_okD(5) [OF ok] by (intro fresh_step_inv) simp_all
  then show ?case by (simp add: conn_close_def upd_conn_def)
next
  case (pending_close w xs i ys)
  then show ?case by (intro pending_close_inv)
next
  case (cleanup_close w i x)
  then show ?case by (intro cleanup_close_inv)
qed (simp_all add: conn_send_inv conn_take_inv conn_close_inv leaving_step_inv remove_step_inv finish_step_inv close_all_inv)

lemma net_reachable_inv:
  assumes "net_reachable w"
  shows "net_inv w"
  using assms by induction (simp_all add: net_inv_init net_step_inv)

section \<open>A run\<close>

text \<open>One user connects twice; the second connection replaces the first, which is then closed.\<close>

definition ex_connected :: "nat \<Rightarrow> uuid \<Rightarrow> net \<Rightarrow> net" where
  "ex_connected i u w =
     move_to i SettingUp (w\<lparr>nt_conn := (nt_conn w)(i := (new_conn u)\<lparr>cn_presence := True, cn_subscribed := True\<rparr>)\<rparr>)"

definition ex_added :: "nat \<Rightarrow> net \<Rightarrow> net" where
  "ex_added i w = (case registry_add i w of (_, prev, w') \<Rightarrow>
     move_to i Serving (w'\<lparr>nt_pending := (case prev of None \<Rightarrow> [] | Some p \<Rightarrow> [p]) @ nt_pending w'\<rparr>))"

definition ex_replaced :: net where
  "ex_replaced = ex_added 1 (ex_connected 1 0xa (ex_added 0 (ex_connected 0 0xa net_init)))"

definition ex_net :: net where
  "ex_net = conn_close 0 (ex_replaced\<lparr>nt_pending := []\<rparr>)"

lemma reachable_connected:
  "net_reachable w \<Longrightarrow> nt_phase w i = Unused \<Longrightarrow> net_reachable (ex_connected i u w)"
  unfolding ex_connected_def by (rule net_reachable.run) (auto intro: net_step.connect)

lemma reachable_added:
  assumes "net_reachable w" "nt_phase w i = SettingUp" "\<not> nt_stopped w"
  shows "net_reachable (ex_added i w)"
proof -
  obtain prev w' where eq: "registry_add i w = (True, prev, w')" using assms(3) by (simp add: registry_add_def Let_def)
  show ?thesis
    unfolding ex_added_def eq prod.case by (rule net_reachable.run [OF assms(1) net_step.add [OF assms(2) eq]])
qed

lemma ex_replaced_reachable: "net_reachable ex_replaced"
  unfolding ex_replaced_def
  by (intro reachable_added reachable_connected net_reachable.start)
    (simp_all add: ex_added_def ex_connected_def registry_add_def net_init_def new_conn_def Let_def)

lemma ex_replaced_pending: "nt_pending ex_replaced = [0]"
  by (simp add: ex_replaced_def ex_added_def ex_connected_def registry_add_def net_init_def new_conn_def Let_def)

lemma ex_net_reachable: "net_reachable ex_net"
proof -
  have "net_step ex_replaced (conn_close 0 (ex_replaced\<lparr>nt_pending := [] @ []\<rparr>))"
    by (rule net_step.pending_close) (simp add: ex_replaced_pending)
  with ex_replaced_reachable show ?thesis unfolding ex_net_def by (auto intro: net_reachable.run)
qed

lemmas ex_net_defs = ex_net_def ex_replaced_def ex_added_def ex_connected_def registry_add_def registry_get_def
  net_init_def new_conn_def Let_def

lemma ex_net_fields:
  "nt_conns ex_net = [(0xa, 1)]" "nt_serve ex_net = 2" "nt_pending ex_net = []"
  "nt_phase ex_net 0 = Serving" "nt_phase ex_net 1 = Serving"
  "cn_closed (nt_conn ex_net 0)" "\<not> cn_closed (nt_conn ex_net 1)" "cn_user (nt_conn ex_net 1) = 0xa"
  "nt_phase ex_net (Suc 0) = Serving" "\<not> cn_closed (nt_conn ex_net (Suc 0))" "cn_user (nt_conn ex_net (Suc 0)) = 0xa"
  by (simp_all add: ex_net_defs)

lemma ex_net_stopped_reachable: "net_reachable (registry_close_all ex_net)"
  using ex_net_reachable net_step.close_all by (rule net_reachable.run)

section \<open>What the registry promises\<close>

text \<open>
  In every state the gateway can reach, whatever the order of the goroutines' steps:
  the registry's \<open>WaitGroup\<close> counts exactly the connections between \<open>Add\<close> and \<open>Done\<close>, every
  connection being served is counted, the registry names under a user only a counted connection
  of that user that has not been removed, and no send buffer exceeds its capacity.
\<close>

theorem registry_consistent:
  assumes "net_reachable w"
  shows "nt_serve w = int (card {i. cn_registered (nt_conn w i)}) \<and>
    (\<forall>i. nt_phase w i = Serving \<longrightarrow> cn_registered (nt_conn w i)) \<and>
    (\<forall>u i. registry_get u w = Some i \<longrightarrow> cn_user (nt_conn w i) = u \<and> cn_registered (nt_conn w i)
       \<and> (nt_phase w i = Serving \<or> nt_phase w i = Leaving)) \<and>
    (\<forall>i. length (cn_send (nt_conn w i)) \<le> send_buf_size)"
proof -
  note inv = net_reachable_inv [OF assms]
  have "nt_serve w = int (card {i. cn_registered (nt_conn w i)})"
    using net_invD(3) [OF inv] by (simp add: registered_conns_def)
  moreover have "\<forall>i. nt_phase w i = Serving \<longrightarrow> cn_registered (nt_conn w i)"
    using conn_okD(3) [OF net_invD(4) [OF inv]] by blast
  moreover have "\<forall>u i. registry_get u w = Some i \<longrightarrow> cn_user (nt_conn w i) = u \<and> cn_registered (nt_conn w i)
       \<and> (nt_phase w i = Serving \<or> nt_phase w i = Leaving)"
    unfolding registry_get_def using conn_okD(1) [OF net_invD(4) [OF inv]] by blast
  moreover have "\<forall>i. length (cn_send (nt_conn w i)) \<le> send_buf_size"
    using conn_okD(5) [OF net_invD(4) [OF inv]] by blast
  ultimately show ?thesis by blast
qed

text \<open>
  Property C28. A gateway serves one socket per user: of two connections of one user that are
  served and open, and that no goroutine is about to close, both are the one the registry names.
  So an older socket of a user is closed, or its closing is under way, once a newer one is added.
\<close>

theorem one_socket_per_user:
  assumes "net_reachable w"
    and "nt_phase w i = Serving" "\<not> cn_closed (nt_conn w i)" "i \<notin> set (nt_pending w)"
    and "nt_phase w j = Serving" "\<not> cn_closed (nt_conn w j)" "j \<notin> set (nt_pending w)"
    and "cn_user (nt_conn w i) = cn_user (nt_conn w j)"
  shows "i = j \<and> registry_get (cn_user (nt_conn w i)) w = Some i"
proof -
  note inv = net_reachable_inv [OF assms(1)]
  have i: "map_of (nt_conns w) (cn_user (nt_conn w i)) = Some i"
    using conn_okD(6) [OF net_invD(4) [OF inv, of i] disjI1 [OF assms(2)] assms(3)] assms(4) by metis
  have j: "map_of (nt_conns w) (cn_user (nt_conn w j)) = Some j"
    using conn_okD(6) [OF net_invD(4) [OF inv, of j] disjI1 [OF assms(5)] assms(6)] assms(7) by metis
  have "Some i = Some j" unfolding i [symmetric] j [symmetric] assms(8) by (rule refl)
  with i show ?thesis unfolding registry_get_def by blast
qed

lemma stopped_open_pending:
  assumes "net_inv w" "nt_stopped w" "nt_phase w i = Serving \<or> nt_phase w i = Leaving" "\<not> cn_closed (nt_conn w i)"
  shows "i \<in> set (nt_pending w)"
  using conn_okD(6) [OF net_invD(4) [OF assms(1), of i] assms(3,4)]
proof
  assume "map_of (nt_conns w) (cn_user (nt_conn w i)) = Some i"
  from conn_okD(2) [OF net_invD(4) [OF assms(1), of i] this assms(2)] assms(4) show ?thesis by simp
qed

lemma stopped_step:
  assumes "net_step w w'" "nt_stopped w"
  shows "nt_stopped w' \<and> nt_serve w' \<le> nt_serve w"
  using assms
proof (induction rule: net_step.induct)
  case (add w i prev w')
  then show ?case by (simp add: registry_add_def)
next
  case (refused w i prev w')
  then show ?case by (simp add: refused_eq)
qed (simp_all add: conn_send_def conn_take_def on_close_def registry_remove_def registry_done_def registry_close_all_def Let_def)

text \<open>The goroutine of a counted connection can always run to its end, and then one fewer is counted.\<close>

lemma connection_can_finish:
  assumes "cn_registered (nt_conn w i)" "nt_phase w i = Serving \<or> nt_phase w i = Leaving \<or> nt_phase w i = Removed \<or> nt_phase w i = Closed"
  shows "\<exists>w'. net_step\<^sup>*\<^sup>* w w' \<and> nt_serve w' = nt_serve w - 1"
proof -
  have closed: "\<exists>w'. net_step\<^sup>*\<^sup>* w w' \<and> nt_serve w' = nt_serve w - 1" if "cn_registered (nt_conn w i)" "nt_phase w i = Closed" for w
    using that net_step.finish [of w i] by (intro exI [where x = "move_to i Finished (registry_done i w)"])
      (auto simp: registry_done_def)
  have removed: "\<exists>w'. net_step\<^sup>*\<^sup>* w w' \<and> nt_serve w' = nt_serve w - 1" if "cn_registered (nt_conn w i)" "nt_phase w i = Removed" for w
  proof -
    let ?v = "move_to i Closed (conn_close i (on_close IoOk i w))"
    have step: "net_step w ?v" using that by (intro net_step.cleanup_close)
    have "nt_serve ?v = nt_serve w" "cn_registered (nt_conn ?v i)" "nt_phase ?v i = Closed"
      using that by (simp_all add: on_close_def)
    with closed [of ?v] step show ?thesis by (metis converse_rtranclp_into_rtranclp)
  qed
  have leaving: "\<exists>w'. net_step\<^sup>*\<^sup>* w w' \<and> nt_serve w' = nt_serve w - 1" if "cn_registered (nt_conn w i)" "nt_phase w i = Leaving" for w
  proof -
    let ?v = "move_to i Removed (registry_remove i w)"
    have step: "net_step w ?v" using that by (intro net_step.remove)
    have "nt_serve ?v = nt_serve w" "cn_registered (nt_conn ?v i)" "nt_phase ?v i = Removed"
      using that by (simp_all add: registry_remove_def Let_def)
    with removed [of ?v] step show ?thesis by (metis converse_rtranclp_into_rtranclp)
  qed
  have serving: "\<exists>w'. net_step\<^sup>*\<^sup>* w w' \<and> nt_serve w' = nt_serve w - 1" if "cn_registered (nt_conn w i)" "nt_phase w i = Serving" for w
  proof -
    let ?v = "move_to i Leaving w"
    have step: "net_step w ?v" using that by (intro net_step.read_ends)
    from leaving [of ?v] step that show ?thesis by (simp, metis converse_rtranclp_into_rtranclp)
  qed
  from assms closed removed leaving serving show ?thesis by blast
qed

lemma net_steps_inv:
  assumes "net_step\<^sup>*\<^sup>* w w'" "net_inv w"
  shows "net_inv w'"
  using assms by induction (auto intro: net_step_inv)

lemma registry_can_drain:
  assumes "net_inv w"
  shows "\<exists>w'. net_step\<^sup>*\<^sup>* w w' \<and> nt_serve w' = 0"
  using assms
proof (induction "nat (nt_serve w)" arbitrary: w)
  case 0
  then have "nt_serve w = 0" using net_invD(3) [OF 0(2)] by simp
  then show ?case by blast
next
  case (Suc n)
  then have "card (registered_conns w) \<noteq> 0" using net_invD(3) [OF Suc(3)] by simp
  then have "registered_conns w \<noteq> {}" by (metis card.empty)
  then obtain i where i: "cn_registered (nt_conn w i)" by (auto simp: registered_conns_def)
  from connection_can_finish [OF i conn_okD(4) [OF net_invD(4) [OF Suc(3)] i]]
  obtain v where v: "net_step\<^sup>*\<^sup>* w v" "nt_serve v = nt_serve w - 1" by blast
  have "n = nat (nt_serve v)" using Suc(2) v(2) by simp
  from Suc(1) [OF this net_steps_inv [OF v(1) Suc(3)]] v(1) show ?case by (meson rtranclp_trans)
qed

text \<open>
  Property C29. Shutdown drains the gateway. Once \<open>CloseAll\<close> has run, no later step starts
  serving a connection, so the count of served connections never grows; every connection still
  served and open is one a goroutine is about to close; and the goroutines of the served
  connections can run to their end, after which \<open>WaitWithTimeout\<close> reports a drained gateway, at
  once when it waits without bound and otherwise when they end before the timeout.
\<close>

theorem shutdown_drains:
  assumes "net_reachable w" "nt_stopped w"
  shows "(\<forall>w'. net_step w w' \<longrightarrow> nt_stopped w' \<and> nt_serve w' \<le> nt_serve w) \<and>
    (\<forall>i. nt_phase w i = Serving \<and> \<not> cn_closed (nt_conn w i) \<longrightarrow> i \<in> set (nt_pending w)) \<and>
    (\<exists>w'. net_step\<^sup>*\<^sup>* w w' \<and> nt_serve w' = 0 \<and> {i. cn_registered (nt_conn w' i)} = {}) \<and>
    (\<forall>timeout t. wait_with_timeout timeout (Some t) = Some (timeout \<le> 0 \<or> t < timeout))"
proof -
  note inv = net_reachable_inv [OF assms(1)]
  obtain w' where w': "net_step\<^sup>*\<^sup>* w w'" "nt_serve w' = 0" using registry_can_drain [OF inv] by blast
  note inv' = net_steps_inv [OF w'(1) inv]
  have "registered_conns w' = {}" using net_invD(2,3) [OF inv'] w'(2) by simp
  with w' stopped_step [OF _ assms(2)] stopped_open_pending [OF inv assms(2)] show ?thesis
    by (auto simp: registered_conns_def wait_with_timeout_def)
qed

text \<open>After the shutdown of the run above both connections are still counted, and can be drained.\<close>

theorem registry_consistent_witness:
  "nt_serve ex_net = 2 \<and> int (card {i. cn_registered (nt_conn ex_net i)}) = 2"
proof -
  have "nt_serve ex_net = int (card {i. cn_registered (nt_conn ex_net i)})"
    using registry_consistent [OF ex_net_reachable] by blast
  then show ?thesis by (simp add: ex_net_fields)
qed

theorem one_socket_per_user_witness:
  "cn_closed (nt_conn ex_net 0) \<and> registry_get 0xa ex_net = Some 1"
  using one_socket_per_user [OF ex_net_reachable, of 1 1] ex_net_fields by simp

theorem shutdown_drains_witness:
  "nt_serve (registry_close_all ex_net) = 2 \<and>
   (\<exists>w'. net_step\<^sup>*\<^sup>* (registry_close_all ex_net) w' \<and> nt_serve w' = 0)"
proof -
  have "nt_stopped (registry_close_all ex_net)" by (simp add: registry_close_all_def)
  from shutdown_drains [OF ex_net_stopped_reachable this] show ?thesis
    by (simp add: registry_close_all_def ex_net_fields) blast
qed

end
