(* ===== verification/Socket.thy ===== *)
theory Socket
  imports Gateway Http Registry "HOL-Library.Sublist"
begin

text \<open>
  A WebSocket from its request to its end: \<open>handleWS\<close> of \<open>internal/gateway/run.go\<close> (authentication,
  presence, subscription, registration, the \<open>ready\<close> message), \<open>cleanup\<close>, \<open>readPump\<close> with
  \<open>handleAndSend\<close>, and \<open>writePump\<close> of \<open>conn.go\<close>. Setting a socket up and cleaning it up are
  sequences of the steps of \<open>Registry\<close>; what Redis, the upgrade and the socket answer is given by
  an environment.
\<close>

section \<open>Setting up\<close>

record ws_env =
  we_has_db :: bool
  we_user :: io
  we_now :: int
  we_upgrade :: bool
  we_presence :: io
  we_subscribe :: bool
  we_delete :: io
  we_prefer :: bool

text \<open>\<open>cleanup\<close>, run once: remove, \<open>onClose\<close>, close, and \<open>Done\<close>.\<close>

definition cleanup :: "io \<Rightarrow> nat \<Rightarrow> net \<Rightarrow> net" where
  "cleanup x i w = move_to i Finished (registry_done i (conn_close i (on_close x i (registry_remove i w))))"

definition put_conn :: "nat \<Rightarrow> conn_phase \<Rightarrow> conn \<Rightarrow> net \<Rightarrow> net" where
  "put_conn i p c w = move_to i p (w\<lparr>nt_conn := (nt_conn w)(i := c)\<rparr>)"

text \<open>\<open>handleWS\<close> once the socket is upgraded, for the user \<open>u\<close> and the new connection \<open>i\<close>.\<close>

definition open_socket :: "time_lib \<Rightarrow> uuid_lib \<Rightarrow> ws_env \<Rightarrow> uuid \<Rightarrow> nat \<Rightarrow> net \<Rightarrow> net" where
  "open_socket T U E u i w =
     (if we_presence E \<noteq> IoOk
      then put_conn i Finished ((new_conn u)\<lparr>cn_closed := True, cn_presence := io_applied (we_presence E)\<rparr>) w
      else if \<not> we_subscribe E
      then put_conn i Finished ((new_conn u)\<lparr>cn_closed := True, cn_presence := \<not> io_applied (we_delete E)\<rparr>) w
      else case registry_add i (put_conn i SettingUp ((new_conn u)\<lparr>cn_presence := True, cn_subscribed := True\<rparr>) w) of
          (False, _, w1) \<Rightarrow> cleanup (we_delete E) i (conn_close i w1)
        | (True, prev, w1) \<Rightarrow>
            let w2 = (case prev of None \<Rightarrow> move_to i Serving w1 | Some p \<Rightarrow> conn_close p (move_to i Serving w1)) in
            (case encode_text T ''ready'' (Some (ReadyData (uuid_string U u))) of
               Inl _ \<Rightarrow> cleanup (we_delete E) i (conn_close i w2)
             | Inr ready \<Rightarrow> conn_send (we_prefer E) ready i w2))"

definition ws_authenticate ::
  "uuid_lib \<Rightarrow> jwt_lib \<Rightarrow> string \<Rightarrow> ws_env \<Rightarrow> auth_request \<Rightarrow> db \<Rightarrow> auth_failure + principal" where
  "ws_authenticate U J secret E r d =
     authenticate_web_socket U J (we_now E) r secret (Some (\<lambda>k. user_by_id (we_has_db E) (we_user E) k d))"

text \<open>The plain HTTP answer to a request that is not authenticated, and what \<open>handleWS\<close> leaves.\<close>

definition handle_ws ::
  "time_lib \<Rightarrow> uuid_lib \<Rightarrow> jwt_lib \<Rightarrow> string \<Rightarrow> ws_env \<Rightarrow> auth_request \<Rightarrow> db \<Rightarrow> nat \<Rightarrow> net
    \<Rightarrow> (int \<times> string) option \<times> net" where
  "handle_ws T U J secret E r d i w =
     (case ws_authenticate U J secret E r d of
        Inl (Unauthorized _) \<Rightarrow> (Some (401, ''unauthorized''), w)
      | Inl (AuthUnavailable _) \<Rightarrow> (Some (503, ''service unavailable''), w)
      | Inr p \<Rightarrow> if \<not> we_upgrade E then (None, w) else (None, open_socket T U E (au_id (pr_user p)) i w))"

section \<open>Serving\<close>

text \<open>
  \<open>handleAndSend\<close>: the reply is queued for the socket. A message of \<open>readPump\<close> comes with the
  environment it is handled in; the loop ends with the first error, or when reading fails
  after the last message.
\<close>

definition handle_and_send ::
  "time_lib \<Rightarrow> uuid_lib \<Rightarrow> codec \<Rightarrow> conn_id \<Rightarrow> nat \<Rightarrow> gateway_env \<times> bool \<times> string \<Rightarrow> gateway_state \<times> net
    \<Rightarrow> string option \<times> gateway_state \<times> net" where
  "handle_and_send T U C c i m s =
     (case m of (e, pref, raw) \<Rightarrow> case s of (g, w) \<Rightarrow>
       (case ws_handle T U C e c raw g of
          (Inl err, g') \<Rightarrow> (Some err, g', w)
        | (Inr resp, g') \<Rightarrow> (None, g', if resp \<noteq> '''' then conn_send pref resp i w else w)))"

fun read_pump ::
  "time_lib \<Rightarrow> uuid_lib \<Rightarrow> codec \<Rightarrow> conn_id \<Rightarrow> nat \<Rightarrow> (gateway_env \<times> bool \<times> string) list \<Rightarrow> gateway_state \<times> net
    \<Rightarrow> gateway_state \<times> net" where
  "read_pump T U C c i [] s = s"
| "read_pump T U C c i (m # ms) s =
     (case handle_and_send T U C c i m s of
        (Some _, s') \<Rightarrow> s'
      | (None, s') \<Rightarrow> read_pump T U C c i ms s')"

datatype ws_frame = TextFrame string | PingFrame | CloseFrame int string

text \<open>
  What \<open>writePump\<close> may receive, with the outcome of the write: a queued message, a tick, the
  expiry of the token, the closing of the connection.
\<close>

datatype pump_event = PumpMessage bool | PumpTick bool | PumpExpired | PumpClosed

definition close_policy_violation :: int where
  "close_policy_violation = 1008"

definition close_normal :: int where
  "close_normal = 1000"

text \<open>The frames written; an event whose channel is not ready does not occur. Closing frames are tried once.\<close>

fun write_pump :: "pump_event list \<Rightarrow> conn \<Rightarrow> ws_frame list \<times> conn" where
  "write_pump [] c = ([], c)"
| "write_pump (PumpMessage ok # evs) c =
     (case cn_send c of
        [] \<Rightarrow> write_pump evs c
      | m # ms \<Rightarrow>
          let c' = c\<lparr>cn_send := ms\<rparr> in
          if ok then (case write_pump evs c' of (fs, c'') \<Rightarrow> (TextFrame m # fs, c'')) else ([], c'\<lparr>cn_closed := True\<rparr>))"
| "write_pump (PumpTick ok # evs) c =
     (if ok then (case write_pump evs c of (fs, c') \<Rightarrow> (PingFrame # fs, c')) else ([], c\<lparr>cn_closed := True\<rparr>))"
| "write_pump (PumpExpired # evs) c = ([CloseFrame close_policy_violation ''token expired''], c\<lparr>cn_closed := True\<rparr>)"
| "write_pump (PumpClosed # evs) c = (if cn_closed c then ([CloseFrame close_normal ''''], c) else write_pump evs c)"

fun frame_text :: "ws_frame \<Rightarrow> string list" where
  "frame_text (TextFrame m) = [m]"
| "frame_text _ = []"

section \<open>Lemmas\<close>

text \<open>What is written is what was queued, in order, up to the message whose write failed.\<close>

lemma write_pump_texts:
  "write_pump evs c = (fs, c') \<Longrightarrow>
     \<exists>dropped. cn_send c = concat (map frame_text fs) @ dropped @ cn_send c' \<and> length dropped \<le> 1 \<and> (dropped = [] \<or> cn_closed c')"
proof (induction evs c arbitrary: fs c' rule: write_pump.induct)
  case (2 ok evs c)
  show ?case
  proof (cases "cn_send c")
    case Nil
    with 2 show ?thesis by simp
  next
    case (Cons m ms)
    show ?thesis
    proof (cases ok)
      case True
      obtain gs c2 where w: "write_pump evs (c\<lparr>cn_send := ms\<rparr>) = (gs, c2)" by fastforce
      have eq: "fs = TextFrame m # gs" "c' = c2" using "2.prems" Cons True w by simp_all
      have "\<exists>dropped. cn_send (c\<lparr>cn_send := ms\<rparr>) = concat (map frame_text gs) @ dropped @ cn_send c2
          \<and> length dropped \<le> 1 \<and> (dropped = [] \<or> cn_closed c2)"
        using "2.IH"(2) [OF Cons refl True w] .
      then show ?thesis using Cons eq by simp
    next
      case False
      then show ?thesis using "2.prems" Cons by (intro exI [where x = "[m]"]) auto
    qed
  qed
next
  case (3 ok evs c)
  then show ?case by (cases ok) (auto split: prod.splits)
next
  case (5 evs c)
  then show ?case by (cases "cn_closed c") auto
qed auto

lemma cleanup_steps:
  assumes "nt_phase w i = Leaving"
  shows "net_step\<^sup>*\<^sup>* w (cleanup x i w)"
proof -
  let ?w1 = "move_to i Removed (registry_remove i w)"
  let ?w2 = "move_to i Closed (conn_close i (on_close x i ?w1))"
  let ?w3 = "move_to i Finished (registry_done i ?w2)"
  have "net_step w ?w1" using assms by (rule net_step.remove)
  moreover have "net_step ?w1 ?w2" by (rule net_step.cleanup_close) simp
  moreover have "net_step ?w2 ?w3" by (rule net_step.finish) simp
  moreover have "?w3 = cleanup x i w"
    by (simp add: cleanup_def move_to_def registry_done_def registry_remove_def conn_close_def on_close_def upd_conn_def Let_def)
  ultimately show ?thesis by (metis (no_types, lifting) converse_rtranclp_into_rtranclp rtranclp.rtrancl_refl)
qed

lemma registry_add_fields:
  assumes "registry_add i w = (ok, prev, w')"
  shows "ok \<longleftrightarrow> \<not> nt_stopped w" "nt_phase w' = nt_phase w" "nt_pending w' = nt_pending w" "nt_stopped w' = nt_stopped w"
    "\<not> ok \<Longrightarrow> w' = w"
    "ok \<Longrightarrow> nt_conn w' j = (if j = i then (nt_conn w i)\<lparr>cn_registered := True\<rparr> else nt_conn w j)"
    "ok \<Longrightarrow> nt_conns w' = AList.update (cn_user (nt_conn w i)) i (nt_conns w)"
    "ok \<Longrightarrow> prev \<noteq> Some i"
  using assms by (auto simp: registry_add_def Let_def split: if_splits)

lemma put_conn_simps [simp]:
  "nt_conns (put_conn i p c w) = nt_conns w" "nt_stopped (put_conn i p c w) = nt_stopped w"
  "nt_pending (put_conn i p c w) = nt_pending w"
  "nt_conn (put_conn i p c w) j = (if j = i then c else nt_conn w j)"
  "nt_phase (put_conn i p c w) j = (if j = i then p else nt_phase w j)"
  by (simp_all add: put_conn_def)

lemma ready_encoded: "\<exists>ready. encode_text T ''ready'' (Some (ReadyData u)) = Inr ready"
  by simp

text \<open>The goroutine adds the connection, and closes the one it replaced before anything else.\<close>

lemma added_steps:
  assumes "nt_phase w i = SettingUp" "registry_add i w = (True, prev, w1)"
  shows "net_step\<^sup>*\<^sup>* w (case prev of None \<Rightarrow> move_to i Serving w1 | Some p \<Rightarrow> conn_close p (move_to i Serving w1))"
proof -
  let ?w2 = "move_to i Serving (w1\<lparr>nt_pending := (case prev of None \<Rightarrow> [] | Some p \<Rightarrow> [p]) @ nt_pending w1\<rparr>)"
  have add: "net_step w ?w2" using assms by (rule net_step.add)
  show ?thesis
  proof (cases prev)
    case None
    then have "?w2 = move_to i Serving w1" by (simp add: move_to_def)
    then show ?thesis using add None by auto
  next
    case (Some p)
    have "net_step ?w2 (conn_close p (?w2\<lparr>nt_pending := [] @ nt_pending w1\<rparr>))"
      by (rule net_step.pending_close) (simp add: Some)
    moreover have "?w2\<lparr>nt_pending := [] @ nt_pending w1\<rparr> = move_to i Serving w1"
      by (simp add: move_to_def)
    ultimately show ?thesis using add Some by (metis (no_types, lifting) converse_rtranclp_into_rtranclp option.simps(5) rtranclp.rtrancl_refl)
  qed
qed

lemma open_socket_steps:
  assumes "nt_phase w i = Unused"
  shows "net_step\<^sup>*\<^sup>* w (open_socket T U E u i w)"
proof -
  have fail: "net_step\<^sup>*\<^sup>* w (put_conn i Finished ((new_conn u)\<lparr>cn_closed := True, cn_presence := left\<rparr>) w)" for left
    using net_step.setup_fails [OF assms, where u = u and left = left] by (auto simp: put_conn_def)
  let ?w0 = "put_conn i SettingUp ((new_conn u)\<lparr>cn_presence := True, cn_subscribed := True\<rparr>) w"
  have connect: "net_step w ?w0"
    using net_step.connect [OF assms, where u = u] by (simp add: put_conn_def)
  obtain ready where ready: "encode_text T ''ready'' (Some (ReadyData (uuid_string U u))) = Inr ready"
    using ready_encoded by blast
  obtain ok prev w1 where add: "registry_add i ?w0 = (ok, prev, w1)" by (cases "registry_add i ?w0") auto
  note fields = registry_add_fields [OF add]
  have go: "net_step\<^sup>*\<^sup>* ?w0 (open_socket T U E u i w)" if "we_presence E = IoOk" "we_subscribe E"
  proof (cases ok)
    case True
    let ?w2 = "case prev of None \<Rightarrow> move_to i Serving w1 | Some p \<Rightarrow> conn_close p (move_to i Serving w1)"
    have steps: "net_step\<^sup>*\<^sup>* ?w0 ?w2" using add True by (intro added_steps) simp_all
    have "nt_phase ?w2 i = Serving" by (simp split: option.split)
    then have "net_step ?w2 (conn_send (we_prefer E) ready i ?w2)" by (intro net_step.send) simp
    with steps show ?thesis using that add True ready by (simp add: open_socket_def)
  next
    case False
    then have w1: "w1 = ?w0" using fields(5) by simp
    have "net_step ?w0 (move_to i Refused ?w0)"
      using add False w1 by (intro net_step.refused [of ?w0 i prev]) simp_all
    moreover have "net_step (move_to i Refused ?w0) (move_to i Leaving (conn_close i (move_to i Refused ?w0)))"
      by (rule net_step.refused_close) simp
    moreover have "net_step\<^sup>*\<^sup>* (move_to i Leaving (conn_close i (move_to i Refused ?w0)))
        (cleanup (we_delete E) i (move_to i Leaving (conn_close i (move_to i Refused ?w0))))"
      by (rule cleanup_steps) simp
    moreover have "cleanup (we_delete E) i (move_to i Leaving (conn_close i (move_to i Refused ?w0)))
        = cleanup (we_delete E) i (conn_close i w1)"
      by (simp add: w1 cleanup_def move_to_def registry_done_def registry_remove_def conn_close_def on_close_def upd_conn_def put_conn_def Let_def)
    ultimately have "net_step\<^sup>*\<^sup>* ?w0 (cleanup (we_delete E) i (conn_close i w1))"
      by (metis (no_types, lifting) converse_rtranclp_into_rtranclp)
    then show ?thesis using that add False by (simp add: open_socket_def)
  qed
  show ?thesis
  proof (cases "we_presence E = IoOk \<and> we_subscribe E")
    case True
    then show ?thesis using connect go by (meson converse_rtranclp_into_rtranclp)
  next
    case False
    then show ?thesis using fail by (auto simp: open_socket_def)
  qed
qed

lemma net_steps_reachable: "net_step\<^sup>*\<^sup>* w w' \<Longrightarrow> net_reachable w \<Longrightarrow> net_reachable w'"
  by (induction rule: rtranclp_induct) (auto intro: net_reachable.run)

lemma cleanup_fields:
  "nt_phase (cleanup x i w) i = Finished" "cn_closed (nt_conn (cleanup x i w) i)"
  "\<not> cn_registered (nt_conn (cleanup x i w) i)" "\<not> cn_subscribed (nt_conn (cleanup x i w) i)"
  by (simp_all add: cleanup_def registry_done_def on_close_def)

lemma open_socket_served:
  assumes "we_presence E = IoOk" "we_subscribe E" "\<not> nt_stopped w"
    and ready: "encode_text T ''ready'' (Some (ReadyData (uuid_string U u))) = Inr ready"
  shows "nt_phase (open_socket T U E u i w) i = Serving"
    "nt_conn (open_socket T U E u i w) i = \<lparr>cn_user = u, cn_send = [ready], cn_closed = False, cn_registered = True,
       cn_presence = True, cn_subscribed = True\<rparr>"
    "registry_get u (open_socket T U E u i w) = Some i"
proof -
  let ?w0 = "put_conn i SettingUp ((new_conn u)\<lparr>cn_presence := True, cn_subscribed := True\<rparr>) w"
  obtain ok prev w1 where add: "registry_add i ?w0 = (ok, prev, w1)" by (cases "registry_add i ?w0") auto
  note fields = registry_add_fields [OF add]
  have ok: ok using fields(1) assms(3) by simp
  let ?w2 = "case prev of None \<Rightarrow> move_to i Serving w1 | Some p \<Rightarrow> conn_close p (move_to i Serving w1)"
  have open_eq: "open_socket T U E u i w = conn_send (we_prefer E) ready i ?w2"
    using assms add ok by (simp add: open_socket_def)
  have conn: "nt_conn ?w2 i = \<lparr>cn_user = u, cn_send = [], cn_closed = False, cn_registered = True,
       cn_presence = True, cn_subscribed = True\<rparr>"
    using fields(6) [OF ok, of i] fields(8) [OF ok] by (simp add: new_conn_def split: option.split)
  then have sent: "conn_send (we_prefer E) ready i ?w2 = upd_conn i (\<lambda>c. c\<lparr>cn_send := cn_send c @ [ready]\<rparr>) ?w2"
    by (simp add: conn_send_def send_buf_size_def)
  show "nt_phase (open_socket T U E u i w) i = Serving" unfolding open_eq sent by (simp split: option.split)
  show "nt_conn (open_socket T U E u i w) i = \<lparr>cn_user = u, cn_send = [ready], cn_closed = False, cn_registered = True,
       cn_presence = True, cn_subscribed = True\<rparr>"
    unfolding open_eq sent upd_conn_simps conn by simp
  have "nt_conns ?w2 = nt_conns w1" by (simp split: option.split)
  then show "registry_get u (open_socket T U E u i w) = Some i"
    unfolding open_eq sent registry_get_def using fields(7) [OF ok] by (simp add: update_conv' new_conn_def)
qed

lemma open_socket_failed:
  assumes "\<not> (we_presence E = IoOk \<and> we_subscribe E \<and> \<not> nt_stopped w)"
  shows "nt_phase (open_socket T U E u i w) i = Finished \<and> cn_closed (nt_conn (open_socket T U E u i w) i)
    \<and> \<not> cn_registered (nt_conn (open_socket T U E u i w) i)"
proof (cases "we_presence E = IoOk \<and> we_subscribe E")
  case True
  then have "nt_stopped w" using assms by blast
  then have "registry_add i (put_conn i SettingUp ((new_conn u)\<lparr>cn_presence := True, cn_subscribed := True\<rparr>) w)
      = (False, None, put_conn i SettingUp ((new_conn u)\<lparr>cn_presence := True, cn_subscribed := True\<rparr>) w)"
    by (simp add: registry_add_def)
  then show ?thesis using True cleanup_fields by (simp add: open_socket_def)
next
  case False
  then show ?thesis by (auto simp: open_socket_def new_conn_def)
qed

section \<open>Properties\<close>


section \<open>The conversation\<close>

lemma encode_text_nonempty: "encode_text T typ payload = Inr raw \<Longrightarrow> raw \<noteq> ''''"
  by (auto simp: encode_text_def envelope_json_def split: sum.splits)

lemma reply_nonempty:
  assumes "ws_handle T U C e c raw g = (Inr reply, g')"
  shows "reply \<noteq> ''''"
  using assms
  by (auto simp: ws_handle_def handle_inbound_def encode_error_def encode_error_code_def encode_submission_error_def
      dest: encode_text_nonempty split: sum.splits inbound.splits option.splits prod.splits join_error.splits)

lemma ws_handle_replies: "\<exists>reply g'. ws_handle T U C e c raw g = (Inr reply, g')"
  unfolding ws_handle_def by (rule handle_inbound_replies)

text \<open>The messages of a connection handled one after the other: the replies and the state they leave.\<close>

fun conversation ::
  "time_lib \<Rightarrow> uuid_lib \<Rightarrow> codec \<Rightarrow> conn_id \<Rightarrow> (gateway_env \<times> bool \<times> string) list \<Rightarrow> gateway_state
    \<Rightarrow> (string + string) list \<times> gateway_state" where
  "conversation T U C c [] g = ([], g)"
| "conversation T U C c ((e, pref, raw) # ms) g =
     (case ws_handle T U C e c raw g of (reply, g') \<Rightarrow>
        case conversation T U C c ms g' of (replies, g'') \<Rightarrow> (reply # replies, g''))"

lemma conn_send_outcome:
  assumes "w' = conn_send pref msg i w"
  shows "cn_closed (nt_conn w' i) \<or> cn_send (nt_conn w' i) = cn_send (nt_conn w i) @ [msg]"
    "cn_closed (nt_conn w i) \<Longrightarrow> cn_closed (nt_conn w' i)" "j \<noteq> i \<Longrightarrow> nt_conn w' j = nt_conn w j" "nt_phase w' = nt_phase w"
  using assms by (auto simp: conn_send_def Let_def)

lemma read_pump_conversation:
  assumes "read_pump T U C c i ms (g, w) = (g', w')"
  shows "\<exists>replies. conversation T U C c ms g = (map Inr replies, g') \<and> length replies = length ms
    \<and> (cn_closed (nt_conn w' i) \<or> cn_send (nt_conn w' i) = cn_send (nt_conn w i) @ replies)
    \<and> (cn_closed (nt_conn w i) \<longrightarrow> cn_closed (nt_conn w' i))
    \<and> (\<forall>j. j \<noteq> i \<longrightarrow> nt_conn w' j = nt_conn w j)"
  using assms
proof (induction ms arbitrary: g w)
  case Nil
  then show ?case by simp
next
  case (Cons m ms)
  obtain e pref raw where m: "m = (e, pref, raw)" by (cases m) auto
  obtain reply g1 where h: "ws_handle T U C e c raw g = (Inr reply, g1)"
    using ws_handle_replies by blast
  define w1 where "w1 = conn_send pref reply i w"
  note sent = conn_send_outcome [OF w1_def]
  have rest: "read_pump T U C c i ms (g1, w1) = (g', w')"
    using Cons.prems h reply_nonempty [OF h] by (simp add: m handle_and_send_def w1_def)
  from Cons.IH [OF rest] obtain replies where r: "conversation T U C c ms g1 = (map Inr replies, g')"
    "length replies = length ms"
    "cn_closed (nt_conn w' i) \<or> cn_send (nt_conn w' i) = cn_send (nt_conn w1 i) @ replies"
    "cn_closed (nt_conn w1 i) \<longrightarrow> cn_closed (nt_conn w' i)" "\<forall>j. j \<noteq> i \<longrightarrow> nt_conn w' j = nt_conn w1 j"
    by blast
  show ?case
  proof (intro exI [where x = "reply # replies"] conjI)
    show "conversation T U C c (m # ms) g = (map Inr (reply # replies), g')" using h r(1) by (simp add: m)
    show "length (reply # replies) = length (m # ms)" using r(2) by simp
    show "cn_closed (nt_conn w' i) \<or> cn_send (nt_conn w' i) = cn_send (nt_conn w i) @ reply # replies"
      using r(3,4) sent(1) by (metis append.assoc append_Cons append_Nil)
    show "cn_closed (nt_conn w i) \<longrightarrow> cn_closed (nt_conn w' i)" using r(4) sent(2) by blast
    show "\<forall>j. j \<noteq> i \<longrightarrow> nt_conn w' j = nt_conn w j" using r(5) sent(3) by simp
  qed
qed

text \<open>
  Property C30. Every message a client sends is handled, in the order of the messages and none
  before the effects of the one before it; each gets one reply, and the replies go to that
  client's socket in the order of its messages, until the client reads so slowly that its
  connection is closed. No other connection is touched. What the writer then puts on the wire
  is what was queued, in order.
\<close>

theorem replies_in_order:
  assumes "read_pump T U C c i ms (g, w) = (g', w')"
  shows "(\<exists>replies. conversation T U C c ms g = (map Inr replies, g') \<and> length replies = length ms
      \<and> (cn_closed (nt_conn w' i) \<or> cn_send (nt_conn w' i) = cn_send (nt_conn w i) @ replies))
    \<and> (\<forall>j. j \<noteq> i \<longrightarrow> nt_conn w' j = nt_conn w j)
    \<and> (\<forall>evs fs k. write_pump evs (nt_conn w' i) = (fs, k) \<longrightarrow>
         prefix (concat (map frame_text fs)) (cn_send (nt_conn w' i)))"
proof -
  obtain replies where r: "conversation T U C c ms g = (map Inr replies, g')" "length replies = length ms"
    "cn_closed (nt_conn w' i) \<or> cn_send (nt_conn w' i) = cn_send (nt_conn w i) @ replies"
    "\<forall>j. j \<noteq> i \<longrightarrow> nt_conn w' j = nt_conn w j"
    using read_pump_conversation [OF assms] by blast
  have "prefix (concat (map frame_text fs)) (cn_send (nt_conn w' i))" if "write_pump evs (nt_conn w' i) = (fs, k)" for evs fs k
    using write_pump_texts [OF that] by (auto intro: prefixI)
  with r show ?thesis by blast
qed

section \<open>Witnesses\<close>

text \<open>Player 1 opens a socket; once the gateway shuts down it cannot.\<close>

definition ex_ws :: ws_env where
  "ex_ws = \<lparr>we_has_db = True, we_user = IoOk, we_now = 3, we_upgrade = True, we_presence = IoOk, we_subscribe = True,
     we_delete = IoOk, we_prefer = True\<rparr>"

definition ex_handle_ws :: "net \<Rightarrow> (int \<times> string) option \<times> net" where
  "ex_handle_ws w = handle_ws ex_time_lib ex_uuid_lib ex_jwt ''secret'' ex_ws (ex_get 1) (ex_db []) 0 w"


theorem replies_in_order_witness:
  "\<exists>reply g' w'. read_pump ex_time_lib ex_ids ex_codec (ex_conn ex_ids 3) 1 [(ex_gateway, True, ex_join_raw)] (ex_gateway_state, ex_net) = (g', w')
     \<and> conversation ex_time_lib ex_ids ex_codec (ex_conn ex_ids 3) [(ex_gateway, True, ex_join_raw)] ex_gateway_state = ([Inr reply], g')
     \<and> cn_send (nt_conn w' 1) = [reply]"
proof -
  obtain reply g1 where h: "ws_handle ex_time_lib ex_ids ex_codec ex_gateway (ex_conn ex_ids 3) ex_join_raw ex_gateway_state = (Inr reply, g1)"
    using ws_handle_replies by blast
  have open1: "nt_conn ex_net 1 = \<lparr>cn_user = 0xa, cn_send = [], cn_closed = False, cn_registered = True, cn_presence = True, cn_subscribed = True\<rparr>"
    by (simp add: ex_net_defs)
  have run: "read_pump ex_time_lib ex_ids ex_codec (ex_conn ex_ids 3) 1 [(ex_gateway, True, ex_join_raw)] (ex_gateway_state, ex_net)
      = (g1, conn_send True reply 1 ex_net)"
    using h reply_nonempty [OF h] by (simp add: handle_and_send_def)
  have "\<not> cn_closed (nt_conn (conn_send True reply 1 ex_net) 1)"
    unfolding conn_send_def open1 Let_def using open1 by (simp add: send_buf_size_def)
  with replies_in_order [OF run] obtain replies where
    r: "conversation ex_time_lib ex_ids ex_codec (ex_conn ex_ids 3) [(ex_gateway, True, ex_join_raw)] ex_gateway_state = (map Inr replies, g1)"
    "length replies = 1" "cn_send (nt_conn (conn_send True reply 1 ex_net) 1) = cn_send (nt_conn ex_net 1) @ replies"
    by auto
  then obtain rep where "replies = [rep]" by (cases replies) auto
  with r run open1 show ?thesis by auto
qed

end
