(* ===== verification/Delivery.thy ===== *)
theory Delivery
  imports Match Cli Socket
begin

text \<open>
  Delivery of published events to a player's socket: \<open>internal/gateway/pubsub.go\<close>. The goroutine
  of \<open>fanout\<close> hands every message Redis delivers on the user's channel to \<open>Send\<close>, from which
  \<open>writePump\<close> of \<open>conn.go\<close> takes it. The theory joins the match maker, which publishes, to the
  socket and to the client at its other end.
\<close>

section \<open>Subscription and fan-out\<close>

text \<open>
  \<open>subscribeUser\<close>, given the error of the confirmation if there was one: the channel subscribed to.
\<close>

definition subscribe_user :: "uuid_lib \<Rightarrow> string option \<Rightarrow> uuid \<Rightarrow> string + string" where
  "subscribe_user U receive_err u =
     (case receive_err of Some e \<Rightarrow> Inl (''subscribe user channel: '' @ e) | None \<Rightarrow> Inr (user_channel U u))"

text \<open>
  What Redis delivers on a channel: the payloads published to it, in the order of publication.
\<close>

definition channel_payloads :: "time_lib \<Rightarrow> string \<Rightarrow> (string \<times> envelope) list \<Rightarrow> string list" where
  "channel_payloads T ch pubs = map (\<lambda>p. json_text (envelope_json T (snd p))) (filter (\<lambda>p. fst p = ch) pubs)"

text \<open>\<open>fanout\<close>, each message with the case that the \<open>select\<close> of \<open>Send\<close> takes when both are ready.\<close>

fun fanout :: "nat \<Rightarrow> (bool \<times> string) list \<Rightarrow> net \<Rightarrow> net" where
  "fanout i [] w = w"
| "fanout i ((pref, payload) # ms) w = fanout i ms (conn_send pref payload i w)"

section \<open>Lemmas\<close>

lemma conn_send_at:
  "nt_conn (conn_send pref m i w) i =
     (let c = nt_conn w i in
      if length (cn_send c) < send_buf_size \<and> (\<not> cn_closed c \<or> pref) then c\<lparr>cn_send := cn_send c @ [m]\<rparr>
      else c\<lparr>cn_closed := True\<rparr>)"
  by (auto simp: conn_send_def upd_conn_def conn_close_def Let_def)

lemma conn_send_other: "j \<noteq> i \<Longrightarrow> nt_conn (conn_send pref m i w) j = nt_conn w j"
  by (simp add: conn_send_def upd_conn_def conn_close_def Let_def)

lemma fanout_other: "j \<noteq> i \<Longrightarrow> nt_conn (fanout i ms w) j = nt_conn w j"
  by (induction i ms w rule: fanout.induct) (simp_all add: conn_send_other)

text \<open>Once the buffer is full and the connection closed, nothing more is queued.\<close>

lemma fanout_full:
  "send_buf_size \<le> length (cn_send (nt_conn w i)) \<Longrightarrow> cn_closed (nt_conn w i) \<Longrightarrow> nt_conn (fanout i ms w) i = nt_conn w i"
  by (induction i ms w rule: fanout.induct) (simp_all add: conn_send_at Let_def)

lemma fanout_open:
  assumes "\<not> cn_closed (nt_conn w i)" "length (cn_send (nt_conn w i)) \<le> send_buf_size"
  shows "nt_conn (fanout i ms w) i = (nt_conn w i)
    \<lparr>cn_send := take send_buf_size (cn_send (nt_conn w i) @ map snd ms),
     cn_closed := send_buf_size < length (cn_send (nt_conn w i)) + length ms\<rparr>"
  using assms
proof (induction i ms w rule: fanout.induct)
  case (2 i pref payload ms w)
  show ?case
  proof (cases "length (cn_send (nt_conn w i)) < send_buf_size")
    case True
    then have at: "nt_conn (conn_send pref payload i w) i = (nt_conn w i)\<lparr>cn_send := cn_send (nt_conn w i) @ [payload]\<rparr>"
      using 2(2) by (simp add: conn_send_at Let_def)
    with 2(1) True 2(2) show ?thesis by simp
  next
    case False
    then have at: "nt_conn (conn_send pref payload i w) i = (nt_conn w i)\<lparr>cn_closed := True\<rparr>"
      using 2(2) by (simp add: conn_send_at Let_def)
    with False have "nt_conn (fanout i ms (conn_send pref payload i w)) i = (nt_conn w i)\<lparr>cn_closed := True\<rparr>"
      by (simp add: fanout_full)
    with False 2(3) show ?thesis by simp
  qed
qed simp

text \<open>The writes of an open socket that all succeed carry the whole buffer, in order.\<close>

lemma write_pump_drains:
  "concat (map frame_text (fst (write_pump (replicate (length (cn_send c)) (PumpMessage True)) c))) = cn_send c"
proof (induction "cn_send c" arbitrary: c)
  case (Cons m ms)
  then have c: "cn_send c = m # ms" by simp
  from Cons.hyps(1) [of "c\<lparr>cn_send := ms\<rparr>"] show ?case by (simp add: c case_prod_beta Let_def)
qed simp

lemma channel_payloads_append [simp]:
  "channel_payloads T ch (p @ q) = channel_payloads T ch p @ channel_payloads T ch q"
  by (simp add: channel_payloads_def)

lemma start_message_text:
  "encode_text T ''match_start'' (Some (MatchStartData \<lparr>ms_match_id = uuid_string U (cm_match_id cm),
      ms_problem_id = uuid_string U (cm_problem_id cm), ms_deadline = cm_deadline cm\<rparr>))
    = Inr (json_text (envelope_json T (start_message U cm)))"
  by (simp add: encode_text_def encode_def start_message_def)

lemma popped_routes:
  assumes "mm_ok C s" "texts_ok U C s" "queue_pop_pair U C True limit IoOk s = (Inr (Some (e1, e2)), s')"
    and ok: "\<forall>u\<in>{qm_user_id (qe_member e1), qm_user_id (qe_member e2)}. uuid_parse U (uuid_string U u) = Some u"
  shows "qm_route (qe_member e1) = user_channel U (qm_user_id (qe_member e1))"
    "qm_route (qe_member e2) = user_channel U (qm_user_id (qe_member e2))"
    "qm_route (qe_member e1) \<noteq> qm_route (qe_member e2)"
proof -
  have m: "member_text U C (qe_encoded e1) (qe_member e1)" "member_text U C (qe_encoded e2) (qe_member e2)"
    and ne: "qm_user_id (qe_member e1) \<noteq> qm_user_id (qe_member e2)"
    using pop_pair_run_members [OF assms(1-3)] by auto
  show r: "qm_route (qe_member e1) = user_channel U (qm_user_id (qe_member e1))"
    "qm_route (qe_member e2) = user_channel U (qm_user_id (qe_member e2))"
    using m by (auto simp: member_text_def member_validate_def split: if_splits)
  show "qm_route (qe_member e1) \<noteq> qm_route (qe_member e2)"
  proof
    assume "qm_route (qe_member e1) = qm_route (qe_member e2)"
    then have "uuid_string U (qm_user_id (qe_member e1)) = uuid_string U (qm_user_id (qe_member e2))"
      by (simp add: r user_channel_def)
    with ok have "Some (qm_user_id (qe_member e1)) = Some (qm_user_id (qe_member e2))" by (metis insertCI)
    with ne show False by simp
  qed
qed

section \<open>Properties\<close>


definition ex_quiet_world :: "(db, mm, (string \<times> envelope) list) match_world" where
  "ex_quiet_world = (ex_match_world ''da'')\<lparr>mw_db := ex_mdb\<lparr>db_matches := [], db_players := [], db_claims := []\<rparr>\<rparr>"

definition ex_listening :: net where
  "ex_listening = \<lparr>nt_conns = [(4, 0)], nt_serve = 1, nt_stopped = False,
     nt_conn = (\<lambda>_. (new_conn 4)\<lparr>cn_send := [''hello''], cn_registered := True, cn_presence := True, cn_subscribed := True\<rparr>),
     nt_phase = (\<lambda>_. Serving), nt_pending = []\<rparr>"

text \<open>Two instants, as the process writes and reads them.\<close>

definition ex_two_times :: time_lib where
  "ex_two_times = \<lparr>time_text = (\<lambda>t. if t = 60002000 then ''00:01'' else ''00:00''),
     time_parse = (\<lambda>s. if s = ''00:01'' then Some 60002000 else if s = ''00:00'' then Some 0 else None)\<rparr>"

lemma ex_two_times_read: "time_parse ex_two_times (escape (time_text ex_two_times 60002000)) = Some 60002000"
  by code_simp


end
