(* ===== verification/Process.thy ===== *)
theory Process
  imports Config Match Registry
begin

text \<open>
  One process of the system: \<open>run\<close> of \<open>cmd/codeduel/main.go\<close> with its roles, the dependencies of
  \<open>internal/app\<close> and \<open>internal/infrastructure\<close>, and the start of each service (\<open>Run\<close> of the
  gateway, match, judge and reaper packages): what is built from the configuration, and which
  error ends the process instead. Connecting, pinging and migrating are outcomes given by the
  environment of the process (\<open>process_env\<close>), like the parser of Redis URLs.
\<close>

section \<open>Logging\<close>

datatype log_level = LevelDebug | LevelInfo | LevelWarn | LevelError

definition parse_log_level :: "string \<Rightarrow> log_level" where
  "parse_log_level level =
     (if level = ''debug'' then LevelDebug
      else if level = ''warn'' \<or> level = ''warning'' then LevelWarn
      else if level = ''error'' then LevelError
      else LevelInfo)"

definition log_json :: "log_config \<Rightarrow> bool" where
  "log_json c \<longleftrightarrow> lc_format c = ''json''"

section \<open>Dependencies\<close>

datatype migration = Migrated | NoChange | MigrationFailed string

text \<open>
  \<open>pe_executor True\<close> is the outcome of building the Docker executor, \<open>pe_executor False\<close> of the
  Kubernetes executor, for a judge configuration.
\<close>

record process_env =
  pe_getenv :: "string \<Rightarrow> string"
  pe_lower :: "string \<Rightarrow> string"
  pe_scaled :: "int \<Rightarrow> int \<Rightarrow> nat \<Rightarrow> nat"
  pe_pool :: "string \<Rightarrow> bool"
  pe_ping_postgres :: bool
  pe_parse_url :: "string \<Rightarrow> string option"
  pe_ping_redis :: "string \<Rightarrow> bool"
  pe_migrator :: "string \<Rightarrow> string option"
  pe_up :: migration
  pe_down :: migration
  pe_executor :: "bool \<Rightarrow> judge_config \<Rightarrow> string option"
  pe_group :: "io"
  pe_hostname :: "string option"
  pe_pid :: nat
  pe_uuid :: string

definition new_postgres :: "process_env \<Rightarrow> string \<Rightarrow> string option" where
  "new_postgres P dsn =
     (if \<not> pe_pool P dsn then Some ''create postgres pool''
      else if \<not> pe_ping_postgres P then Some ''ping postgres'' else None)"

text \<open>\<open>RedisOptions\<close> gives the address to connect to; a URL takes precedence.\<close>

definition redis_options :: "process_env \<Rightarrow> redis_config \<Rightarrow> string + string" where
  "redis_options P c =
     (if rd_url c \<noteq> ''''
      then (case pe_parse_url P (rd_url c) of
              None \<Rightarrow> Inl ''parse REDIS_URL: invalid redis connection URL'' | Some addr \<Rightarrow> Inr addr)
      else Inr (rd_addr c))"

definition redis_host :: "process_env \<Rightarrow> redis_config \<Rightarrow> string" where
  "redis_host P c =
     (if rd_url c = '''' then rd_addr c
      else case pe_parse_url P (rd_url c) of Some addr \<Rightarrow> addr | None \<Rightarrow> '''')"

definition new_redis :: "process_env \<Rightarrow> redis_config \<Rightarrow> string option" where
  "new_redis P c =
     (case redis_options P c of
        Inl e \<Rightarrow> Some e
      | Inr addr \<Rightarrow> if pe_ping_redis P addr then None else Some ''ping redis'')"

definition new_dependencies :: "process_env \<Rightarrow> config \<Rightarrow> string option" where
  "new_dependencies P cfg =
     (case new_postgres P (pc_dsn (cf_postgres cfg)) of
        Some e \<Rightarrow> Some (''initialize postgres: '' @ e)
      | None \<Rightarrow>
          (case new_redis P (cf_redis cfg) of Some e \<Rightarrow> Some (''initialize redis: '' @ e) | None \<Rightarrow> None))"

definition migrate_with :: "string \<Rightarrow> string option \<Rightarrow> migration \<Rightarrow> string option" where
  "migrate_with what migrator m =
     (case migrator of
        Some e \<Rightarrow> Some e
      | None \<Rightarrow> (case m of MigrationFailed e \<Rightarrow> Some (what @ '': '' @ e) | _ \<Rightarrow> None))"

definition migrate_up :: "process_env \<Rightarrow> string \<Rightarrow> string option" where
  "migrate_up P dsn = migrate_with ''migrate up'' (pe_migrator P dsn) (pe_up P)"

definition migrate_down :: "process_env \<Rightarrow> string \<Rightarrow> string option" where
  "migrate_down P dsn = migrate_with ''migrate down'' (pe_migrator P dsn) (pe_down P)"

definition run_migrate :: "process_env \<Rightarrow> config \<Rightarrow> string \<Rightarrow> string option" where
  "run_migrate P cfg direction =
     (if direction = ''up'' then map_option (\<lambda>e. ''migrate up: '' @ e) (migrate_up P (pc_dsn (cf_postgres cfg)))
      else if direction = ''down'' then map_option (\<lambda>e. ''migrate down: '' @ e) (migrate_down P (pc_dsn (cf_postgres cfg)))
      else Some (''unknown migrate direction '' @ direction))"

section \<open>Starting a service\<close>

datatype started = GatewayStarted dispatcher | MatchStarted dispatcher int int
  | JudgeStarted "judge_service list" int | ReaperStarted dispatcher string reaper_config

definition start_gateway :: "process_env \<Rightarrow> config \<Rightarrow> string + started" where
  "start_gateway P cfg =
     (case new_dispatcher True True (mc_reenqueue_after (cf_match cfg)) default_dispatch_batch_size of
        Inl e \<Rightarrow> Inl (''initialize submission dispatcher: '' @ e)
      | Inr D \<Rightarrow> Inr (GatewayStarted D))"

definition start_match :: "process_env \<Rightarrow> config \<Rightarrow> string + started" where
  "start_match P cfg =
     (if milliseconds (mc_duration (cf_match cfg)) \<le> 0 then Inl ''match duration must be at least one millisecond''
      else case new_dispatcher True True (mc_reenqueue_after (cf_match cfg)) default_dispatch_batch_size of
          Inl e \<Rightarrow> Inl e
        | Inr D \<Rightarrow> Inr (MatchStarted D (mc_duration (cf_match cfg)) (mc_dispatch_interval (cf_match cfg))))"

definition host_name :: "process_env \<Rightarrow> string" where
  "host_name P = (case pe_hostname P of None \<Rightarrow> ''unknown-host'' | Some h \<Rightarrow> if h = '''' then ''unknown-host'' else h)"

definition judge_consumer_name :: "process_env \<Rightarrow> string" where
  "judge_consumer_name P = host_name P @ ''-'' @ decimal (pe_pid P) @ ''-'' @ pe_uuid P"

definition reaper_consumer_name :: "process_env \<Rightarrow> string" where
  "reaper_consumer_name P = ''reaper-'' @ host_name P @ ''-'' @ decimal (pe_pid P) @ ''-'' @ pe_uuid P"

text \<open>\<open>newExecutorForConfig\<close>: the error, \<open>None\<close> when there is an executor.\<close>

definition new_executor_for_config :: "process_env \<Rightarrow> judge_config \<Rightarrow> string option" where
  "new_executor_for_config P c =
     (if jc_executor c = '''' \<or> jc_executor c = ''docker'' then pe_executor P True c
      else if jc_executor c = ''kubernetes'' then pe_executor P False c
      else Some ''unsupported JUDGE_EXECUTOR'')"

definition judge_worker :: "process_env \<Rightarrow> judge_config \<Rightarrow> nat \<Rightarrow> judge_service" where
  "judge_worker P c index =
     \<lparr>js_has_logger = True, js_has_queue = True, js_has_store = True, js_has_executor = True, js_has_publish = True,
      js_consumer = judge_consumer_name P @ ''-'' @ decimal (index + 1), js_lease = jc_attempt_lease c,
      js_limits = limits_from_config c\<rparr>"

fun new_workers :: "process_env \<Rightarrow> judge_config \<Rightarrow> nat list \<Rightarrow> string + judge_service list" where
  "new_workers P c [] = Inr []"
| "new_workers P c (i # is) =
     (case new_judge_service (judge_worker P c i) of
        Inl e \<Rightarrow> Inl e
      | Inr w \<Rightarrow> (case new_workers P c is of Inl e \<Rightarrow> Inl e | Inr ws \<Rightarrow> Inr (w # ws)))"

text \<open>The first check of \<open>runJudgeWorkers\<close> is part of the start.\<close>

definition start_judge :: "process_env \<Rightarrow> config \<Rightarrow> string + started" where
  "start_judge P cfg =
     (let c = cf_judge cfg in
      case new_executor_for_config P c of
        Some e \<Rightarrow> Inl (''initialize sandbox executor: '' @ e)
      | None \<Rightarrow>
          if pe_group P \<noteq> IoOk then Inl ''initialize judge queue''
          else case new_workers P c [0..<nat (jc_concurrency c)] of
              Inl e \<Rightarrow> Inl e
            | Inr ws \<Rightarrow>
                if length ws = 0 \<or> shutdown_grace c \<le> 0 then Inl ''run judge workers: invalid configuration''
                else Inr (JudgeStarted ws (shutdown_grace c)))"

definition start_reaper :: "process_env \<Rightarrow> config \<Rightarrow> string + started" where
  "start_reaper P cfg =
     (if pe_group P \<noteq> IoOk then Inl ''initialize judge queue''
      else case new_dispatcher True True (mc_reenqueue_after (cf_match cfg)) default_dispatch_batch_size of
          Inl e \<Rightarrow> Inl e
        | Inr D \<Rightarrow> (case new_reaper_service True (reaper_consumer_name P) (cf_reaper cfg) of
              Inl e \<Rightarrow> Inl e
            | Inr rc \<Rightarrow> Inr (ReaperStarted D (reaper_consumer_name P) rc)))"

section \<open>The process\<close>

definition valid_role :: "string \<Rightarrow> bool" where
  "valid_role role \<longleftrightarrow> role \<in> set [''gateway'', ''match'', ''judge'', ''reaper'', ''migrate'']"

definition start_role :: "process_env \<Rightarrow> string \<Rightarrow> config \<Rightarrow> string + started" where
  "start_role P role cfg =
     (if role = ''gateway'' then start_gateway P cfg
      else if role = ''match'' then start_match P cfg
      else if role = ''judge'' then start_judge P cfg
      else start_reaper P cfg)"

text \<open>
  \<open>run\<close> up to the service: an error that ends the process, \<open>Inr None\<close> after a migration, or the
  service that was started. An error of the service's start is an error of its \<open>Run\<close>.
\<close>

definition process_run :: "process_env \<Rightarrow> string \<Rightarrow> string \<Rightarrow> string + started option" where
  "process_run P role direction =
     (if role = '''' then Inl ''missing required --role flag (gateway|match|judge|reaper|migrate)''
      else if \<not> valid_role role then Inl (''unknown role '' @ role)
      else case load_config (pe_lower P) (pe_scaled P) (pe_getenv P) of
        Inl e \<Rightarrow> Inl (''load config: '' @ e)
      | Inr cfg \<Rightarrow>
     (case validate_for_role (Some cfg) role of
        Some e \<Rightarrow> Inl (''validate config: '' @ e)
      | None \<Rightarrow>
          if role = ''migrate''
          then (case run_migrate P cfg direction of Some e \<Rightarrow> Inl e | None \<Rightarrow> Inr None)
          else case new_dependencies P cfg of
            Some e \<Rightarrow> Inl (''initialize dependencies: '' @ e)
          | None \<Rightarrow>
              (case start_role P role cfg of
                 Inl e \<Rightarrow> Inl (''run role: '' @ e)
               | Inr s \<Rightarrow> Inr (Some s))))"

text \<open>
  How a running service ends: with an error, with \<open>context.Canceled\<close> after a signal, or with
  nothing; and what the process then returns.
\<close>

datatype service_end = EndedNil | EndedCanceled | EndedError string

definition process_exit :: "service_end \<Rightarrow> string option" where
  "process_exit e = (case e of EndedError err \<Rightarrow> Some (''run role: '' @ err) | _ \<Rightarrow> None)"

text \<open>
  The end of the gateway's \<open>Run\<close>: a signal closes every connection, and the result of waiting for
  them is only logged; \<open>ListenAndServe\<close> may also return first, after a shutdown or with an error.
\<close>

datatype gateway_event = SignalReceived | ServerClosed bool | ListenFailed string

definition gateway_end :: "gateway_event \<Rightarrow> net \<Rightarrow> service_end \<times> net" where
  "gateway_end ev w =
     (case ev of
        SignalReceived \<Rightarrow> (EndedCanceled, registry_close_all w)
      | ServerClosed cancelled \<Rightarrow> (if cancelled then EndedCanceled else EndedNil, w)
      | ListenFailed e \<Rightarrow> (EndedError e, w))"

text \<open>
  The end of the match service's \<open>Run\<close>: the dispatcher is stopped with the service, and its error
  is reported when the service has none.
\<close>

definition match_end_of_run :: "service_end \<Rightarrow> service_end \<Rightarrow> service_end" where
  "match_end_of_run err dispatch_err =
     (if err = EndedNil \<and> dispatch_err \<noteq> EndedNil \<and> dispatch_err \<noteq> EndedCanceled then dispatch_err else err)"

section \<open>Lemmas\<close>

lemma digits_value_snoc: "digits_value (s @ [c]) acc = 10 * digits_value s acc + digit_value c"
  by (induction s acc rule: digits_value.induct) simp_all

lemma digit_value_digit_char: "n < 10 \<Longrightarrow> digit_value (digit_char n) = int n"
proof -
  assume "n < 10"
  then have "n = 0 \<or> n = 1 \<or> n = 2 \<or> n = 3 \<or> n = 4 \<or> n = 5 \<or> n = 6 \<or> n = 7 \<or> n = 8 \<or> n = 9" by arith
  then show ?thesis by (elim disjE) (simp_all, code_simp+)
qed

lemma digits_value_decimal: "digits_value (decimal n) 0 = int n"
proof (induction n rule: decimal.induct)
  case (1 n)
  show ?case
  proof (cases "n < 10")
    case True
    then show ?thesis by (subst decimal.simps) (simp add: digit_value_digit_char)
  next
    case False
    have "digits_value (decimal n) 0 = 10 * digits_value (decimal (n div 10)) 0 + digit_value (digit_char (n mod 10))"
      by (subst decimal.simps) (simp add: False digits_value_snoc)
    also have "\<dots> = 10 * int (n div 10) + int (n mod 10)"
      using 1 [OF False] by (simp add: digit_value_digit_char)
    also have "\<dots> = int (10 * (n div 10) + n mod 10)" by (simp only: of_nat_add of_nat_mult of_nat_numeral)
    also have "\<dots> = int n" by simp
    finally show ?thesis .
  qed
qed

lemma decimal_inj: "decimal m = decimal n \<Longrightarrow> m = n"
  by (metis digits_value_decimal of_nat_eq_iff)

lemma new_workers_eq:
  assumes "0 < jc_attempt_lease c" "limits_validate (limits_from_config c) = None"
  shows "new_workers P c is = Inr (map (judge_worker P c) is)"
proof (induction "is")
  case (Cons i "is")
  have "new_judge_service (judge_worker P c i) = Inr (judge_worker P c i)"
    using assms by (simp add: new_judge_service_def judge_worker_def)
  then show ?case using Cons by simp
qed simp

lemma judge_consumers_distinct: "distinct (map js_consumer (map (judge_worker P c) [0..<n]))"
proof -
  have "js_consumer \<circ> judge_worker P c = (\<lambda>i. judge_consumer_name P @ ''-'' @ decimal (i + 1))"
    by (auto simp: judge_worker_def)
  moreover have "inj_on (\<lambda>i. judge_consumer_name P @ ''-'' @ decimal (i + 1)) (set [0..<n])"
    by (rule inj_onI) (auto dest: decimal_inj)
  ultimately show ?thesis by (simp add: distinct_map)
qed

lemma start_gateway_loaded:
  assumes "load_config lower scaled env = Inr cfg"
  shows "\<exists>D. start_gateway P cfg = Inr (GatewayStarted D)"
  using load_config_Inr(3) [OF assms] by (simp add: start_gateway_def new_dispatcher_def default_dispatch_batch_size_def)

lemma start_match_loaded:
  assumes "load_config lower scaled env = Inr cfg"
  shows "(\<exists>s. start_match P cfg = Inr s) \<longleftrightarrow> 1000000 \<le> mc_duration (cf_match cfg)"
  using load_config_Inr(3) [OF assms] milliseconds_pos_iff [of "mc_duration (cf_match cfg)"]
  by (auto simp: start_match_def new_dispatcher_def default_dispatch_batch_size_def not_le)

lemma start_judge_loaded:
  assumes "load_config lower scaled env = Inr cfg"
  shows "start_judge P cfg = Inr s \<longleftrightarrow>
    pe_executor P (jc_executor (cf_judge cfg) \<noteq> ''kubernetes'') (cf_judge cfg) = None \<and> pe_group P = IoOk
    \<and> 0 < shutdown_grace (cf_judge cfg)
    \<and> s = JudgeStarted (map (judge_worker P (cf_judge cfg)) [0..<nat (jc_concurrency (cf_judge cfg))]) (shutdown_grace (cf_judge cfg))"
proof -
  note judge = load_judge_config_Inr [OF load_config_Inr(1) [OF assms]]
  have conc: "0 < jc_concurrency (cf_judge cfg)"
    and exec: "jc_executor (cf_judge cfg) \<in> {'''', ''docker'', ''kubernetes''}"
    using judge(1) unfolding judge_config_validate_iff by auto
  have ws: "new_workers P (cf_judge cfg) is = Inr (map (judge_worker P (cf_judge cfg)) is)" for "is"
    using new_workers_eq [OF judge(2) limits_from_config_valid [OF judge(1)]] .
  have ex: "new_executor_for_config P (cf_judge cfg) = pe_executor P (jc_executor (cf_judge cfg) \<noteq> ''kubernetes'') (cf_judge cfg)"
    using exec by (auto simp: new_executor_for_config_def)
  show ?thesis
    unfolding start_judge_def Let_def ex ws using conc
    by (auto split: option.splits)
qed

lemma start_reaper_loaded:
  assumes "load_config lower scaled env = Inr cfg"
  shows "(\<exists>s. start_reaper P cfg = Inr s) \<longleftrightarrow> pe_group P = IoOk"
proof -
  have "reaper_consumer_name P \<noteq> ''''" by (simp add: reaper_consumer_name_def)
  then have "new_reaper_service True (reaper_consumer_name P) (cf_reaper cfg) = Inr (cf_reaper cfg)"
    using load_reaper_config_Inr [OF load_config_Inr(2) [OF assms]]
    by (auto simp: reaper_config_validate_def new_reaper_service_def split: if_splits)
  then show ?thesis
    using load_config_Inr(3) [OF assms] by (simp add: start_reaper_def new_dispatcher_def default_dispatch_batch_size_def)
qed

text \<open>What the start of a role needs besides a valid configuration and its dependencies.\<close>

definition role_needs :: "process_env \<Rightarrow> string \<Rightarrow> config \<Rightarrow> bool" where
  "role_needs P role cfg \<longleftrightarrow>
     (role = ''match'' \<longrightarrow> 1000000 \<le> mc_duration (cf_match cfg)) \<and>
     (role = ''judge'' \<longrightarrow> pe_executor P (jc_executor (cf_judge cfg) \<noteq> ''kubernetes'') (cf_judge cfg) = None
        \<and> pe_group P = IoOk \<and> 0 < shutdown_grace (cf_judge cfg)) \<and>
     (role = ''reaper'' \<longrightarrow> pe_group P = IoOk)"

lemma started_roles:
  assumes "role \<in> {''gateway'', ''match'', ''judge'', ''reaper''}"
  shows "role \<noteq> ''''" "valid_role role" "role \<noteq> ''migrate''"
  using assms by (auto simp: valid_role_def)

lemma process_run_service:
  assumes "role \<in> {''gateway'', ''match'', ''judge'', ''reaper''}"
  shows "process_run P role direction = Inr (Some s) \<longleftrightarrow>
    (\<exists>cfg. load_config (pe_lower P) (pe_scaled P) (pe_getenv P) = Inr cfg \<and> validate_for_role (Some cfg) role = None
       \<and> new_dependencies P cfg = None \<and> start_role P role cfg = Inr s)"
  unfolding process_run_def using started_roles [OF assms]
  by (simp split: sum.splits option.splits)

lemma start_role_loaded:
  assumes "load_config lower scaled env = Inr cfg" "role \<in> {''gateway'', ''match'', ''judge'', ''reaper''}"
  shows "(\<exists>s. start_role P role cfg = Inr s) \<longleftrightarrow> role_needs P role cfg"
proof -
  consider "role = ''gateway''" | "role = ''match''" | "role = ''judge''" | "role = ''reaper''" using assms(2) by auto
  then show ?thesis
  proof cases
    case 1
    then show ?thesis using start_gateway_loaded [OF assms(1), of P] by (auto simp: start_role_def role_needs_def)
  next
    case 2
    then show ?thesis using start_match_loaded [OF assms(1), of P] by (simp add: start_role_def role_needs_def)
  next
    case 3
    then show ?thesis by (simp add: start_role_def role_needs_def start_judge_loaded [OF assms(1), of P])
  next
    case 4
    then show ?thesis using start_reaper_loaded [OF assms(1), of P] by (simp add: start_role_def role_needs_def)
  qed
qed

lemma judge_started:
  assumes "process_run P ''judge'' direction = Inr (Some s)"
  shows "\<exists>cfg ws. load_config (pe_lower P) (pe_scaled P) (pe_getenv P) = Inr cfg \<and> s = JudgeStarted ws (shutdown_grace (cf_judge cfg))
        \<and> length ws = nat (jc_concurrency (cf_judge cfg)) \<and> 0 < length ws \<and> distinct (map js_consumer ws)
        \<and> (\<forall>w\<in>set ws. js_lease w = jc_attempt_lease (cf_judge cfg) \<and> js_limits w = limits_from_config (cf_judge cfg))"
proof -
  obtain cfg where cfg: "load_config (pe_lower P) (pe_scaled P) (pe_getenv P) = Inr cfg" and "start_role P ''judge'' cfg = Inr s"
    using assms process_run_service [of "''judge''" P direction s] by auto
  then have s: "s = JudgeStarted (map (judge_worker P (cf_judge cfg)) [0..<nat (jc_concurrency (cf_judge cfg))]) (shutdown_grace (cf_judge cfg))"
    by (simp add: start_role_def start_judge_loaded [OF cfg])
  have "0 < jc_concurrency (cf_judge cfg)"
    using load_judge_config_Inr(1) [OF load_config_Inr(1) [OF cfg]] unfolding judge_config_validate_iff by blast
  with cfg s judge_consumers_distinct [of P "cf_judge cfg" "nat (jc_concurrency (cf_judge cfg))"]
  show ?thesis
    by (intro exI [where x = cfg] exI [where x = "map (judge_worker P (cf_judge cfg)) [0..<nat (jc_concurrency (cf_judge cfg))]"])
       (auto simp: judge_worker_def)
qed

section \<open>Properties\<close>

text \<open>
  Property C40. A service starts exactly when the configuration loads and is valid for its role,
  PostgreSQL and Redis answer, and what its role needs is there: a match of at least a
  millisecond, the sandbox executor and the consumer group, a positive grace period. No later
  check refuses a loaded configuration. A started judge has as many workers as configured, with
  the configured lease and limits, and no two of them share a consumer name.
\<close>

theorem service_starts:
  assumes "role \<in> {''gateway'', ''match'', ''judge'', ''reaper''}"
  shows "((\<exists>s. process_run P role direction = Inr (Some s)) \<longleftrightarrow>
      (\<exists>cfg. load_config (pe_lower P) (pe_scaled P) (pe_getenv P) = Inr cfg \<and> validate_for_role (Some cfg) role = None
        \<and> new_dependencies P cfg = None \<and> role_needs P role cfg)) \<and>
    (\<forall>s. role = ''judge'' \<and> process_run P role direction = Inr (Some s) \<longrightarrow>
      (\<exists>cfg ws. load_config (pe_lower P) (pe_scaled P) (pe_getenv P) = Inr cfg \<and> s = JudgeStarted ws (shutdown_grace (cf_judge cfg))
        \<and> length ws = nat (jc_concurrency (cf_judge cfg)) \<and> 0 < length ws \<and> distinct (map js_consumer ws)
        \<and> (\<forall>w\<in>set ws. js_lease w = jc_attempt_lease (cf_judge cfg) \<and> js_limits w = limits_from_config (cf_judge cfg))))"
proof (intro conjI allI impI)
  show "(\<exists>s. process_run P role direction = Inr (Some s)) \<longleftrightarrow>
      (\<exists>cfg. load_config (pe_lower P) (pe_scaled P) (pe_getenv P) = Inr cfg \<and> validate_for_role (Some cfg) role = None
        \<and> new_dependencies P cfg = None \<and> role_needs P role cfg)"
    unfolding process_run_service [OF assms] using start_role_loaded [OF _ assms] by blast
qed (use judge_started in blast)

text \<open>The services start with the defaults: nothing is set in the environment.\<close>

definition ex_role_env :: process_env where
  "ex_role_env = \<lparr>pe_getenv = ex_env, pe_lower = id, pe_scaled = ex_scaled, pe_pool = (\<lambda>_. True), pe_ping_postgres = True,
     pe_parse_url = (\<lambda>_. None), pe_ping_redis = (\<lambda>_. True), pe_migrator = (\<lambda>_. None), pe_up = Migrated, pe_down = NoChange,
     pe_executor = (\<lambda>_ _. None), pe_group = IoOk, pe_hostname = None, pe_pid = 7, pe_uuid = ''u''\<rparr>"

theorem service_starts_witness:
  "\<exists>ws grace. process_run ex_role_env ''judge'' '''' = Inr (Some (JudgeStarted ws grace)) \<and> length ws = 2"
proof -
  obtain cfg where cfg: "load_config id ex_scaled ex_env = Inr cfg" using ex_env_loads by blast
  have v: "map_sum id (\<lambda>c. (shutdown_grace (cf_judge c), jc_concurrency (cf_judge c), rd_url (cf_redis c))) (load_config id ex_scaled ex_env)
      = Inr (50000000000, 2, [])" by code_simp
  have needs: "validate_for_role (Some cfg) ''judge'' = None" "new_dependencies ex_role_env cfg = None" "role_needs ex_role_env ''judge'' cfg"
    using v by (simp_all add: cfg validate_for_role_def new_dependencies_def new_postgres_def new_redis_def redis_options_def
        ex_role_env_def role_needs_def)
  have env: "pe_lower ex_role_env = id" "pe_scaled ex_role_env = ex_scaled" "pe_getenv ex_role_env = ex_env"
    by (simp_all add: ex_role_env_def)
  have both: "\<exists>s. process_run ex_role_env ''judge'' '''' = Inr (Some s)"
    "\<forall>s. process_run ex_role_env ''judge'' '''' = Inr (Some s) \<longrightarrow>
      (\<exists>cfg ws. load_config id ex_scaled ex_env = Inr cfg \<and> s = JudgeStarted ws (shutdown_grace (cf_judge cfg))
        \<and> length ws = nat (jc_concurrency (cf_judge cfg)))"
    using service_starts [of "''judge''" ex_role_env "''''"] cfg needs unfolding env by blast+
  then obtain s ws where "process_run ex_role_env ''judge'' '''' = Inr (Some s)"
    "s = JudgeStarted ws (shutdown_grace (cf_judge cfg))" "length ws = nat (jc_concurrency (cf_judge cfg))"
    using cfg by auto
  then show ?thesis using v cfg by auto
qed

end
