(* ===== verification/Presence.thy ===== *)
theory Presence
  imports MatchQueue
begin

text \<open>
  The heartbeat of a player's socket: the pong handler of \<open>readPump\<close> in
  \<open>internal/gateway/conn.go\<close> and the presence key that \<open>handleWS\<close> in \<open>run.go\<close> sets and refreshes.
  Every pong moves the read deadline of the socket and extends the lifetime of the key, which
  Redis drops when it is over. Times are nanoseconds of one clock.
\<close>

section \<open>The heartbeat\<close>

definition pong_wait :: int where
  "pong_wait = 60 * 1000000000"

definition ping_period :: int where
  "ping_period = pong_wait * 9 div 10"

definition presence_ttl :: int where
  "presence_ttl = 75 * 1000000000"

text \<open>The read deadline of the socket, and when the presence key expires, if it was set at all.\<close>

record heartbeat =
  hb_deadline :: int
  hb_key :: "int option"

definition key_alive :: "int \<Rightarrow> heartbeat \<Rightarrow> bool" where
  "key_alive now h = (case hb_key h of None \<Rightarrow> False | Some e \<Rightarrow> now < e)"

text \<open>\<open>Set\<close> with the lifetime of the key, and \<open>Expire\<close>, which extends only a key that exists.\<close>

definition set_presence :: "io \<Rightarrow> int \<Rightarrow> heartbeat \<Rightarrow> string option \<times> heartbeat" where
  "set_presence x now h =
     (if x = IoOk then None else Some ''set'', if io_applied x then h\<lparr>hb_key := Some (now + presence_ttl)\<rparr> else h)"

definition refresh_presence :: "io \<Rightarrow> int \<Rightarrow> heartbeat \<Rightarrow> string option \<times> heartbeat" where
  "refresh_presence x now h =
     (if x \<noteq> IoOk then Some ''expire''
      else if \<not> key_alive now h then Some ''presence lease no longer exists'' else None,
      if io_applied x \<and> key_alive now h then h\<lparr>hb_key := Some (now + presence_ttl)\<rparr> else h)"

text \<open>
  The pong handler: a deadline that cannot be set ends the read with its error; a failed refresh
  is only logged.
\<close>

definition pong_handler :: "bool \<Rightarrow> io \<Rightarrow> int \<Rightarrow> heartbeat \<Rightarrow> string option \<times> heartbeat" where
  "pong_handler deadline_set x now h =
     (if \<not> deadline_set then (Some ''set read deadline'', h)
      else (None, snd (refresh_presence x now (h\<lparr>hb_deadline := now + pong_wait\<rparr>))))"

text \<open>
  The start of \<open>readPump\<close>, and the pongs of an open socket, each with the time it is read at and
  what became of its refresh: a pong that has not come by the deadline finds reading over.
\<close>

definition start_reading :: "int \<Rightarrow> heartbeat \<Rightarrow> heartbeat" where
  "start_reading now h = h\<lparr>hb_deadline := now + pong_wait\<rparr>"

fun read_pongs :: "(int \<times> io) list \<Rightarrow> heartbeat \<Rightarrow> heartbeat" where
  "read_pongs [] h = h"
| "read_pongs ((now, x) # ps) h =
     (if hb_deadline h \<le> now then h
      else case pong_handler True x now h of (Some _, h') \<Rightarrow> h' | (None, h') \<Rightarrow> read_pongs ps h')"

text \<open>Pongs that come in time: each after the previous one and before the deadline it left.\<close>

fun on_time :: "int \<Rightarrow> (int \<times> io) list \<Rightarrow> bool" where
  "on_time t [] \<longleftrightarrow> True"
| "on_time t ((now, x) # ps) \<longleftrightarrow> t \<le> now \<and> now < t + pong_wait \<and> on_time now ps"

section \<open>Lemmas\<close>

lemma read_pongs_step:
  "read_pongs ((now, x) # ps) h = (if hb_deadline h \<le> now then h
     else read_pongs ps (snd (refresh_presence x now (h\<lparr>hb_deadline := now + pong_wait\<rparr>))))"
  by (simp add: pong_handler_def)

lemma refresh_presence_simps [simp]:
  "hb_deadline (snd (refresh_presence x now h)) = hb_deadline h"
  "hb_key (snd (refresh_presence x now h)) = (if io_applied x \<and> key_alive now h then Some (now + presence_ttl) else hb_key h)"
  by (simp_all add: refresh_presence_def)

lemma key_alive_deadline [simp]: "key_alive now (h\<lparr>hb_deadline := d\<rparr>) = key_alive now h"
  by (simp add: key_alive_def)

lemma pong_wait_less: "0 < pong_wait" "pong_wait < presence_ttl"
  by (simp_all add: pong_wait_def presence_ttl_def)

text \<open>The key outlives the deadline: the invariant of a socket whose refreshes succeed.\<close>

definition covered :: "heartbeat \<Rightarrow> bool" where
  "covered h \<longleftrightarrow> (\<exists>e. hb_key h = Some e \<and> hb_deadline h < e)"

lemma covered_alive: "covered h \<Longrightarrow> now \<le> hb_deadline h \<Longrightarrow> key_alive now h"
  by (auto simp: covered_def key_alive_def)

lemma read_pongs_covered:
  "covered h \<Longrightarrow> \<forall>p\<in>set ps. io_applied (snd p) \<Longrightarrow> covered (read_pongs ps h)"
proof (induction ps arbitrary: h)
  case (Cons p ps)
  obtain now x where p: "p = (now, x)" by (cases p)
  show ?case
  proof (cases "hb_deadline h \<le> now")
    case False
    let ?h = "snd (refresh_presence x now (h\<lparr>hb_deadline := now + pong_wait\<rparr>))"
    have "key_alive now h" using covered_alive [OF Cons.prems(1)] False by simp
    then have "covered ?h" using Cons.prems(2) p pong_wait_less by (simp add: covered_def)
    from Cons.IH [OF this] Cons.prems(2) have "covered (read_pongs ps ?h)" by simp
    with False show ?thesis by (simp add: p read_pongs_step del: read_pongs.simps)
  qed (use Cons.prems p in simp)
qed simp

text \<open>An expired key stays away: no pong brings it back.\<close>

lemma key_alive_antimono: "key_alive now' h \<Longrightarrow> now \<le> now' \<Longrightarrow> key_alive now h"
  by (auto simp: key_alive_def split: option.splits)

lemma read_pongs_lapsed:
  "\<not> key_alive t h \<Longrightarrow> on_time t ps \<Longrightarrow> hb_key (read_pongs ps h) = hb_key h"
proof (induction ps arbitrary: t h)
  case (Cons p ps)
  obtain now x where p: "p = (now, x)" by (cases p)
  have dead: "\<not> key_alive now h" using Cons.prems p key_alive_antimono by auto
  let ?h = "snd (refresh_presence x now (h\<lparr>hb_deadline := now + pong_wait\<rparr>))"
  have same: "hb_key ?h = hb_key h" using dead by simp
  then have "\<not> key_alive now ?h" using dead by (simp add: key_alive_def)
  from Cons.IH [OF this] Cons.prems(2) p same show ?case by (simp add: p read_pongs_step del: read_pongs.simps)
qed simp

lemma read_pongs_open:
  "hb_deadline h = t + pong_wait \<Longrightarrow> on_time t ps \<Longrightarrow> hb_deadline (read_pongs ps h) = last (t # map fst ps) + pong_wait"
proof (induction ps arbitrary: t h)
  case (Cons p ps)
  obtain now x where p: "p = (now, x)" by (cases p)
  let ?h = "snd (refresh_presence x now (h\<lparr>hb_deadline := now + pong_wait\<rparr>))"
  from Cons.IH [of ?h now] Cons.prems p show ?case by (simp add: read_pongs_step del: read_pongs.simps)
qed simp

text \<open>An entry whose connection has no presence key is thrown out by \<open>PopPair\<close> and never paired.\<close>

lemma absent_unmatchable:
  "member_text U C raw m \<Longrightarrow> \<not> mm_presence s (qm_presence_key m) \<Longrightarrow> \<not> matchable C s (raw, sc)"
proof
  assume mt: "member_text U C raw m" and absent: "\<not> mm_presence s (qm_presence_key m)" and m: "matchable C s (raw, sc)"
  obtain uid pk where v: "lua_valid_member (cjson_decode C raw) = Some (uid, pk)" "mm_presence s pk"
    using m by (auto simp: matchable_def split: option.splits)
  from lua_valid_member_requeue [OF v(1)] mt have "pk = qm_presence_key m"
    by (auto simp: member_text_def lua_string_def)
  with v(2) absent show False by simp
qed

lemma decode_pair_texts:
  "decode_pair U C sel = Inr (Some (e1, e2)) \<Longrightarrow> {qe_encoded e1, qe_encoded e2} \<subseteq> fst ` set sel"
  by (auto simp: decode_pair_def split: list.splits if_splits sum.splits option.splits prod.splits)

lemma pop_pair_drops_absent:
  assumes "mm_ok C s" "queue_pop_pair U C True limit IoOk s = (r, s')" "(raw, sc) \<in> set (take (nat limit) (mm_queue s))"
    and "\<not> matchable C s (raw, sc)"
  shows "(raw, sc) \<notin> set (mm_queue s') \<and> (\<forall>e1 e2. r = Inr (Some (e1, e2)) \<longrightarrow> raw \<notin> {qe_encoded e1, qe_encoded e2})"
proof -
  let ?good = "filter (matchable C s) (take (nat limit) (mm_queue s))"
  obtain sel where sel: "sel = (if length ?good < 2 then [] else take 2 ?good)"
    and q: "mm_queue s' = filter (\<lambda>e. e \<notin> set sel \<and> (e \<in> set (take (nat limit) (mm_queue s)) \<longrightarrow> matchable C s e)) (mm_queue s)"
    and r: "r = decode_pair U C sel"
    using pop_pair_run [OF assms(1), of limit] assms(2) by (auto simp: queue_pop_pair_def Let_def)
  have "raw \<notin> fst ` set sel"
  proof
    assume "raw \<in> fst ` set sel"
    then obtain e where e: "e \<in> set sel" "fst e = raw" by auto
    then have m: "e \<in> set (mm_queue s)" "matchable C s e" by (auto simp: sel split: if_splits dest!: in_set_takeD)
    have "inj_on fst (set (mm_queue s))" using mm_okD(1) [OF assms(1)] by (simp add: distinct_map)
    from inj_onD [OF this _ m(1) in_set_takeD [OF assms(3)]] e(2) have "e = (raw, sc)" by simp
    with m(2) assms(4) show False by simp
  qed
  with q r assms(3,4) show ?thesis by (auto dest: decode_pair_texts)
qed

section \<open>Properties\<close>

text \<open>
  Property C32. A connected player stays matchable: when the presence key was set less than
  fifteen seconds before reading began, and Redis applied every refresh, the key exists at every
  moment until the read deadline, whenever the pongs came. The fifteen seconds are what the
  lifetime of the key exceeds the deadline by.
\<close>

theorem presence_covers_socket:
  assumes "set_presence x0 t0 h0 = (None, h1)" and "t1 < t0 + (presence_ttl - pong_wait)"
    and "\<forall>p\<in>set ps. io_applied (snd p)" and "h = read_pongs ps (start_reading t1 h1)" and "now \<le> hb_deadline h"
  shows "key_alive now h"
proof -
  have "hb_key h1 = Some (t0 + presence_ttl)" using assms(1) by (auto simp: set_presence_def io_applied_def split: if_splits)
  with assms(2) have "covered (start_reading t1 h1)" by (simp add: covered_def start_reading_def)
  from read_pongs_covered [OF this assms(3)] assms(4,5) show ?thesis by (simp add: covered_alive)
qed

definition ex_beating :: "int \<Rightarrow> heartbeat" where
  "ex_beating t = \<lparr>hb_deadline = t + pong_wait, hb_key = Some (t + presence_ttl)\<rparr>"

theorem presence_covers_socket_witness:
  "key_alive 114000000000 (read_pongs [(54000000000, IoOk)] (start_reading 1 (ex_beating 0)))"
proof -
  have "set_presence IoOk 0 (ex_beating 0) = (None, ex_beating 0)" "(1 :: int) < 0 + (presence_ttl - pong_wait)"
    "\<forall>p\<in>set [(54000000000 :: int, IoOk)]. io_applied (snd p)"
    "114000000000 \<le> hb_deadline (read_pongs [(54000000000, IoOk)] (start_reading 1 (ex_beating 0)))"
    by code_simp+
  from presence_covers_socket [OF this(1-3) refl this(4)] show ?thesis .
qed

text \<open>
  Property C33. A missed refresh is final. When Redis fails to apply the refresh of one pong and
  the next one is read a key's lifetime after the pong before it, the key has expired and stays
  away for the rest of the connection, however many pongs follow and whatever becomes of their
  refreshes, while each of them keeps the socket open; and from then on \<open>PopPair\<close> throws out an
  entry of the player and pairs it with nobody.
\<close>

theorem missed_refresh_is_final:
  assumes "hb_deadline h = t + pong_wait" and "on_time t ((p0, IoOk) # (p1, IoErr) # (p2, x2) # ps)" and "key_alive p0 h"
    and "p0 + presence_ttl \<le> p2" and "h' = read_pongs ((p0, IoOk) # (p1, IoErr) # (p2, x2) # ps) h" and "p2 \<le> now"
    and "mm_ok C s" and "mm_presence s (qm_presence_key m) = key_alive now h'" and "member_text U C raw m"
    and "(raw, sc) \<in> set (take (nat limit) (mm_queue s))" and "queue_pop_pair U C True limit IoOk s = (r, s')"
  shows "\<not> key_alive now h' \<and> hb_deadline h' = last (p2 # map fst ps) + pong_wait \<and>
    (raw, sc) \<notin> set (mm_queue s') \<and> (\<forall>e1 e2. r = Inr (Some (e1, e2)) \<longrightarrow> raw \<notin> {qe_encoded e1, qe_encoded e2})"
proof -
  let ?h1 = "snd (refresh_presence IoOk p0 (h\<lparr>hb_deadline := p0 + pong_wait\<rparr>))"
  let ?h2 = "snd (refresh_presence IoErr p1 (?h1\<lparr>hb_deadline := p1 + pong_wait\<rparr>))"
  have h': "h' = read_pongs ((p2, x2) # ps) ?h2"
    using assms(1,2,5) by (simp add: read_pongs_step del: read_pongs.simps)
  have key: "hb_key ?h2 = Some (p0 + presence_ttl)" using assms(3) by (simp add: io_applied_def)
  have dl: "hb_deadline ?h2 = p1 + pong_wait" by simp
  have ot: "on_time p1 ((p2, x2) # ps)" using assms(2) by simp
  have ot2: "on_time p2 ((p2, x2) # ps)" using ot pong_wait_less(1) by simp
  have "\<not> key_alive p2 ?h2" using key assms(4) by (simp add: key_alive_def)
  from read_pongs_lapsed [OF this ot2] h' key have "hb_key h' = Some (p0 + presence_ttl)" by simp
  then have dead: "\<not> key_alive now h'" using assms(4,6) by (simp add: key_alive_def)
  have "hb_deadline h' = last (p2 # map fst ps) + pong_wait" using read_pongs_open [OF dl ot] h' by simp
  with dead pop_pair_drops_absent [OF assms(7,11,10) absent_unmatchable [OF assms(9)]] assms(8) show ?thesis by simp
qed

definition ex_absent :: mm where
  "ex_absent = (ex_mm ''ab'')\<lparr>mm_presence := (\<lambda>_. False)\<rparr>"

theorem missed_refresh_is_final_witness:
  "\<not> key_alive 300000000000 (read_pongs [(54000000000, IoOk), (108000000000, IoErr), (162000000000, IoOk), (216000000000, IoOk)] (ex_beating 0))
    \<and> hb_deadline (read_pongs [(54000000000, IoOk), (108000000000, IoErr), (162000000000, IoOk), (216000000000, IoOk)] (ex_beating 0))
        = 276000000000
    \<and> (''a'', 5) \<in> set (mm_queue ex_absent) \<and> (''a'', 5) \<notin> set (mm_queue (snd (queue_pop_pair ex_ids ex_codec True 100 IoOk ex_absent)))"
proof -
  let ?ps = "[(54000000000, IoOk), (108000000000, IoErr), (162000000000, IoOk), (216000000000, IoOk)]"
  let ?r = "queue_pop_pair ex_ids ex_codec True 100 IoOk ex_absent"
  have beats: "hb_deadline (ex_beating 0) = 0 + pong_wait"
    "on_time 0 ?ps" "key_alive 54000000000 (ex_beating 0)" "54000000000 + presence_ttl \<le> (162000000000 :: int)"
    "(162000000000 :: int) \<le> 300000000000"
    "last (162000000000 # map fst [(216000000000 :: int, IoOk)]) + pong_wait = 276000000000"
    by code_simp+
  have queue: "mm_presence ex_absent (qm_presence_key (ex_member 1)) = key_alive 300000000000 (read_pongs ?ps (ex_beating 0))"
    "member_text ex_ids ex_codec ''a'' (ex_member 1)" "(''a'', 5) \<in> set (take (nat 100) (mm_queue ex_absent))"
    by code_simp+
  have ok: "mm_ok ex_codec ex_absent" using ex_mm_ok [of "''ab''"] by (simp add: ex_absent_def mm_ok_def)
  have run: "?r = (fst ?r, snd ?r)" by simp
  have in_queue: "(''a'', 5) \<in> set (mm_queue ex_absent)" using queue(3) by (rule in_set_takeD)
  note r = missed_refresh_is_final [OF beats(1-4) refl beats(5) ok queue run]
  from r [THEN conjunct1] r [THEN conjunct2, THEN conjunct1, unfolded beats(6)]
    r [THEN conjunct2, THEN conjunct2, THEN conjunct1] in_queue show ?thesis by (intro conjI)
qed

end
