(* ===== verification/Routes.thy ===== *)
theory Routes
  imports Config Socket
begin

text \<open>
  The whole HTTP surface of the gateway: the route table of \<open>newHandlerWithSubmission\<close> in
  \<open>internal/gateway/run.go\<close> over what it uses of \<open>http.ServeMux\<close>, and the handler behind every
  route, with what each of them is made of in \<open>auth_http.go\<close> and \<open>match_http.go\<close>. The target of
  a request is a path without its query. A request reads the database it finds.
\<close>

section \<open>Routing\<close>

text \<open>\<open>url.PathUnescape\<close> as the multiplexer uses it: a segment it cannot decode is taken as it is.\<close>

fun path_unescape :: "string \<Rightarrow> string option" where
  "path_unescape [] = Some []"
| "path_unescape (c # s) =
     (if c \<noteq> CHR ''%'' then map_option (Cons c) (path_unescape s)
      else case s of
          a # b # t \<Rightarrow>
            (case (hex_value a, hex_value b) of
               (Some x, Some y) \<Rightarrow> map_option (Cons (char_of (16 * x + y))) (path_unescape t)
             | _ \<Rightarrow> None)
        | _ \<Rightarrow> None)"

definition segment_text :: "string \<Rightarrow> string" where
  "segment_text s = (case path_unescape s of None \<Rightarrow> s | Some t \<Rightarrow> t)"

text \<open>The segments that are matched: a slash at the end of the path is a segment of its own.\<close>

definition mux_segments :: "string \<Rightarrow> string list" where
  "mux_segments path =
     (let ss = split_on (CHR ''/'') (tl path)
      in if last ss = '''' then map segment_text (butlast ss) @ [''/''] else map segment_text ss)"

text \<open>\<open>cleanPath path = path\<close>: no empty segment but the last, and none that is a dot or two.\<close>

fun clean_segments :: "string list \<Rightarrow> bool" where
  "clean_segments [] \<longleftrightarrow> True"
| "clean_segments [s] \<longleftrightarrow> s \<noteq> ''.'' \<and> s \<noteq> ''..''"
| "clean_segments (s # t # ss) \<longleftrightarrow> s \<noteq> '''' \<and> s \<noteq> ''.'' \<and> s \<noteq> ''..'' \<and> clean_segments (t # ss)"

definition clean_path :: "string \<Rightarrow> bool" where
  "clean_path path \<longleftrightarrow> path \<noteq> '''' \<and> hd path = CHR ''/'' \<and> clean_segments (split_on (CHR ''/'') (tl path))"

datatype endpoint = Healthz | Readyz | Register | Login | Me | CurrentMatch | MatchById string | Ws

text \<open>The patterns that are registered; \<open>{id}\<close> is any one segment.\<close>

definition endpoint_of :: "string list \<Rightarrow> endpoint option" where
  "endpoint_of ss =
     (if ss = [''healthz''] then Some Healthz
      else if ss = [''readyz''] then Some Readyz
      else if ss = [''api'', ''auth'', ''register''] then Some Register
      else if ss = [''api'', ''auth'', ''login''] then Some Login
      else if ss = [''api'', ''me''] then Some Me
      else if ss = [''api'', ''me'', ''match''] then Some CurrentMatch
      else if ss = [''ws''] then Some Ws
      else case ss of
          [a, b, k] \<Rightarrow> if a = ''api'' \<and> b = ''matches'' \<and> k \<noteq> ''/'' then Some (MatchById k) else None
        | _ \<Rightarrow> None)"

text \<open>A pattern for \<open>GET\<close> also takes \<open>HEAD\<close>.\<close>

definition method_ok :: "endpoint \<Rightarrow> string \<Rightarrow> bool" where
  "method_ok e meth \<longleftrightarrow> (if e = Register \<or> e = Login then meth = ''POST'' else meth = ''GET'' \<or> meth = ''HEAD'')"

datatype routed = Handle endpoint | MethodNotAllowed | PathNotFound | PathRedirect

definition route :: "string \<Rightarrow> string \<Rightarrow> routed" where
  "route meth path =
     (if meth \<noteq> ''CONNECT'' \<and> \<not> clean_path path then PathRedirect
      else case endpoint_of (mux_segments path) of
          None \<Rightarrow> PathNotFound
        | Some e \<Rightarrow> if method_ok e meth then Handle e else MethodNotAllowed)"

section \<open>The handler\<close>

record http_request =
  hr_method :: string
  hr_path :: string
  hr_auth :: auth_request
  hr_content_type :: string
  hr_body :: string

text \<open>What happens around a request; a pool or client that is absent has no answer to its ping.\<close>

record http_env =
  he_now :: int
  he_user :: io
  he_session :: session_env
  he_postgres :: "io option"
  he_redis :: "io option"
  he_snapshot :: "snapshot_call \<Rightarrow> io"
  he_snapshot_now :: time
  he_ws :: ws_env

datatype served = Api response | Plain int string | Upgraded

definition new_auth_http :: "config \<Rightarrow> bool \<Rightarrow> auth_http" where
  "new_auth_http cfg has_db =
     \<lparr>ah_secret = gc_jwt_secret (cf_gateway cfg), ah_token_ttl = ac_token_ttl (cf_auth cfg), ah_db = has_db\<rparr>"

definition http_principal ::
  "uuid_lib \<Rightarrow> jwt_lib \<Rightarrow> auth_http \<Rightarrow> http_env \<Rightarrow> http_request \<Rightarrow> db \<Rightarrow> auth_failure + principal" where
  "http_principal U J h E r d =
     authenticate_rest U J (he_now E) (hr_auth r) (ah_secret h) (Some (\<lambda>k. user_by_id (ah_db h) (he_user E) k d))"

definition match_endpoint ::
  "uuid_lib \<Rightarrow> jwt_lib \<Rightarrow> auth_http \<Rightarrow> http_env \<Rightarrow> http_request \<Rightarrow> string \<Rightarrow> db \<Rightarrow> response" where
  "match_endpoint U J h E r raw_id d =
     serve_match U (\<lambda>u. snapshot_current (ah_db h) (he_snapshot E) (he_snapshot_now E) u d)
       (\<lambda>u k. snapshot_by_id (ah_db h) (he_snapshot E) (he_snapshot_now E) u k d) (http_principal U J h E r d) raw_id"

definition serve_endpoint ::
  "account_lib \<Rightarrow> time_lib \<Rightarrow> uuid_lib \<Rightarrow> jwt_lib \<Rightarrow> auth_http \<Rightarrow> http_env \<Rightarrow> endpoint \<Rightarrow> http_request \<Rightarrow> nat
    \<Rightarrow> db \<times> net \<Rightarrow> served \<times> db \<times> net" where
  "serve_endpoint A T U J h E e r i s =
     (case s of (d, w) \<Rightarrow>
        (case e of
           Healthz \<Rightarrow> (Plain 200 '''', d, w)
         | Readyz \<Rightarrow> (Api (handle_readyz (he_postgres E) (he_redis E)), d, w)
         | Register \<Rightarrow>
             (case session A U J h (he_session E) True (hr_content_type r) (hr_body r) d of (resp, d') \<Rightarrow> (Api resp, d', w))
         | Login \<Rightarrow>
             (case session A U J h (he_session E) False (hr_content_type r) (hr_body r) d of (resp, d') \<Rightarrow> (Api resp, d', w))
         | Me \<Rightarrow> (Api (me (http_principal U J h E r d)), d, w)
         | CurrentMatch \<Rightarrow> (Api (match_endpoint U J h E r '''' d), d, w)
         | MatchById k \<Rightarrow> (Api (match_endpoint U J h E r k d), d, w)
         | Ws \<Rightarrow>
             (case handle_ws T U J (ah_secret h) (he_ws E) (hr_auth r) d i w of
                (Some (status, body), w') \<Rightarrow> (Plain status body, d, w')
              | (None, w') \<Rightarrow> (Upgraded, d, w'))))"

definition new_handler ::
  "account_lib \<Rightarrow> time_lib \<Rightarrow> uuid_lib \<Rightarrow> jwt_lib \<Rightarrow> auth_http \<Rightarrow> http_env \<Rightarrow> http_request \<Rightarrow> nat
    \<Rightarrow> db \<times> net \<Rightarrow> served \<times> db \<times> net" where
  "new_handler A T U J h E r i s =
     (case route (hr_method r) (hr_path r) of
        Handle e \<Rightarrow> serve_endpoint A T U J h E e r i s
      | MethodNotAllowed \<Rightarrow> (Plain 405 ''Method Not Allowed'', s)
      | PathNotFound \<Rightarrow> (Plain 404 ''404 page not found'', s)
      | PathRedirect \<Rightarrow> (Plain 301 ''Moved Permanently'', s))"

section \<open>Lemmas\<close>

lemma session_db_cases:
  assumes "session A U J h env registering ct body d = (resp, d')"
  shows "d' = d \<or> registering \<and> (\<exists>row. insert_user A row d = Inr d')"
  using assms
  by (auto simp: session_def dest!: register_db_cases split: sum.splits if_splits prod.splits)

lemma session_body:
  assumes "session A U J h env registering ct body d = (resp, d')"
  shows "(\<exists>c m. hp_body resp = ErrorBody c m) \<or> (\<exists>t e u. hp_body resp = SessionBody t e u)"
proof -
  have err: "decode_auth_json A ct body = Inl r \<Longrightarrow> \<exists>c m. hp_body r = ErrorBody c m" for r
    by (auto simp: decode_auth_json_def Let_def unsupported_media_def body_too_large_def body_invalid_def body_trailing_def
        write_api_error_def write_json_def split: if_splits scan_result.splits option.splits)
  have serv: "\<exists>c m. hp_body (service_error e) = ErrorBody c m" for e
    by (cases e) (auto simp: service_error_def internal_error_def write_api_error_def write_json_def)
  from assms serv show ?thesis
    by (auto simp: session_def internal_error_def write_api_error_def write_json_def dest: err split: sum.splits if_splits prod.splits)
qed

lemma handle_ws_net:
  "handle_ws T U J secret E r d i w = (ans, w') \<Longrightarrow> w' \<noteq> w \<Longrightarrow> \<exists>p. ws_authenticate U J secret E r d = Inr p"
  by (auto simp: handle_ws_def split: sum.splits auth_failure.splits)

lemma match_endpoint_body:
  assumes "hp_body (match_endpoint U J h E r raw_id d) = MatchBody m"
  shows "\<exists>p. http_principal U J h E r d = Inr p"
  using assms
  by (cases "http_principal U J h E r d")
    (auto simp: match_endpoint_def serve_match_def auth_failure_response_def internal_error_def write_api_error_def write_json_def
      split: auth_failure.splits)

lemma session_login_body:
  assumes "session A U J h env False ct body d = (resp, d')" "hp_body resp = SessionBody t e u"
  shows "\<exists>c email. decode_auth_json A ct body = Inr c \<and> normalize_email A (cr_email c) = Inr email
    \<and> login A (ah_db h) (se_ext env) email (cr_password c) d = Inr u"
proof -
  have err: "decode_auth_json A ct body = Inl r \<Longrightarrow> hp_body r \<noteq> SessionBody t e u" for r
    by (auto simp: decode_auth_json_def Let_def unsupported_media_def body_too_large_def body_invalid_def body_trailing_def
        write_api_error_def write_json_def split: if_splits scan_result.splits option.splits)
  have serv: "hp_body (service_error x) \<noteq> SessionBody t e u" for x
    by (cases x) (auto simp: service_error_def internal_error_def write_api_error_def write_json_def)
  from assms serv show ?thesis
    by (auto simp: session_def internal_error_def write_api_error_def write_json_def dest: err split: sum.splits if_splits)
qed

lemma api_bodies:
  "hp_body (me a) = MeBody u \<Longrightarrow> \<exists>p. a = Inr p \<and> u = pr_user p"
  "hp_body (me a) \<noteq> MatchBody m" "hp_body (me a) \<noteq> SessionBody t e u"
  "hp_body (handle_readyz x y) \<noteq> MeBody u" "hp_body (handle_readyz x y) \<noteq> MatchBody m"
  "hp_body (handle_readyz x y) \<noteq> SessionBody t e u"
  by (auto simp: me_def handle_readyz_def auth_failure_response_def internal_error_def write_api_error_def write_json_def
      split: sum.splits auth_failure.splits)

lemma match_endpoint_bodies:
  "hp_body (match_endpoint U J h E r raw_id d) \<noteq> MeBody u" "hp_body (match_endpoint U J h E r raw_id d) \<noteq> SessionBody t e u"
  by (auto simp: match_endpoint_def serve_match_def match_not_found_def auth_failure_response_def internal_error_def
      write_api_error_def write_json_def split: sum.splits auth_failure.splits option.splits)

text \<open>What each endpoint may change and show; the property puts the endpoints together.\<close>

definition keeps_surface ::
  "account_lib \<Rightarrow> uuid_lib \<Rightarrow> jwt_lib \<Rightarrow> auth_http \<Rightarrow> http_env \<Rightarrow> routed \<Rightarrow> http_request \<Rightarrow> db \<times> net \<Rightarrow> served \<times> db \<times> net \<Rightarrow> bool" where
  "keeps_surface A U J h E rt r s res \<longleftrightarrow>
     (fst (snd res) \<noteq> fst s \<longrightarrow> rt = Handle Register \<and> (\<exists>row. insert_user A row (fst s) = Inr (fst (snd res)))) \<and>
     (snd (snd res) \<noteq> snd s \<longrightarrow> rt = Handle Ws \<and> (\<exists>p. ws_authenticate U J (ah_secret h) (he_ws E) (hr_auth r) (fst s) = Inr p)) \<and>
     (\<forall>resp. fst res = Api resp \<longrightarrow>
        (\<forall>u. hp_body resp = MeBody u \<longrightarrow> (\<exists>p. http_principal U J h E r (fst s) = Inr p \<and> u = pr_user p)) \<and>
        (\<forall>m. hp_body resp = MatchBody m \<longrightarrow> (\<exists>p. http_principal U J h E r (fst s) = Inr p)) \<and>
        (\<forall>t e u. hp_body resp = SessionBody t e u \<longrightarrow> rt = Handle Register \<or>
           (\<exists>c email. decode_auth_json A (hr_content_type r) (hr_body r) = Inr c \<and> normalize_email A (cr_email c) = Inr email
              \<and> login A (ah_db h) (se_ext (he_session E)) email (cr_password c) (fst s) = Inr u)))"

lemma endpoint_surface: "keeps_surface A U J h E (Handle e) r s (serve_endpoint A T U J h E e r i s)"
proof -
  obtain d w where s: "s = (d, w)" by (cases s)
  show ?thesis
  proof (cases e)
    case Register
    obtain resp d' where run: "session A U J h (he_session E) True (hr_content_type r) (hr_body r) d = (resp, d')" by fastforce
    show ?thesis
      using session_db_cases [OF run] session_body [OF run]
      by (auto simp: serve_endpoint_def s Register run keeps_surface_def)
  next
    case Login
    obtain resp d' where run: "session A U J h (he_session E) False (hr_content_type r) (hr_body r) d = (resp, d')" by fastforce
    show ?thesis
      using session_db_cases [OF run] session_body [OF run] session_login_body [OF run]
      by (auto simp: serve_endpoint_def s Login run keeps_surface_def)
  next
    case Ws
    obtain ans w' where run: "handle_ws T U J (ah_secret h) (he_ws E) (hr_auth r) d i w = (ans, w')" by fastforce
    show ?thesis
      using handle_ws_net [OF run] by (cases ans) (auto simp: serve_endpoint_def s Ws run keeps_surface_def)
  qed (auto simp: serve_endpoint_def s keeps_surface_def match_endpoint_bodies
      dest: match_endpoint_body api_bodies(1) simp: api_bodies(2-))
qed

section \<open>Properties\<close>


text \<open>Player 1 asks for its account; a stranger asks for a path that is not there.\<close>

definition ex_http_env :: http_env where
  "ex_http_env = \<lparr>he_now = 3, he_user = IoOk, he_session = ex_session_env, he_postgres = Some IoOk, he_redis = Some IoOk,
     he_snapshot = (\<lambda>_. IoOk), he_snapshot_now = 50, he_ws = ex_ws\<rparr>"

definition ex_asks :: "string \<Rightarrow> http_request" where
  "ex_asks path = \<lparr>hr_method = ''GET'', hr_path = path, hr_auth = ex_get 1, hr_content_type = '''', hr_body = ''''\<rparr>"

definition ex_answer :: "string \<Rightarrow> served \<times> db \<times> net" where
  "ex_answer path = new_handler ex_accounts ex_time_lib ex_uuid_lib ex_jwt ex_http ex_http_env (ex_asks path) 0 (ex_db [], net_init)"

lemma ex_routes:
  "route ''GET'' ''/api/me'' = Handle Me" "route ''HEAD'' ''/api/matches/%69i'' = Handle (MatchById ''ii'')"
  "route ''GET'' ''/api/matches/'' = PathNotFound" "route ''GET'' ''/api//me'' = PathRedirect"
  "route ''GET'' ''/api/auth/login'' = MethodNotAllowed"
  by code_simp+


end
