(* ===== verification/Spec2Isabelle.thy ===== *)
theory Spec2Isabelle
  imports Progress Kubernetes Delivery Process Presence Routes
begin

text \<open>
  CodeDuel is the backend of a programming duel: two players are given the same problem, and
  the first to submit a program that passes all its tests wins; if nobody has when time is over,
  the better score does. This development models its Go services and shows that together they
  implement a simple contest.

  \<^bold>\<open>The program.\<close> One binary (\<open>cmd/codeduel\<close>) runs one of four services. The \<^emph>\<open>gateway\<close> registers
  and logs in players over HTTP, keeps one WebSocket per player, puts players into the matchmaking
  queue and admits submissions. The \<^emph>\<open>match maker\<close> pops pairs of players from the queue, opens
  their match in the database, and sends waiting submissions to the judges. A \<^emph>\<open>judge\<close> takes
  jobs from a Redis stream, claims the submission, runs the code in a sandbox, records the verdict
  and publishes it. The \<^emph>\<open>reaper\<close> takes back what a crashed judge left and ends matches at
  their deadline. PostgreSQL holds the truth; Redis holds the queue, the stream, the presence
  keys, and carries events to the gateway, which forwards them to the sockets.

  \<^bold>\<open>Foundations.\<close>
  \<^item> \<open>Prelude\<close>: identifiers, times, the outcome of a call that leaves the process, and the vocabulary
    of the SQL statements. \<open>IoOk\<close> took effect, \<open>IoErr\<close> did not, and \<open>IoLost\<close> took effect and its
    answer was lost; every call and commit of the models has such an outcome, chosen freely.
  \<^item> \<open>Text\<close>, \<open>GoStd\<close>, \<open>Json\<close>: what the code uses of \<open>utf8\<close>, \<open>strings\<close>, \<open>strconv\<close>, \<open>fmt\<close>, \<open>time\<close>,
    \<open>encoding/json\<close> (scanner, decoder and writer), on strings of bytes.
  \<^item> \<open>Schema\<close>, \<open>Invariants\<close>: the tables, constraints and triggers of \<open>internal/infrastructure/migrations\<close>,
    and \<open>db_inv\<close>, the invariant that every transaction keeps. \<open>Example\<close> is a database for witnesses.

  \<^bold>\<open>Components\<close>, under \<open>internal\<close> unless said otherwise.
  \<^item> \<open>Submission\<close> (\<open>submission/service.go\<close>, \<open>dispatch.go\<close>): admission and dispatch.
  \<^item> \<open>MatchQueue\<close> (\<open>redisx/queue.go\<close>, \<open>member.go\<close>, \<open>scripts\<close>) and \<open>Match\<close> (\<open>match\<close>): the queue with its
    Lua scripts as operations on the Redis data, the creation of a match, the match maker's loop.
  \<^item> \<open>JudgeQueue\<close> (\<open>redisx/judge_queue.go\<close>), \<open>JudgeStore\<close> (\<open>judge/store.go\<close>), \<open>JudgeService\<close>
    (\<open>judge/result.go\<close>, \<open>service.go\<close>, \<open>run.go\<close>): the stream with its pending entries, the transactions
    \<open>Claim\<close> and \<open>Complete\<close>, and the processing of a job.
  \<^item> \<open>Executor\<close>, \<open>Output\<close>, \<open>Docker\<close>, \<open>Kubernetes\<close> (\<open>judge/executor.go\<close>, \<open>output.go\<close>,
    \<open>docker_executor.go\<close>, \<open>kubernetes_executor.go\<close>): the sandbox contract and its implementations.
  \<^item> \<open>Reaper\<close> (\<open>reaper\<close>): expired leases, idle jobs, expired matches, the loop.
  \<^item> \<open>Accounts\<close> (\<open>auth/service.go\<close>), \<open>Token\<close> (\<open>gateway/auth.go\<close>), \<open>Snapshot\<close> (\<open>gateway/match_snapshot.go\<close>),
    \<open>Http\<close> (\<open>gateway/http.go\<close>, \<open>auth_http.go\<close>, \<open>match_http.go\<close>), \<open>Routes\<close> (the route table of
    \<open>gateway/run.go\<close>): the HTTP interface.
  \<^item> \<open>Proto\<close>, \<open>Wire\<close> (\<open>proto/messages.go\<close>): the messages and their JSON text.
  \<^item> \<open>Gateway\<close> (\<open>gateway/matchmaking.go\<close>, the handlers of \<open>conn.go\<close>), \<open>Registry\<close> (\<open>registry.go\<close>),
    \<open>Socket\<close> (\<open>run.go\<close>, the pumps of \<open>conn.go\<close>), \<open>Presence\<close> (its heartbeat), \<open>Delivery\<close> (\<open>pubsub.go\<close>).
  \<^item> \<open>Config\<close> (\<open>config/config.go\<close>), \<open>Process\<close> (\<open>cmd/codeduel\<close>, \<open>app\<close>, \<open>infrastructure\<close>), \<open>Cli\<close>
    (\<open>tools/duelcli\<close>): settings, start and end of a process, and the command line client.
  \<^item> \<open>Contest\<close> is the abstract specification, \<open>System\<close> the services run together over one state, and
    \<open>Progress\<close> the runs that bring a match to its end.

  \<^bold>\<open>How the models correspond to the code.\<close> A function of the source is a definition of the same
  name in lower case with underscores. It takes what the function reads from outside (the clock,
  fresh identifiers, the outcomes of its calls) as arguments, takes the state it works on last,
  and returns its result, an error of a sum type included, with the new state. A SQL statement is
  a function on tables, and a transaction is applied at once: the code takes the row locks that
  make this so, and rows that other transactions hold are the \<open>locked\<close> argument of statements with
  \<open>SKIP LOCKED\<close>. Goroutines that share memory are steps of a relation (\<open>net_step\<close> for the
  registry, \<open>sys_step\<close> for the services), one step for each critical section or transaction.
  Where a component relies on another, a locale states what it needs, with the theorems proved in
  it and an interpretation by the model of the provider (\<open>job_enqueuer\<close>, \<open>reclaim_queue\<close>,
  \<open>judge_backend\<close>, \<open>pair_queue\<close>, \<open>sandbox\<close>, \<open>user_lookup\<close>, \<open>snapshot_loader\<close>).

  \<^bold>\<open>What is shown.\<close> Every step of every service refines the contest
  (\<open>system_refines_contest\<close>), so its invariants hold of every reachable state:
  nobody plays twice, a decided match has a reason, results are final; and no match is stuck
  (\<open>every_match_can_end\<close>). Each component has its own theorems: a job leaves the
  stream only when it is no longer needed; a completion is applied at most once, by the owner of
  the attempt; the queue is first come first served and the match maker loses no player; a
  sandbox verdict is that of the specification and nothing is left behind; the matches shown are
  the player's own; tokens and accounts admit whom they should; no HTTP request changes or shows
  more than it should; one open socket per user, drained at shutdown; a created match reaches
  both clients; a configuration that loads is one every service accepts.

  \<^bold>\<open>Bounds.\<close> Durations and configured sizes are Go's \<open>int64\<close>, and wrap around (\<open>wrap64\<close>) where a
  sum can overflow. Identifiers are words of 128 bits. The loops of the services end only when
  they are cancelled: \<open>match_run\<close>, \<open>dispatcher_run\<close>, \<open>judge_run\<close> and \<open>reaper_run\<close> take fuel and return nothing
  when it runs out, and lemmas show that one unit more than the rounds until the cancellation is
  enough. \<open>await_outcome\<close> recurses on the polls, and \<open>k8s_execute_settles\<close> shows that it returns by
  the one that reaches the deadline; \<open>supervise\<close>, \<open>write_pump\<close> and \<open>read_pump\<close> recurse on the events
  or messages they receive. The JSON scanner keeps Go's nesting limit.

  \<^bold>\<open>Parameters\<close>, for what is not in the repository: the text of identifiers and times (\<open>uuid_lib\<close>,
  \<open>time_lib\<close>), the JSON of queue members as Go writes and Lua reads it (\<open>codec\<close>), the JWT library
  (\<open>jwt_lib\<close>), password hashing and mail address parsing (\<open>account_lib\<close>), the container engine and the
  Kubernetes API server (functions of the calls made so far). A property that relies
  on their behaviour says so in its hypotheses.

  \<^bold>\<open>Not modelled.\<close> Log lines, and the wording of wrapped errors beyond their
  first clause; failing allocation and runtime panics; the bytes of HTTP response bodies; TLS, HTTP and WebSocket framing; the table
  indexes and the data the migrations insert; terminal handling of the client; the infrastructure
  code and manifests, which are in other languages. The dead time of a process between two steps
  is arbitrary, so nothing is shown about how soon a step happens.
\<close>

section \<open>A run of the whole system\<close>

text \<open>
  The witnesses run a duel: the match maker opens match 102 for users 3 and 4, user 3
  submits, a judge claims the submission and completes it with a pass.
\<close>

definition ex_params :: sys_params where
  "ex_params = \<lparr>sp_uuid = ex_ids, sp_reaper = ex_reaper, sp_duration = 60000000000\<rparr>"

definition ex_new_match :: match_row where
  "ex_new_match = \<lparr>m_id = 102, m_problem_id = 10, m_status = ''active'', m_winner_id = None,
     m_deadline = 60002000, m_created_at = 2000\<rparr>"

definition ex_duel_db :: "match_row list \<Rightarrow> submission_row list \<Rightarrow> db" where
  "ex_duel_db ms subs = \<lparr>db_users = [ex_user 1, ex_user 2, ex_user 3, ex_user 4], db_problems = [ex_problem],
     db_matches = ms, db_players = (if ms = [] then [] else [ex_player 102 3 1, ex_player 102 4 2]),
     db_claims = (if ms = [ex_new_match] then [\<lparr>am_user_id = 3, am_match_id = 102\<rparr>, \<lparr>am_user_id = 4, am_match_id = 102\<rparr>] else []),
     db_submissions = subs\<rparr>"

definition ex_sub :: submission_row where
  "ex_sub = (ex_pending 8)\<lparr>s_match_id := 102, s_player_id := 3, s_request_id := 9, s_created_at := 2000\<rparr>"

definition ex_sub_running :: submission_row where
  "ex_sub_running = ex_sub\<lparr>s_status := ''running'', s_attempts := 1, s_attempt_token := Some 77, s_lease_until := Some 60002002\<rparr>"

definition ex_sub_passed :: submission_row where
  "ex_sub_passed = ex_sub\<lparr>s_status := ''completed'', s_attempts := 1, s_result := Some ''pass'', s_tests_passed := 2,
     s_finished_at := Some 2003\<rparr>"

definition ex_sys :: "match_row list \<Rightarrow> submission_row list \<Rightarrow> sys" where
  "ex_sys ms subs = \<lparr>sy_db = ex_duel_db ms subs,
     sy_stream = \<lparr>st_group = True, st_old = [], st_new = [], st_pel = []\<rparr>, sy_pub = [], sy_now = 2000\<rparr>"

definition ex_submission :: request where
  "ex_submission = \<lparr>rq_player_id = 3, rq_match_id = 102, rq_request_id = 9, rq_language = ''python'', rq_code = ''x''\<rparr>"

definition ex_claim_of_8 :: claimed_submission where
  "ex_claim_of_8 = \<lparr>cs_submission_id = 8, cs_match_id = 102, cs_player_id = 3, cs_problem_id = 10, cs_request_id = 9,
     cs_language = ''python'', cs_source = ''x'', cs_tests = cs_tests ex_claimed, cs_players = (3, 4), cs_attempt_token = 77\<rparr>"

definition ex_won_match :: match_row where
  "ex_won_match = ex_new_match\<lparr>m_status := ''finished'', m_winner_id := Some 3\<rparr>"

lemma ex_opens:
  "snd (create_match ex_ids True 60000000000 (\<lambda>_. IoOk) 2000 102 (ex_member 3, ex_member 4) (ex_duel_db [] [])) = ex_duel_db [ex_new_match] []"
  by code_simp

lemma ex_submits:
  "snd (gateway_accept ex_ids \<lparr>di_db = True, di_queue = True, di_stale_after = 1, di_batch_size = 1\<rparr>
       (\<lambda>_. IoErr) (\<lambda>_. ''e'') IoOk 2001 (\<lambda>_. IoOk) 2000 2000 8 ex_submission
       (ex_duel_db [ex_new_match] [], \<lparr>st_group = True, st_old = [], st_new = [], st_pel = []\<rparr>))
   = (ex_duel_db [ex_new_match] [ex_sub], \<lparr>st_group = True, st_old = [], st_new = [], st_pel = []\<rparr>)"
  by code_simp

lemma ex_claims:
  "snd (store_claim True (\<lambda>_. IoOk) 2002 2002 8 77 60000000000 (ex_duel_db [ex_new_match] [ex_sub])) = ex_duel_db [ex_new_match] [ex_sub_running]"
  by code_simp

lemma ex_passes:
  "snd (store_complete True (\<lambda>_. IoOk) 2003 ex_claim_of_8 (ex_result ''pass'' [] 2) (ex_duel_db [ex_new_match] [ex_sub_running]))
     = ex_duel_db [ex_won_match] [ex_sub_passed]"
  by code_simp

lemma ex_reachable:
  "reachable ex_params (ex_sys [] [])" "sys_step ex_params (ex_sys [] []) (ex_sys [ex_new_match] [])"
  "sys_step ex_params (ex_sys [ex_new_match] []) (ex_sys [ex_new_match] [ex_sub])"
  "sys_step ex_params (ex_sys [ex_new_match] [ex_sub]) (ex_sys [ex_new_match] [ex_sub_running])"
  "sys_step ex_params (ex_sys [ex_new_match] [ex_sub_running]) (ex_sys [ex_won_match] [ex_sub_passed])"
proof -
  have "sys_init (ex_sys [] [])" unfolding sys_init_def by (intro conjI; code_simp)
  then show "reachable ex_params (ex_sys [] [])" by (rule reachable.init)
  have set_db: "(ex_sys ms subs)\<lparr>sy_db := ex_duel_db ms' subs'\<rparr> = ex_sys ms' subs'" for ms subs ms' subs'
    by (simp add: ex_sys_def)
  have set_stream: "(ex_sys ms subs)\<lparr>sy_db := ex_duel_db ms' subs', sy_stream := \<lparr>st_group = True, st_old = [], st_new = [], st_pel = []\<rparr>\<rparr>
      = ex_sys ms' subs'" for ms subs ms' subs'
    by (simp add: ex_sys_def)
  have ps: "sp_uuid ex_params = ex_ids" "sp_duration ex_params = 60000000000" by (simp_all add: ex_params_def)
  have sy: "sy_db (ex_sys ms subs) = ex_duel_db ms subs" "sy_now (ex_sys ms subs) = 2000"
    "sy_stream (ex_sys ms subs) = \<lparr>st_group = True, st_old = [], st_new = [], st_pel = []\<rparr>" for ms subs
    by (simp_all add: ex_sys_def)
  obtain r1 where "create_match (sp_uuid ex_params) True (sp_duration ex_params) (\<lambda>_. IoOk) (sy_now (ex_sys [] [])) 102
      (ex_member 3, ex_member 4) (sy_db (ex_sys [] [])) = (r1, ex_duel_db [ex_new_match] [])"
    unfolding ps sy using ex_opens by (metis prod.collapse)
  from sys_step.matchmaker_create [OF this] show "sys_step ex_params (ex_sys [] []) (ex_sys [ex_new_match] [])"
    by (simp only: set_db)
  obtain r2 where "gateway_accept (sp_uuid ex_params) \<lparr>di_db = True, di_queue = True, di_stale_after = 1, di_batch_size = 1\<rparr>
       (\<lambda>_. IoErr) (\<lambda>_. ''e'') IoOk 2001 (\<lambda>_. IoOk) (sy_now (ex_sys [ex_new_match] [])) 2000 8 ex_submission
       (sy_db (ex_sys [ex_new_match] []), sy_stream (ex_sys [ex_new_match] []))
      = (r2, ex_duel_db [ex_new_match] [ex_sub], \<lparr>st_group = True, st_old = [], st_new = [], st_pel = []\<rparr>)"
    unfolding ps sy using ex_submits by (metis prod.collapse)
  from sys_step.gateway_submit [OF this] show "sys_step ex_params (ex_sys [ex_new_match] []) (ex_sys [ex_new_match] [ex_sub])"
    by (simp only: set_stream)
  obtain r3 where "store_claim True (\<lambda>_. IoOk) 2002 2002 8 77 60000000000 (sy_db (ex_sys [ex_new_match] [ex_sub]))
      = (r3, ex_duel_db [ex_new_match] [ex_sub_running])"
    unfolding sy using ex_claims by (metis prod.collapse)
  from sys_step.judge_claims [OF this]
  show "sys_step ex_params (ex_sys [ex_new_match] [ex_sub]) (ex_sys [ex_new_match] [ex_sub_running])" by (simp only: set_db)
  obtain r4 where "store_complete True (\<lambda>_. IoOk) 2003 ex_claim_of_8 (ex_result ''pass'' [] 2) (sy_db (ex_sys [ex_new_match] [ex_sub_running]))
      = (r4, ex_duel_db [ex_won_match] [ex_sub_passed])"
    unfolding sy using ex_passes by (metis prod.collapse)
  from sys_step.judge_completes [OF this]
  show "sys_step ex_params (ex_sys [ex_new_match] [ex_sub_running]) (ex_sys [ex_won_match] [ex_sub_passed])" by (simp only: set_db)
qed

lemma ex_reachable_won:
  "reachable ex_params (ex_sys [ex_new_match] [ex_sub])" "reachable ex_params (ex_sys [ex_new_match] [ex_sub_running])"
  "reachable ex_params (ex_sys [ex_won_match] [ex_sub_passed])"
proof -
  have "reachable ex_params (ex_sys [ex_new_match] [])" using ex_reachable(1,2) by (rule reachable.step)
  then show r: "reachable ex_params (ex_sys [ex_new_match] [ex_sub])" using ex_reachable(3) by (rule reachable.step)
  then show r': "reachable ex_params (ex_sys [ex_new_match] [ex_sub_running])" using ex_reachable(4) by (rule reachable.step)
  then show "reachable ex_params (ex_sys [ex_won_match] [ex_sub_passed])" using ex_reachable(5) by (rule reachable.step)
qed

lemma ex_attempts: "0 < rc_max_attempts (sp_reaper ex_params)"
  by (simp add: ex_params_def ex_reaper_def)

section \<open>Properties of the system\<close>

text \<open>
  Property C1. The services implement the contest: from every reachable state, each step of a service,
  with any arguments and any outcome of its calls, lost commits included, changes the contest
  the database stands for by a sequence of contest steps: a match opens for two players who play
  nowhere else, a submission enters an open match in time, moves from waiting to judged one
  attempt at a time, and a match is decided by its first pass or when its time is over and
  every submission is judged.
\<close>

theorem system_refines_contest:
  assumes "reachable P s" and "sys_step P s s'" and "0 < rc_max_attempts (sp_reaper P)"
  shows "(contest_step (rc_max_attempts (sp_reaper P)))\<^sup>*\<^sup>* (contest_of s) (contest_of s')"
  using assms(2) reachable_ok(1) [OF assms(1,3)] by (rule sys_step_steps)

theorem system_refines_contest_witness:
  "(contest_step 3)\<^sup>*\<^sup>* (contest_of (ex_sys [ex_new_match] [ex_sub_running])) (contest_of (ex_sys [ex_won_match] [ex_sub_passed]))"
  using system_refines_contest [OF ex_reachable_won(2) ex_reachable(5) ex_attempts]
  by (simp add: ex_params_def ex_reaper_def)



text \<open>
  Property C3. No match ends without a reason: in every reachable state, a finished match has been won by
  one of its players who has a recorded pass in it, or its deadline is over; and as soon as
  a pass is recorded in a match, the match is finished.
\<close>

theorem decided_for_a_reason:
  assumes "reachable P s" and "0 < rc_max_attempts (sp_reaper P)" and "match_of (sy_db s) k = Some m"
  shows "(m_status m = ''finished'' \<longrightarrow> m_deadline m \<le> sy_now s
        \<or> (\<exists>r u. r \<in> set (db_submissions (sy_db s)) \<and> m_winner_id m = Some u \<and> s_player_id r = u \<and> s_match_id r = k
              \<and> s_status r = ''completed'' \<and> s_result r = Some ''pass''))
    \<and> ((\<exists>r\<in>set (db_submissions (sy_db s)). s_match_id r = k \<and> s_result r = Some ''pass'') \<longrightarrow> m_status m = ''finished'')
    \<and> (\<forall>u. m_winner_id m = Some u \<longrightarrow> is_player (sy_db s) k u)"
proof -
  note inv = reachable_ok(1) [OF assms(1,2)] and ok = reachable_ok(2) [OF assms(1,2)]
  note fin = finished_standing [OF inv assms(3)]
  have st: "standing_ok (contest_of s) k (standing_of m)"
    using contest_okD(4) [OF ok, of k] assms(3) by (simp add: contest_of_simps)
  have first: "m_deadline m \<le> sy_now s
        \<or> (\<exists>r u. r \<in> set (db_submissions (sy_db s)) \<and> m_winner_id m = Some u \<and> s_player_id r = u \<and> s_match_id r = k
              \<and> s_status r = ''completed'' \<and> s_result r = Some ''pass'')" if "m_status m = ''finished''"
  proof (rule disjCI)
    assume no_pass: "\<not> (\<exists>r u. r \<in> set (db_submissions (sy_db s)) \<and> m_winner_id m = Some u \<and> s_player_id r = u \<and> s_match_id r = k
              \<and> s_status r = ''completed'' \<and> s_result r = Some ''pass'')"
    obtain dl w where d: "standing_of m = Decided dl w" using fin(1) \<open>m_status m = ''finished''\<close> by blast
    note dw = fin(2) [OF d]
    show "m_deadline m \<le> sy_now s"
    proof (rule ccontr)
      assume "\<not> m_deadline m \<le> sy_now s"
      then obtain u j r n p where "w = Some u" "submission_of (sy_db s) j = Some r" "s_match_id r = k" "s_player_id r = u"
          "phase_of r = Done n ''pass'' p"
        using st dw by (auto simp: d contest_of_simps)
      moreover from completed_phase(2) [OF inv this(2,5)] have "s_status r = ''completed''" "s_result r = Some ''pass''" by simp_all
      moreover have "r \<in> set (db_submissions (sy_db s))" using calculation(2) by (simp add: submission_ofD)
      ultimately show False using no_pass dw by blast
    qed
  qed
  have second: "m_status m = ''finished''" if r: "r \<in> set (db_submissions (sy_db s))" "s_match_id r = k" "s_result r = Some ''pass''" for r
  proof (cases "standing_of m")
    case (Open dl)
    have sub: "submission_of (sy_db s) (s_id r) = Some r" using submission_of_iff [OF inv] r(1) by blast
    have "submission_checks r" using submission_ok_of [OF inv sub] by (simp add: submission_ok_def)
    then have "phase_of r = Done (s_attempts r) ''pass'' (s_tests_passed r)"
      using r(3) by (auto simp: submission_checks_def phase_of_def)
    then have "ct_entries (contest_of s) (s_id r) = Some (entry_of r)" "en_match (entry_of r) = k"
        "en_phase (entry_of r) = Done (s_attempts r) ''pass'' (s_tests_passed r)"
      using sub r(2) by (simp_all add: contest_of_simps)
    with st Open have False by (auto simp del: entry_of_simps)
    then show ?thesis ..
  next
    case (Decided dl w)
    then show ?thesis using fin(2) by simp
  qed
  have "is_player (sy_db s) k u" if "m_winner_id m = Some u" for u
    using match_ok_of [OF inv assms(3)] match_ofD [OF assms(3)] that by (simp add: match_ok_def)
  with first second show ?thesis by blast
qed

theorem decided_for_a_reason_witness:
  "m_status ex_won_match = ''finished'' \<and> m_winner_id ex_won_match = Some 3 \<and> is_player (sy_db (ex_sys [ex_won_match] [ex_sub_passed])) 102 3"
proof -
  have m: "match_of (sy_db (ex_sys [ex_won_match] [ex_sub_passed])) 102 = Some ex_won_match" by code_simp
  have r: "ex_sub_passed \<in> set (db_submissions (sy_db (ex_sys [ex_won_match] [ex_sub_passed])))"
    "s_match_id ex_sub_passed = 102" "s_result ex_sub_passed = Some ''pass''"
    by (simp_all add: ex_sys_def ex_duel_db_def ex_sub_passed_def ex_sub_def)
  have w: "m_winner_id ex_won_match = Some 3" by (simp add: ex_won_match_def)
  from decided_for_a_reason [OF ex_reachable_won(3) ex_attempts m] r w show ?thesis by blast
qed

text \<open>
  Property C4. Results are final: whatever the services do afterwards, a completed submission keeps its
  verdict, its score and its number of attempts, and a finished match keeps its winner.
\<close>

theorem results_are_final:
  assumes "reachable P s" and "(sys_step P)\<^sup>*\<^sup>* s s'" and "0 < rc_max_attempts (sp_reaper P)"
  shows "(\<forall>k r. submission_of (sy_db s) k = Some r \<and> s_status r = ''completed'' \<longrightarrow>
        (\<exists>r'. submission_of (sy_db s') k = Some r' \<and> s_status r' = ''completed'' \<and> s_result r' = s_result r
           \<and> s_tests_passed r' = s_tests_passed r \<and> s_attempts r' = s_attempts r
           \<and> s_match_id r' = s_match_id r \<and> s_player_id r' = s_player_id r))
    \<and> (\<forall>k m. match_of (sy_db s) k = Some m \<and> m_status m = ''finished'' \<longrightarrow>
        (\<exists>m'. match_of (sy_db s') k = Some m' \<and> m_status m' = ''finished'' \<and> m_winner_id m' = m_winner_id m
           \<and> m_deadline m' = m_deadline m))"
proof (intro conjI allI impI; elim conjE)
  note inv = reachable_ok(1) [OF assms(1,3)] and ok = reachable_ok(2) [OF assms(1,3)]
  note run = sys_steps_steps [OF assms(2) inv]
  note final = contest_steps_final [OF run [THEN conjunct2] ok assms(3)]
  fix k r assume r: "submission_of (sy_db s) k = Some r" "s_status r = ''completed''"
  obtain n v p where ph: "phase_of r = Done n v p" using completed_phase(1) [OF inv r(1)] r(2) by blast
  have "ct_entries (contest_of s') k = Some (entry_of r)"
    using final(1) [of k "entry_of r"] r(1) ph by (simp add: contest_of_simps)
  then obtain r' where r': "submission_of (sy_db s') k = Some r'" "entry_of r' = entry_of r"
    by (auto simp: contest_of_simps)
  then have ph': "phase_of r' = Done n v p" "s_match_id r' = s_match_id r" "s_player_id r' = s_player_id r"
    using ph by (simp_all add: entry_of_def)
  show "\<exists>r'. submission_of (sy_db s') k = Some r' \<and> s_status r' = ''completed'' \<and> s_result r' = s_result r
           \<and> s_tests_passed r' = s_tests_passed r \<and> s_attempts r' = s_attempts r
           \<and> s_match_id r' = s_match_id r \<and> s_player_id r' = s_player_id r"
    using r'(1) ph'(2,3) completed_phase(2) [OF inv r(1) ph] completed_phase(2) [OF run [THEN conjunct1] r'(1) ph'(1)]
    by (intro exI [of _ r']) simp
next
  note inv = reachable_ok(1) [OF assms(1,3)] and ok = reachable_ok(2) [OF assms(1,3)]
  note run = sys_steps_steps [OF assms(2) inv]
  note final = contest_steps_final [OF run [THEN conjunct2] ok assms(3)]
  fix k m assume m: "match_of (sy_db s) k = Some m" "m_status m = ''finished''"
  obtain dl w where d: "standing_of m = Decided dl w" using finished_standing(1) [OF inv m(1)] m(2) by blast
  have "ct_matches (contest_of s') k = Some (Decided dl w)"
    using final(2) [of k dl w] m(1) d by (simp add: contest_of_simps)
  then obtain m' where m': "match_of (sy_db s') k = Some m'" "standing_of m' = Decided dl w"
    by (auto simp: contest_of_simps)
  show "\<exists>m'. match_of (sy_db s') k = Some m' \<and> m_status m' = ''finished'' \<and> m_winner_id m' = m_winner_id m
           \<and> m_deadline m' = m_deadline m"
    using m'(1) finished_standing(2) [OF inv m(1) d] finished_standing(2) [OF run [THEN conjunct1] m'] by (intro exI [of _ m']) simp
qed

theorem results_are_final_witness:
  "\<exists>s'. (sys_step ex_params)\<^sup>*\<^sup>* (ex_sys [ex_won_match] [ex_sub_passed]) s' \<and> sy_now s' = 99999999
     \<and> map_option m_winner_id (match_of (sy_db s') 102) = Some (Some 3)"
proof -
  let ?s = "ex_sys [ex_won_match] [ex_sub_passed]"
  have "sys_step ex_params ?s (?s\<lparr>sy_now := 99999999\<rparr>)" by (rule sys_step.clock) (simp add: ex_sys_def)
  then have run: "(sys_step ex_params)\<^sup>*\<^sup>* ?s (?s\<lparr>sy_now := 99999999\<rparr>)" by (rule r_into_rtranclp)
  have "match_of (sy_db ?s) 102 = Some ex_won_match" "m_status ex_won_match = ''finished''" "m_winner_id ex_won_match = Some 3"
    by code_simp+
  with results_are_final [OF ex_reachable_won(3) run ex_attempts] run show ?thesis by fastforce
qed



end
